(* ===== verification/Prelude.thy ===== *)
theory Prelude
  imports Complex_Main "HOL-Library.AList" "HOL-Library.Multiset" "HOL-Library.Word"
begin

text \<open>
  What the component theories share: the exceptions of the Python code and the result
  type \<open>py_error + 'a\<close> of a call that may raise, Python's indexing of lists, dictionaries
  as association lists, and the lemma collections the component proofs use.
\<close>

named_theorems py_simps \<open>unfolding rules for the Python primitives\<close>
named_theorems dict_simps \<open>facts about dictionaries as association lists\<close>

section \<open>Exceptions and results\<close>

datatype py_error =
    IndexError
  | KeyError
  | TypeError
  | ValueError
  | NameError
  | ZeroDivisionError
  | AssertionError
  | EOFError
  | StructError
  | RuntimeError
  | NotImplementedError
  | PicklingError
  | PyException string
  | SystemExit int

type_synonym 'a res = "py_error + 'a"

fun bind_res :: "'a res \<Rightarrow> ('a \<Rightarrow> 'b res) \<Rightarrow> 'b res" where
  "bind_res (Inl e) f = Inl e"
| "bind_res (Inr x) f = f x"

fun map_res :: "('a \<Rightarrow> 'b) \<Rightarrow> 'a res \<Rightarrow> 'b res" where
  "map_res f (Inl e) = Inl e"
| "map_res f (Inr x) = Inr (f x)"

lemma bind_res_Inr_iff [simp]:
  "bind_res r f = Inr y \<longleftrightarrow> (\<exists>x. r = Inr x \<and> f x = Inr y)"
  by (cases r) auto

lemma map_res_Inr_iff [simp]: "map_res f r = Inr y \<longleftrightarrow> (\<exists>x. r = Inr x \<and> y = f x)"
  by (cases r) auto

text \<open>Left-to-right evaluation of a call on every element; the first exception stops it.\<close>

fun mapM_res :: "('a \<Rightarrow> 'b res) \<Rightarrow> 'a list \<Rightarrow> 'b list res" where
  "mapM_res f [] = Inr []"
| "mapM_res f (x # xs) =
     bind_res (f x) (\<lambda>y. bind_res (mapM_res f xs) (\<lambda>ys. Inr (y # ys)))"

lemma mapM_res_Inr: "(\<And>x. x \<in> set xs \<Longrightarrow> f x = Inr (g x)) \<Longrightarrow> mapM_res f xs = Inr (map g xs)"
  by (induction xs) auto

lemma mapM_res_length: "mapM_res f xs = Inr ys \<Longrightarrow> length ys = length xs"
  by (induction xs arbitrary: ys) auto

text \<open>Over the partitions of a dataset.\<close>

lemma mapM_parts:
  "\<forall>x\<in>set (concat xss). f x = Inr (g x) \<Longrightarrow> mapM_res (mapM_res f) xss = Inr (map (map g) xss)"
  by (rule mapM_res_Inr, rule mapM_res_Inr) auto

section \<open>Python sequences\<close>

text \<open>Indexing: negative indices count from the end, anything else out of range raises.\<close>

definition py_index :: "'a list \<Rightarrow> int \<Rightarrow> 'a res" where
  "py_index seq k =
     (if 0 \<le> k then (if nat k < length seq then Inr (seq ! nat k) else Inl IndexError)
      else if - k \<le> int (length seq) then Inr (seq ! nat (int (length seq) + k))
      else Inl IndexError)"

lemma py_index_of_nat [py_simps]:
  "py_index seq (int m) = (if m < length seq then Inr (seq ! m) else Inl IndexError)"
  by (simp add: py_index_def)

lemma py_index_last [py_simps]:
  "py_index xs (- 1) = (if xs = [] then Inl IndexError else Inr (last xs))"
proof -
  have "nat (int (length xs) - 1) = length xs - 1"
    by linarith
  then show ?thesis
    by (cases xs) (auto simp: py_index_def last_conv_nth)
qed

text \<open>The slice \<open>xs[:i]\<close>.\<close>

definition py_prefix :: "'a list \<Rightarrow> int \<Rightarrow> 'a list" where
  "py_prefix xs i = take (nat (if i < 0 then int (length xs) + i else i)) xs"

lemma py_prefix_nonneg [py_simps]: "0 \<le> i \<Longrightarrow> py_prefix xs i = take (nat i) xs"
  by (simp add: py_prefix_def)

section \<open>Dictionaries\<close>

text \<open>
  A \<open>dict\<close> is an association list with distinct keys; \<open>d[k] = v\<close> is \<^const>\<open>AList.update\<close>.
  The order in which Python 2 iterates over a dict is unspecified, so an operation that
  iterates takes the iteration order as an argument: a function that permutes the entries.
\<close>

type_synonym ('k, 'v) dict = "('k \<times> 'v) list"

definition iter_order :: "(('k, 'v) dict \<Rightarrow> ('k \<times> 'v) list) \<Rightarrow> bool" where
  "iter_order items \<longleftrightarrow> (\<forall>d. mset (items d) = mset d)"

lemma iter_order_mset [simp]: "iter_order items \<Longrightarrow> mset (items d) = mset d"
  by (simp add: iter_order_def)

lemma iter_order_set [simp]: "iter_order items \<Longrightarrow> set (items d) = set d"
  by (metis iter_order_mset set_mset_mset)

lemma iter_order_distinct_keys:
  assumes "iter_order items" shows "distinct (map fst (items d)) = distinct (map fst d)"
proof -
  have "mset (map fst (items d)) = mset (map fst d)"
    using assms by simp
  then show ?thesis by (rule mset_eq_imp_distinct_iff)
qed

text \<open>
  The update every aggregation loop of the code performs: the first value of a key is
  stored through \<open>create\<close>, each later one is merged into what is stored.
\<close>

definition upsert :: "('v \<Rightarrow> 'c) \<Rightarrow> ('c \<Rightarrow> 'v \<Rightarrow> 'c) \<Rightarrow> 'k \<times> 'v \<Rightarrow> ('k, 'c) dict \<Rightarrow> ('k, 'c) dict" where
  "upsert create merge = (\<lambda>(k, v) d.
     case map_of d k of
       None \<Rightarrow> AList.update k (create v) d
     | Some c \<Rightarrow> AList.update k (merge c v) d)"

text \<open>The values a list of pairs holds for a key, in order.\<close>

definition values_of :: "'k \<Rightarrow> ('k \<times> 'v) list \<Rightarrow> 'v list" where
  "values_of k kvs = map snd (filter (\<lambda>p. fst p = k) kvs)"

lemma values_of_simps [simp]:
  "values_of k [] = []"
  "values_of k ((k', v) # kvs) = (if k' = k then v # values_of k kvs else values_of k kvs)"
  "values_of k (xs @ ys) = values_of k xs @ values_of k ys"
  by (simp_all add: values_of_def)

lemma values_of_concat: "values_of k (concat xss) = concat (map (values_of k) xss)"
  by (induction xss) simp_all

lemma values_of_eq_Nil_iff: "values_of k kvs = [] \<longleftrightarrow> k \<notin> fst ` set kvs"
  by (induction kvs) (auto split: if_splits)

lemma in_set_values_of [simp]: "v \<in> set (values_of k kvs) \<longleftrightarrow> (k, v) \<in> set kvs"
  by (force simp: values_of_def)

lemma mset_values_of_cong: "mset xs = mset ys \<Longrightarrow> mset (values_of k xs) = mset (values_of k ys)"
  by (simp add: values_of_def mset_filter)

lemma count_values_of: "count (mset (values_of k kvs)) v = count (mset kvs) (k, v)"
  by (induction kvs) (auto split: if_splits)

lemma values_of_map_key:
  "inj g \<Longrightarrow> values_of (g k) (map (\<lambda>(k, v). (g k, h v)) kvs) = map h (values_of k kvs)"
  by (induction kvs) (auto dest: injD)

lemma values_of_map_value [simp]:
  "values_of k (map (\<lambda>(k, v). (k, h v)) kvs) = map h (values_of k kvs)"
  by (induction kvs) auto

lemma distinct_keys_upsert [simp]:
  "distinct (map fst d) \<Longrightarrow> distinct (map fst (upsert cr mg kv d))"
  by (cases kv) (auto simp: upsert_def intro: distinct_update split: option.splits)

lemma map_of_upsert:
  "map_of (upsert cr mg (k, v) d) =
     (map_of d)(k \<mapsto> (case map_of d k of None \<Rightarrow> cr v | Some c \<Rightarrow> mg c v))"
  by (auto simp: upsert_def update_conv' split: option.splits)

lemma distinct_keys_fold_upsert [simp]:
  "distinct (map fst d) \<Longrightarrow> distinct (map fst (fold (upsert cr mg) kvs d))"
  by (induction kvs arbitrary: d) simp_all

lemma map_of_fold_upsert_gen:
  "map_of (fold (upsert cr mg) kvs d) k =
     (case map_of d k of
        Some c \<Rightarrow> Some (foldl mg c (values_of k kvs))
      | None \<Rightarrow> (case values_of k kvs of [] \<Rightarrow> None | v # vs \<Rightarrow> Some (foldl mg (cr v) vs)))"
proof (induction kvs arbitrary: d)
  case Nil
  then show ?case by (simp split: option.splits)
next
  case (Cons kv kvs)
  obtain k' v where kv: "kv = (k', v)" by force
  show ?case
    by (auto simp: kv Cons.IH map_of_upsert split: option.splits)
qed

lemma map_of_fold_upsert [dict_simps]:
  "map_of (fold (upsert cr mg) kvs []) k =
     (case values_of k kvs of [] \<Rightarrow> None | v # vs \<Rightarrow> Some (foldl mg (cr v) vs))"
  by (simp add: map_of_fold_upsert_gen)

lemma in_fold_upsert_iff [dict_simps]:
  "(k, c) \<in> set (fold (upsert cr mg) kvs []) \<longleftrightarrow>
     (\<exists>v vs. values_of k kvs = v # vs \<and> c = foldl mg (cr v) vs)"
proof -
  have d: "distinct (map fst (fold (upsert cr mg) kvs []))"
    by simp
  have "(k, c) \<in> set (fold (upsert cr mg) kvs []) \<longleftrightarrow>
      map_of (fold (upsert cr mg) kvs []) k = Some c"
    using d by simp
  then show ?thesis
    by (auto simp: map_of_fold_upsert split: list.splits)
qed

lemma keys_fold_upsert [dict_simps]:
  "fst ` set (fold (upsert cr mg) kvs []) = fst ` set kvs"
proof -
  have "k \<in> fst ` set (fold (upsert cr mg) kvs []) \<longleftrightarrow> k \<in> fst ` set kvs" for k
  proof -
    have "k \<in> fst ` set (fold (upsert cr mg) kvs []) \<longleftrightarrow>
        map_of (fold (upsert cr mg) kvs []) k \<noteq> None"
      by (simp add: map_of_eq_None_iff)
    also have "\<dots> \<longleftrightarrow> values_of k kvs \<noteq> []"
      by (auto simp: map_of_fold_upsert split: list.splits)
    finally show ?thesis by (simp add: values_of_eq_Nil_iff)
  qed
  then show ?thesis by blast
qed

text \<open>In an association list with distinct keys a key has at most one value.\<close>

lemma values_of_distinct_keys:
  "distinct (map fst d) \<Longrightarrow> values_of k d = (case map_of d k of None \<Rightarrow> [] | Some c \<Rightarrow> [c])"
proof (induction d)
  case (Cons a d)
  then show ?case
    by (cases a) (auto simp: values_of_eq_Nil_iff image_iff split: option.splits)
qed simp


lemma values_of_iter_order:
  assumes "iter_order items" and "distinct (map fst d)"
  shows "values_of k (items d) = values_of k d"
proof -
  have d: "distinct (map fst (items d))"
    using iter_order_distinct_keys [OF assms(1)] assms(2) by simp
  have "map_of (items d) = map_of d"
    using assms d by (metis iter_order_set map_of_inject_set)
  then show ?thesis
    by (simp add: values_of_distinct_keys [OF d] values_of_distinct_keys [OF assms(2)])
qed

lemma mset_concat_cong: "mset xss = mset yss \<Longrightarrow> mset (concat xss) = mset (concat yss)"
  by (simp add: mset_concat flip: sum_mset_sum_list mset_map) (metis mset_map)

lemma foldl_snoc [simp]: "foldl (\<lambda>l p. l @ [p]) xs ys = xs @ ys"
  by (induction ys arbitrary: xs) simp_all

section \<open>Decimal numbers\<close>

fun nat_str :: "nat \<Rightarrow> string" where
  "nat_str n = (if n < 10 then [char_of (48 + n)] else nat_str (n div 10) @ [char_of (48 + n mod 10)])"

declare nat_str.simps [simp del]

definition int_str :: "int \<Rightarrow> string" where
  "int_str i = (if i < 0 then CHR ''-'' # nat_str (nat (- i)) else nat_str (nat i))"

definition is_digit :: "char \<Rightarrow> bool" where
  "is_digit c \<longleftrightarrow> c \<in> set ''0123456789''"

text \<open>The value of a string of digits, and its inverse: the decimal representation.\<close>

definition digits_value :: "string \<Rightarrow> nat" where
  "digits_value s = foldl (\<lambda>n c. 10 * n + (of_char c - 48)) 0 s"

lemma nat_str_digits: "\<forall>c\<in>set (nat_str n). is_digit c"
proof (induction n rule: nat_str.induct)
  case (1 n)
  have "\<forall>k\<in>set [0..<10 :: nat]. is_digit (char_of (48 + k))" by code_simp
  then have d: "is_digit (char_of (48 + k))" if "k < 10" for k :: nat using that by simp
  show ?case
  proof (cases "n < 10")
    case True
    then show ?thesis using d [of n] by (subst nat_str.simps) simp
  next
    case False
    then show ?thesis using d [of "n mod 10"] 1 by (subst nat_str.simps) auto
  qed
qed

lemma nat_str_not_Nil [simp]: "nat_str n \<noteq> []"
  by (subst nat_str.simps) simp

lemma digits_value_nat_str [simp]: "digits_value (nat_str n) = n"
proof (induction n rule: nat_str.induct)
  case (1 n)
  then show ?case
    by (subst nat_str.simps) (auto simp: digits_value_def of_char_of)
qed

section \<open>Splitting and joining strings\<close>

text \<open>\<open>s.split(sep)\<close> for a separator of one character.\<close>

fun py_split :: "char \<Rightarrow> string \<Rightarrow> string list" where
  "py_split sep [] = [[]]"
| "py_split sep (c # s) =
     (if c = sep then [] # py_split sep s
      else (case py_split sep s of [] \<Rightarrow> [[c]] | w # ws \<Rightarrow> (c # w) # ws))"

fun py_join :: "string \<Rightarrow> string list \<Rightarrow> string" where
  "py_join sep [] = []"
| "py_join sep [w] = w"
| "py_join sep (w # ws) = w @ sep @ py_join sep ws"

lemma py_split_plain: "sep \<notin> set s \<Longrightarrow> py_split sep s = [s]"
  by (induction s) auto

lemma py_split_append: "sep \<notin> set s \<Longrightarrow> py_split sep (s @ sep # t) = s # py_split sep t"
  by (induction s) auto

lemma py_split_join:
  "ws \<noteq> [] \<Longrightarrow> \<forall>w\<in>set ws. sep \<notin> set w \<Longrightarrow> py_split sep (py_join [sep] ws) = ws"
  by (induction "[sep]" ws rule: py_join.induct) (simp_all add: py_split_plain py_split_append)

end
