(* ===== verification/Serializers.thy ===== *)
theory Serializers
  imports Prelude
begin

text \<open>
  \<open>pyspark/serializers.py\<close>: the length-prefixed wire format between the Python processes and
  the JVM. Byte strings are lists of 8-bit words; a stream that is read is the list of bytes
  still to come, and reading returns the rest. \<open>dumps\<close>/\<open>loads\<close> of cPickle, cloudpickle and
  marshal are arguments; the framing, the batching, the pairing of two streams and the
  equality of serializers are the code's own and are modelled in full.
\<close>

type_synonym byte = "8 word"
type_synonym bytes = "byte list"

section \<open>Big-endian integers: \<open>struct.pack\<close> and \<open>struct.unpack\<close>\<close>

fun be_bytes :: "nat \<Rightarrow> int \<Rightarrow> bytes" where
  "be_bytes 0 x = []"
| "be_bytes (Suc n) x = be_bytes n (x div 256) @ [word_of_int x]"

definition be_value :: "bytes \<Rightarrow> int" where
  "be_value bs = foldl (\<lambda>a b. a * 256 + uint b) 0 bs"

definition be_signed :: "bytes \<Rightarrow> int" where
  "be_signed bs = (let m = 256 ^ length bs; v = be_value bs in if 2 * v < m then v else v - m)"

lemma length_be_bytes [simp]: "length (be_bytes n x) = n"
  by (induction n arbitrary: x) auto

lemma be_bytes_nonempty [simp]: "be_bytes n x = [] \<longleftrightarrow> n = 0"
  by (metis length_0_conv length_be_bytes)

lemma be_value_be_bytes: "be_value (be_bytes n x) = x mod 256 ^ n"
proof (induction n arbitrary: x)
  case 0
  then show ?case by (simp add: be_value_def)
next
  case (Suc n)
  have u: "uint (word_of_int x :: byte) = x mod 256"
    by (simp add: uint_word_of_int)
  have "be_value (be_bytes (Suc n) x) = be_value (be_bytes n (x div 256)) * 256 + x mod 256"
    by (simp add: be_value_def u)
  also have "\<dots> = ((x div 256) mod 256 ^ n) * 256 + x mod 256"
    by (simp add: Suc.IH)
  also have "\<dots> = x mod 256 ^ Suc n"
    using zmod_zmult2_eq [of "256 ^ n" x 256] by (simp add: mult.commute)
  finally show ?case .
qed

lemma be_signed_be_bytes:
  assumes "- (256 ^ n) \<le> 2 * x" and "2 * x < 256 ^ n"
  shows "be_signed (be_bytes n x) = x"
proof (cases "0 \<le> x")
  case True
  then have "x mod 256 ^ n = x" using assms by (intro mod_pos_pos_trivial) auto
  then show ?thesis using assms by (simp add: be_signed_def be_value_be_bytes)
next
  case False
  have "(x + 256 ^ n) mod 256 ^ n = x + 256 ^ n"
    using False assms by (intro mod_pos_pos_trivial) auto
  then have "x mod 256 ^ n = x + 256 ^ n" by simp
  then show ?thesis using False assms by (simp add: be_signed_def be_value_be_bytes)
qed

text \<open>The formats \<open>"!i"\<close> (4 bytes) and \<open>"!q"\<close> (8 bytes); a value out of range raises.\<close>

definition struct_pack :: "nat \<Rightarrow> int \<Rightarrow> bytes res" where
  "struct_pack n x =
     (if - (256 ^ n) \<le> 2 * x \<and> 2 * x < 256 ^ n then Inr (be_bytes n x) else Inl StructError)"

definition struct_unpack :: "nat \<Rightarrow> bytes \<Rightarrow> int res" where
  "struct_unpack n bs = (if length bs = n then Inr (be_signed bs) else Inl StructError)"

lemma struct_unpack_pack:
  "struct_pack n x = Inr bs \<Longrightarrow> length bs = n \<and> struct_unpack n bs = Inr x"
  by (auto simp: struct_pack_def struct_unpack_def be_signed_be_bytes split: if_splits)

section \<open>Reading a stream\<close>

text \<open>\<open>stream.read(n)\<close>: a negative count reads to the end.\<close>

definition stream_read :: "int \<Rightarrow> bytes \<Rightarrow> bytes \<times> bytes" where
  "stream_read n s = (if n < 0 then (s, []) else (take (nat n) s, drop (nat n) s))"

lemma stream_read_append [simp]:
  "stream_read (int (length a)) (a @ b) = (a, b)"
  by (simp add: stream_read_def)

lemma stream_read_length: "stream_read n s = (a, b) \<Longrightarrow> length s = length a + length b"
  by (auto simp: stream_read_def split: if_splits)

definition read_num :: "nat \<Rightarrow> bytes \<Rightarrow> (int \<times> bytes) res" where
  "read_num w s = (let (l, s') = stream_read (int w) s in
     if l = [] then Inl EOFError else map_res (\<lambda>x. (x, s')) (struct_unpack w l))"

definition read_int :: "bytes \<Rightarrow> (int \<times> bytes) res" where
  "read_int s = read_num 4 s"

definition read_long :: "bytes \<Rightarrow> (int \<times> bytes) res" where
  "read_long s = read_num 8 s"

definition write_int :: "int \<Rightarrow> bytes res" where
  "write_int x = struct_pack 4 x"

definition pack_long :: "int \<Rightarrow> bytes res" where
  "pack_long x = struct_pack 8 x"

definition write_long :: "int \<Rightarrow> bytes res" where
  "write_long x = struct_pack 8 x"

definition write_with_length :: "bytes \<Rightarrow> bytes res" where
  "write_with_length obj = bind_res (write_int (int (length obj))) (\<lambda>h. Inr (h @ obj))"

lemma read_num_pack:
  assumes "struct_pack w x = Inr bs" and "0 < w"
  shows "read_num w (bs @ rest) = Inr (x, rest)"
  using struct_unpack_pack [OF assms(1)] assms(2)
  by (auto simp: read_num_def stream_read_def)

lemma read_int_write: "write_int x = Inr bs \<Longrightarrow> read_int (bs @ rest) = Inr (x, rest)"
  by (simp add: read_int_def write_int_def read_num_pack)

lemma read_long_write: "write_long x = Inr bs \<Longrightarrow> read_long (bs @ rest) = Inr (x, rest)"
  by (simp add: read_long_def write_long_def read_num_pack)

lemma read_num_length: "read_num w s = Inr (x, s') \<Longrightarrow> length s = w + length s'"
  by (auto simp: read_num_def struct_unpack_def stream_read_def split: prod.splits if_splits)

lemma read_int_length: "read_int s = Inr (x, s') \<Longrightarrow> length s = 4 + length s'"
  by (simp add: read_int_def read_num_length)

lemma write_int_range: "write_int x = Inr bs \<longleftrightarrow>
    - (2 ^ 31) \<le> x \<and> x < 2 ^ 31 \<and> bs = be_bytes 4 x"
  by (auto simp: write_int_def struct_pack_def)

section \<open>\<open>FramedSerializer\<close>\<close>

definition framed_write :: "('a \<Rightarrow> bytes) \<Rightarrow> 'a \<Rightarrow> bytes res" where
  "framed_write dumps obj =
     (let serialized = dumps obj
      in bind_res (write_int (int (length serialized))) (\<lambda>h. Inr (h @ serialized)))"

definition framed_read :: "(bytes \<Rightarrow> 'a res) \<Rightarrow> bytes \<Rightarrow> ('a \<times> bytes) res" where
  "framed_read loads s =
     bind_res (read_int s) (\<lambda>(len, s1).
       let (obj, s2) = stream_read len s1
       in if obj = [] then Inl EOFError else map_res (\<lambda>x. (x, s2)) (loads obj))"

text \<open>\<open>dump_stream\<close> writes every object of the iterator, and stops where one raises.\<close>

definition framed_dump_stream :: "('a \<Rightarrow> bytes) \<Rightarrow> 'a list \<Rightarrow> bytes res" where
  "framed_dump_stream dumps xs = map_res concat (mapM_res (framed_write dumps) xs)"

text \<open>
  \<open>load_stream\<close> is a generator: what it has yielded before it ends, and the exception that
  ended it, if any. An \<open>EOFError\<close> ends it silently.
\<close>

lemma framed_read_length:
  assumes "framed_read loads s = Inr (x, s')" shows "length s' < length s"
proof -
  obtain len s1 where r: "read_int s = Inr (len, s1)"
    using assms by (auto simp: framed_read_def)
  obtain obj s2 where o: "stream_read len s1 = (obj, s2)" by force
  have "s' = s2"
    using assms by (auto simp: framed_read_def r o split: if_splits)
  then show ?thesis
    using read_int_length [OF r] stream_read_length [OF o] by simp
qed

function framed_load_stream :: "(bytes \<Rightarrow> 'a res) \<Rightarrow> bytes \<Rightarrow> 'a list \<times> py_error option" where
  "framed_load_stream loads s =
     (case framed_read loads s of
        Inl EOFError \<Rightarrow> ([], None)
      | Inl e \<Rightarrow> ([], Some e)
      | Inr (x, s') \<Rightarrow> (case framed_load_stream loads s' of (xs, e) \<Rightarrow> (x # xs, e)))"
  by pat_completeness auto
termination
  by (relation "measure (\<lambda>(l, s). length s)") (auto dest: framed_read_length)

declare framed_load_stream.simps [simp del]

lemma framed_read_write:
  assumes "framed_write dumps x = Inr bs" and "loads (dumps x) = Inr x" and "dumps x \<noteq> []"
  shows "framed_read loads (bs @ rest) = Inr (x, rest)"
  using assms by (auto simp: framed_write_def framed_read_def read_int_write Let_def)

lemma framed_write_Inr:
  "length (dumps x) < 2 ^ 31 \<Longrightarrow> framed_write dumps x = Inr (be_bytes 4 (int (length (dumps x))) @ dumps x)"
  by (simp add: framed_write_def Let_def write_int_range)

lemma framed_read_empty [simp]: "framed_read loads [] = Inl EOFError"
  by (simp add: framed_read_def read_int_def read_num_def stream_read_def)

lemma framed_load_stream_Nil [simp]: "framed_load_stream loads [] = ([], None)"
  by (subst framed_load_stream.simps) simp

lemma framed_load_stream_Inr:
  "framed_read loads s = Inr (x, s') \<Longrightarrow>
     framed_load_stream loads s = (case framed_load_stream loads s' of (xs, e) \<Rightarrow> (x # xs, e))"
  by (subst framed_load_stream.simps) simp

text \<open>
  What a subclass provides and the framing relies on: \<open>loads\<close> inverts \<open>dumps\<close>, the
  serialized form is not empty (an empty read is how the reader detects the end) and its
  length fits the 32-bit header. \<open>ok\<close> is the domain on which that holds.
\<close>

locale object_codec =
  fixes dumps :: "'a \<Rightarrow> bytes" and loads :: "bytes \<Rightarrow> 'a res" and ok :: "'a \<Rightarrow> bool"
  assumes loads_dumps: "ok x \<Longrightarrow> loads (dumps x) = Inr x"
    and dumps_nonempty: "ok x \<Longrightarrow> dumps x \<noteq> []"
    and dumps_size: "ok x \<Longrightarrow> length (dumps x) < 2 ^ 31"
begin

definition frame :: "'a \<Rightarrow> bytes" where
  "frame x = be_bytes 4 (int (length (dumps x))) @ dumps x"

lemma write_frame: "ok x \<Longrightarrow> framed_write dumps x = Inr (frame x)"
  using framed_write_Inr [of dumps x] dumps_size [of x] by (simp add: frame_def)

lemma read_frame: "ok x \<Longrightarrow> framed_read loads (frame x @ rest) = Inr (x, rest)"
  using framed_read_write [of dumps x "frame x" loads rest]
  by (simp add: write_frame loads_dumps dumps_nonempty)

lemma dump_frames: "\<forall>x\<in>set xs. ok x \<Longrightarrow> framed_dump_stream dumps xs = Inr (concat (map frame xs))"
  by (simp add: framed_dump_stream_def mapM_res_Inr write_frame)

lemma load_frames:
  "\<forall>x\<in>set xs. ok x \<Longrightarrow>
     framed_load_stream loads (concat (map frame xs) @ rest) =
       (case framed_load_stream loads rest of (ys, e) \<Rightarrow> (xs @ ys, e))"
proof (induction xs)
  case Nil
  then show ?case by (simp split: prod.splits)
next
  case (Cons x xs)
  then have "framed_read loads (concat (map frame (x # xs)) @ rest) =
      Inr (x, concat (map frame xs) @ rest)"
    using read_frame [of x "concat (map frame xs) @ rest"] by simp
  with Cons show ?case
    by (simp add: framed_load_stream_Inr split: prod.splits)
qed

lemma stream_roundtrip:
  "\<forall>x\<in>set xs. ok x \<Longrightarrow>
     \<exists>bs. framed_dump_stream dumps xs = Inr bs \<and> framed_load_stream loads bs = (xs, None)"
  using dump_frames [of xs] load_frames [of xs "[]"] by simp

end

text \<open>The contract of a stream serializer: what is dumped is what is loaded.\<close>

locale stream_codec =
  fixes dump :: "'a list \<Rightarrow> bytes res"
    and load :: "bytes \<Rightarrow> 'a list \<times> py_error option"
    and ok_stream :: "'a list \<Rightarrow> bool"
  assumes roundtrip: "ok_stream xs \<Longrightarrow> \<exists>bs. dump xs = Inr bs \<and> load bs = (xs, None)"
begin

lemma load_of_dump: "ok_stream xs \<Longrightarrow> dump xs = Inr bs \<Longrightarrow> load bs = (xs, None)"
  using roundtrip [of xs] by auto

lemma dump_inj:
  assumes "ok_stream xs" and "ok_stream ys" and "dump xs = dump ys"
  shows "xs = ys"
  using assms roundtrip [of xs] load_of_dump [of ys] by auto

end

sublocale object_codec \<subseteq> framed: stream_codec "framed_dump_stream dumps" "framed_load_stream loads"
    "\<lambda>xs. \<forall>x\<in>set xs. ok x"
  by unfold_locales (rule stream_roundtrip)

text \<open>\<open>NoOpSerializer\<close>: the objects are byte strings already.\<close>

definition noop_dumps :: "bytes \<Rightarrow> bytes" where
  "noop_dumps obj = obj"

definition noop_loads :: "bytes \<Rightarrow> bytes res" where
  "noop_loads obj = Inr obj"

interpretation noop: object_codec noop_dumps noop_loads "\<lambda>b. b \<noteq> [] \<and> length b < 2 ^ 31"
  by unfold_locales (simp_all add: noop_dumps_def noop_loads_def)

section \<open>\<open>BatchedSerializer\<close>\<close>

text \<open>
  The loop of \<open>_batched\<close>: \<open>items\<close> is the batch being filled and \<open>cnt\<close> its size.
\<close>

fun batched_loop :: "int \<Rightarrow> 'a list \<Rightarrow> int \<Rightarrow> 'a list \<Rightarrow> 'a list list" where
  "batched_loop batchSize items cnt [] = (if items \<noteq> [] then [items] else [])"
| "batched_loop batchSize items cnt (item # it) =
     (if cnt + 1 = batchSize
      then (items @ [item]) # batched_loop batchSize [] 0 it
      else batched_loop batchSize (items @ [item]) (cnt + 1) it)"

definition UNLIMITED_BATCH_SIZE :: int where
  "UNLIMITED_BATCH_SIZE = - 1"

definition batched :: "int \<Rightarrow> 'a list \<Rightarrow> 'a list list" where
  "batched batchSize it =
     (if batchSize = UNLIMITED_BATCH_SIZE then [it] else batched_loop batchSize [] 0 it)"

definition batched_dump_stream :: "int \<Rightarrow> ('a list list \<Rightarrow> bytes res) \<Rightarrow> 'a list \<Rightarrow> bytes res" where
  "batched_dump_stream batchSize dump it = dump (batched batchSize it)"

definition batched_load_stream ::
  "(bytes \<Rightarrow> 'a list list \<times> py_error option) \<Rightarrow> bytes \<Rightarrow> 'a list \<times> py_error option" where
  "batched_load_stream load s = (case load s of (bs, e) \<Rightarrow> (concat bs, e))"

lemma concat_batched_loop: "concat (batched_loop n items c it) = items @ it"
  by (induction n items c it rule: batched_loop.induct) auto

lemma concat_batched [simp]: "concat (batched n it) = it"
  by (simp add: batched_def concat_batched_loop)

lemma batched_loop_sizes:
  "0 < n \<Longrightarrow> c = int (length items) \<Longrightarrow> c < n \<Longrightarrow>
     \<forall>b\<in>set (batched_loop n items c it). b \<noteq> [] \<and> int (length b) \<le> n"
  by (induction n items c it rule: batched_loop.induct) auto

lemma batched_sizes:
  "0 < n \<Longrightarrow> b \<in> set (batched n it) \<Longrightarrow> b \<noteq> [] \<and> int (length b) \<le> n"
  using batched_loop_sizes [of n 0 "[]" it] by (auto simp: batched_def UNLIMITED_BATCH_SIZE_def)

lemma batched_loop_full:
  "0 < n \<Longrightarrow> c = int (length items) \<Longrightarrow> c < n \<Longrightarrow>
     b \<in> set (butlast (batched_loop n items c it)) \<Longrightarrow> int (length b) = n"
proof (induction n items c it rule: batched_loop.induct)
  case (1 n items c)
  then show ?case by (simp split: if_splits)
next
  case (2 n items c x it)
  then show ?case by (cases "c + 1 = n") (auto split: if_splits)
qed

lemma batched_full:
  "0 < n \<Longrightarrow> b \<in> set (butlast (batched n it)) \<Longrightarrow> int (length b) = n"
  using batched_loop_full [of n 0 "[]" b it] by (simp add: batched_def UNLIMITED_BATCH_SIZE_def)


text \<open>
  A batch of one or more objects survives the wire when every batch does, whatever the
  batch size.
\<close>

lemma batched_stream_roundtrip:
  assumes "\<forall>b\<in>set (batched n xs). loads (dumps b) = Inr b \<and> dumps b \<noteq> [] \<and> length (dumps b) < 2 ^ 31"
  shows "\<exists>bs. batched_dump_stream n (framed_dump_stream dumps) xs = Inr bs \<and>
    batched_load_stream (framed_load_stream loads) bs = (xs, None)"
proof -
  have "object_codec dumps loads
      (\<lambda>b. loads (dumps b) = Inr b \<and> dumps b \<noteq> [] \<and> length (dumps b) < 2 ^ 31)"
    by unfold_locales auto
  from object_codec.stream_roundtrip [OF this assms] show ?thesis
    by (auto simp: batched_dump_stream_def batched_load_stream_def)
qed

section \<open>\<open>CartesianDeserializer\<close> and \<open>PairDeserializer\<close>\<close>

text \<open>
  The JVM writes a key frame and a value frame in turn on one stream, and the two generators
  that \<open>izip\<close> advances in turn read from that stream. A component serializer is either a
  \<open>BatchedSerializer\<close>, whose frames hold a list, or not, and then a frame is a list of one.
\<close>

datatype 'a loader = BatchedLoads "bytes \<Rightarrow> 'a list res" | SingleLoads "bytes \<Rightarrow> 'a res"

fun load_batch :: "'a loader \<Rightarrow> bytes \<Rightarrow> 'a list res" where
  "load_batch (BatchedLoads l) b = l b"
| "load_batch (SingleLoads l) b = map_res (\<lambda>x. [x]) (l b)"

fun stop_iteration :: "py_error \<Rightarrow> py_error option" where
  "stop_iteration EOFError = None"
| "stop_iteration e = Some e"

function prepare_keys_values ::
  "'k loader \<Rightarrow> 'v loader \<Rightarrow> bytes \<Rightarrow> ('k list \<times> 'v list) list \<times> py_error option" where
  "prepare_keys_values key_ser val_ser s =
     (case framed_read (load_batch key_ser) s of
        Inl e \<Rightarrow> ([], stop_iteration e)
      | Inr (ks, s1) \<Rightarrow>
          (case framed_read (load_batch val_ser) s1 of
             Inl e \<Rightarrow> ([], stop_iteration e)
           | Inr (vs, s2) \<Rightarrow>
               (case prepare_keys_values key_ser val_ser s2 of (r, e) \<Rightarrow> ((ks, vs) # r, e))))"
  by pat_completeness auto
termination
  by (relation "measure (\<lambda>(k, v, s). length s)") (auto dest!: framed_read_length)

declare prepare_keys_values.simps [simp del]

definition cartesian_load_stream ::
  "'k loader \<Rightarrow> 'v loader \<Rightarrow> bytes \<Rightarrow> ('k \<times> 'v) list \<times> py_error option" where
  "cartesian_load_stream key_ser val_ser s =
     (case prepare_keys_values key_ser val_ser s of
        (kvs, e) \<Rightarrow> (concat (map (\<lambda>(ks, vs). List.product ks vs) kvs), e))"

definition pair_load_stream ::
  "'k loader \<Rightarrow> 'v loader \<Rightarrow> bytes \<Rightarrow> ('k \<times> 'v) list \<times> py_error option" where
  "pair_load_stream key_ser val_ser s =
     (case prepare_keys_values key_ser val_ser s of
        (kvs, e) \<Rightarrow> (concat (map (\<lambda>(ks, vs). zip ks vs) kvs), e))"

text \<open>The stream of alternating frames, over frames that both sides can read.\<close>

definition frame_bytes :: "bytes \<Rightarrow> bytes" where
  "frame_bytes b = be_bytes 4 (int (length b)) @ b"

lemma framed_read_frame_bytes:
  assumes "b \<noteq> []" and "length b < 2 ^ 31"
  shows "framed_read loads (frame_bytes b @ rest) = map_res (\<lambda>x. (x, rest)) (loads b)"
proof -
  have "write_int (int (length b)) = Inr (be_bytes 4 (int (length b)))"
    using assms(2) by (simp add: write_int_range)
  from read_int_write [OF this, of "b @ rest"] assms(1) show ?thesis
    by (simp add: framed_read_def frame_bytes_def)
qed

definition good_frame :: "(bytes \<Rightarrow> 'a res) \<Rightarrow> bytes \<times> 'a \<Rightarrow> bool" where
  "good_frame loads = (\<lambda>(b, x). b \<noteq> [] \<and> length b < 2 ^ 31 \<and> loads b = Inr x)"

lemma prepare_keys_values_frames:
  "\<forall>(k, v)\<in>set kvs. good_frame (load_batch key_ser) k \<and> good_frame (load_batch val_ser) v \<Longrightarrow>
     prepare_keys_values key_ser val_ser
       (concat (map (\<lambda>(k, v). frame_bytes (fst k) @ frame_bytes (fst v)) kvs)) =
     (map (\<lambda>(k, v). (snd k, snd v)) kvs, None)"
proof (induction kvs)
  case Nil
  show ?case by (subst prepare_keys_values.simps) simp
next
  case (Cons kv kvs)
  obtain kb k vb v where kv: "kv = ((kb, k), (vb, v))" by (metis prod.collapse)
  show ?case
    using Cons by (subst prepare_keys_values.simps)
      (simp add: kv good_frame_def framed_read_frame_bytes)
qed

lemma zip_concat_aligned:
  "map length xss = map length yss \<Longrightarrow>
     zip (concat xss) (concat yss) = concat (map (\<lambda>(xs, ys). zip xs ys) (zip xss yss))"
proof (induction xss arbitrary: yss)
  case (Cons xs xss)
  then show ?case by (cases yss) auto
qed simp

section \<open>\<open>UTF8Deserializer\<close>\<close>

text \<open>The decoder of the codec library is an argument.\<close>

definition utf8_loads :: "(bytes \<Rightarrow> 'a res) \<Rightarrow> bytes \<Rightarrow> ('a \<times> bytes) res" where
  "utf8_loads decode s =
     bind_res (read_int s) (\<lambda>(len, s1).
       let (b, s2) = stream_read len s1 in map_res (\<lambda>x. (x, s2)) (decode b))"

lemma utf8_loads_length: "utf8_loads decode s = Inr (x, s') \<Longrightarrow> length s' < length s"
proof -
  assume a: "utf8_loads decode s = Inr (x, s')"
  then obtain len s1 where r: "read_int s = Inr (len, s1)"
    by (auto simp: utf8_loads_def)
  obtain b s2 where o: "stream_read len s1 = (b, s2)" by force
  have "s' = s2"
    using a by (auto simp: utf8_loads_def r o)
  then show ?thesis
    using read_int_length [OF r] stream_read_length [OF o] by simp
qed

function utf8_load_stream :: "(bytes \<Rightarrow> 'a res) \<Rightarrow> bytes \<Rightarrow> 'a list \<times> py_error option" where
  "utf8_load_stream decode s =
     (case utf8_loads decode s of
        Inl EOFError \<Rightarrow> ([], None)
      | Inl StructError \<Rightarrow> ([], None)
      | Inl e \<Rightarrow> ([], Some e)
      | Inr (x, s') \<Rightarrow> (case utf8_load_stream decode s' of (xs, e) \<Rightarrow> (x # xs, e)))"
  by pat_completeness auto
termination
  by (relation "measure (\<lambda>(d, s). length s)") (auto dest: utf8_loads_length)

declare utf8_load_stream.simps [simp del]

lemma utf8_loads_frame:
  assumes "length b < 2 ^ 31"
  shows "utf8_loads decode (frame_bytes b @ rest) = map_res (\<lambda>x. (x, rest)) (decode b)"
proof -
  have "write_int (int (length b)) = Inr (be_bytes 4 (int (length b)))"
    using assms by (simp add: write_int_range)
  from read_int_write [OF this, of "b @ rest"] show ?thesis
    by (simp add: utf8_loads_def frame_bytes_def)
qed


section \<open>Equality of serializers\<close>

text \<open>
  One constructor per concrete class; the inner serializers and the batch size are the
  fields. \<open>Serializer.__eq__\<close> is \<open>isinstance(other, self.__class__)\<close>, overridden by the
  composite classes. \<open>CloudPickleSerializer\<close> is a subclass of \<open>PickleSerializer\<close> and
  \<open>PairDeserializer\<close> of \<open>CartesianDeserializer\<close>.
\<close>

datatype serializer =
    PickleSer
  | CloudPickleSer
  | MarshalSer
  | NoOpSer
  | UTF8Deser
  | BatchedSer serializer int
  | CartesianDeser serializer serializer
  | PairDeser serializer serializer

datatype ser_class =
  PickleC | CloudPickleC | MarshalC | NoOpC | UTF8C | BatchedC | CartesianC | PairC

fun ser_class_of :: "serializer \<Rightarrow> ser_class" where
  "ser_class_of PickleSer = PickleC"
| "ser_class_of CloudPickleSer = CloudPickleC"
| "ser_class_of MarshalSer = MarshalC"
| "ser_class_of NoOpSer = NoOpC"
| "ser_class_of UTF8Deser = UTF8C"
| "ser_class_of (BatchedSer s n) = BatchedC"
| "ser_class_of (CartesianDeser k v) = CartesianC"
| "ser_class_of (PairDeser k v) = PairC"

definition proper_subclass :: "ser_class \<Rightarrow> ser_class \<Rightarrow> bool" where
  "proper_subclass c d \<longleftrightarrow> (c, d) \<in> {(CloudPickleC, PickleC), (PairC, CartesianC)}"

definition ser_isinstance :: "serializer \<Rightarrow> ser_class \<Rightarrow> bool" where
  "ser_isinstance s c \<longleftrightarrow> ser_class_of s = c \<or> proper_subclass (ser_class_of s) c"

text \<open>
  \<open>ser_eq\<close> is the method \<open>self.__eq__(other)\<close>. The operator \<open>self == other\<close> is \<open>ser_op_eq\<close>:
  when the class of the right operand is a proper subclass of the left one's, Python calls
  the right operand's method first.
\<close>

function ser_eq :: "serializer \<Rightarrow> serializer \<Rightarrow> bool"
  and ser_op_eq :: "serializer \<Rightarrow> serializer \<Rightarrow> bool" where
  "ser_eq self other =
     (case self of
        BatchedSer s n \<Rightarrow> (case other of BatchedSer s' m \<Rightarrow> ser_op_eq s' s | _ \<Rightarrow> False)
      | CartesianDeser k v \<Rightarrow>
          (case other of
             CartesianDeser k' v' \<Rightarrow> ser_op_eq k k' \<and> ser_op_eq v v'
           | PairDeser k' v' \<Rightarrow> ser_op_eq k k' \<and> ser_op_eq v v'
           | _ \<Rightarrow> False)
      | PairDeser k v \<Rightarrow>
          (case other of PairDeser k' v' \<Rightarrow> ser_op_eq k k' \<and> ser_op_eq v v' | _ \<Rightarrow> False)
      | _ \<Rightarrow> ser_isinstance other (ser_class_of self))"
| "ser_op_eq a b =
     (if proper_subclass (ser_class_of b) (ser_class_of a) then ser_eq b a else ser_eq a b)"
  by pat_completeness auto
termination
  by (relation "measure (\<lambda>p. case p of
        Inl (a, b) \<Rightarrow> 2 * (size a + size b)
      | Inr (a, b) \<Rightarrow> 2 * (size a + size b) + 1)") simp_all

definition ser_op_ne :: "serializer \<Rightarrow> serializer \<Rightarrow> bool" where
  "ser_op_ne a b =
     (if proper_subclass (ser_class_of b) (ser_class_of a) then \<not> ser_eq b a else \<not> ser_eq a b)"

text \<open>What the operator compares: everything but the batch sizes.\<close>

fun erase_batch_size :: "serializer \<Rightarrow> serializer" where
  "erase_batch_size (BatchedSer s n) = BatchedSer (erase_batch_size s) 0"
| "erase_batch_size (CartesianDeser k v) = CartesianDeser (erase_batch_size k) (erase_batch_size v)"
| "erase_batch_size (PairDeser k v) = PairDeser (erase_batch_size k) (erase_batch_size v)"
| "erase_batch_size s = s"

declare ser_op_eq.simps [simp del] ser_eq.simps [simp del]

lemma ser_op_eq_iff_erase: "ser_op_eq a b \<longleftrightarrow> erase_batch_size a = erase_batch_size b"
proof (induction "size a + size b" arbitrary: a b rule: less_induct)
  case less
  have IH: "ser_op_eq x y \<longleftrightarrow> erase_batch_size x = erase_batch_size y"
    if "size x + size y < size a + size b" for x y
    using less that by blast
  show ?case
    unfolding ser_op_eq.simps [of a b] ser_eq.simps [of a b] ser_eq.simps [of b a]
    by (cases a; cases b) (auto simp: ser_isinstance_def proper_subclass_def IH)
qed

section \<open>Properties\<close>

text \<open>
  C13: a stream of objects survives the framing: reading what \<open>dump_stream\<close> wrote yields the
  same objects in the same order and ends without an exception, for every serializer whose
  \<open>loads\<close> inverts \<open>dumps\<close> and whose serialized objects are not empty and fit the 32-bit length.
\<close>

theorem framed_stream_roundtrip:
  assumes "\<forall>x\<in>set xs. loads (dumps x) = Inr x \<and> dumps x \<noteq> [] \<and> length (dumps x) < 2 ^ 31"
  shows "\<exists>bs. framed_dump_stream dumps xs = Inr bs \<and> framed_load_stream loads bs = (xs, None)"
proof -
  have "object_codec dumps loads
      (\<lambda>x. loads (dumps x) = Inr x \<and> dumps x \<noteq> [] \<and> length (dumps x) < 2 ^ 31)"
    by unfold_locales auto
  from object_codec.stream_roundtrip [OF this assms] show ?thesis .
qed

theorem framed_stream_roundtrip_witness:
  "\<exists>bs. framed_dump_stream noop_dumps [[1, 2], [3]] = Inr bs \<and>
     framed_load_stream noop_loads bs = ([[1, 2], [3]], None)"
  by (rule framed_stream_roundtrip) (simp add: noop_dumps_def noop_loads_def)

text \<open>
  An object serialized to the empty string ends the stream for the reader: everything
  written after it is silently lost, although nothing failed on the writing side.
\<close>

theorem empty_object_truncates_stream:
  assumes "\<forall>x\<in>set xs. x \<noteq> [] \<and> length x < 2 ^ 31" and "\<forall>y\<in>set ys. length y < 2 ^ 31"
  shows "\<exists>bs. framed_dump_stream noop_dumps (xs @ [] # ys) = Inr bs \<and>
    framed_load_stream noop_loads bs = (xs, None)"
proof -
  have w: "framed_write noop_dumps y = Inr (frame_bytes y)" if "length y < 2 ^ 31" for y
    using framed_write_Inr [of noop_dumps y] that by (simp add: noop_dumps_def frame_bytes_def)
  let ?rest = "frame_bytes [] @ concat (map frame_bytes ys)"
  let ?bs = "concat (map frame_bytes xs) @ ?rest"
  have fr: "map noop.frame xs = map frame_bytes xs"
    by (simp add: noop.frame_def frame_bytes_def noop_dumps_def)
  have "mapM_res (framed_write noop_dumps) (xs @ [] # ys) = Inr (map frame_bytes (xs @ [] # ys))"
    by (rule mapM_res_Inr, rule w) (use assms in auto)
  then have "framed_dump_stream noop_dumps (xs @ [] # ys) = Inr ?bs"
    by (simp add: framed_dump_stream_def)
  moreover have "framed_read noop_loads ?rest = Inl EOFError"
    using read_int_write [of 0 "be_bytes 4 0" "concat (map frame_bytes ys)"]
    by (simp add: framed_read_def frame_bytes_def write_int_range stream_read_def)
  then have "framed_load_stream noop_loads ?rest = ([], None)"
    by (subst framed_load_stream.simps) simp
  then have "framed_load_stream noop_loads ?bs = (xs, None)"
    using noop.load_frames [of xs ?rest] assms(1) by (simp add: fr)
  ultimately show ?thesis by blast
qed

theorem empty_object_truncates_stream_witness:
  "\<exists>bs. framed_dump_stream noop_dumps ([[7]] @ [] # [[8], [9]]) = Inr bs \<and>
    framed_load_stream noop_loads bs = ([[7]], None)"
  by (rule empty_object_truncates_stream) simp_all

text \<open>
  C40: batching cuts the stream without losing, duplicating or reordering an object: no batch is
  empty or larger than the batch size, and only the last one may be smaller.
\<close>

theorem batches_partition_stream:
  assumes "0 < batchSize"
  shows "concat (batched batchSize it) = it \<and>
    (\<forall>b\<in>set (batched batchSize it). b \<noteq> [] \<and> int (length b) \<le> batchSize) \<and>
    (\<forall>b\<in>set (butlast (batched batchSize it)). int (length b) = batchSize)"
  using assms by (simp add: batched_sizes batched_full)

theorem batches_partition_stream_witness:
  "batched 2 [1, 2, 3 :: nat] = [[1, 2], [3]] \<and> concat (batched 2 [1, 2, 3 :: nat]) = [1, 2, 3] \<and>
    int (length [3 :: nat]) \<le> 2 \<and> int (length [1, 2 :: nat]) = 2"
proof -
  have "batched 2 [1, 2, 3 :: nat] = [[1, 2], [3]]" by (simp add: batched_def UNLIMITED_BATCH_SIZE_def)
  then show ?thesis using batches_partition_stream [of 2 "[1, 2, 3 :: nat]"] by simp
qed

text \<open>
  On a stream of alternating key and value batches the pair deserializer yields exactly the
  pairs of \<open>zip\<close> when the batches of both sides have the same sizes, and the cartesian
  deserializer every combination of a key and a value of the same pair of batches.
\<close>

theorem pair_deserializer_zips:
  assumes "\<forall>(k, v)\<in>set kvs. good_frame (load_batch key_ser) k \<and> good_frame (load_batch val_ser) v"
    and "\<forall>(k, v)\<in>set kvs. length (snd k) = length (snd v)"
  shows "pair_load_stream key_ser val_ser
      (concat (map (\<lambda>(k, v). frame_bytes (fst k) @ frame_bytes (fst v)) kvs)) =
      (zip (concat (map (\<lambda>(k, v). snd k) kvs)) (concat (map (\<lambda>(k, v). snd v) kvs)), None) \<and>
    cartesian_load_stream key_ser val_ser
      (concat (map (\<lambda>(k, v). frame_bytes (fst k) @ frame_bytes (fst v)) kvs)) =
      (concat (map (\<lambda>(k, v). concat (map (\<lambda>a. map (\<lambda>b. (a, b)) (snd v)) (snd k))) kvs), None)"
proof -
  have prod: "List.product xs ys = concat (map (\<lambda>a. map (\<lambda>b. (a, b)) ys) xs)" for xs :: "'a list" and ys :: "'b list"
    by (induction xs) simp_all
  have "concat (map (\<lambda>(k, v). zip (snd k) (snd v)) kvs) =
      zip (concat (map (\<lambda>(k, v). snd k) kvs)) (concat (map (\<lambda>(k, v). snd v) kvs))"
    using assms(2) by (induction kvs) auto
  then show ?thesis
    using prepare_keys_values_frames [OF assms(1)]
    by (simp add: pair_load_stream_def cartesian_load_stream_def comp_def case_prod_unfold prod)
qed

definition example_frames :: "((bytes \<times> bytes list) \<times> bytes \<times> bytes list) list" where
  "example_frames = [(([1], [[1]]), [2], [[2]]), (([3], [[3]]), [4], [[4]])]"

theorem pair_deserializer_zips_witness:
  "pair_load_stream (SingleLoads noop_loads) (SingleLoads noop_loads)
      (concat (map (\<lambda>(k, v). frame_bytes (fst k) @ frame_bytes (fst v)) example_frames)) =
      (zip (concat (map (\<lambda>(k, v). snd k) example_frames)) (concat (map (\<lambda>(k, v). snd v) example_frames)), None) \<and>
    cartesian_load_stream (SingleLoads noop_loads) (SingleLoads noop_loads)
      (concat (map (\<lambda>(k, v). frame_bytes (fst k) @ frame_bytes (fst v)) example_frames)) =
      (concat (map (\<lambda>(k, v). concat (map (\<lambda>a. map (\<lambda>b. (a, b)) (snd v)) (snd k))) example_frames), None)"
  by (rule pair_deserializer_zips) (simp_all add: example_frames_def good_frame_def noop_loads_def)

text \<open>
  \<open>==\<close> on serializers, with Python's dispatch to the subclass and the mixed
  implementations of \<open>__eq__\<close>, is an equivalence: it compares everything but the batch sizes.
  \<open>!=\<close> is its negation.
\<close>

theorem serializer_equality:
  "ser_op_eq a b = (erase_batch_size a = erase_batch_size b) \<and> ser_op_ne a b = (\<not> ser_op_eq a b)"
  by (simp add: ser_op_eq_iff_erase ser_op_ne_def ser_op_eq.simps [of a b, symmetric])
    (auto simp: ser_op_eq.simps [of a b] ser_op_eq_iff_erase [symmetric])

end
