(* ===== verification/HeapQ.thy ===== *)
theory HeapQ
  imports Prelude
begin

text \<open>
  The class \<open>MaxHeapQ\<close> of \<open>pyspark/rdd.py\<close> (a binary heap in an array whose slot 0 is a
  dummy), the contract of a bounded queue that keeps the \<open>n\<close> best elements, and the heap
  operations of the standard library's \<open>heapq\<close> that \<open>RDD.top\<close> uses.
\<close>

section \<open>The n best elements of a multiset\<close>

text \<open>
  \<open>is_best le n M R\<close>: \<open>R\<close> holds \<open>n\<close> elements of \<open>M\<close> (all of them when there are fewer), and
  no element left out comes before one that is kept.
\<close>

definition is_best :: "('a \<Rightarrow> 'a \<Rightarrow> bool) \<Rightarrow> nat \<Rightarrow> 'a multiset \<Rightarrow> 'a multiset \<Rightarrow> bool" where
  "is_best le n M R \<longleftrightarrow> R \<subseteq># M \<and> size R = min n (size M) \<and>
     (\<forall>x\<in>#R. \<forall>y\<in>#M - R. le x y)"

lemma is_best_empty [simp]: "is_best le n {#} {#}"
  by (simp add: is_best_def)

lemma is_best_all: "is_best le n M R \<Longrightarrow> size M \<le> n \<Longrightarrow> R = M"
  by (metis is_best_def min.absorb2 mset_subset_size nless_le subset_mset.order_iff_strict)

lemma is_best_add_small:
  assumes "is_best le n M R" and "size R < n"
  shows "is_best le n (add_mset x M) (add_mset x R)"
proof -
  have "size M < n" using assms by (auto simp: is_best_def min_def split: if_splits)
  then have "R = M" using assms is_best_all [of le n M R] by simp
  then show ?thesis using \<open>size M < n\<close> by (simp add: is_best_def)
qed

text \<open>
  In a full queue the new element is added and a last one, with respect to the order, is
  dropped; the order is total and transitive.
\<close>

lemma is_best_add_full:
  assumes best: "is_best le n M R" and full: "size R = n"
    and w: "w \<in># add_mset x R" "\<forall>y\<in>#add_mset x R. le y w"
    and le: "\<And>a b c. le a b \<Longrightarrow> le b c \<Longrightarrow> le a c"
  shows "is_best le n (add_mset x M) (add_mset x R - {#w#})"
proof -
  let ?R' = "add_mset x R - {#w#}"
  have sub: "R \<subseteq># M" and ord: "\<forall>a\<in>#R. \<forall>b\<in>#M - R. le a b"
    using best by (auto simp: is_best_def)
  have sz: "size ?R' = n" using w(1) full by (simp add: size_Diff_singleton)
  have "?R' \<subseteq># add_mset x M"
    using sub by (meson diff_subset_eq_self mset_subset_eq_add_mset_cancel subset_mset.order_trans)
  moreover have "add_mset x M - ?R' = add_mset w (M - R)"
  proof -
    obtain D where D: "M = R + D" using sub by (auto simp: mset_subset_eq_exists_conv)
    have "add_mset x R = add_mset w ?R'" using w(1) by simp
    then have "add_mset x M = add_mset w ?R' + D" using D by (metis union_mset_add_mset_left)
    then have "add_mset x M = ?R' + add_mset w D" by simp
    then show ?thesis using D by (metis add_diff_cancel_left')
  qed
  moreover have "le a b" if a: "a \<in># ?R'" and b: "b \<in># add_mset w (M - R)" for a b
  proof -
    have aR: "a \<in># add_mset x R" using a by (meson in_diffD)
    show ?thesis
    proof (cases "b = w")
      case True
      then show ?thesis using w(2) aR by blast
    next
      case False
      then have bM: "b \<in># M - R" using b by simp
      show ?thesis
      proof (cases "a \<in># R")
        case True
        then show ?thesis using ord bM by blast
      next
        case False
        then have "a = x" using aR by simp
        have "w \<noteq> x" using False a by auto
        then have "w \<in># R" using w(1) by simp
        then have "le w b" using ord bM by blast
        then show ?thesis using w(2) aR le by blast
      qed
    qed
  qed
  moreover have "size ?R' = min n (size (add_mset x M))"
  proof -
    have "n = min n (size M)" using full best by (simp add: is_best_def)
    then have "n \<le> size M" by simp
    then show ?thesis unfolding sz by simp
  qed
  ultimately show ?thesis unfolding is_best_def by metis
qed

lemma is_best_sorted:
  fixes xs :: "'a::linorder list"
  assumes "is_best (\<le>) n (mset xs) R"
  shows "sorted_list_of_multiset R = take n (sort xs)"
proof -
  let ?S = "sorted_list_of_multiset R" and ?T = "sorted_list_of_multiset (mset xs - R)"
  have "R \<subseteq># mset xs" and ord: "\<forall>x\<in>#R. \<forall>y\<in>#mset xs - R. x \<le> y"
    and sz: "size R = min n (length xs)"
    using assms by (auto simp: is_best_def)
  then have "mset (?S @ ?T) = mset xs" by simp
  moreover have "sorted (?S @ ?T)"
    using ord by (simp add: sorted_append)
  ultimately have eq: "sort xs = ?S @ ?T" by (metis properties_for_sort)
  have len: "length ?S = min n (length xs)"
    using sz by (metis mset_sorted_list_of_multiset size_mset)
  show ?thesis
  proof (cases "n \<le> length xs")
    case True
    then have "length ?S = n" using len by simp
    then show ?thesis unfolding eq by simp
  next
    case False
    have "length ?S + length ?T = length xs"
      using eq by (metis length_append length_sort)
    then have "?T = []" using False len by simp
    then show ?thesis using False eq len by simp
  qed
qed

lemma is_best_sorted_desc:
  fixes xs :: "'a::linorder list"
  assumes "is_best (\<ge>) n (mset xs) R"
  shows "rev (sorted_list_of_multiset R) = take n (rev (sort xs))"
proof -
  let ?S = "sorted_list_of_multiset R" and ?T = "sorted_list_of_multiset (mset xs - R)"
  have "R \<subseteq># mset xs" and ord: "\<forall>x\<in>#R. \<forall>y\<in>#mset xs - R. x \<ge> y"
    and sz: "size R = min n (length xs)"
    using assms by (auto simp: is_best_def)
  then have "mset (?T @ ?S) = mset xs" by simp
  moreover have "sorted (?T @ ?S)"
    using ord by (auto simp add: sorted_append)
  ultimately have eq: "sort xs = ?T @ ?S" by (metis properties_for_sort)
  have len: "length ?S = min n (length xs)"
    using sz by (metis mset_sorted_list_of_multiset size_mset)
  show ?thesis
  proof (cases "n \<le> length xs")
    case True
    then have "length (rev ?S) = n" using len by simp
    then show ?thesis unfolding eq by simp
  next
    case False
    have "length ?T + length ?S = length xs"
      using eq by (metis length_append length_sort)
    then have "?T = []" using False len by simp
    then show ?thesis using False eq len by simp
  qed
qed

section \<open>The contract of a bounded queue\<close>

text \<open>
  What \<open>top\<close> and \<open>takeOrdered\<close> rely on: an insertion into a queue that is not full adds the
  element, one into a full queue drops a last element of the order \<open>le\<close>.
\<close>

locale bounded_queue =
  fixes ins :: "'q \<Rightarrow> 'a \<Rightarrow> 'q res"
    and elems :: "'q \<Rightarrow> 'a multiset"
    and inv :: "'q \<Rightarrow> bool"
    and capacity :: nat
    and le :: "'a \<Rightarrow> 'a \<Rightarrow> bool"
  assumes le_trans: "le a b \<Longrightarrow> le b c \<Longrightarrow> le a c"
    and inv_size: "inv q \<Longrightarrow> size (elems q) \<le> capacity"
    and ins_small: "inv q \<Longrightarrow> size (elems q) < capacity \<Longrightarrow>
          \<exists>q'. ins q x = Inr q' \<and> inv q' \<and> elems q' = add_mset x (elems q)"
    and ins_full: "inv q \<Longrightarrow> size (elems q) = capacity \<Longrightarrow>
          \<exists>q' w. ins q x = Inr q' \<and> inv q' \<and> w \<in># add_mset x (elems q) \<and>
            (\<forall>y\<in>#add_mset x (elems q). le y w) \<and> elems q' = add_mset x (elems q) - {#w#}"
begin

fun feed :: "'q \<Rightarrow> 'a list \<Rightarrow> 'q res" where
  "feed q [] = Inr q"
| "feed q (x # xs) = bind_res (ins q x) (\<lambda>q'. feed q' xs)"

lemma ins_best:
  assumes "inv q" and "is_best le capacity M (elems q)"
  shows "\<exists>q'. ins q x = Inr q' \<and> inv q' \<and> is_best le capacity (add_mset x M) (elems q')"
proof (cases "size (elems q) < capacity")
  case True
  then show ?thesis
    using ins_small [OF assms(1) True, of x] is_best_add_small [OF assms(2) True, of x] by auto
next
  case False
  then have full: "size (elems q) = capacity" using inv_size [OF assms(1)] by simp
  from ins_full [OF assms(1) this, of x] obtain q' w where q': "ins q x = Inr q'" "inv q'"
    and w: "w \<in># add_mset x (elems q)" "\<forall>y\<in>#add_mset x (elems q). le y w"
    and e: "elems q' = add_mset x (elems q) - {#w#}" by blast
  have "is_best le capacity (add_mset x M) (elems q')"
    unfolding e by (rule is_best_add_full [OF assms(2) full w]) (rule le_trans)
  then show ?thesis using q' by blast
qed

lemma feed_best:
  "inv q \<Longrightarrow> is_best le capacity M (elems q) \<Longrightarrow>
     \<exists>q'. feed q xs = Inr q' \<and> inv q' \<and> is_best le capacity (M + mset xs) (elems q')"
proof (induction xs arbitrary: q M)
  case Nil
  then show ?case by simp
next
  case (Cons x xs)
  from ins_best [OF Cons.prems, of x] obtain q1 where
    "ins q x = Inr q1" "inv q1" "is_best le capacity (add_mset x M) (elems q1)" by blast
  then show ?case using Cons.IH [of q1 "add_mset x M"] by simp
qed

end


section \<open>\<open>MaxHeapQ\<close>\<close>

text \<open>
  The array is \<open>mh_q\<close>: slot 0 holds the integer 0 the constructor puts there (the argument
  \<open>zero\<close>), the heap starts at slot 1 and the children of \<open>k\<close> are \<open>2 * k\<close> and \<open>2 * k + 1\<close>.
\<close>

record 'a max_heap =
  mh_q :: "'a list"
  mh_maxsize :: int

definition mh_init :: "'a \<Rightarrow> int \<Rightarrow> 'a max_heap" where
  "mh_init zero n = \<lparr>mh_q = [zero], mh_maxsize = n\<rparr>"

definition mh_size :: "'a max_heap \<Rightarrow> int" where
  "mh_size h = int (length (mh_q h)) - 1"

definition mh_getElements :: "'a max_heap \<Rightarrow> 'a list" where
  "mh_getElements h = drop 1 (mh_q h)"

definition mh_swap :: "'a list \<Rightarrow> nat \<Rightarrow> nat \<Rightarrow> 'a list" where
  "mh_swap q i j = (let t = q ! i in (q[i := q ! j])[j := t])"

function mh_swim :: "'a::linorder list \<Rightarrow> nat \<Rightarrow> 'a list" where
  "mh_swim q k =
     (if k > 1 \<and> q ! (k div 2) < q ! k then mh_swim (mh_swap q k (k div 2)) (k div 2) else q)"
  by pat_completeness auto
termination
  by (relation "measure (\<lambda>(q, k). k)") auto

function mh_sink :: "'a::linorder list \<Rightarrow> nat \<Rightarrow> 'a list" where
  "mh_sink q k =
     (let N = length q - 1 in
      if 0 < k \<and> 2 * k \<le> N then
        (let j = (if 2 * k < N \<and> q ! (2 * k) < q ! (2 * k + 1) then 2 * k + 1 else 2 * k)
         in if q ! k > q ! j then q else mh_sink (mh_swap q k j) j)
      else q)"
  by pat_completeness auto
termination
  by (relation "measure (\<lambda>(q, k). length q - k)") (auto simp: mh_swap_def Let_def split: if_splits)

declare mh_swim.simps [simp del] mh_sink.simps [simp del]

definition mh_replaceRoot :: "'a::linorder max_heap \<Rightarrow> 'a \<Rightarrow> 'a max_heap res" where
  "mh_replaceRoot h value =
     bind_res (py_index (mh_q h) 1) (\<lambda>root.
       if root > value then Inr (h\<lparr>mh_q := mh_sink ((mh_q h)[1 := value]) 1\<rparr>) else Inr h)"

definition mh_insert :: "'a::linorder max_heap \<Rightarrow> 'a \<Rightarrow> 'a max_heap res" where
  "mh_insert h value =
     (if mh_size h < mh_maxsize h
      then (let q = mh_q h @ [value] in Inr (h\<lparr>mh_q := mh_swim q (length q - 1)\<rparr>))
      else mh_replaceRoot h value)"

subsection \<open>The heap order\<close>

text \<open>The order between parent and child, everywhere but at the edges into or out of \<open>k\<close>.\<close>

definition heap_order :: "'a::linorder list \<Rightarrow> bool" where
  "heap_order q \<longleftrightarrow> (\<forall>i. 1 < i \<longrightarrow> i < length q \<longrightarrow> q ! i \<le> q ! (i div 2))"

definition order_below :: "'a::linorder list \<Rightarrow> nat \<Rightarrow> bool" where
  "order_below q k \<longleftrightarrow>
     (\<forall>i. 1 < i \<longrightarrow> i < length q \<longrightarrow> i div 2 \<noteq> k \<longrightarrow> q ! i \<le> q ! (i div 2)) \<and>
     (1 < k \<longrightarrow> (\<forall>i. 1 < i \<longrightarrow> i < length q \<longrightarrow> i div 2 = k \<longrightarrow> q ! i \<le> q ! (k div 2)))"

definition order_above :: "'a::linorder list \<Rightarrow> nat \<Rightarrow> bool" where
  "order_above q k \<longleftrightarrow>
     (\<forall>i. 1 < i \<longrightarrow> i < length q \<longrightarrow> i \<noteq> k \<longrightarrow> q ! i \<le> q ! (i div 2)) \<and>
     (1 < k \<longrightarrow> (\<forall>i. 1 < i \<longrightarrow> i < length q \<longrightarrow> i div 2 = k \<longrightarrow> q ! i \<le> q ! (k div 2)))"

lemma length_mh_swap [simp]: "length (mh_swap q i j) = length q"
  by (simp add: mh_swap_def Let_def)

lemma mh_swap_nth:
  "i < length q \<Longrightarrow> j < length q \<Longrightarrow> k < length q \<Longrightarrow>
     mh_swap q i j ! k = (if k = j then q ! i else if k = i then q ! j else q ! k)"
  by (simp add: mh_swap_def Let_def nth_list_update)

lemma mset_tl_mh_swap:
  assumes "0 < i" "i < length q" "0 < j" "j < length q"
  shows "mset (tl (mh_swap q i j)) = mset (tl q)"
proof -
  have "mset (mh_swap q i j) = mset q"
    using assms mset_swap [of j q i] by (simp add: mh_swap_def Let_def)
  moreover have "mh_swap q i j \<noteq> []" "q \<noteq> []" using assms by (auto simp: mh_swap_def Let_def)
  moreover have "hd (mh_swap q i j) = hd q"
    using assms by (simp add: hd_conv_nth mh_swap_nth \<open>mh_swap q i j \<noteq> []\<close> \<open>q \<noteq> []\<close>)
  ultimately show ?thesis
    by (metis add_mset_add_single add_right_cancel list.exhaust_sel mset.simps(2))
qed

lemma length_mh_swim [simp]: "length (mh_swim q k) = length q"
  by (induction q k rule: mh_swim.induct) (subst mh_swim.simps, simp)

lemma length_mh_sink [simp]: "length (mh_sink q k) = length q"
proof (induction q k rule: mh_sink.induct)
  case (1 q k)
  then show ?case by (subst mh_sink.simps) (auto simp: Let_def)
qed

lemma mset_tl_mh_swim: "k < length q \<Longrightarrow> mset (tl (mh_swim q k)) = mset (tl q)"
proof (induction q k rule: mh_swim.induct)
  case (1 q k)
  then show ?case
    by (subst mh_swim.simps) (auto simp: mset_tl_mh_swap)
qed

lemma mset_tl_mh_sink: "mset (tl (mh_sink q k)) = mset (tl q)"
proof (induction q k rule: mh_sink.induct)
  case (1 q k)
  then show ?case
    by (subst mh_sink.simps) (auto simp: Let_def mset_tl_mh_swap)
qed

lemma order_above_swap:
  assumes "order_above q k" and "1 < k" and "k < length q" and "q ! (k div 2) < q ! k"
  shows "order_above (mh_swap q k (k div 2)) (k div 2)"
proof -
  have p: "k div 2 < length q" "0 < k div 2" "k div 2 < k" using assms by auto
  have ord: "\<And>i. 1 < i \<Longrightarrow> i < length q \<Longrightarrow> i \<noteq> k \<Longrightarrow> q ! i \<le> q ! (i div 2)"
    and ch: "\<And>i. 1 < i \<Longrightarrow> i < length q \<Longrightarrow> i div 2 = k \<Longrightarrow> q ! i \<le> q ! (k div 2)"
    using assms by (auto simp: order_above_def)
  have pp: "q ! (k div 2) \<le> q ! (k div 2 div 2)" if "1 < k div 2"
    using ord [of "k div 2"] that p by simp
  let ?s = "mh_swap q k (k div 2)"
  have s: "?s ! i = (if i = k div 2 then q ! k else if i = k then q ! (k div 2) else q ! i)"
    if "i < length q" for i
    using mh_swap_nth [of k q "k div 2" i] that assms(3) p by simp
  have "?s ! i \<le> ?s ! (i div 2)" if i: "1 < i" "i < length q" "i \<noteq> k div 2" for i
  proof -
    have id: "i div 2 < length q" using i by simp
    show ?thesis
      using s [OF i(2)] s [OF id] i ord [of i] ch [of i] assms(4) p
      by (auto split: if_splits intro: order_trans less_imp_le)
  qed
  moreover have "?s ! i \<le> ?s ! (k div 2 div 2)"
    if i: "1 < i" "i < length q" "i div 2 = k div 2" "1 < k div 2" for i
  proof -
    have "k div 2 div 2 < length q" "k div 2 div 2 \<noteq> k" "k div 2 div 2 \<noteq> k div 2" "i \<noteq> k div 2"
      using p i by auto
    then show ?thesis
      using s [OF i(2)] s [of "k div 2 div 2"] i ord [of i] pp by (auto intro: order_trans)
  qed
  ultimately show ?thesis by (auto simp: order_above_def)
qed

lemma mh_swim_order:
  "order_above q k \<Longrightarrow> k < length q \<Longrightarrow> heap_order (mh_swim q k)"
proof (induction q k rule: mh_swim.induct)
  case (1 q k)
  show ?case
  proof (cases "k > 1 \<and> q ! (k div 2) < q ! k")
    case True
    then have "order_above (mh_swap q k (k div 2)) (k div 2)"
      using "1.prems" by (simp add: order_above_swap)
    then show ?thesis using True 1 by (subst mh_swim.simps) simp
  next
    case False
    then have "heap_order q"
      using "1.prems" by (auto simp: order_above_def heap_order_def not_less)
    then show ?thesis using False by (subst mh_swim.simps) auto
  qed
qed


lemma order_below_swap:
  assumes below: "order_below q k" and k: "0 < k" "k < length q"
    and j: "j div 2 = k" "j < length q"
    and big: "\<And>i. i div 2 = k \<Longrightarrow> i < length q \<Longrightarrow> q ! i \<le> q ! j" and le: "q ! k \<le> q ! j"
  shows "order_below (mh_swap q k j) j"
proof -
  have kj: "k < j" "1 < j" using j k by auto
  have ord: "\<And>i. 1 < i \<Longrightarrow> i < length q \<Longrightarrow> i div 2 \<noteq> k \<Longrightarrow> q ! i \<le> q ! (i div 2)"
    and up: "\<And>i. 1 < k \<Longrightarrow> i < length q \<Longrightarrow> i div 2 = k \<Longrightarrow> q ! i \<le> q ! (k div 2)"
    using below k by (auto simp: order_below_def)
  let ?s = "mh_swap q k j"
  have s: "?s ! i = (if i = j then q ! k else if i = k then q ! j else q ! i)"
    if "i < length q" for i
    using mh_swap_nth [of k q j i] that k j by simp
  have "?s ! i \<le> ?s ! (i div 2)" if i: "1 < i" "i < length q" "i div 2 \<noteq> j" for i
  proof (cases "i div 2 = k")
    case True
    then show ?thesis
      using s [OF i(2)] s [of k] k kj big [OF True i(2)] le by auto
  next
    case False
    have nj: "i \<noteq> j" using False j by auto
    have id: "i div 2 < length q" using i by simp
    show ?thesis
    proof (cases "i = k")
      case True
      then have "1 < k" "i div 2 \<noteq> k" using i by auto
      then show ?thesis
        using s [OF i(2)] s [OF id] i up [of j] j nj True by auto
    next
      case ik: False
      then show ?thesis
        using s [OF i(2)] s [OF id] i nj False ord [OF i(1,2) False] by auto
    qed
  qed
  moreover have "?s ! i \<le> ?s ! (j div 2)"
    if i: "1 < i" "i < length q" "i div 2 = j" for i
  proof -
    have "i \<noteq> j" "i \<noteq> k" "i div 2 \<noteq> k" using i kj by auto
    then show ?thesis
      using s [OF i(2)] s [of k] ord [OF i(1,2)] k kj j i by auto
  qed
  ultimately show ?thesis using kj by (auto simp: order_below_def)
qed

lemma mh_sink_order:
  "order_below q k \<Longrightarrow> 0 < k \<Longrightarrow> k < length q \<Longrightarrow> heap_order (mh_sink q k)"
proof (induction q k rule: mh_sink.induct)
  case (1 q k)
  let ?N = "length q - 1"
  let ?j = "if 2 * k < ?N \<and> q ! (2 * k) < q ! (2 * k + 1) then 2 * k + 1 else 2 * k"
  show ?case
  proof (cases "2 * k \<le> ?N")
    case False
    have "i div 2 \<noteq> k" if "1 < i" "i < length q" for i
      using that False by auto
    then have "heap_order q"
      using "1.prems" by (auto simp: order_below_def heap_order_def)
    then show ?thesis using False by (subst mh_sink.simps) (simp add: Let_def)
  next
    case True
    have j: "?j div 2 = k" "?j < length q" using True "1.prems" by auto
    have two: "i = 2 * k \<or> i = 2 * k + 1" if "i div 2 = k" for i
      using that by linarith
    have big: "q ! i \<le> q ! ?j" if i: "i div 2 = k" "i < length q" for i
      using two [OF i(1)] i(2) by auto
    show ?thesis
    proof (cases "q ! k > q ! ?j")
      case gt: True
      have "q ! i \<le> q ! (i div 2)" if i: "1 < i" "i < length q" for i
        using "1.prems"(1) i big [of i] gt
        by (cases "i div 2 = k") (auto simp: order_below_def intro: order_trans less_imp_le)
      then have "heap_order q" by (simp add: heap_order_def)
      then show ?thesis using True gt by (subst mh_sink.simps) (simp add: Let_def)
    next
      case le: False
      then have "order_below (mh_swap q k ?j) ?j"
        using order_below_swap [of q k ?j] "1.prems" j big by (simp add: not_less)
      then have "heap_order (mh_sink (mh_swap q k ?j) ?j)"
        using "1.IH" [OF refl _ refl] True le "1.prems" j by simp
      then show ?thesis
        using True le "1.prems" by (subst mh_sink.simps) (simp add: Let_def)
    qed
  qed
qed

lemma heap_order_root:
  "heap_order q \<Longrightarrow> 0 < i \<Longrightarrow> i < length q \<Longrightarrow> q ! i \<le> q ! 1"
proof (induction i rule: less_induct)
  case (less i)
  show ?case
  proof (cases "i = 1")
    case False
    then have "0 < i div 2" "i div 2 < i" using less.prems by auto
    moreover have "q ! i \<le> q ! (i div 2)"
      using less.prems False by (simp add: heap_order_def)
    ultimately show ?thesis
      using less.IH [of "i div 2"] less.prems by (auto intro: order_trans)
  qed simp
qed

subsection \<open>\<open>MaxHeapQ\<close> is a bounded queue\<close>

definition mh_elems :: "'a max_heap \<Rightarrow> 'a multiset" where
  "mh_elems h = mset (mh_getElements h)"

definition mh_inv :: "nat \<Rightarrow> 'a::linorder max_heap \<Rightarrow> bool" where
  "mh_inv n h \<longleftrightarrow> mh_q h \<noteq> [] \<and> heap_order (mh_q h) \<and> mh_maxsize h = int n \<and>
     length (mh_q h) \<le> Suc n"

lemma mh_elems_tl: "mh_elems h = mset (tl (mh_q h))"
  by (simp add: mh_elems_def mh_getElements_def drop_Suc)

lemma mh_size_elems: "mh_q h \<noteq> [] \<Longrightarrow> mh_size h = int (size (mh_elems h))"
  by (cases "mh_q h") (auto simp: mh_size_def mh_elems_tl)

lemma mh_insert_small:
  assumes "mh_inv n h" and "size (mh_elems h) < n"
  shows "\<exists>h'. mh_insert h x = Inr h' \<and> mh_inv n h' \<and> mh_elems h' = add_mset x (mh_elems h)"
proof -
  let ?q = "mh_q h @ [x]" and ?k = "length (mh_q h)"
  have ne: "mh_q h \<noteq> []" and ho: "heap_order (mh_q h)" using assms(1) by (auto simp: mh_inv_def)
  have above: "order_above ?q ?k"
    using ho by (auto simp: order_above_def heap_order_def nth_append)
  have ord: "heap_order (mh_swim ?q ?k)"
    using mh_swim_order [OF above] by simp
  have el: "mset (tl (mh_swim ?q ?k)) = add_mset x (mh_elems h)"
    using ne mset_tl_mh_swim [of ?k ?q] by (simp add: mh_elems_tl)
  have ins: "mh_insert h x = Inr (h\<lparr>mh_q := mh_swim ?q ?k\<rparr>)"
    using assms mh_size_elems [OF ne] by (simp add: mh_insert_def mh_inv_def Let_def)
  have len: "length (mh_swim ?q ?k) \<le> Suc n"
    using assms(2) ne by (cases "mh_q h") (auto simp: mh_elems_tl)
  have "mh_swim ?q ?k \<noteq> []" by (metis length_mh_swim append_is_Nil_conv length_0_conv ne)
  then show ?thesis
    using ins ord el len assms(1) by (auto simp: mh_inv_def mh_elems_tl)
qed

lemma mh_insert_full:
  assumes inv: "mh_inv n h" and full: "size (mh_elems h) = n" and n: "0 < n"
  shows "\<exists>h' w. mh_insert h x = Inr h' \<and> mh_inv n h' \<and> w \<in># add_mset x (mh_elems h) \<and>
    (\<forall>y\<in>#add_mset x (mh_elems h). y \<le> w) \<and> mh_elems h' = add_mset x (mh_elems h) - {#w#}"
proof -
  let ?q = "mh_q h"
  have ne: "?q \<noteq> []" and ho: "heap_order ?q" using inv by (auto simp: mh_inv_def)
  obtain z r ys where q: "?q = z # r # ys"
    using full n ne by (cases "?q"; cases "tl ?q") (auto simp: mh_elems_tl)
  have el: "mh_elems h = add_mset r (mset ys)" by (simp add: mh_elems_tl q)
  have top: "\<forall>y\<in>#mh_elems h. y \<le> r"
  proof
    fix y assume "y \<in># mh_elems h"
    then obtain i where "i < length (tl ?q)" "tl ?q ! i = y"
      by (auto simp: mh_elems_tl in_set_conv_nth)
    then show "y \<le> r"
      using heap_order_root [OF ho, of "Suc i"] by (simp add: q)
  qed
  have root: "py_index ?q 1 = Inr r"
    using py_index_of_nat [of ?q 1] by (simp add: q)
  have notsmall: "\<not> mh_size h < mh_maxsize h"
    using inv full mh_size_elems [OF ne] by (simp add: mh_inv_def)
  show ?thesis
  proof (cases "r > x")
    case False
    then have "mh_insert h x = Inr h"
      using notsmall root by (simp add: mh_insert_def mh_replaceRoot_def)
    moreover have "\<forall>y\<in>#add_mset x (mh_elems h). y \<le> x"
      using top False by (auto intro: order_trans)
    ultimately show ?thesis using inv by (intro exI [of _ h] exI [of _ x]) simp
  next
    case True
    let ?q' = "?q[1 := x]"
    let ?h' = "h\<lparr>mh_q := mh_sink ?q' 1\<rparr>"
    have ins: "mh_insert h x = Inr ?h'"
      using notsmall root True by (simp add: mh_insert_def mh_replaceRoot_def)
    have below: "order_below ?q' 1"
      using ho by (auto simp: order_below_def heap_order_def nth_list_update)
    have ord: "heap_order (mh_sink ?q' 1)"
      using mh_sink_order [OF below] by (simp add: q)
    have "mh_elems ?h' = mset (tl ?q')" by (simp add: mh_elems_tl mset_tl_mh_sink)
    also have "\<dots> = add_mset x (mh_elems h) - {#r#}" by (simp add: q el)
    finally have e: "mh_elems ?h' = add_mset x (mh_elems h) - {#r#}" .
    have "mh_sink ?q' 1 \<noteq> []" by (metis length_mh_sink length_list_update length_0_conv ne)
    then have "mh_inv n ?h'" using inv ord by (simp add: mh_inv_def)
    moreover have "\<forall>y\<in>#add_mset x (mh_elems h). y \<le> r" using top True by auto
    moreover have "r \<in># add_mset x (mh_elems h)" by (simp add: el)
    ultimately show ?thesis using ins e by blast
  qed
qed

text \<open>A heap created with a positive capacity keeps the smallest elements inserted.\<close>

lemma bounded_queue_max_heap:
  "0 < n \<Longrightarrow> bounded_queue mh_insert mh_elems (mh_inv n) n (\<le>)"
proof (unfold_locales, goal_cases)
  case (2 q)
  then show ?case by (cases "mh_q q") (auto simp: mh_inv_def mh_elems_tl)
next
  case (3 q x)
  then show ?case by (simp add: mh_insert_small)
next
  case (4 q x)
  then show ?case by (intro mh_insert_full)
qed auto

interpretation mh: bounded_queue mh_insert mh_elems "mh_inv (Suc n)" "Suc n" "(\<le>)" for n
  by (rule bounded_queue_max_heap) simp

lemma mh_init_inv: "mh_inv n (mh_init z (int n))"
  by (simp add: mh_inv_def mh_init_def heap_order_def)

lemma mh_init_elems [simp]: "mh_elems (mh_init z n) = {#}"
  by (simp add: mh_elems_tl mh_init_def)


section \<open>\<open>heapq\<close>\<close>

text \<open>
  The documented behaviour of the standard library's min-heap, on the sorted arrangement of
  the heap list: \<open>heappush\<close> adds an item, \<open>heappushpop\<close> adds one and then pops and returns
  the smallest. \<open>top\<close> uses nothing else of the arrangement.
\<close>

definition heappush :: "'a::linorder list \<Rightarrow> 'a \<Rightarrow> 'a list" where
  "heappush heap item = insort item heap"

definition heappushpop :: "'a::linorder list \<Rightarrow> 'a \<Rightarrow> 'a \<times> 'a list" where
  "heappushpop heap item = (let h = insort item heap in (hd h, tl h))"

text \<open>The body of the loop of \<open>topIterator\<close>.\<close>

definition top_push :: "int \<Rightarrow> 'a::linorder list \<Rightarrow> 'a \<Rightarrow> 'a list" where
  "top_push num q k = (if int (length q) < num then heappush q k else snd (heappushpop q k))"

lemma sorted_top_push: "sorted q \<Longrightarrow> sorted (top_push num q k)"
  by (simp add: top_push_def heappush_def heappushpop_def Let_def sorted_insort sorted_tl)

lemma bounded_queue_top_push:
  "bounded_queue (\<lambda>q x. Inr (top_push (int n) q x)) mset (\<lambda>q. sorted q \<and> length q \<le> n) n (\<ge>)"
proof (unfold_locales, goal_cases)
  case (3 q x)
  then show ?case
    by (simp add: top_push_def heappush_def sorted_insort)
next
  case (4 q x)
  let ?h = "insort x q"
  have h: "sorted ?h" "mset ?h = add_mset x (mset q)" using 4 by (auto simp: sorted_insort)
  obtain w hs where ws: "?h = w # hs" by (cases ?h) auto
  have t: "top_push (int n) q x = hs"
    using 4 by (simp add: top_push_def heappushpop_def ws)
  have l: "length hs = n" using 4 ws by (metis length_insort length_Cons nat.inject size_mset)
  have le: "\<forall>y\<in>#add_mset x (mset q). y \<ge> w"
    using h ws by (metis order_refl set_ConsD set_mset_mset sorted_simps(2))
  have "mset hs = add_mset x (mset q) - {#w#}" using h(2) ws by (metis add_mset_remove_trivial mset.simps(2))
  moreover have "w \<in># add_mset x (mset q)" using h(2) ws by (metis list.set_intros(1) set_mset_mset)
  ultimately show ?case using t l h(1) ws le
    by (intro exI [of _ hs] exI [of _ w]) auto
qed auto

interpretation hq: bounded_queue "\<lambda>q x. Inr (top_push (int n) q x)" mset
    "\<lambda>q. sorted q \<and> length q \<le> n" n "(\<ge>)" for n
  by (rule bounded_queue_top_push)

end
