(* ===== verification/Rdd.thy ===== *)
theory Rdd
  imports Prelude HeapQ "HOL-Library.Product_Lexorder"
begin

text \<open>
  The element-wise transformations and the actions of \<open>pyspark/rdd.py\<close>. An RDD stands here
  for its contents: the list of its partitions, in partition order, each the list of its
  elements; a function the code passes to \<open>mapPartitions\<close> is a function on such a list, and
  \<open>collect\<close> reads the partitions in order. How the code defers and pipelines these
  functions is the subject of \<open>Lineage\<close>, how contents cross the wire that of
  \<open>Serializers\<close> and \<open>Context\<close>. User functions are pure and total.
\<close>

type_synonym 'a partitions = "'a list list"

section \<open>Transformations\<close>

definition mapPartitionsWithIndex ::
  "(nat \<Rightarrow> 'a list \<Rightarrow> 'b list) \<Rightarrow> 'a partitions \<Rightarrow> 'b partitions" where
  "mapPartitionsWithIndex f parts = map (\<lambda>(split, it). f split it) (enumerate 0 parts)"

definition mapPartitions :: "('a list \<Rightarrow> 'b list) \<Rightarrow> 'a partitions \<Rightarrow> 'b partitions" where
  "mapPartitions f parts = mapPartitionsWithIndex (\<lambda>s it. f it) parts"

definition rdd_map :: "('a \<Rightarrow> 'b) \<Rightarrow> 'a partitions \<Rightarrow> 'b partitions" where
  "rdd_map f parts = mapPartitionsWithIndex (\<lambda>split it. map f it) parts"

definition flatMap :: "('a \<Rightarrow> 'b list) \<Rightarrow> 'a partitions \<Rightarrow> 'b partitions" where
  "flatMap f parts = mapPartitionsWithIndex (\<lambda>s it. concat (map f it)) parts"

definition rdd_filter :: "('a \<Rightarrow> bool) \<Rightarrow> 'a partitions \<Rightarrow> 'a partitions" where
  "rdd_filter f parts = mapPartitions (\<lambda>it. filter f it) parts"

definition glom :: "'a partitions \<Rightarrow> 'a list partitions" where
  "glom parts = mapPartitions (\<lambda>it. [it]) parts"

definition keyBy :: "('a \<Rightarrow> 'k) \<Rightarrow> 'a partitions \<Rightarrow> ('k \<times> 'a) partitions" where
  "keyBy f parts = rdd_map (\<lambda>x. (f x, x)) parts"

definition rdd_keys :: "('k \<times> 'v) partitions \<Rightarrow> 'k partitions" where
  "rdd_keys parts = rdd_map (\<lambda>(k, v). k) parts"

definition rdd_values :: "('k \<times> 'v) partitions \<Rightarrow> 'v partitions" where
  "rdd_values parts = rdd_map (\<lambda>(k, v). v) parts"

definition mapValues :: "('v \<Rightarrow> 'w) \<Rightarrow> ('k \<times> 'v) partitions \<Rightarrow> ('k \<times> 'w) partitions" where
  "mapValues f parts = rdd_map (\<lambda>(k, v). (k, f v)) parts"

definition flatMapValues :: "('v \<Rightarrow> 'w list) \<Rightarrow> ('k \<times> 'v) partitions \<Rightarrow> ('k \<times> 'w) partitions" where
  "flatMapValues f parts = flatMap (\<lambda>(k, v). map (\<lambda>x. (k, x)) (f v)) parts"

definition collect :: "'a partitions \<Rightarrow> 'a list" where
  "collect parts = concat parts"

lemma mapPartitionsWithIndex_map [simp]: "mapPartitionsWithIndex (\<lambda>s. g) parts = map g parts"
proof -
  have "(\<lambda>(split :: nat, it). g it) = g \<circ> snd" by auto
  then have "mapPartitionsWithIndex (\<lambda>s. g) parts = map g (map snd (enumerate 0 parts))"
    by (simp only: mapPartitionsWithIndex_def map_map)
  then show ?thesis by (simp only: map_snd_enumerate)
qed

lemma mapPartitions_map [simp]: "mapPartitions f parts = map f parts"
  by (simp add: mapPartitions_def)

lemma rdd_map_map [simp]: "rdd_map f parts = map (map f) parts"
  by (simp add: rdd_map_def)

lemma flatMap_map [simp]: "flatMap f parts = map (\<lambda>it. concat (map f it)) parts"
  by (simp add: flatMap_def)

lemma collect_map [simp]: "collect (map (map f) parts) = map f (collect parts)"
  by (simp add: collect_def map_concat)

lemma collect_flatMap: "collect (flatMap f parts) = concat (map f (collect parts))"
  by (induction parts) (simp_all add: collect_def)

lemma collect_filter: "collect (rdd_filter f parts) = filter f (collect parts)"
  by (simp add: collect_def rdd_filter_def filter_concat)

lemma collect_mapValues: "collect (mapValues f parts) = map (\<lambda>(k, v). (k, f v)) (collect parts)"
  by (simp add: mapValues_def)

lemma collect_flatMapValues:
  "collect (flatMapValues f parts) =
     concat (map (\<lambda>(k, v). map (\<lambda>x. (k, x)) (f v)) (collect parts))"
  by (simp add: flatMapValues_def flip: flatMap_map) (rule collect_flatMap)

section \<open>\<open>reduce\<close>, \<open>fold\<close>, \<open>aggregate\<close>\<close>

text \<open>The builtin \<open>reduce\<close> of Python: an empty sequence with no initial value raises.\<close>

fun foldM_res :: "('b \<Rightarrow> 'a \<Rightarrow> 'b res) \<Rightarrow> 'b \<Rightarrow> 'a list \<Rightarrow> 'b res" where
  "foldM_res f a [] = Inr a"
| "foldM_res f a (x # xs) = bind_res (f a x) (\<lambda>a'. foldM_res f a' xs)"

definition py_reduce :: "('a \<Rightarrow> 'a \<Rightarrow> 'a res) \<Rightarrow> 'a list \<Rightarrow> 'a res" where
  "py_reduce f vals = (case vals of [] \<Rightarrow> Inl TypeError | v # vs \<Rightarrow> foldM_res f v vs)"

lemma foldM_res_Inr [simp]: "foldM_res (\<lambda>a x. Inr (f a x)) a xs = Inr (foldl f a xs)"
  by (induction xs arbitrary: a) simp_all

text \<open>
  The generator \<open>func\<close> of \<open>reduce\<close>: \<open>acc\<close> starts as Python's None, and the loop tells an
  unset accumulator from a set one by \<open>acc is None\<close>. \<open>isNone\<close> says which elements are
  None, so a None element, or a None result of \<open>f\<close>, resets the accumulator. The operator may
  raise, hence the result type.
\<close>

fun reduce_acc :: "('a \<Rightarrow> bool) \<Rightarrow> ('a \<Rightarrow> 'a \<Rightarrow> 'a res) \<Rightarrow> 'a option \<Rightarrow> 'a list \<Rightarrow> 'a option res" where
  "reduce_acc isNone f acc [] = Inr acc"
| "reduce_acc isNone f acc (obj # it) =
     (case acc of
        None \<Rightarrow> reduce_acc isNone f (if isNone obj then None else Some obj) it
      | Some a \<Rightarrow> bind_res (f obj a) (\<lambda>r.
          reduce_acc isNone f (if isNone r then None else Some r) it))"

definition reduce_partition ::
  "('a \<Rightarrow> bool) \<Rightarrow> ('a \<Rightarrow> 'a \<Rightarrow> 'a res) \<Rightarrow> 'a list \<Rightarrow> 'a list res" where
  "reduce_partition isNone f it =
     map_res (\<lambda>acc. case acc of None \<Rightarrow> [] | Some a \<Rightarrow> [a]) (reduce_acc isNone f None it)"

definition rdd_reduce ::
  "('a \<Rightarrow> bool) \<Rightarrow> ('a \<Rightarrow> 'a \<Rightarrow> 'a res) \<Rightarrow> 'a partitions \<Rightarrow> 'a res" where
  "rdd_reduce isNone f parts =
     bind_res (mapM_res (reduce_partition isNone f) parts) (\<lambda>vals. py_reduce f (collect vals))"

text \<open>Partitions of one element that is not None reduce to that element.\<close>

lemma rdd_reduce_singletons:
  "(\<And>x. x \<in> set xs \<Longrightarrow> \<not> isNone x) \<Longrightarrow>
     rdd_reduce isNone f (map (\<lambda>x. [x]) xs) = py_reduce f xs"
proof -
  assume "\<And>x. x \<in> set xs \<Longrightarrow> \<not> isNone x"
  then have "mapM_res (reduce_partition isNone f) (map (\<lambda>x. [x]) xs) = Inr (map (\<lambda>x. [x]) xs)"
    by (induction xs) (auto simp: reduce_partition_def)
  then show ?thesis by (simp add: rdd_reduce_def collect_def)
qed

definition fold_partition :: "'a \<Rightarrow> ('a \<Rightarrow> 'a \<Rightarrow> 'a) \<Rightarrow> 'a list \<Rightarrow> 'a list" where
  "fold_partition zeroValue op' it = [foldl (\<lambda>acc obj. op' obj acc) zeroValue it]"

definition rdd_fold :: "'a \<Rightarrow> ('a \<Rightarrow> 'a \<Rightarrow> 'a) \<Rightarrow> 'a partitions \<Rightarrow> 'a" where
  "rdd_fold zeroValue op' parts =
     foldl op' zeroValue (collect (mapPartitions (fold_partition zeroValue op') parts))"

definition rdd_aggregate ::
  "'u \<Rightarrow> ('u \<Rightarrow> 'a \<Rightarrow> 'u) \<Rightarrow> ('u \<Rightarrow> 'u \<Rightarrow> 'u) \<Rightarrow> 'a partitions \<Rightarrow> 'u" where
  "rdd_aggregate zeroValue seqOp combOp parts =
     rdd_fold zeroValue combOp (mapPartitions (\<lambda>it. [foldl seqOp zeroValue it]) parts)"

definition rdd_max :: "'a::linorder partitions \<Rightarrow> 'a res" where
  "rdd_max parts = rdd_reduce (\<lambda>_. False) (\<lambda>a b. Inr (max a b)) parts"

definition rdd_min :: "'a::linorder partitions \<Rightarrow> 'a res" where
  "rdd_min parts = rdd_reduce (\<lambda>_. False) (\<lambda>a b. Inr (min a b)) parts"

definition rdd_sum :: "'a::comm_monoid_add partitions \<Rightarrow> 'a res" where
  "rdd_sum parts =
     rdd_reduce (\<lambda>_. False) (\<lambda>a b. Inr (a + b)) (mapPartitions (\<lambda>x. [sum_list x]) parts)"

definition rdd_count :: "'a partitions \<Rightarrow> int res" where
  "rdd_count parts = rdd_sum (mapPartitions (\<lambda>i. [sum_list (map (\<lambda>_. 1) i)]) parts)"

text \<open>
  The contract an operator of \<open>reduce\<close> has to meet: commutative, associative, and never
  None on elements that are not.
\<close>

locale reduce_operator =
  fixes f :: "'a \<Rightarrow> 'a \<Rightarrow> 'a" and isNone :: "'a \<Rightarrow> bool"
  assumes assoc: "f (f x y) z = f x (f y z)"
    and comm: "f x y = f y x"
    and not_None: "\<not> isNone x \<Longrightarrow> \<not> isNone y \<Longrightarrow> \<not> isNone (f x y)"
begin

lemma left_comm: "f y (f x z) = f x (f y z)"
  by (metis assoc comm)

lemma foldl_start: "foldl f (f a b) xs = f a (foldl f b xs)"
  by (induction xs arbitrary: b) (simp_all add: assoc)

lemma reduce_acc_foldl:
  "\<not> isNone a \<Longrightarrow> \<forall>x\<in>set xs. \<not> isNone x \<Longrightarrow>
     reduce_acc isNone (\<lambda>a b. Inr (f a b)) (Some a) xs = Inr (Some (foldl f a xs))"
proof (induction xs arbitrary: a)
  case (Cons x xs)
  then have "\<not> isNone (f x a)" by (simp add: not_None)
  then show ?case using Cons by (simp add: comm)
qed simp

lemma foldl_not_None: "\<not> isNone a \<Longrightarrow> \<forall>x\<in>set xs. \<not> isNone x \<Longrightarrow> \<not> isNone (foldl f a xs)"
  by (induction xs arbitrary: a) (simp_all add: not_None)

lemma reduce_partition_eq:
  "\<forall>x\<in>set xs. \<not> isNone x \<Longrightarrow>
     reduce_partition isNone (\<lambda>a b. Inr (f a b)) xs =
       Inr (case xs of [] \<Rightarrow> [] | x # xs' \<Rightarrow> [foldl f x xs'])"
  by (cases xs) (simp_all add: reduce_partition_def reduce_acc_foldl)

text \<open>Reducing the partial results is reducing all the elements.\<close>

lemma foldl_partials:
  "foldl f a (concat (map (\<lambda>xs. case xs of [] \<Rightarrow> [] | x # xs' \<Rightarrow> [foldl f x xs']) parts)) =
     foldl f a (concat parts)"
proof (induction parts arbitrary: a)
  case (Cons p parts)
  show ?case
  proof (cases p)
    case (Cons x xs)
    have "f a (foldl f x xs) = foldl f a (x # xs)"
      by (simp add: foldl_start [symmetric])
    then show ?thesis by (simp add: Cons Cons.IH)
  qed (simp add: Cons.IH)
qed simp

lemma reduce_partials:
  "py_reduce (\<lambda>a b. Inr (f a b))
     (concat (map (\<lambda>xs. case xs of [] \<Rightarrow> [] | x # xs' \<Rightarrow> [foldl f x xs']) parts)) =
   py_reduce (\<lambda>a b. Inr (f a b)) (concat parts)"
proof (induction parts)
  case (Cons p parts)
  show ?case
  proof (cases p)
    case Nil
    then show ?thesis using Cons.IH by simp
  next
    case (Cons x xs)
    then show ?thesis
      by (simp add: py_reduce_def foldl_partials)
  qed
qed simp

lemma rdd_reduce_collect:
  assumes "\<forall>x\<in>set (collect parts). \<not> isNone x"
  shows "rdd_reduce isNone (\<lambda>a b. Inr (f a b)) parts = py_reduce (\<lambda>a b. Inr (f a b)) (collect parts)"
proof -
  let ?g = "\<lambda>xs. case xs of [] \<Rightarrow> [] | x # xs' \<Rightarrow> [foldl f x xs']"
  have "mapM_res (reduce_partition isNone (\<lambda>a b. Inr (f a b))) parts = Inr (map ?g parts)"
    by (rule mapM_res_Inr, rule reduce_partition_eq) (use assms in \<open>auto simp: collect_def\<close>)
  then show ?thesis
    using reduce_partials [of parts] by (simp add: rdd_reduce_def collect_def)
qed

text \<open>The order of the elements does not matter.\<close>

lemma foldl_insert: "foldl f b (us @ x # vs) = f x (foldl f b (us @ vs))"
proof (induction us arbitrary: b)
  case Nil
  have "f b x = f x b" by (rule comm)
  then show ?case by (simp add: foldl_start)
qed simp

lemma foldl_mset: "mset xs = mset ys \<Longrightarrow> foldl f a xs = foldl f a ys"
proof (induction xs arbitrary: ys)
  case (Cons x xs)
  then have "x \<in> set ys" by (metis list.set_intros(1) mset_eq_setD)
  then obtain us vs where ys: "ys = us @ x # vs" by (metis in_set_conv_decomp)
  then have "mset xs = mset (us @ vs)" using Cons.prems by simp
  then have "foldl f a xs = foldl f a (us @ vs)" by (rule Cons.IH)
  moreover have "foldl f a (x # xs) = f x (foldl f a xs)"
    using foldl_insert [of a "[]" x xs] by (simp only: append_Nil)
  ultimately show ?case by (simp only: ys foldl_insert)
qed simp

lemma foldl1_mset:
  assumes "mset (x # xs) = mset (y # ys)"
  shows "foldl f x xs = foldl f y ys"
proof (cases "x = y")
  case True
  then have "mset xs = mset ys" using assms by simp
  then show ?thesis unfolding True by (rule foldl_mset)
next
  case False
  then obtain zs where zs: "mset xs = mset (y # zs)" "mset ys = mset (x # zs)"
    using assms by (metis add_eq_conv_ex ex_mset mset.simps(2))
  have "foldl f x xs = foldl f x (y # zs)" using zs(1) by (rule foldl_mset)
  also have "\<dots> = foldl f y (x # zs)" by (simp only: foldl_Cons comm [of x y])
  also have "\<dots> = foldl f y ys" using zs(2) by (rule foldl_mset [symmetric])
  finally show ?thesis .
qed

end

interpretation add_op: reduce_operator "\<lambda>a b :: 'a::comm_monoid_add. a + b" "\<lambda>_. False"
  by unfold_locales (simp_all add: ac_simps)

interpretation max_op: reduce_operator "\<lambda>a b :: 'a::linorder. max a b" "\<lambda>_. False"
  by unfold_locales (simp_all add: ac_simps)

interpretation min_op: reduce_operator "\<lambda>a b :: 'a::linorder. min a b" "\<lambda>_. False"
  by unfold_locales (simp_all add: ac_simps)


lemma rdd_sum_collect:
  "rdd_sum parts = (if parts = [] then Inl TypeError else Inr (sum_list (collect parts)))"
proof -
  have *: "foldl (+) a xs = a + sum_list xs" for a :: 'a and xs
    by (induction xs arbitrary: a) (simp_all add: add.assoc)
  have "rdd_sum parts = py_reduce (\<lambda>a b. Inr (a + b)) (map sum_list parts)"
    using rdd_reduce_singletons [of "map sum_list parts" "\<lambda>_. False" "\<lambda>a b. Inr (a + b)"]
    by (simp add: rdd_sum_def comp_def)
  also have "\<dots> = (if parts = [] then Inl TypeError else Inr (sum_list (map sum_list parts)))"
    by (cases parts) (simp_all add: py_reduce_def *)
  also have "sum_list (map sum_list parts) = sum_list (concat parts)"
    by (induction parts) simp_all
  finally show ?thesis by (simp add: collect_def)
qed

lemma rdd_count_collect:
  "rdd_count parts = (if parts = [] then Inl TypeError else Inr (int (length (collect parts))))"
proof -
  have len: "sum_list (map (\<lambda>_. 1 :: int) xs) = int (length xs)" for xs :: "'a list"
    by (induction xs) simp_all
  have "sum_list (map (\<lambda>x. int (length x)) parts) = int (length (concat parts))"
    by (induction parts) simp_all
  then show ?thesis
    by (simp add: rdd_count_def rdd_sum_collect len collect_def comp_def flip: map_map)
qed

text \<open>
  \<open>fold\<close> applies the operator with the element first inside a partition, so for an
  operator that is only associative the elements of each partition are combined backwards.
\<close>

lemma rdd_fold_reversed:
  assumes assoc: "\<And>x y z. op' (op' x y) z = op' x (op' y z)"
    and left: "\<And>x. op' zeroValue x = x" and right: "\<And>x. op' x zeroValue = x"
  shows "rdd_fold zeroValue op' parts = foldr op' (concat (map rev parts)) zeroValue"
proof -
  have part: "foldl (\<lambda>acc obj. op' obj acc) a it = foldr op' (rev it) a" for a it
    by (simp add: foldr_conv_foldl)
  have start: "foldr op' xs a = op' (foldr op' xs zeroValue) a" for xs a
    by (induction xs) (simp_all add: left assoc)
  have run: "foldl op' a (map (\<lambda>it. foldr op' (rev it) zeroValue) ps) =
      op' a (foldr op' (concat (map rev ps)) zeroValue)" for a ps
  proof (induction ps arbitrary: a)
    case (Cons p ps)
    show ?case
      by (simp add: Cons.IH assoc start [of "rev p" "foldr op' (concat (map rev ps)) zeroValue"])
  qed (simp add: right)
  have "fold_partition zeroValue op' = (\<lambda>it. [foldr op' (rev it) zeroValue])"
    by (rule ext) (simp add: fold_partition_def part)
  then show ?thesis by (simp add: rdd_fold_def collect_def run left)
qed

section \<open>\<open>take\<close>, \<open>first\<close>, \<open>countByValue\<close>\<close>

definition takeUpToNum :: "int \<Rightarrow> 'a list \<Rightarrow> 'a list" where
  "takeUpToNum num it = take (nat num) it"

fun take_loop :: "int \<Rightarrow> 'a list \<Rightarrow> 'a partitions \<Rightarrow> 'a list" where
  "take_loop num items [] = items"
| "take_loop num items (p # ps) =
     (let items' = items @ p
      in if int (length items') \<ge> num then items' else take_loop num items' ps)"

definition rdd_take :: "int \<Rightarrow> 'a partitions \<Rightarrow> 'a list" where
  "rdd_take num parts = py_prefix (take_loop num [] (mapPartitions (takeUpToNum num) parts)) num"

definition rdd_first :: "'a partitions \<Rightarrow> 'a res" where
  "rdd_first parts = py_index (rdd_take 1 parts) 0"

lemma take_loop_take:
  "length items \<le> n \<Longrightarrow>
     take n (take_loop (int n) items (map (take n) parts)) = take n (items @ concat parts)"
proof (induction parts arbitrary: items)
  case (Cons p parts)
  show ?case
  proof (cases "n \<le> length (items @ take n p)")
    case True
    have "n - length items \<le> n" by simp
    with True show ?thesis by (auto simp: Let_def min_def)
  next
    case False
    then have p: "take n p = p" by simp
    with False Cons.IH [of "items @ p"] show ?thesis by (simp add: Let_def)
  qed
qed simp

lemma rdd_take_collect:
  fixes parts :: "'a partitions"
  shows "rdd_take num parts = take (nat num) (collect parts)"
proof (cases "0 \<le> num")
  case True
  then obtain n where n: "num = int n" by (metis nonneg_int_cases)
  have "(takeUpToNum (int n) :: 'a list \<Rightarrow> 'a list) = take n"
    by (rule ext) (simp add: takeUpToNum_def)
  then show ?thesis
    using take_loop_take [of "[]" n parts]
    by (simp add: rdd_take_def py_prefix_nonneg n collect_def)
next
  case False
  then have "take_loop num [] (mapPartitions (takeUpToNum num) parts) = []"
    by (cases parts) (simp_all add: Let_def takeUpToNum_def)
  then show ?thesis using False by (simp add: rdd_take_def py_prefix_def)
qed

definition countPartition :: "'a list \<Rightarrow> ('a, int) dict" where
  "countPartition it = fold (upsert (\<lambda>_. 1) (\<lambda>c _. c + 1)) (map (\<lambda>obj. (obj, ())) it) []"

text \<open>\<open>mergeMaps\<close>: \<open>m1\<close> is a \<open>defaultdict(int)\<close>, so a missing key counts as 0.\<close>

definition count_mergeMaps ::
  "(('a, int) dict \<Rightarrow> ('a \<times> int) list) \<Rightarrow> ('a, int) dict \<Rightarrow> ('a, int) dict \<Rightarrow> ('a, int) dict" where
  "count_mergeMaps iteritems m1 m2 = fold (upsert (\<lambda>v. 0 + v) (\<lambda>c v. c + v)) (iteritems m2) m1"

definition countByValue ::
  "(('a, int) dict \<Rightarrow> ('a \<times> int) list) \<Rightarrow> 'a partitions \<Rightarrow> ('a, int) dict res" where
  "countByValue iteritems parts =
     rdd_reduce (\<lambda>_. False) (\<lambda>m1 m2. Inr (count_mergeMaps iteritems m1 m2))
       (mapPartitions (\<lambda>it. [countPartition it]) parts)"

definition countByKey ::
  "(('k, int) dict \<Rightarrow> ('k \<times> int) list) \<Rightarrow> ('k \<times> 'v) partitions \<Rightarrow> ('k, int) dict res" where
  "countByKey iteritems parts = countByValue iteritems (rdd_map (\<lambda>x. fst x) parts)"

text \<open>The count a dictionary records for a value.\<close>

definition dict_count :: "('a, int) dict \<Rightarrow> 'a \<Rightarrow> int" where
  "dict_count d v = (case map_of d v of None \<Rightarrow> 0 | Some c \<Rightarrow> c)"

lemma foldl_incr: "foldl (\<lambda>c _. c + 1) a xs = a + int (length xs)"
  by (induction xs arbitrary: a) simp_all

lemma length_values_of_units: "length (values_of v (map (\<lambda>obj. (obj, ())) it)) = count_list it v"
  by (induction it) auto

lemma map_of_countPartition:
  "map_of (countPartition it) v = (if v \<in> set it then Some (int (count_list it v)) else None)"
proof (cases "values_of v (map (\<lambda>obj. (obj, ())) it)")
  case Nil
  then have "count_list it v = 0"
    using length_values_of_units [of v it] by simp
  then show ?thesis
    using Nil by (simp add: countPartition_def map_of_fold_upsert count_list_0_iff)
next
  case (Cons u us)
  then have c: "int (count_list it v) = 1 + int (length us)"
    using length_values_of_units [of v it] by simp
  then have "count_list it v \<noteq> 0" by linarith
  then have "v \<in> set it" by (simp add: count_list_0_iff)
  then show ?thesis
    using Cons c by (simp add: countPartition_def map_of_fold_upsert foldl_incr)
qed


lemma distinct_countPartition [simp]: "distinct (map fst (countPartition it))"
  by (simp add: countPartition_def)

lemma count_mergeMaps_map_of:
  assumes ord: "iter_order iteritems" and d2: "distinct (map fst m2)"
  shows "map_of (count_mergeMaps iteritems m1 m2) v =
    (case map_of m2 v of
       None \<Rightarrow> map_of m1 v
     | Some c \<Rightarrow> Some (dict_count m1 v + c))"
proof -
  have "values_of v (iteritems m2) = (case map_of m2 v of None \<Rightarrow> [] | Some c \<Rightarrow> [c])"
    by (simp add: values_of_iter_order [OF assms] values_of_distinct_keys [OF d2])
  then show ?thesis
    by (auto simp: count_mergeMaps_def map_of_fold_upsert_gen dict_count_def split: option.splits)
qed

text \<open>A dictionary that holds the counts of a list: a key for each value, with its count.\<close>

definition counts :: "'a list \<Rightarrow> ('a, int) dict \<Rightarrow> bool" where
  "counts xs d \<longleftrightarrow> distinct (map fst d) \<and>
     (\<forall>v. map_of d v = (if v \<in> set xs then Some (int (count_list xs v)) else None))"

lemma counts_countPartition: "counts it (countPartition it)"
  by (simp add: counts_def map_of_countPartition)

lemma counts_mergeMaps:
  assumes ord: "iter_order iteritems" and c: "counts xs m1" "counts ys m2"
  shows "counts (xs @ ys) (count_mergeMaps iteritems m1 m2)"
proof -
  have "distinct (map fst (count_mergeMaps iteritems m1 m2))"
    using c(1) by (simp add: count_mergeMaps_def counts_def)
  moreover have "map_of (count_mergeMaps iteritems m1 m2) v =
      (if v \<in> set (xs @ ys) then Some (int (count_list (xs @ ys) v)) else None)" for v
    using c count_mergeMaps_map_of [OF ord, of m2 m1 v]
    by (auto simp: counts_def dict_count_def count_list_append count_notin)
  ultimately show ?thesis by (simp add: counts_def)
qed

lemma counts_foldl:
  assumes ord: "iter_order iteritems"
  shows "counts xs d \<Longrightarrow>
    counts (xs @ concat parts) (foldl (count_mergeMaps iteritems) d (map countPartition parts))"
proof (induction parts arbitrary: xs d)
  case (Cons p parts)
  have "counts (xs @ p) (count_mergeMaps iteritems d (countPartition p))"
    by (rule counts_mergeMaps [OF ord Cons.prems counts_countPartition])
  from Cons.IH [OF this] show ?case by simp
qed simp

lemma countByValue_counts:
  assumes "iter_order iteritems" and "parts \<noteq> []"
  shows "\<exists>d. countByValue iteritems parts = Inr d \<and> counts (collect parts) d"
proof -
  obtain p ps where ps: "parts = p # ps" using assms(2) by (cases parts) auto
  have "countByValue iteritems parts =
      py_reduce (\<lambda>a b. Inr (count_mergeMaps iteritems a b)) (map countPartition parts)"
    using rdd_reduce_singletons [of "map countPartition parts" "\<lambda>_. False"]
    by (simp add: countByValue_def comp_def)
  then have "countByValue iteritems parts =
      Inr (foldl (count_mergeMaps iteritems) (countPartition p) (map countPartition ps))"
    by (simp add: ps py_reduce_def)
  then show ?thesis
    using counts_foldl [OF assms(1) counts_countPartition, of p ps] by (simp add: ps collect_def)
qed


section \<open>\<open>top\<close> and \<open>takeOrdered\<close>\<close>

text \<open>\<open>sorted(xs, key=key, reverse=reverse)\<close>: the sort is stable, reversed or not.\<close>

definition py_sorted :: "('a \<Rightarrow> 'k::linorder) \<Rightarrow> bool \<Rightarrow> 'a list \<Rightarrow> 'a list" where
  "py_sorted key reverse xs = (if reverse then rev (sort_key key (rev xs)) else sort_key key xs)"

lemma mset_py_sorted [simp]: "mset (py_sorted key reverse xs) = mset xs"
  by (simp add: py_sorted_def)

lemma set_py_sorted [simp]: "set (py_sorted key reverse xs) = set xs"
  by (simp add: py_sorted_def)

lemma py_sorted_order:
  "sorted_wrt (\<lambda>x y. if reverse then key y \<le> key x else key x \<le> key y) (py_sorted key reverse xs)"
proof (cases reverse)
  case True
  have "sorted_wrt (\<lambda>x y. key x \<le> key y) (sort_key key (rev xs))"
    by (metis sorted_map sorted_sort_key)
  with True show ?thesis by (simp add: py_sorted_def sorted_wrt_rev)
next
  case False
  then show ?thesis by (simp add: py_sorted_def) (metis sorted_map sorted_sort_key)
qed

definition topIterator :: "int \<Rightarrow> 'a::linorder list \<Rightarrow> 'a list" where
  "topIterator num it = foldl (top_push num) [] it"

definition rdd_top :: "int \<Rightarrow> 'a::linorder partitions \<Rightarrow> 'a list res" where
  "rdd_top num parts =
     map_res (py_sorted (\<lambda>x. x) True)
       (rdd_reduce (\<lambda>_. False) (\<lambda>a b. Inr (topIterator num (a @ b)))
         (mapPartitions (\<lambda>it. [topIterator num it]) parts))"

fun mh_insert_all :: "'a::linorder max_heap \<Rightarrow> 'a list \<Rightarrow> 'a max_heap res" where
  "mh_insert_all q [] = Inr q"
| "mh_insert_all q (k # it) = bind_res (mh_insert q k) (\<lambda>q'. mh_insert_all q' it)"

definition topNElems :: "'a::linorder \<Rightarrow> int \<Rightarrow> 'a list \<Rightarrow> 'a list res" where
  "topNElems zero num it = map_res mh_getElements (mh_insert_all (mh_init zero num) it)"

text \<open>
  \<open>takeOrdered\<close> without a key orders the elements themselves; with a key it inserts pairs
  \<open>(key(k), k)\<close>, which Python compares lexicographically. \<open>merge\<close> never applies the key again.
\<close>

definition top_reduce :: "'a::linorder \<Rightarrow> int \<Rightarrow> 'a partitions \<Rightarrow> 'a list res" where
  "top_reduce zero num parts =
     bind_res (mapM_res (topNElems zero num) parts) (\<lambda>tops.
       rdd_reduce (\<lambda>_. False) (\<lambda>a b. topNElems zero num (a @ b)) (map (\<lambda>t. [t]) tops))"

definition takeOrdered :: "'a::linorder \<Rightarrow> int \<Rightarrow> 'a partitions \<Rightarrow> 'a list res" where
  "takeOrdered zero num parts = map_res (py_sorted (\<lambda>x. x) False) (top_reduce zero num parts)"

definition takeOrdered_key ::
  "('k::linorder \<times> 'a::linorder) \<Rightarrow> int \<Rightarrow> ('a \<Rightarrow> 'k) \<Rightarrow> 'a partitions \<Rightarrow> 'a list res" where
  "takeOrdered_key zero num key parts =
     map_res (\<lambda>r. py_sorted key False (map snd r))
       (top_reduce zero num (map (map (\<lambda>k. (key k, k))) parts))"

text \<open>The queues hold the best elements of what they were fed, partition by partition.\<close>

lemma is_best_merge:
  assumes A: "is_best le n M A" and B: "is_best le n N B" and R: "is_best le n (A + B) R"
    and trans: "\<And>a b c. le a b \<Longrightarrow> le b c \<Longrightarrow> le a c"
  shows "is_best le n (M + N) R"
proof -
  have sub: "A \<subseteq># M" "B \<subseteq># N" "R \<subseteq># A + B"
    and size_eq: "size A = min n (size M)" "size B = min n (size N)" "size R = min n (size A + size B)"
    using A B R by (auto simp: is_best_def)
  have size_R: "size R = min n (size M + size N)" using size_eq by auto
  have RMN: "R \<subseteq># M + N" using sub by (meson subset_mset.add_mono subset_mset.order_trans)
  have below: "le x y" if x: "x \<in># R" and y: "y \<in># A + B - R" for x y
    using R x y by (auto simp: is_best_def)
  have out: "le x y"
    if best: "is_best le n L C" and C: "C \<subseteq># A + B" and x: "x \<in># R" and y: "y \<in># L - C" for x y L C
  proof -
    have full: "size C = n"
    proof (rule ccontr)
      assume "size C \<noteq> n"
      then have "size C = size L" using best by (auto simp: is_best_def min_def split: if_splits)
      then have "C = L" using best by (metis is_best_def mset_subset_size nless_le subset_mset.le_imp_less_or_eq)
      then show False using y by simp
    qed
    show ?thesis
    proof (cases "x \<in># C")
      case True
      then show ?thesis using best y by (auto simp: is_best_def)
    next
      case False
      have "\<not> C \<subseteq># R"
      proof
        assume "C \<subseteq># R"
        then have "C = R" using full size_eq(3)
          by (metis min.cobounded1 mset_subset_size not_le subset_mset.le_imp_less_or_eq)
        then show False using False x by simp
      qed
      then obtain c where c: "count R c < count C c" by (auto simp: subseteq_mset_def not_le)
      then have cC: "c \<in># C" by (metis count_eq_zero_iff gr_implies_not0)
      have "count C c \<le> count (A + B) c" using C by (rule mset_subset_eq_count)
      then have "c \<in># A + B - R" using c by (simp add: in_diff_count)
      then have "le x c" using below x by blast
      moreover have "le c y" using best cC y by (auto simp: is_best_def)
      ultimately show ?thesis by (rule trans)
    qed
  qed
  have "le x y" if x: "x \<in># R" and y: "y \<in># M + N - R" for x y
  proof -
    have cnt: "count R y < count M y + count N y" using y by (simp add: in_diff_count)
    consider "count R y < count A y + count B y" | "count A y < count M y" | "count B y < count N y"
      using cnt by linarith
    then show ?thesis
    proof cases
      case 1
      then show ?thesis using below x by (simp add: in_diff_count)
    next
      case 2
      then show ?thesis using out [OF A _ x] by (simp add: in_diff_count)
    next
      case 3
      then show ?thesis using out [OF B _ x] by (simp add: in_diff_count)
    qed
  qed
  then show ?thesis using RMN size_R by (simp add: is_best_def)
qed


lemma mh_insert_all_feed: "mh_insert_all = mh.feed"
proof (intro ext)
  show "mh_insert_all q it = mh.feed q it" for q :: "'a max_heap" and it
    by (induction it arbitrary: q) simp_all
qed

lemma topNElems_best:
  assumes "0 < n"
  shows "\<exists>r. topNElems zero (int n) it = Inr r \<and> is_best (\<le>) n (mset it) (mset r)"
proof -
  obtain m where n: "n = Suc m" using assms by (cases n) auto
  have "\<exists>q. mh.feed (mh_init zero (int n)) it = Inr q \<and> mh_inv n q \<and>
      is_best (\<le>) n ({#} + mset it) (mh_elems q)"
    using mh.feed_best [of m "mh_init zero (int n)" "{#}" it] mh_init_inv [of n zero] by (simp add: n)
  then show ?thesis
    by (auto simp: topNElems_def mh_insert_all_feed mh_elems_def)
qed

lemma topIterator_best:
  assumes "0 \<le> num"
  shows "is_best (\<ge>) (nat num) (mset it) (mset (topIterator num it))"
proof -
  obtain n where n: "num = int n" using assms by (metis nonneg_int_cases)
  have feed: "hq.feed n q xs = Inr (foldl (top_push num) q xs)" for q xs
    by (induction xs arbitrary: q) (simp_all add: n)
  show ?thesis
    using hq.feed_best [of "[]" n "{#}" it] by (simp add: feed topIterator_def n)
qed

text \<open>Merging partial results, left to right, keeps the best of all the elements.\<close>

lemma foldM_best:
  assumes step: "\<And>a b. \<exists>r. g (a @ b) = Inr r \<and> is_best le n (mset (a @ b)) (mset r)"
    and trans: "\<And>a b c. le a b \<Longrightarrow> le b c \<Longrightarrow> le a c"
  shows "is_best le n M (mset t) \<Longrightarrow> list_all2 (\<lambda>p t'. is_best le n (mset p) (mset t')) ps ts \<Longrightarrow>
    \<exists>r. foldM_res (\<lambda>a b. g (a @ b)) t ts = Inr r \<and> is_best le n (M + mset (concat ps)) (mset r)"
proof (induction ts arbitrary: M t ps)
  case Nil
  then show ?case by simp
next
  case (Cons t' ts)
  then obtain p ps' where ps: "ps = p # ps'" and p: "is_best le n (mset p) (mset t')"
    and ps': "list_all2 (\<lambda>p t'. is_best le n (mset p) (mset t')) ps' ts"
    by (auto simp: list_all2_Cons2)
  obtain r where r: "g (t @ t') = Inr r" "is_best le n (mset t + mset t') (mset r)"
    using step [of t t'] by auto
  have "is_best le n (M + mset p) (mset r)"
    by (rule is_best_merge [OF Cons.prems(1) p r(2) trans])
  from Cons.IH [OF this ps'] show ?case using r ps by (simp add: add.assoc)
qed

lemma top_reduce_best:
  assumes "0 < n" and "parts \<noteq> []"
  shows "\<exists>r. top_reduce zero (int n) parts = Inr r \<and> is_best (\<le>) n (mset (collect parts)) (mset r)"
proof -
  obtain f where f: "\<And>it. topNElems zero (int n) it = Inr (f it) \<and> is_best (\<le>) n (mset it) (mset (f it))"
    using topNElems_best [OF assms(1), of zero] by metis
  have tops: "mapM_res (topNElems zero (int n)) parts = Inr (map f parts)"
    by (rule mapM_res_Inr) (simp add: f)
  obtain p ps where ps: "parts = p # ps" using assms(2) by (cases parts) auto
  have red: "top_reduce zero (int n) parts = foldM_res (\<lambda>a b. topNElems zero (int n) (a @ b)) (f p) (map f ps)"
    using rdd_reduce_singletons [of "map f parts" "\<lambda>_. False"] tops
    by (simp add: top_reduce_def ps py_reduce_def)
  have "list_all2 (\<lambda>p t'. is_best (\<le>) n (mset p) (mset t')) ps (map f ps)"
    by (simp add: list_all2_map2 list.rel_refl f)
  moreover have "is_best (\<le>) n (mset p) (mset (f p))" using f by blast
  ultimately have "\<exists>r. foldM_res (\<lambda>a b. topNElems zero (int n) (a @ b)) (f p) (map f ps) = Inr r \<and>
      is_best (\<le>) n (mset p + mset (concat ps)) (mset r)"
    by (intro foldM_best topNElems_best assms(1)) auto
  then show ?thesis unfolding red by (simp add: ps collect_def)
qed

lemma top_reduce_desc_best:
  assumes "0 \<le> num" and "parts \<noteq> []"
  shows "\<exists>r. rdd_reduce (\<lambda>_. False) (\<lambda>a b. Inr (topIterator num (a @ b)))
      (mapPartitions (\<lambda>it. [topIterator num it]) parts) = Inr r \<and>
    is_best (\<ge>) (nat num) (mset (collect parts)) (mset r)"
proof -
  let ?t = "topIterator num"
  obtain p ps where ps: "parts = p # ps" using assms(2) by (cases parts) auto
  have red: "rdd_reduce (\<lambda>_. False) (\<lambda>a b. Inr (?t (a @ b))) (mapPartitions (\<lambda>it. [?t it]) parts) =
      foldM_res (\<lambda>a b. Inr (?t (a @ b))) (?t p) (map ?t ps)"
    using rdd_reduce_singletons [of "map ?t parts" "\<lambda>_. False"]
    by (simp add: ps py_reduce_def comp_def del: foldM_res_Inr)
  have "list_all2 (\<lambda>p t'. is_best (\<ge>) (nat num) (mset p) (mset t')) ps (map ?t ps)"
    by (simp add: list_all2_map2 list.rel_refl topIterator_best [OF assms(1)])
  moreover have "\<exists>r. Inr (?t it) = Inr r \<and> is_best (\<ge>) (nat num) (mset it) (mset r)" for it
    using topIterator_best [OF assms(1)] by simp
  ultimately have "\<exists>r. foldM_res (\<lambda>a b. Inr (?t (a @ b))) (?t p) (map ?t ps) = Inr r \<and>
      is_best (\<ge>) (nat num) (mset p + mset (concat ps)) (mset r)"
    by (intro foldM_best [of "\<lambda>x. Inr (?t x)"] topIterator_best assms(1))
      (auto simp del: mset_append)
  then show ?thesis unfolding red by (simp add: ps collect_def)
qed


lemma topIterator_nonpos: "num \<le> 0 \<Longrightarrow> topIterator num it = []"
proof -
  assume num: "num \<le> 0"
  have "foldl (top_push num) [] xs = []" for xs :: "'a list"
    using num by (induction xs) (simp_all add: top_push_def heappushpop_def)
  then show ?thesis by (simp add: topIterator_def)
qed

lemma py_sorted_id [simp]:
  "py_sorted (\<lambda>x. x) False xs = sort xs" "py_sorted (\<lambda>x. x) True xs = rev (sort xs)"
proof -
  have "sort (rev xs) = sort xs" by (metis mset_rev sorted_list_of_multiset_mset)
  then show "py_sorted (\<lambda>x. x) False xs = sort xs" "py_sorted (\<lambda>x. x) True xs = rev (sort xs)"
    by (simp_all add: py_sorted_def)
qed

lemma sort_map_fst:
  fixes ps :: "('k::linorder \<times> 'a::linorder) list"
  shows "sort (map fst ps) = map fst (sort ps)"
proof (rule properties_for_sort)
  show "mset (map fst (sort ps)) = mset (map fst ps)" by (metis mset_map mset_sort)
  have "sorted (sort ps)" by simp
  then show "sorted (map fst (sort ps))"
    unfolding sorted_map by (rule sorted_wrt_mono_rel [rotated]) (auto simp: less_eq_prod_def less_le)
qed

section \<open>Properties of the actions\<close>

text \<open>
  \<open>reduce\<close> with a commutative, associative operator on elements that are not None gives
  what the builtin \<open>reduce\<close> gives on the collected list, however the elements are partitioned
  and whichever partitions are empty; with no element at all both raise \<open>TypeError\<close>.
\<close>

theorem reduce_is_sequential:
  assumes "\<And>x y z. f (f x y) z = f x (f y z)" and "\<And>x y. f x y = f y x"
    and "\<And>x y. \<not> isNone x \<Longrightarrow> \<not> isNone y \<Longrightarrow> \<not> isNone (f x y)"
    and "\<forall>x\<in>set (collect parts). \<not> isNone x"
  shows "rdd_reduce isNone (\<lambda>a b. Inr (f a b)) parts =
    (case collect parts of [] \<Rightarrow> Inl TypeError | v # vs \<Rightarrow> Inr (foldl f v vs))"
proof -
  have "reduce_operator f isNone" using assms(1-3) by unfold_locales
  from reduce_operator.rdd_reduce_collect [OF this assms(4)] show ?thesis
    by (simp add: py_reduce_def split: list.splits)
qed

theorem reduce_is_sequential_witness:
  "rdd_reduce (\<lambda>x. x < 0) (\<lambda>a b. Inr (max a b)) [[3, 1], [], [7 :: int]] = Inr 7"
proof -
  have "rdd_reduce (\<lambda>x. x < 0) (\<lambda>a b. Inr (max a b)) [[3, 1], [], [7 :: int]] =
      (case collect [[3, 1], [], [7 :: int]] of [] \<Rightarrow> Inl TypeError | v # vs \<Rightarrow> Inr (foldl max v vs))"
    by (rule reduce_is_sequential) (auto simp: collect_def max_def)
  then show ?thesis by (simp add: collect_def)
qed

text \<open>
  \<open>fold\<close> with an operator that is associative and has \<open>zeroValue\<close> as its neutral element
  combines the partitions in order, but the elements of each partition in reverse order. (The
  documentation asks for an associative operator only.)
\<close>

theorem fold_is_backwards:
  assumes "\<And>x y z. op' (op' x y) z = op' x (op' y z)"
    and "\<And>x. op' zeroValue x = x" and "\<And>x. op' x zeroValue = x"
  shows "rdd_fold zeroValue op' parts = foldr op' (concat (map rev parts)) zeroValue"
  by (rule rdd_fold_reversed [OF assms])

theorem fold_is_backwards_witness:
  "rdd_fold [] (@) [[''a'', ''b''], [''c'']] = ''bac''"
proof -
  have "rdd_fold [] (@) [[''a'', ''b''], [''c'']] =
      foldr (@) (concat (map rev [[''a'', ''b''], [''c'']])) []"
    by (rule fold_is_backwards) simp_all
  then show ?thesis by simp
qed

text \<open>
  \<open>take(num)\<close> is the first \<open>num\<close> elements of the collected list (none for a negative
  count), although it stops at the first partition that completes them, and \<open>first\<close> is the
  first element or an \<open>IndexError\<close>.
\<close>

theorem take_is_prefix:
  "rdd_take num parts = take (nat num) (collect parts) \<and>
   rdd_first parts = (case collect parts of [] \<Rightarrow> Inl IndexError | x # _ \<Rightarrow> Inr x)"
  by (cases "collect parts") (simp_all add: rdd_take_collect rdd_first_def py_index_def)

text \<open>
  \<open>countByValue\<close> returns a dictionary that has a key for exactly the values that occur,
  each with the number of its occurrences over all the partitions, in whatever order the
  partial dictionaries are iterated.
\<close>

theorem countByValue_correct:
  assumes "iter_order iteritems" and "parts \<noteq> []"
  shows "\<exists>d. countByValue iteritems parts = Inr d \<and> distinct (map fst d) \<and>
    (\<forall>v. map_of d v =
       (if v \<in> set (collect parts) then Some (int (count_list (collect parts) v)) else None))"
  using countByValue_counts [OF assms] by (auto simp: counts_def)

theorem countByValue_correct_witness:
  "\<exists>d. countByValue rev [[1, 2], [1 :: int]] = Inr d \<and> map_of d 1 = Some 2 \<and> map_of d 3 = None"
  using countByValue_correct [of rev "[[1, 2], [1 :: int]]"]
  by (auto simp: iter_order_def collect_def)

text \<open>
  \<open>top(num)\<close> is the \<open>num\<close> largest elements in descending order, with repetitions, for
  any partitioning; a count of 0 or less gives the empty list.
\<close>

theorem top_is_largest:
  fixes parts :: "'a::linorder partitions"
  assumes "parts \<noteq> []"
  shows "rdd_top num parts = Inr (take (nat num) (rev (sort (collect parts))))"
proof (cases "0 \<le> num")
  case True
  from top_reduce_desc_best [OF True assms] obtain r where
    r: "rdd_reduce (\<lambda>_. False) (\<lambda>a b. Inr (topIterator num (a @ b)))
      (mapPartitions (\<lambda>it. [topIterator num it]) parts) = Inr r"
    and best: "is_best (\<ge>) (nat num) (mset (collect parts)) (mset r)" by blast
  show ?thesis
    using is_best_sorted_desc [OF best] by (simp add: rdd_top_def r del: mapPartitions_map)
next
  case False
  obtain p ps where ps: "parts = p # ps" using assms by (cases parts) auto
  have "(topIterator num :: 'a list \<Rightarrow> 'a list) = (\<lambda>it. [])"
    using False by (intro ext topIterator_nonpos) simp
  moreover have "foldl (\<lambda>a b. []) [] (xs :: 'a list list) = []" for xs
    by (induction xs) simp_all
  ultimately have "rdd_reduce (\<lambda>_. False) (\<lambda>a b. Inr (topIterator num (a @ b)))
      (mapPartitions (\<lambda>it. [topIterator num it]) parts) = Inr []"
    using rdd_reduce_singletons [of "map (\<lambda>_. [] :: 'a list) parts" "\<lambda>_. False" "\<lambda>a b. Inr []"]
    by (simp add: comp_def ps py_reduce_def)
  then show ?thesis using False by (simp add: rdd_top_def)
qed

theorem top_is_largest_witness:
  "rdd_top 2 [[5, 1], [], [9, 5 :: int]] = Inr [9, 5]"
  using top_is_largest [of "[[5, 1], [], [9, 5 :: int]]" 2] by (simp add: collect_def)

text \<open>
  C6: \<open>takeOrdered(num)\<close> is the \<open>num\<close> smallest elements in ascending order, computed
  through the bounded heaps of the partitions and their merges.
\<close>

theorem takeOrdered_is_smallest:
  assumes "0 < num" and "parts \<noteq> []"
  shows "takeOrdered zero num parts = Inr (take (nat num) (sort (collect parts)))"
proof -
  obtain n where n: "num = int n" "0 < n" using assms(1) by (metis zero_less_imp_eq_int)
  from top_reduce_best [OF n(2) assms(2), of zero] obtain r where
    "top_reduce zero num parts = Inr r" "is_best (\<le>) n (mset (collect parts)) (mset r)"
    unfolding n(1) by blast
  then show ?thesis
    using is_best_sorted [of n "collect parts" "mset r"] by (simp add: takeOrdered_def n(1))
qed

theorem takeOrdered_is_smallest_witness:
  "takeOrdered 0 3 [[4, 9], [1 :: int], [], [7, 2]] = Inr [1, 2, 4]"
  using takeOrdered_is_smallest [of 3 "[[4, 9], [1 :: int], [], [7, 2]]" 0]
  by (simp add: collect_def)

text \<open>
  With a key, \<open>takeOrdered\<close> returns elements of the RDD whose keys are the \<open>num\<close>
  smallest keys, in ascending order of the keys.
\<close>

theorem takeOrdered_key_smallest_keys:
  assumes "0 < num" and "parts \<noteq> []"
  shows "\<exists>r. takeOrdered_key zero num key parts = Inr r \<and> mset r \<subseteq># mset (collect parts) \<and>
    map key r = take (nat num) (sort (map key (collect parts)))"
proof -
  let ?pair = "\<lambda>k. (key k, k)"
  obtain n where n: "num = int n" "0 < n" using assms(1) by (metis zero_less_imp_eq_int)
  have "map (map ?pair) parts \<noteq> []" using assms(2) by simp
  from top_reduce_best [OF n(2) this, of zero] obtain ps where
    ps: "top_reduce zero num (map (map ?pair) parts) = Inr ps"
    and best: "is_best (\<le>) n (mset (map ?pair (collect parts))) (mset ps)"
    unfolding n(1) by auto
  let ?r = "py_sorted key False (map snd ps)"
  have sub: "mset ps \<subseteq># mset (map ?pair (collect parts))" using best by (simp add: is_best_def)
  have "mset (map snd ps) \<subseteq># mset (map snd (map ?pair (collect parts)))"
    using image_mset_subseteq_mono [OF sub, of snd] by (simp only: mset_map)
  then have sub': "mset ?r \<subseteq># mset (collect parts)" by (simp add: comp_def)
  have pairs: "\<forall>p\<in>set ps. fst p = key (snd p)"
    using mset_subset_eqD [OF sub] by fastforce
  have "map key ?r = sort (map key (map snd ps))"
    by (rule properties_for_sort [symmetric]) (metis mset_map mset_py_sorted, simp add: py_sorted_def)
  also have "map key (map snd ps) = map fst ps" using pairs by simp
  also have "sort (map fst ps) = map fst (take n (sort (map ?pair (collect parts))))"
    using is_best_sorted [OF best] by (simp add: sort_map_fst)
  also have "\<dots> = take n (sort (map fst (map ?pair (collect parts))))"
    by (simp only: sort_map_fst take_map)
  finally show ?thesis using sub' ps n by (simp add: takeOrdered_key_def comp_def)
qed

theorem takeOrdered_key_smallest_keys_witness:
  "\<exists>r. takeOrdered_key (0, 0) 2 (\<lambda>x. - x) [[1, 5], [3 :: int]] = Inr r \<and> map uminus r = [- 5, - 3]"
  using takeOrdered_key_smallest_keys [of 2 "[[1, 5], [3 :: int]]" "(0, 0)" "\<lambda>x. - x"]
  by (auto simp: collect_def)

end
