(* ===== verification/Shuffle.thy ===== *)
theory Shuffle
  imports Rdd
begin

text \<open>
  The operations of \<open>pyspark/rdd.py\<close> that move data between partitions by key:
  \<open>partitionBy\<close>, \<open>combineByKey\<close> and what is built on them. The JVM's shuffle, the hash
  function and the iteration orders of the dictionaries are arguments, gathered in the record
  \<open>shuffle_env\<close>.
\<close>

section \<open>The environment of a shuffle\<close>

text \<open>
  \<open>jvm_shuffle n keyed\<close> stands for \<open>PairwiseRDD(..).partitionBy(PythonPartitioner(n)).values()\<close>:
  from the \<open>(split, batch)\<close> pairs each task wrote, the batches each of the \<open>n\<close> new partitions
  receives.
\<close>

record ('k, 'c) shuffle_env =
  defaultParallelism :: int
  hash_fn :: "'k \<Rightarrow> int"
  dict_items :: "('k, 'c) dict \<Rightarrow> ('k \<times> 'c) list"
  bucket_items :: "(int, ('k \<times> 'c) list) dict \<Rightarrow> (int \<times> ('k \<times> 'c) list) list"
  jvm_shuffle :: "int \<Rightarrow> (int \<times> ('k \<times> 'c) list) list list \<Rightarrow> ('k \<times> 'c) list list list"

text \<open>
  What the code relies on: dictionaries are iterated in some order, and the shuffle gives each
  partition the batches addressed to it, in any order.
\<close>

definition shuffle_ok :: "('k, 'c) shuffle_env \<Rightarrow> bool" where
  "shuffle_ok env \<longleftrightarrow>
     iter_order (dict_items env) \<and> iter_order (bucket_items env) \<and>
     (\<forall>n keyed. 0 < n \<longrightarrow> (\<forall>b\<in>set (concat keyed). 0 \<le> fst b \<and> fst b < n) \<longrightarrow>
        length (jvm_shuffle env n keyed) = nat n \<and>
        (\<forall>i < nat n. mset (jvm_shuffle env n keyed ! i) = mset (values_of (int i) (concat keyed))))"

text \<open>An environment that keeps the order of the map tasks: it meets the contract.\<close>

definition ordered_shuffle :: "int \<Rightarrow> (int \<times> 'b) list list \<Rightarrow> 'b list list" where
  "ordered_shuffle n keyed = map (\<lambda>i. values_of (int i) (concat keyed)) [0..<nat n]"

definition ordered_env :: "int \<Rightarrow> ('k \<Rightarrow> int) \<Rightarrow> ('k, 'c) shuffle_env" where
  "ordered_env n h =
     \<lparr>defaultParallelism = n, hash_fn = h, dict_items = (\<lambda>d. d), bucket_items = rev,
      jvm_shuffle = ordered_shuffle\<rparr>"

lemma shuffle_ok_ordered_env: "shuffle_ok (ordered_env n h)"
  by (simp add: shuffle_ok_def ordered_env_def ordered_shuffle_def iter_order_def)

section \<open>\<open>partitionBy\<close>\<close>

definition add_shuffle_key ::
  "('k \<Rightarrow> int) \<Rightarrow> int \<Rightarrow> ((int, ('k \<times> 'v) list) dict \<Rightarrow> (int \<times> ('k \<times> 'v) list) list) \<Rightarrow>
   ('k \<times> 'v) list \<Rightarrow> (int \<times> ('k \<times> 'v) list) list res" where
  "add_shuffle_key partitionFunc numPartitions iteritems it =
     (if numPartitions = 0 \<and> it \<noteq> [] then Inl ZeroDivisionError
      else Inr (iteritems
        (fold (upsert (\<lambda>kv. [kv]) (\<lambda>bucket kv. bucket @ [kv]))
           (map (\<lambda>(k, v). (partitionFunc k mod numPartitions, (k, v))) it) [])))"

definition num_partitions :: "('k, 'c) shuffle_env \<Rightarrow> int option \<Rightarrow> int" where
  "num_partitions env numPartitions =
     (case numPartitions of None \<Rightarrow> defaultParallelism env | Some n \<Rightarrow> n)"

definition partitionBy ::
  "('k, 'v) shuffle_env \<Rightarrow> int option \<Rightarrow> ('k \<Rightarrow> int) \<Rightarrow> ('k \<times> 'v) partitions \<Rightarrow>
   ('k \<times> 'v) partitions res" where
  "partitionBy env numPartitions partitionFunc parts =
     (let n = num_partitions env numPartitions in
      bind_res (mapM_res (add_shuffle_key partitionFunc n (bucket_items env)) parts) (\<lambda>keyed.
        Inr (map concat (jvm_shuffle env n keyed))))"

lemma add_shuffle_key_buckets:
  assumes "0 < n" and "iter_order iteritems"
  shows "\<exists>bs. add_shuffle_key pf n iteritems it = Inr bs \<and>
    (\<forall>b\<in>set bs. 0 \<le> fst b \<and> fst b < n) \<and>
    (\<forall>s. concat (values_of s bs) = filter (\<lambda>(k, v). pf k mod n = s) it)"
proof -
  let ?kvs = "map (\<lambda>(k, v). (pf k mod n, (k, v))) it"
  let ?d = "fold (upsert (\<lambda>kv. [kv]) (\<lambda>bucket kv. bucket @ [kv])) ?kvs []"
  have d: "distinct (map fst ?d)" by simp
  have kvs: "values_of s ?kvs = filter (\<lambda>(k, v). pf k mod n = s) it" for s
    by (induction it) auto
  have "concat (values_of s (iteritems ?d)) = filter (\<lambda>(k, v). pf k mod n = s) it" for s
    by (simp add: values_of_iter_order [OF assms(2) d] values_of_distinct_keys [OF d]
        map_of_fold_upsert kvs split: list.splits)
  moreover have "\<forall>b\<in>set (iteritems ?d). 0 \<le> fst b \<and> fst b < n"
  proof
    fix b assume "b \<in> set (iteritems ?d)"
    then have "fst b \<in> fst ` set ?d" using assms(2) by simp
    then have "fst b \<in> fst ` set ?kvs" by (simp only: keys_fold_upsert)
    then show "0 \<le> fst b \<and> fst b < n" using assms(1) by auto
  qed
  ultimately show ?thesis using assms(1) by (simp add: add_shuffle_key_def)
qed

text \<open>Each new partition holds the pairs whose key the partition function sends there.\<close>

lemma partitionBy_content:
  assumes env: "shuffle_ok env" and n: "num_partitions env np = n" "0 < n"
  shows "\<exists>out. partitionBy env np pf parts = Inr out \<and> length out = nat n \<and>
    (\<forall>i < nat n. mset (out ! i) = filter_mset (\<lambda>(k, v). pf k mod n = int i) (mset (collect parts)))"
proof -
  have ord: "iter_order (bucket_items env)" using env by (simp add: shuffle_ok_def)
  obtain g where g: "\<And>it. add_shuffle_key pf n (bucket_items env) it = Inr (g it)"
    and rng: "\<And>it. \<forall>b\<in>set (g it). 0 \<le> fst b \<and> fst b < n"
    and vals: "\<And>it s. concat (values_of s (g it)) = filter (\<lambda>(k, v). pf k mod n = s) it"
    using add_shuffle_key_buckets [OF n(2) ord, of pf] by metis
  let ?keyed = "map g parts"
  let ?out = "map concat (jvm_shuffle env n ?keyed)"
  have keyed: "mapM_res (add_shuffle_key pf n (bucket_items env)) parts = Inr ?keyed"
    by (rule mapM_res_Inr) (simp add: g)
  have "\<forall>b\<in>set (concat ?keyed). 0 \<le> fst b \<and> fst b < n" using rng by auto
  then have sh: "length (jvm_shuffle env n ?keyed) = nat n"
    "\<forall>i < nat n. mset (jvm_shuffle env n ?keyed ! i) = mset (values_of (int i) (concat ?keyed))"
    using env n(2) unfolding shuffle_ok_def by blast+
  have conc: "concat (values_of s (concat ?keyed)) = filter (\<lambda>(k, v). pf k mod n = s) (collect parts)" for s
    by (induction parts) (simp_all add: collect_def vals)
  have "mset (?out ! i) = filter_mset (\<lambda>(k, v). pf k mod n = int i) (mset (collect parts))"
    if i: "i < nat n" for i
  proof -
    have "mset (?out ! i) = mset (concat (jvm_shuffle env n ?keyed ! i))"
      using i sh(1) by simp
    also have "\<dots> = mset (concat (values_of (int i) (concat ?keyed)))"
      using sh(2) i by (intro mset_concat_cong) blast
    finally show ?thesis by (simp only: conc mset_filter)
  qed
  then show ?thesis using keyed sh(1) n by (auto simp: partitionBy_def)
qed

lemma mset_concat_partition:
  assumes "length out = nat n"
    and "\<forall>i < nat n. mset (out ! i) = filter_mset (\<lambda>x. g x = int i) M"
    and "\<forall>x\<in>#M. 0 \<le> g x \<and> g x < n"
  shows "mset (concat out) = M"
proof -
  have out: "map mset out = map (\<lambda>i. filter_mset (\<lambda>x. g x = int i) M) [0..<nat n]"
    using assms(1,2) by (intro nth_equalityI) auto
  have "mset (concat out) = sum_list (map mset out)" by (simp add: mset_concat)
  also have "\<dots> = (\<Sum>i<nat n. filter_mset (\<lambda>x. g x = int i) M)"
    unfolding out by (simp add: sum_list_distinct_conv_sum_set atLeast0LessThan)
  also have "\<dots> = M"
  proof (rule multiset_eqI)
    fix x
    have "count (\<Sum>i<nat n. filter_mset (\<lambda>x. g x = int i) M) x =
        (\<Sum>i<nat n. if g x = int i then count M x else 0)"
      by (simp add: count_sum)
    also have "\<dots> = count M x"
    proof (cases "x \<in># M")
      case True
      then have "nat (g x) < nat n" "\<And>i. g x = int i \<longleftrightarrow> i = nat (g x)" using assms(3) by auto
      then show ?thesis by simp
    qed (simp add: not_in_iff)
    finally show "count (\<Sum>i<nat n. filter_mset (\<lambda>x. g x = int i) M) x = count M x" .
  qed
  finally show ?thesis .
qed


lemma partitionBy_mset:
  assumes "shuffle_ok env" and "num_partitions env np = n" "0 < n"
  shows "\<exists>out. partitionBy env np pf parts = Inr out \<and> length out = nat n \<and>
    mset (collect out) = mset (collect parts) \<and>
    (\<forall>i < nat n. \<forall>kv\<in>set (out ! i). pf (fst kv) mod n = int i)"
proof -
  obtain out where out: "partitionBy env np pf parts = Inr out" "length out = nat n"
    and ms: "\<forall>i < nat n. mset (out ! i) = filter_mset (\<lambda>(k, v). pf k mod n = int i) (mset (collect parts))"
    using partitionBy_content [OF assms, of pf parts] by blast
  have "mset (concat out) = mset (collect parts)"
    using ms assms(3) out(2)
    by (intro mset_concat_partition [where g = "\<lambda>kv. pf (fst kv) mod n"]) (auto simp: case_prod_unfold)
  moreover have "\<forall>kv\<in>set (out ! i). pf (fst kv) mod n = int i" if "i < nat n" for i
  proof -
    have "set (out ! i) = set_mset (filter_mset (\<lambda>(k, v). pf k mod n = int i) (mset (collect parts)))"
      using ms that by (metis set_mset_mset)
    then show ?thesis by auto
  qed
  ultimately show ?thesis using out by (simp add: collect_def)
qed

text \<open>A key occurs in one partition only when its partition is a function of the key.\<close>

lemma values_of_concat_keyed:
  assumes "length out = n" and "\<forall>i < n. \<forall>kv\<in>set (out ! i). h (fst kv) = int i"
    and "i < n" and "h k = int i"
  shows "values_of k (concat out) = values_of k (out ! i)"
proof -
  have "values_of k (out ! j) = []" if "j < n" "j \<noteq> i" for j
    using assms that by (force simp: values_of_eq_Nil_iff)
  then have "map (values_of k) out = (replicate n [])[i := values_of k (out ! i)]"
    using assms(1,3) by (intro nth_equalityI) (auto simp: nth_list_update)
  moreover have "concat ((replicate m [])[j := xs]) = xs" if "j < m" for m j and xs :: "'b list"
    using that by (induction m arbitrary: j) (auto split: nat.splits simp: concat_replicate_trivial)
  ultimately show ?thesis using assms(3) by (simp add: values_of_concat)
qed

lemma distinct_concat_keyed:
  assumes "length out = n" and "\<forall>i < n. \<forall>kv\<in>set (out ! i). h (fst kv) = int i"
    and "\<forall>i < n. distinct (map fst (out ! i))"
  shows "distinct (map fst (concat out))"
  using assms
proof (induction out arbitrary: n rule: rev_induct)
  case Nil
  then show ?case by simp
next
  case (snoc p out)
  then obtain m where n: "n = Suc m" and m: "length out = m" by auto
  have "distinct (map fst (concat out))"
    by (rule snoc.IH [OF m]) (use snoc.prems n m in \<open>auto simp: nth_append dest: less_SucI\<close>)
  moreover have "distinct (map fst p)" using snoc.prems(3) n m by (auto simp: nth_append)
  moreover have "fst ` set (concat out) \<inter> fst ` set p = {}"
  proof -
    have "\<forall>kv\<in>set p. h (fst kv) = int m"
      using snoc.prems(2) n m by (auto simp: nth_append)
    then have p: "h k = int m" if "k \<in> fst ` set p" for k
      using that by blast
    have "h k < int m" if kk: "k \<in> fst ` set (concat out)" for k
    proof -
      obtain q kv where "q \<in> set out" "kv \<in> set q" "k = fst kv" using kk by force
      then obtain i where "i < m" "kv \<in> set (out ! i)" using m by (metis in_set_conv_nth)
      then have "h (fst kv) = int i" using snoc.prems(2) n m by (auto simp: nth_append)
      then show ?thesis using \<open>i < m\<close> \<open>k = fst kv\<close> by simp
    qed
    then show ?thesis using p by fastforce
  qed
  ultimately show ?case by auto
qed

section \<open>\<open>combineByKey\<close>\<close>

definition combineLocally ::
  "('v \<Rightarrow> 'c) \<Rightarrow> ('c \<Rightarrow> 'v \<Rightarrow> 'c) \<Rightarrow> (('k, 'c) dict \<Rightarrow> ('k \<times> 'c) list) \<Rightarrow>
   ('k \<times> 'v) list \<Rightarrow> ('k \<times> 'c) list" where
  "combineLocally createCombiner mergeValue iteritems it =
     iteritems (fold (upsert createCombiner mergeValue) it [])"

definition mergeCombiners_partition ::
  "('c \<Rightarrow> 'c \<Rightarrow> 'c) \<Rightarrow> (('k, 'c) dict \<Rightarrow> ('k \<times> 'c) list) \<Rightarrow> ('k \<times> 'c) list \<Rightarrow> ('k \<times> 'c) list" where
  "mergeCombiners_partition mergeCombiners iteritems it =
     iteritems (fold (upsert (\<lambda>v. v) mergeCombiners) it [])"

definition combineByKey ::
  "('k, 'c) shuffle_env \<Rightarrow> ('v \<Rightarrow> 'c) \<Rightarrow> ('c \<Rightarrow> 'v \<Rightarrow> 'c) \<Rightarrow> ('c \<Rightarrow> 'c \<Rightarrow> 'c) \<Rightarrow> int option \<Rightarrow>
   ('k \<times> 'v) partitions \<Rightarrow> ('k \<times> 'c) partitions res" where
  "combineByKey env createCombiner mergeValue mergeCombiners numPartitions parts =
     (let n = num_partitions env numPartitions;
          locally_combined =
            mapPartitions (combineLocally createCombiner mergeValue (dict_items env)) parts
      in bind_res (partitionBy env (Some n) (hash_fn env) locally_combined) (\<lambda>shuffled.
           Inr (mapPartitions (mergeCombiners_partition mergeCombiners (dict_items env)) shuffled)))"

text \<open>
  The contract of the three functions: \<open>R M c\<close> says that the combined value \<open>c\<close> stands for
  the multiset \<open>M\<close> of values.
\<close>

locale combiner =
  fixes createCombiner :: "'v \<Rightarrow> 'c"
    and mergeValue :: "'c \<Rightarrow> 'v \<Rightarrow> 'c"
    and mergeCombiners :: "'c \<Rightarrow> 'c \<Rightarrow> 'c"
    and R :: "'v multiset \<Rightarrow> 'c \<Rightarrow> bool"
  assumes R_create: "R {#v#} (createCombiner v)"
    and R_value: "R M c \<Longrightarrow> R (add_mset v M) (mergeValue c v)"
    and R_combiners: "R M c \<Longrightarrow> R N d \<Longrightarrow> R (M + N) (mergeCombiners c d)"
begin

lemma R_values: "R M c \<Longrightarrow> R (M + mset vs) (foldl mergeValue c vs)"
proof (induction vs arbitrary: M c)
  case (Cons v vs)
  have "R (add_mset v M + mset vs) (foldl mergeValue (mergeValue c v) vs)"
    by (rule Cons.IH) (rule R_value [OF Cons.prems])
  then show ?case by simp
qed simp

lemma R_combined: "R M c \<Longrightarrow> list_all2 R Ms cs \<Longrightarrow>
    R (M + sum_mset (mset Ms)) (foldl mergeCombiners c cs)"
proof (induction cs arbitrary: M c Ms)
  case (Cons d cs)
  then obtain N Ns where Ms: "Ms = N # Ns" and N: "R N d" and Ns: "list_all2 R Ns cs"
    by (auto simp: list_all2_Cons2)
  have "R (M + N + sum_mset (mset Ns)) (foldl mergeCombiners (mergeCombiners c d) cs)"
    by (rule Cons.IH) (use Cons.prems(1) N Ns R_combiners in auto)
  then show ?case by (simp add: Ms add.assoc)
qed simp

lemma R_local:
  "(k, c) \<in> set (fold (upsert createCombiner mergeValue) it []) \<Longrightarrow> R (mset (values_of k it)) c"
  using R_values [OF R_create] by (auto simp: in_fold_upsert_iff)

text \<open>The combined values of a key over all partitions stand for all the values of the key.\<close>

lemma R_locals:
  assumes "iter_order items"
  shows "\<exists>Ms. list_all2 R Ms (values_of k (concat (map (combineLocally createCombiner mergeValue items) parts)))
    \<and> sum_mset (mset Ms) = mset (values_of k (concat parts))"
proof (induction parts)
  case Nil
  show ?case by simp
next
  case (Cons p parts)
  let ?d = "fold (upsert createCombiner mergeValue) p []"
  have loc: "values_of k (combineLocally createCombiner mergeValue items p) =
      (case map_of ?d k of None \<Rightarrow> [] | Some c \<Rightarrow> [c])"
    by (simp add: combineLocally_def values_of_iter_order [OF assms] values_of_distinct_keys)
  obtain Ms where Ms: "list_all2 R Ms
      (values_of k (concat (map (combineLocally createCombiner mergeValue items) parts)))"
    "sum_mset (mset Ms) = mset (values_of k (concat parts))"
    using Cons.IH by blast
  show ?case
  proof (cases "map_of ?d k")
    case None
    then have "values_of k p = []" by (auto simp: map_of_fold_upsert split: list.splits)
    then show ?thesis using None Ms loc by auto
  next
    case (Some c)
    then have "R (mset (values_of k p)) c" by (intro R_local) (rule map_of_SomeD)
    then show ?thesis
      using Some Ms loc by (intro exI [of _ "mset (values_of k p) # Ms"]) simp
  qed
qed

lemma R_merged:
  assumes locals: "list_all2 R Ms ds" and perm: "mset cs = mset ds"
    and cs: "cs = c # cs'"
  shows "R (sum_mset (mset Ms)) (foldl mergeCombiners c cs')"
proof -
  obtain Ms' where Ms': "list_all2 R Ms' cs" "mset Ms' = mset Ms"
    using list_all2_reorder_left_invariance [of "\<lambda>c M. R M c" ds Ms cs] locals perm
    by (auto simp: list.rel_flip [of R, symmetric] conversep_iff [abs_def])
  then obtain M Ns where "Ms' = M # Ns" "R M c" "list_all2 R Ns cs'"
    using cs by (auto simp: list_all2_Cons2)
  then show ?thesis using R_combined [of M c Ns cs'] Ms'(2) by (metis mset.simps(2) sum_mset.add_mset)
qed

lemma combineByKey_correct:
  assumes env: "shuffle_ok env" and n: "num_partitions env np = n" "0 < n"
  shows "\<exists>out. combineByKey env createCombiner mergeValue mergeCombiners np parts = Inr out \<and>
    length out = nat n \<and>
    (\<forall>i < nat n. \<forall>kc\<in>set (out ! i). hash_fn env (fst kc) mod n = int i) \<and>
    distinct (map fst (collect out)) \<and>
    fst ` set (collect out) = fst ` set (collect parts) \<and>
    (\<forall>(k, c)\<in>set (collect out). R (mset (values_of k (collect parts))) c)"
proof -
  let ?items = "dict_items env" and ?h = "\<lambda>k. hash_fn env k mod n"
  let ?loc = "map (combineLocally createCombiner mergeValue ?items) parts"
  have ord: "iter_order ?items" using env by (simp add: shuffle_ok_def)
  have n': "num_partitions env (Some n) = n" by (simp add: num_partitions_def)
  obtain sh where sh: "partitionBy env (Some n) (hash_fn env) ?loc = Inr sh" "length sh = nat n"
    and ms: "mset (collect sh) = mset (collect ?loc)"
    and at: "\<forall>i < nat n. \<forall>kv\<in>set (sh ! i). ?h (fst kv) = int i"
    using partitionBy_mset [OF env n' n(2), of "hash_fn env" ?loc] by blast
  let ?m = "mergeCombiners_partition mergeCombiners ?items"
  let ?out = "map ?m sh"
  have eq: "combineByKey env createCombiner mergeValue mergeCombiners np parts = Inr ?out"
    using sh(1) n(1) by (simp add: combineByKey_def)
  have keys_m: "fst ` set (?m p) = fst ` set p" and dist_m: "distinct (map fst (?m p))" for p
    by (simp_all add: mergeCombiners_partition_def ord iter_order_distinct_keys keys_fold_upsert)
  have at_out: "\<forall>i < nat n. \<forall>kc\<in>set (?out ! i). ?h (fst kc) = int i"
  proof (intro allI impI ballI)
    fix i kc assume i: "i < nat n" and kc: "kc \<in> set (?out ! i)"
    then have "fst kc \<in> fst ` set (sh ! i)" using sh(2) keys_m [of "sh ! i"] by force
    then obtain kv where "kv \<in> set (sh ! i)" "fst kv = fst kc" by force
    then show "?h (fst kc) = int i" using at i by metis
  qed
  have keys_loc: "fst ` set (combineLocally createCombiner mergeValue ?items p) = fst ` set p" for p
    by (simp add: combineLocally_def ord keys_fold_upsert)
  have "fst ` set (collect ?out) = fst ` set (collect sh)"
    using keys_m by (simp add: collect_def image_UN)
  also have "\<dots> = fst ` set (collect ?loc)" using ms by (metis set_mset_mset)
  also have "\<dots> = fst ` set (collect parts)"
    using keys_loc by (simp add: collect_def image_UN)
  finally have keys: "fst ` set (collect ?out) = fst ` set (collect parts)" .
  have "distinct (map fst (concat ?out))"
    using distinct_concat_keyed [of ?out "nat n" ?h] at_out dist_m sh(2) by simp
  moreover have "R (mset (values_of k (collect parts))) c" if kc: "(k, c) \<in> set (collect ?out)" for k c
  proof -
    obtain p where p: "p \<in> set sh" "(k, c) \<in> set (?m p)" using kc by (auto simp: collect_def)
    obtain i where i: "i < nat n" "p = sh ! i" using p(1) sh(2) by (metis in_set_conv_nth)
    have "(k, c) \<in> set (fold (upsert (\<lambda>v. v) mergeCombiners) p [])"
      using p(2) ord by (simp add: mergeCombiners_partition_def)
    then obtain c0 cs where cs: "values_of k p = c0 # cs" "c = foldl mergeCombiners c0 cs"
      by (auto simp: in_fold_upsert_iff)
    have "(k, c0) \<in> set p" using cs(1) by (metis in_set_values_of list.set_intros(1))
    then have hk: "?h k = int i" using at i by fastforce
    have "values_of k (concat sh) = values_of k p"
      using values_of_concat_keyed [of sh "nat n" ?h i k] at sh(2) i hk by simp
    then have "mset (values_of k p) = mset (values_of k (concat ?loc))"
      using mset_values_of_cong [OF ms, of k] by (simp add: collect_def)
    moreover obtain Ms where "list_all2 R Ms (values_of k (concat ?loc))"
      "sum_mset (mset Ms) = mset (values_of k (concat parts))"
      using R_locals [OF ord, of k parts] by blast
    ultimately show ?thesis
      using R_merged [of Ms _ "values_of k p" c0 cs] cs by (simp add: collect_def)
  qed
  ultimately show ?thesis
    using eq sh(2) at_out keys by (auto simp: collect_def)
qed

end


section \<open>\<open>reduceByKey\<close>, \<open>foldByKey\<close>, \<open>groupByKey\<close>, \<open>distinct\<close>\<close>

definition reduceByKey ::
  "('k, 'v) shuffle_env \<Rightarrow> ('v \<Rightarrow> 'v \<Rightarrow> 'v) \<Rightarrow> int option \<Rightarrow> ('k \<times> 'v) partitions \<Rightarrow>
   ('k \<times> 'v) partitions res" where
  "reduceByKey env func numPartitions parts = combineByKey env (\<lambda>x. x) func func numPartitions parts"

definition foldByKey ::
  "('k, 'v) shuffle_env \<Rightarrow> 'v \<Rightarrow> ('v \<Rightarrow> 'v \<Rightarrow> 'v) \<Rightarrow> int option \<Rightarrow> ('k \<times> 'v) partitions \<Rightarrow>
   ('k \<times> 'v) partitions res" where
  "foldByKey env zeroValue func numPartitions parts =
     combineByKey env (\<lambda>v. func zeroValue v) func func numPartitions parts"

text \<open>\<open>pyspark/resultiterable.py\<close>\<close>

record 'a result_iterable =
  ri_data :: "'a list"
  ri_index :: int
  ri_maxindex :: int

definition ResultIterable :: "'a list \<Rightarrow> 'a result_iterable" where
  "ResultIterable data = \<lparr>ri_data = data, ri_index = 0, ri_maxindex = int (length data)\<rparr>"

definition ri_iter :: "'a result_iterable \<Rightarrow> 'a list" where
  "ri_iter r = ri_data r"

definition ri_len :: "'a result_iterable \<Rightarrow> int" where
  "ri_len r = int (length (ri_data r))"

lemma ri_iter_ResultIterable [simp]: "ri_iter (ResultIterable xs) = xs"
  by (simp add: ri_iter_def ResultIterable_def)

lemma ri_len_ResultIterable [simp]: "ri_len (ResultIterable xs) = int (length xs)"
  by (simp add: ri_len_def ResultIterable_def)

definition group_createCombiner :: "'v \<Rightarrow> 'v list" where
  "group_createCombiner x = [x]"

definition group_mergeValue :: "'v list \<Rightarrow> 'v \<Rightarrow> 'v list" where
  "group_mergeValue xs x = xs @ [x]"

definition group_mergeCombiners :: "'v list \<Rightarrow> 'v list \<Rightarrow> 'v list" where
  "group_mergeCombiners a b = a @ b"

definition groupByKey ::
  "('k, 'v list) shuffle_env \<Rightarrow> int option \<Rightarrow> ('k \<times> 'v) partitions \<Rightarrow>
   ('k \<times> 'v result_iterable) partitions res" where
  "groupByKey env numPartitions parts =
     map_res (mapValues (\<lambda>x. ResultIterable x))
       (combineByKey env group_createCombiner group_mergeValue group_mergeCombiners numPartitions parts)"

definition groupBy ::
  "('k, 'v list) shuffle_env \<Rightarrow> ('v \<Rightarrow> 'k) \<Rightarrow> int option \<Rightarrow> 'v partitions \<Rightarrow>
   ('k \<times> 'v result_iterable) partitions res" where
  "groupBy env f numPartitions parts = groupByKey env numPartitions (rdd_map (\<lambda>x. (f x, x)) parts)"

definition rdd_distinct :: "('a, unit) shuffle_env \<Rightarrow> 'a partitions \<Rightarrow> 'a partitions res" where
  "rdd_distinct env parts =
     map_res (rdd_map (\<lambda>(x, _). x))
       (reduceByKey env (\<lambda>x _. x) None (rdd_map (\<lambda>x. (x, ())) parts))"

interpretation group: combiner group_createCombiner group_mergeValue group_mergeCombiners
    "\<lambda>M xs. mset xs = M"
  by unfold_locales (simp_all add: group_createCombiner_def group_mergeValue_def group_mergeCombiners_def)

text \<open>A commutative and associative operator combines by key: the value is a fold of the values.\<close>

sublocale reduce_operator \<subseteq> by_key: combiner "\<lambda>v. v" f f
    "\<lambda>M c. \<exists>v vs. M = mset (v # vs) \<and> c = foldl f v vs"
proof (unfold_locales, goal_cases)
  case (1 v)
  show ?case by (rule exI [of _ v], rule exI [of _ "[]"]) simp
next
  case (2 M c v)
  then obtain w ws where "M = mset (w # ws)" "c = foldl f w ws" by blast
  then show ?case by (intro exI [of _ w] exI [of _ "ws @ [v]"]) simp
next
  case (3 M c N d)
  then obtain w ws x xs where *: "M = mset (w # ws)" "c = foldl f w ws"
    "N = mset (x # xs)" "d = foldl f x xs" by blast
  then have "f c d = foldl f w (ws @ x # xs)" by (simp add: foldl_start)
  then show ?case using * by (intro exI [of _ w] exI [of _ "ws @ x # xs"]) simp
qed

interpretation keep_unit: reduce_operator "\<lambda>(x :: unit) _. x" "\<lambda>_. False"
  by unfold_locales simp_all

context reduce_operator
begin

lemma reduceByKey_lookup:
  assumes "shuffle_ok env" and "num_partitions env np = n" "0 < n"
  shows "\<exists>out. reduceByKey env f np parts = Inr out \<and> length out = nat n \<and>
    distinct (map fst (collect out)) \<and>
    (\<forall>k. map_of (collect out) k =
       (case values_of k (collect parts) of [] \<Rightarrow> None | v # vs \<Rightarrow> Some (foldl f v vs)))"
proof -
  obtain out where out: "reduceByKey env f np parts = Inr out" "length out = nat n"
    and dist: "distinct (map fst (collect out))"
    and keys: "fst ` set (collect out) = fst ` set (collect parts)"
    and vals: "\<forall>(k, c)\<in>set (collect out). \<exists>v vs. mset (values_of k (collect parts)) = mset (v # vs) \<and> c = foldl f v vs"
    using by_key.combineByKey_correct [OF assms, of parts] unfolding reduceByKey_def by blast
  have "map_of (collect out) k =
      (case values_of k (collect parts) of [] \<Rightarrow> None | v # vs \<Rightarrow> Some (foldl f v vs))" for k
  proof (cases "values_of k (collect parts)")
    case Nil
    then have "k \<notin> fst ` set (collect out)" using keys by (simp add: values_of_eq_Nil_iff)
    then show ?thesis using Nil by (simp add: map_of_eq_None_iff)
  next
    case (Cons v vs)
    then have "k \<in> fst ` set (collect out)"
      using keys by (metis values_of_eq_Nil_iff list.discI)
    then obtain c where c: "(k, c) \<in> set (collect out)" by force
    with vals obtain w ws where "mset (v # vs) = mset (w # ws)" "c = foldl f w ws"
      unfolding Cons [symmetric] by blast
    then have "c = foldl f v vs" using foldl1_mset by metis
    then show ?thesis using c dist Cons by simp
  qed
  then show ?thesis using out dist by blast
qed

end

lemma groupByKey_groups:
  assumes "shuffle_ok env" and "num_partitions env np = n" "0 < n"
  shows "\<exists>out. groupByKey env np parts = Inr out \<and> length out = nat n \<and>
    distinct (map fst (collect out)) \<and>
    fst ` set (collect out) = fst ` set (collect parts) \<and>
    (\<forall>(k, g)\<in>set (collect out). mset (ri_iter g) = mset (values_of k (collect parts)))"
proof -
  obtain out where out: "combineByKey env group_createCombiner group_mergeValue group_mergeCombiners np parts = Inr out"
      "length out = nat n"
    and dist: "distinct (map fst (collect out))"
    and keys: "fst ` set (collect out) = fst ` set (collect parts)"
    and vals: "\<forall>(k, c)\<in>set (collect out). mset c = mset (values_of k (collect parts))"
    using group.combineByKey_correct [OF assms, of parts] by blast
  let ?out = "mapValues ResultIterable out"
  have c: "collect ?out = map (\<lambda>(k, v). (k, ResultIterable v)) (collect out)"
    by (rule collect_mapValues)
  have "groupByKey env np parts = Inr ?out" by (simp add: groupByKey_def out)
  moreover have "length ?out = nat n" using out by (simp add: mapValues_def)
  moreover have "map fst (collect ?out) = map fst (collect out)" by (simp add: c case_prod_unfold)
  moreover have "fst ` set (collect ?out) = fst ` set (collect out)" by (force simp: c)
  moreover have "\<forall>(k, g)\<in>set (collect ?out). mset (ri_iter g) = mset (values_of k (collect parts))"
    using vals by (auto simp: c)
  ultimately show ?thesis using dist keys by metis
qed

lemma distinct_set:
  assumes "shuffle_ok env" and "0 < defaultParallelism env"
  shows "\<exists>out. rdd_distinct env parts = Inr out \<and> distinct (collect out) \<and>
    set (collect out) = set (collect parts)"
proof -
  let ?p = "map (map (\<lambda>x. (x, ()))) parts"
  have n: "num_partitions env None = defaultParallelism env" by (simp add: num_partitions_def)
  obtain out where out: "combineByKey env (\<lambda>v. v) (\<lambda>x _. x) (\<lambda>x _. x) None ?p = Inr out"
    and dist: "distinct (map fst (collect out))"
    and keys: "fst ` set (collect out) = fst ` set (collect ?p)"
    using keep_unit.by_key.combineByKey_correct [OF assms(1) n assms(2), of ?p] by blast
  have "rdd_map (\<lambda>x. (x, ())) parts = ?p"
    by (simp add: rdd_map_def)
  then have "reduceByKey env (\<lambda>x _. x) None (rdd_map (\<lambda>x. (x, ())) parts) = Inr out"
    unfolding reduceByKey_def using out by (simp only:)
  then have "rdd_distinct env parts = Inr (rdd_map (\<lambda>(x, _). x) out)"
    unfolding rdd_distinct_def by (simp only: map_res.simps)
  moreover have "rdd_map (\<lambda>(x, _). x) out = map (map fst) out"
    by (simp add: rdd_map_def case_prod_unfold)
  ultimately have "rdd_distinct env parts = Inr (map (map fst) out)" by (simp only:)
  moreover have "fst ` set (collect ?p) = set (collect parts)" by (force simp: image_iff)
  moreover have "collect (map (map fst) out) = map fst (collect out)"
    by (simp add: collect_def map_concat)
  ultimately show ?thesis using dist keys by (simp only:) simp
qed

section \<open>Properties\<close>

text \<open>
  C31: \<open>partitionBy\<close> neither loses nor duplicates a pair, and puts every pair in the partition
  its key's \<open>partitionFunc(k) % numPartitions\<close> names, negative hashes included.
\<close>

theorem partitionBy_places_every_pair:
  assumes "shuffle_ok env" and "num_partitions env np = n" and "0 < n"
  shows "\<exists>out. partitionBy env np pf parts = Inr out \<and> length out = nat n \<and>
    mset (collect out) = mset (collect parts) \<and>
    (\<forall>i < nat n. \<forall>(k, v)\<in>set (out ! i). pf k mod n = int i)"
proof -
  obtain out where out: "partitionBy env np pf parts = Inr out" "length out = nat n"
    and cont: "\<forall>i < nat n. mset (out ! i) = filter_mset (\<lambda>(k, v). pf k mod n = int i) (mset (collect parts))"
    using partitionBy_content [OF assms] by blast
  have "mset (collect out) = mset (collect parts)"
    using partitionBy_mset [OF assms, of pf parts] out(1) by auto
  moreover have "\<forall>(k, v)\<in>set (out ! i). pf k mod n = int i" if i: "i < nat n" for i
  proof -
    have "set (out ! i) = set_mset (filter_mset (\<lambda>(k, v). pf k mod n = int i) (mset (collect parts)))"
      using cont i by (metis set_mset_mset)
    then show ?thesis by auto
  qed
  ultimately show ?thesis using out by blast
qed

theorem partitionBy_places_every_pair_witness:
  "\<exists>out. partitionBy (ordered_env 1 (\<lambda>k :: int. k)) (Some 2) (\<lambda>k. k)
      [[(3, ''a''), (- 2, ''b'')], [(4, ''c'')]] = Inr out \<and> length out = nat 2 \<and>
    mset (collect out) = mset (collect [[(3, ''a''), (- 2, ''b'')], [(4, ''c'')]]) \<and>
    (\<forall>i < nat 2. \<forall>(k, v)\<in>set (out ! i). k mod 2 = int i)"
  by (rule partitionBy_places_every_pair [OF shuffle_ok_ordered_env])
    (simp_all add: num_partitions_def)

text \<open>
  C4: \<open>combineByKey\<close> computes one combiner per key: whatever the hash function, the order of
  the dictionaries and the order in which the shuffle delivers, the combiner stands in the
  relation \<open>R\<close> to all the values of its key, provided the three functions maintain \<open>R\<close>.
\<close>

theorem combineByKey_combines_all_values:
  assumes "\<And>v. R {#v#} (createCombiner v)"
    and "\<And>M c v. R M c \<Longrightarrow> R (M + {#v#}) (mergeValue c v)"
    and "\<And>M c N d. R M c \<Longrightarrow> R N d \<Longrightarrow> R (M + N) (mergeCombiners c d)"
    and "shuffle_ok env" and "num_partitions env np = n" and "0 < n"
  shows "\<exists>out. combineByKey env createCombiner mergeValue mergeCombiners np parts = Inr out \<and>
    length out = nat n \<and> distinct (map fst (collect out)) \<and>
    fst ` set (collect out) = fst ` set (collect parts) \<and>
    (\<forall>(k, c)\<in>set (collect out). R (mset (values_of k (collect parts))) c)"
proof -
  have "combiner createCombiner mergeValue mergeCombiners R"
    using assms(1-3) by unfold_locales auto
  then obtain out where "combineByKey env createCombiner mergeValue mergeCombiners np parts = Inr out"
      "length out = nat n" "distinct (map fst (collect out))"
      "fst ` set (collect out) = fst ` set (collect parts)"
      "\<forall>(k, c)\<in>set (collect out). R (mset (values_of k (collect parts))) c"
    using combiner.combineByKey_correct [OF _ assms(4-6)] by blast
  then show ?thesis by blast
qed

theorem combineByKey_combines_all_values_witness:
  "\<exists>out. combineByKey (ordered_env 2 (\<lambda>k :: int. k)) int (\<lambda>c v. c + int v) (\<lambda>c d. c + d) None
      [[(1, 5), (2, 6 :: nat)], [(1, 7)]] = Inr out \<and>
    length out = nat 2 \<and> distinct (map fst (collect out)) \<and>
    fst ` set (collect out) = fst ` set (collect [[(1, 5), (2, 6 :: nat)], [(1, 7)]]) \<and>
    (\<forall>(k, c)\<in>set (collect out).
       c = int (sum_mset (mset (values_of k (collect [[(1, 5), (2, 6)], [(1, 7)]])))))"
  by (rule combineByKey_combines_all_values
      [where R = "\<lambda>M c. c = int (sum_mset M)", OF _ _ _ shuffle_ok_ordered_env])
    (simp_all add: num_partitions_def ordered_env_def)

text \<open>
  C23: \<open>reduceByKey\<close> with an associative and commutative function returns each key once, with
  the reduction of its values, and no other key.
\<close>

theorem reduceByKey_reduces_each_key:
  assumes assoc: "\<And>x y z. f (f x y) z = f x (f y z)" and comm: "\<And>x y. f x y = f y x"
    and env: "shuffle_ok env" "num_partitions env np = n" "0 < n"
  shows "\<exists>out. reduceByKey env f np parts = Inr out \<and> length out = nat n \<and>
    distinct (map fst (collect out)) \<and>
    (\<forall>k. map_of (collect out) k =
       (case values_of k (collect parts) of [] \<Rightarrow> None | v # vs \<Rightarrow> Some (foldl f v vs)))"
proof -
  have "reduce_operator f (\<lambda>_. False)"
    using assoc comm by unfold_locales auto
  then show ?thesis using env by (rule reduce_operator.reduceByKey_lookup)
qed

theorem reduceByKey_reduces_each_key_witness:
  "\<exists>out. reduceByKey (ordered_env 2 (\<lambda>k :: int. k)) (+) (Some 3) [[(1, 5), (2, 6)], [(1, 7 :: int)]] = Inr out \<and>
    length out = nat 3 \<and> distinct (map fst (collect out)) \<and>
    (\<forall>k. map_of (collect out) k =
       (case values_of k (collect [[(1, 5), (2, 6)], [(1, 7)]]) of [] \<Rightarrow> None | v # vs \<Rightarrow> Some (foldl (+) v vs)))"
  by (rule reduceByKey_reduces_each_key [OF _ _ shuffle_ok_ordered_env])
    (simp_all add: num_partitions_def)

text \<open>
  \<open>groupByKey\<close> returns each key once, with exactly the values of that key, each as often
  as it occurs.
\<close>

theorem groupByKey_groups_values:
  assumes "shuffle_ok env" and "num_partitions env np = n" and "0 < n"
  shows "\<exists>out. groupByKey env np parts = Inr out \<and> length out = nat n \<and>
    distinct (map fst (collect out)) \<and>
    fst ` set (collect out) = fst ` set (collect parts) \<and>
    (\<forall>(k, g)\<in>set (collect out). mset (ri_iter g) = mset (values_of k (collect parts)))"
  using assms by (rule groupByKey_groups)

theorem groupByKey_groups_values_witness:
  "\<exists>out. groupByKey (ordered_env 2 (\<lambda>k :: int. k)) None [[(1, ''x''), (2, ''y'')], [(1, ''x'')]] = Inr out \<and>
    length out = nat 2 \<and> distinct (map fst (collect out)) \<and>
    fst ` set (collect out) = fst ` set (collect [[(1, ''x''), (2, ''y'')], [(1, ''x'')]]) \<and>
    (\<forall>(k, g)\<in>set (collect out).
       mset (ri_iter g) = mset (values_of k (collect [[(1, ''x''), (2, ''y'')], [(1, ''x'')]])))"
  by (rule groupByKey_groups_values [OF shuffle_ok_ordered_env])
    (simp_all add: num_partitions_def ordered_env_def)

text \<open>\<open>distinct\<close> keeps exactly the elements of the RDD, each once.\<close>

theorem distinct_keeps_each_element_once:
  assumes "shuffle_ok env" and "0 < defaultParallelism env"
  shows "\<exists>out. rdd_distinct env parts = Inr out \<and> distinct (collect out) \<and>
    set (collect out) = set (collect parts)"
  using assms by (rule distinct_set)

theorem distinct_keeps_each_element_once_witness:
  "\<exists>out. rdd_distinct (ordered_env 2 (\<lambda>k :: int. k)) [[1, 2, 1], [2]] = Inr out \<and>
    distinct (collect out) \<and> set (collect out) = set (collect [[1, 2, 1], [2 :: int]])"
  by (rule distinct_keeps_each_element_once [OF shuffle_ok_ordered_env])
    (simp add: ordered_env_def)

end
