(* ===== verification/Joins.thy ===== *)
theory Joins
  imports Shuffle Serializers
begin

text \<open>
  \<open>pyspark/join.py\<close> and the operations of \<open>pyspark/rdd.py\<close> that rest on it: the joins,
  \<open>cogroup\<close>, \<open>subtractByKey\<close>, \<open>subtract\<close> and \<open>intersection\<close>. The two sides of a join are
  tagged 1 and 2, grouped together by key and told apart again by \<open>dispatch\<close>.
\<close>

section \<open>Tagging and dispatch\<close>

text \<open>The values of the two sides may have different types: a value is a tagged sum.\<close>

type_synonym ('v, 'w) tagged = "int \<times> ('v + 'w)"

definition tag_left :: "('k \<times> 'v) partitions \<Rightarrow> ('k \<times> ('v, 'w) tagged) partitions" where
  "tag_left rdd = rdd_map (\<lambda>(k, v). (k, (1, Inl v))) rdd"

definition tag_right :: "('k \<times> 'w) partitions \<Rightarrow> ('k \<times> ('v, 'w) tagged) partitions" where
  "tag_right other = rdd_map (\<lambda>(k, v). (k, (2, Inr v))) other"

text \<open>The loop every \<open>dispatch\<close> runs: values tagged 1 into \<open>vbuf\<close>, tagged 2 into \<open>wbuf\<close>.\<close>

fun dispatch_bufs :: "('v, 'w) tagged list \<Rightarrow> 'v list \<times> 'w list \<Rightarrow> 'v list \<times> 'w list" where
  "dispatch_bufs [] bufs = bufs"
| "dispatch_bufs ((n, x) # seq) (vbuf, wbuf) =
     (if n = 1 then dispatch_bufs seq (case x of Inl v \<Rightarrow> vbuf @ [v] | Inr _ \<Rightarrow> vbuf, wbuf)
      else if n = 2 then dispatch_bufs seq (vbuf, case x of Inr w \<Rightarrow> wbuf @ [w] | Inl _ \<Rightarrow> wbuf)
      else dispatch_bufs seq (vbuf, wbuf))"

definition pairs_of :: "'v list \<Rightarrow> 'w list \<Rightarrow> ('v \<times> 'w) list" where
  "pairs_of vbuf wbuf = concat (map (\<lambda>v. map (\<lambda>w. (v, w)) wbuf) vbuf)"

definition join_dispatch :: "('v, 'w) tagged list \<Rightarrow> ('v \<times> 'w) list" where
  "join_dispatch seq = (let (vbuf, wbuf) = dispatch_bufs seq ([], []) in pairs_of vbuf wbuf)"

text \<open>The value \<open>None\<close> that an outer join adds is \<^const>\<open>None\<close>; values of the RDD are \<open>Some\<close>.\<close>

definition right_outer_dispatch :: "('v, 'w) tagged list \<Rightarrow> ('v option \<times> 'w) list" where
  "right_outer_dispatch seq =
     (let (vbuf, wbuf) = dispatch_bufs seq ([], []);
          vbuf' = (if vbuf = [] then [None] else map Some vbuf)
      in pairs_of vbuf' wbuf)"

definition left_outer_dispatch :: "('v, 'w) tagged list \<Rightarrow> ('v \<times> 'w option) list" where
  "left_outer_dispatch seq =
     (let (vbuf, wbuf) = dispatch_bufs seq ([], []);
          wbuf' = (if wbuf = [] then [None] else map Some wbuf)
      in pairs_of vbuf wbuf')"

definition cogroup_dispatch ::
  "('v, 'w) tagged list \<Rightarrow> 'v result_iterable \<times> 'w result_iterable" where
  "cogroup_dispatch seq =
     (let (vbuf, wbuf) = dispatch_bufs seq ([], []) in (ResultIterable vbuf, ResultIterable wbuf))"

section \<open>\<open>union\<close>\<close>

text \<open>
  \<open>union\<close> hands the partitions to the JVM, after both sides have been brought to the serializer
  of the context when their serialized formats differ. The JVM's \<open>union\<close> is an argument.
\<close>

record 'a union_env =
  ctx_serializer :: serializer
  jvm_union :: "'a partitions \<Rightarrow> 'a partitions \<Rightarrow> 'a partitions"

definition union_ok :: "'a union_env \<Rightarrow> bool" where
  "union_ok u \<longleftrightarrow> (\<forall>a b. mset (concat (jvm_union u a b)) = mset (concat a) + mset (concat b))"

definition append_union :: "serializer \<Rightarrow> 'a union_env" where
  "append_union ser = \<lparr>ctx_serializer = ser, jvm_union = (\<lambda>a b. a @ b)\<rparr>"

lemma union_ok_append_union: "union_ok (append_union ser)"
  by (simp add: union_ok_def append_union_def)

definition reserialize :: "'a union_env \<Rightarrow> serializer \<Rightarrow> 'a partitions \<Rightarrow> 'a partitions" where
  "reserialize u deserializer self =
     (if ser_op_eq deserializer (ctx_serializer u) then self else rdd_map (\<lambda>x. x) self)"

definition rdd_union ::
  "'a union_env \<Rightarrow> serializer \<Rightarrow> serializer \<Rightarrow> 'a partitions \<Rightarrow> 'a partitions \<Rightarrow> 'a partitions" where
  "rdd_union u self_deserializer other_deserializer self other =
     (if ser_op_eq self_deserializer other_deserializer then jvm_union u self other
      else jvm_union u (reserialize u self_deserializer self) (reserialize u other_deserializer other))"

lemma collect_reserialize [simp]: "reserialize u d self = self"
  by (simp add: reserialize_def rdd_map_def)

lemma mset_rdd_union:
  "union_ok u \<Longrightarrow> mset (collect (rdd_union u d d' a b)) = mset (collect a) + mset (collect b)"
  by (simp add: rdd_union_def union_ok_def collect_def)

section \<open>The joins\<close>

type_synonym ('k, 'v, 'w) join_env = "('k, ('v, 'w) tagged list) shuffle_env"

definition do_python_join ::
  "('k, 'v, 'w) join_env \<Rightarrow> ('k \<times> ('v, 'w) tagged) union_env \<Rightarrow> ('k \<times> 'v) partitions \<Rightarrow> ('k \<times> 'w) partitions \<Rightarrow> int option \<Rightarrow>
   (('v, 'w) tagged list \<Rightarrow> 'r list) \<Rightarrow> ('k \<times> 'r) partitions res" where
  "do_python_join env u rdd other numPartitions dispatch =
     map_res (flatMapValues (\<lambda>x. dispatch (ri_iter x)))
       (groupByKey env numPartitions (rdd_union u (ctx_serializer u) (ctx_serializer u) (tag_left rdd) (tag_right other)))"

definition python_join ::
  "('k, 'v, 'w) join_env \<Rightarrow> ('k \<times> ('v, 'w) tagged) union_env \<Rightarrow> ('k \<times> 'v) partitions \<Rightarrow> ('k \<times> 'w) partitions \<Rightarrow> int option \<Rightarrow>
   ('k \<times> ('v \<times> 'w)) partitions res" where
  "python_join env u rdd other numPartitions = do_python_join env u rdd other numPartitions join_dispatch"

definition python_right_outer_join ::
  "('k, 'v, 'w) join_env \<Rightarrow> ('k \<times> ('v, 'w) tagged) union_env \<Rightarrow> ('k \<times> 'v) partitions \<Rightarrow> ('k \<times> 'w) partitions \<Rightarrow> int option \<Rightarrow>
   ('k \<times> ('v option \<times> 'w)) partitions res" where
  "python_right_outer_join env u rdd other numPartitions =
     do_python_join env u rdd other numPartitions right_outer_dispatch"

definition python_left_outer_join ::
  "('k, 'v, 'w) join_env \<Rightarrow> ('k \<times> ('v, 'w) tagged) union_env \<Rightarrow> ('k \<times> 'v) partitions \<Rightarrow> ('k \<times> 'w) partitions \<Rightarrow> int option \<Rightarrow>
   ('k \<times> ('v \<times> 'w option)) partitions res" where
  "python_left_outer_join env u rdd other numPartitions =
     do_python_join env u rdd other numPartitions left_outer_dispatch"

definition python_cogroup ::
  "('k, 'v, 'w) join_env \<Rightarrow> ('k \<times> ('v, 'w) tagged) union_env \<Rightarrow> ('k \<times> 'v) partitions \<Rightarrow> ('k \<times> 'w) partitions \<Rightarrow> int option \<Rightarrow>
   ('k \<times> ('v result_iterable \<times> 'w result_iterable)) partitions res" where
  "python_cogroup env u rdd other numPartitions =
     map_res (mapValues (\<lambda>x. cogroup_dispatch (ri_iter x)))
       (groupByKey env numPartitions (rdd_union u (ctx_serializer u) (ctx_serializer u) (tag_left rdd) (tag_right other)))"

definition subtractByKey ::
  "('k, 'v, 'w) join_env \<Rightarrow> ('k \<times> ('v, 'w) tagged) union_env \<Rightarrow> ('k \<times> 'v) partitions \<Rightarrow> ('k \<times> 'w) partitions \<Rightarrow> int option \<Rightarrow>
   ('k \<times> 'v) partitions res" where
  "subtractByKey env u self other numPartitions =
     map_res (\<lambda>cg.
         flatMap (\<lambda>(key, vals). map (\<lambda>val. (key, val)) (ri_iter (fst vals)))
           (rdd_filter (\<lambda>(key, vals). 0 < ri_len (fst vals) \<and> ri_len (snd vals) = 0) cg))
       (python_cogroup env u self other numPartitions)"

definition subtract ::
  "('a, bool, bool) join_env \<Rightarrow> ('a \<times> (bool, bool) tagged) union_env \<Rightarrow> 'a partitions \<Rightarrow> 'a partitions \<Rightarrow> int option \<Rightarrow> 'a partitions res" where
  "subtract env u self other numPartitions =
     (let rdd = rdd_map (\<lambda>x. (x, True)) other
      in map_res (rdd_map (\<lambda>tpl. fst tpl))
           (subtractByKey env u (rdd_map (\<lambda>x. (x, True)) self) rdd None))"

text \<open>The placeholder \<open>None\<close> that \<open>intersection\<close> pairs its elements with is \<^term>\<open>()\<close>.\<close>

definition intersection ::
  "('a, unit, unit) join_env \<Rightarrow> ('a \<times> (unit, unit) tagged) union_env \<Rightarrow> 'a partitions \<Rightarrow>
   'a partitions \<Rightarrow> 'a partitions res" where
  "intersection env u self other =
     map_res (\<lambda>cg. rdd_keys (rdd_filter (\<lambda>x. ri_len (fst (snd x)) \<noteq> 0 \<and> ri_len (snd (snd x)) \<noteq> 0) cg))
       (python_cogroup env u (rdd_map (\<lambda>v. (v, ())) self) (rdd_map (\<lambda>v. (v, ())) other) None)"

section \<open>What \<open>dispatch\<close> sees\<close>

definition lefts :: "('v, 'w) tagged list \<Rightarrow> 'v list" where
  "lefts = List.map_filter (\<lambda>(n, x). if n = 1 then (case x of Inl v \<Rightarrow> Some v | Inr _ \<Rightarrow> None) else None)"

definition rights :: "('v, 'w) tagged list \<Rightarrow> 'w list" where
  "rights = List.map_filter
     (\<lambda>(n, x). if n \<noteq> 1 \<and> n = 2 then (case x of Inr w \<Rightarrow> Some w | Inl _ \<Rightarrow> None) else None)"

lemma dispatch_bufs_eq: "dispatch_bufs seq (vbuf, wbuf) = (vbuf @ lefts seq, wbuf @ rights seq)"
  by (induction seq arbitrary: vbuf wbuf)
    (auto simp: lefts_def rights_def List.map_filter_simps split: sum.splits)

lemma mset_map_filter_cong: "mset xs = mset ys \<Longrightarrow> mset (List.map_filter f xs) = mset (List.map_filter f ys)"
  by (simp add: List.map_filter_def mset_filter)

lemma mset_lefts_rights_cong:
  assumes "mset xs = mset ys"
  shows "mset (lefts xs) = mset (lefts ys) \<and> mset (rights xs) = mset (rights ys)"
  unfolding lefts_def rights_def using assms by (intro conjI mset_map_filter_cong)

lemma lefts_rights_tagged:
  "lefts (map (\<lambda>v. (1, Inl v)) vs @ map (\<lambda>w. (2, Inr w)) ws) = vs"
  "rights (map (\<lambda>v. (1, Inl v)) vs @ map (\<lambda>w. (2, Inr w)) ws) = ws"
proof -
  have *: "lefts (xs @ ys) = lefts xs @ lefts ys" "rights (xs @ ys) = rights xs @ rights ys"
    for xs ys :: "('c, 'd) tagged list"
    by (simp_all add: lefts_def rights_def List.map_filter_def)
  have "lefts (map (\<lambda>v. (1, Inl v)) vs :: ('a, 'b) tagged list) = vs"
    "rights (map (\<lambda>v. (1, Inl v)) vs :: ('a, 'b) tagged list) = []"
    "lefts (map (\<lambda>w. (2, Inr w)) ws :: ('a, 'b) tagged list) = []"
    "rights (map (\<lambda>w. (2, Inr w)) ws :: ('a, 'b) tagged list) = ws"
    by (simp_all add: lefts_def rights_def List.map_filter_def comp_def)
  then show "lefts (map (\<lambda>v. (1, Inl v)) vs @ map (\<lambda>w. (2, Inr w)) ws) = vs"
    "rights (map (\<lambda>v. (1, Inl v)) vs @ map (\<lambda>w. (2, Inr w)) ws) = ws"
    by (simp_all add: *)
qed

lemma values_of_tags:
  "values_of k (collect (tag_left A)) = map (\<lambda>v. (1, Inl v)) (values_of k (collect A))"
  "values_of k (collect (tag_right B)) = map (\<lambda>w. (2, Inr w)) (values_of k (collect B))"
  by (simp_all add: tag_left_def tag_right_def rdd_map_def collect_def map_concat [symmetric])

text \<open>The group of a key holds the values of both sides, each with its tag.\<close>

lemma joined_groups:
  assumes "shuffle_ok env" "num_partitions env np = n" "0 < n" "union_ok u"
  shows "\<exists>grp. groupByKey env np (rdd_union u d d' (tag_left A) (tag_right B)) = Inr grp \<and>
    length grp = nat n \<and> distinct (map fst (collect grp)) \<and>
    fst ` set (collect grp) = fst ` set (collect A) \<union> fst ` set (collect B) \<and>
    (\<forall>(k, g)\<in>set (collect grp).
       mset (lefts (ri_iter g)) = mset (values_of k (collect A)) \<and>
       mset (rights (ri_iter g)) = mset (values_of k (collect B)))"
proof -
  let ?un = "rdd_union u d d' (tag_left A) (tag_right B)"
  obtain grp where grp: "groupByKey env np ?un = Inr grp" "length grp = nat n"
      "distinct (map fst (collect grp))"
    and keys: "fst ` set (collect grp) = fst ` set (collect ?un)"
    and vals: "\<forall>(k, g)\<in>set (collect grp). mset (ri_iter g) = mset (values_of k (collect ?un))"
    using groupByKey_groups [OF assms(1-3), of ?un] by blast
  have un: "mset (collect ?un) = mset (collect (tag_left A) @ collect (tag_right B))"
    by (simp add: mset_rdd_union [OF assms(4)])
  have g: "mset (lefts (ri_iter g)) = mset (values_of k (collect A)) \<and>
      mset (rights (ri_iter g)) = mset (values_of k (collect B))" if "(k, g) \<in> set (collect grp)" for k g
  proof -
    have "mset (ri_iter g) = mset (values_of k (collect ?un))" using vals that by blast
    also have "\<dots> = mset (values_of k (collect (tag_left A) @ collect (tag_right B)))"
      by (rule mset_values_of_cong [OF un])
    finally have m: "mset (ri_iter g) = mset (map (\<lambda>v. (1, Inl v)) (values_of k (collect A)) @
        map (\<lambda>w. (2, Inr w)) (values_of k (collect B)))"
      by (simp only: values_of_simps values_of_tags)
    show ?thesis
      using mset_lefts_rights_cong [OF m] by (simp only: lefts_rights_tagged)
  qed
  have "set (collect ?un) = set (collect (tag_left A)) \<union> set (collect (tag_right B))"
    using un by (metis set_append set_mset_mset)
  moreover have "fst ` set (collect (tag_left A :: ('a \<times> ('b, 'c) tagged) partitions)) = fst ` set (collect A)"
    by (force simp: tag_left_def rdd_map_def collect_def)
  moreover have "fst ` set (collect (tag_right B :: ('a \<times> ('b, 'c) tagged) partitions)) = fst ` set (collect B)"
    by (force simp: tag_right_def rdd_map_def collect_def)
  ultimately have "fst ` set (collect grp) = fst ` set (collect A) \<union> fst ` set (collect B)"
    by (simp add: keys image_Un)
  then show ?thesis using grp g by blast
qed

lemma values_of_flatMapValues:
  assumes "distinct (map fst (collect grp))"
  shows "values_of k (collect (flatMapValues f grp)) =
    (case map_of (collect grp) k of None \<Rightarrow> [] | Some g \<Rightarrow> f g)"
proof -
  have 1: "values_of k (map (Pair k') xs) = (if k' = k then xs else [])" for k' and xs :: "'c list"
    by (induction xs) auto
  have c: "collect (flatMapValues f grp) = concat (map (\<lambda>(k, g). map (Pair k) (f g)) (collect grp))"
    by (induction grp) (simp_all add: flatMapValues_def flatMap_def collect_def)
  have 2: "distinct (map fst kgs) \<Longrightarrow> values_of k (concat (map (\<lambda>(k, g). map (Pair k) (f g)) kgs)) =
      (case map_of kgs k of None \<Rightarrow> [] | Some g \<Rightarrow> f g)" for kgs
  proof (induction kgs)
    case (Cons kg kgs)
    then show ?case
      by (cases kg) (auto simp: 1 map_of_eq_None_iff [THEN iffD2] split: option.splits)
  qed simp
  show ?thesis unfolding c by (rule 2 [OF assms])
qed

text \<open>
  Every join: the values of a key are \<open>dispatch\<close> of the two sides' values, in some order. The
  joins differ in \<open>D\<close> only.
\<close>

lemma do_python_join_values:
  assumes ok: "shuffle_ok env" "num_partitions env np = n" "0 < n" "union_ok u"
    and D: "\<And>seq. dispatch seq = D (lefts seq) (rights seq)" "D [] [] = []"
  shows "\<exists>out. do_python_join env u A B np dispatch = Inr out \<and> length out = nat n \<and>
    (\<forall>k. \<exists>vs ws. mset vs = mset (values_of k (collect A)) \<and> mset ws = mset (values_of k (collect B)) \<and>
       values_of k (collect out) = D vs ws)"
proof -
  obtain grp where grp: "groupByKey env np
        (rdd_union u (ctx_serializer u) (ctx_serializer u) (tag_left A) (tag_right B)) = Inr grp"
      "length grp = nat n" and dist: "distinct (map fst (collect grp))"
    and keys: "fst ` set (collect grp) = fst ` set (collect A) \<union> fst ` set (collect B)"
    and vals: "\<forall>(k, g)\<in>set (collect grp).
       mset (lefts (ri_iter g)) = mset (values_of k (collect A)) \<and>
       mset (rights (ri_iter g)) = mset (values_of k (collect B))"
    using joined_groups [OF ok, of "ctx_serializer u" "ctx_serializer u" A B] by blast
  let ?out = "flatMapValues (\<lambda>x. dispatch (ri_iter x)) grp"
  have "\<exists>vs ws. mset vs = mset (values_of k (collect A)) \<and> mset ws = mset (values_of k (collect B)) \<and>
       values_of k (collect ?out) = D vs ws" for k
  proof (cases "map_of (collect grp) k")
    case None
    then have "k \<notin> fst ` set (collect grp)" by (simp add: map_of_eq_None_iff)
    then have "values_of k (collect A) = []" "values_of k (collect B) = []"
      using keys by (simp_all add: values_of_eq_Nil_iff)
    then show ?thesis using None D(2) by (simp add: values_of_flatMapValues [OF dist])
  next
    case (Some g)
    then have "(k, g) \<in> set (collect grp)" by (rule map_of_SomeD)
    then show ?thesis using vals Some D(1) by (fastforce simp: values_of_flatMapValues [OF dist])
  qed
  moreover have "do_python_join env u A B np dispatch = Inr ?out"
    by (simp add: do_python_join_def grp)
  moreover have "length ?out = nat n" using grp(2) by (simp add: flatMapValues_def flatMap_def)
  ultimately show ?thesis by blast
qed

lemma count_pairs_of: "count (mset (pairs_of vs ws)) (v, w) = count (mset vs) v * count (mset ws) w"
proof (induction vs)
  case (Cons a vs)
  have "count (mset (map (Pair a) ws)) (v, w) = (if a = v then count (mset ws) w else 0)"
    by (induction ws) auto
  then show ?case using Cons by (simp add: pairs_of_def)
qed (simp add: pairs_of_def)


lemma values_of_empty_iff: "mset vs = mset (values_of k kvs) \<Longrightarrow> vs = [] \<longleftrightarrow> k \<notin> fst ` set kvs"
  by (metis mset_zero_iff_right mset_eq_length length_0_conv values_of_eq_Nil_iff)

lemma count_values_of_mset:
  "mset vs = mset (values_of k kvs) \<Longrightarrow> count (mset vs) v = count (mset kvs) (k, v)"
  by (simp add: count_values_of)

text \<open>The buffer of the padded side of an outer join.\<close>

lemma count_pad:
  assumes "mset ws = mset (values_of k kvs)"
  shows "count (mset (if ws = [] then [None] else map Some ws)) x =
    (case x of Some w \<Rightarrow> count (mset kvs) (k, w)
     | None \<Rightarrow> if k \<in> fst ` set kvs then 0 else 1)"
proof -
  have S: "count (image_mset Some M) (Some w) = count M w" for M :: "'a multiset" and w
    by (induction M) simp_all
  have N: "count (image_mset Some M) None = 0" for M :: "'a multiset"
    by (induction M) simp_all
  have e: "ws = [] \<longleftrightarrow> k \<notin> fst ` set kvs" by (rule values_of_empty_iff [OF assms])
  have c: "count (mset ws) w = count (mset kvs) (k, w)" for w by (rule count_values_of_mset [OF assms])
  show ?thesis
  proof (cases "ws = []")
    case True
    then have "count (mset kvs) (k, w) = 0" for w using c [of w] by simp
    then show ?thesis using True e by (simp split: option.split)
  next
    case False
    then show ?thesis using e c S N by (simp split: option.split)
  qed
qed

lemma join_dispatch_eq: "join_dispatch seq = pairs_of (lefts seq) (rights seq)"
  by (simp add: join_dispatch_def dispatch_bufs_eq)

lemma left_outer_dispatch_eq:
  "left_outer_dispatch seq =
     pairs_of (lefts seq) (if rights seq = [] then [None] else map Some (rights seq))"
  by (simp add: left_outer_dispatch_def dispatch_bufs_eq)

lemma right_outer_dispatch_eq:
  "right_outer_dispatch seq =
     pairs_of (if lefts seq = [] then [None] else map Some (lefts seq)) (rights seq)"
  by (simp add: right_outer_dispatch_def dispatch_bufs_eq)

lemma cogroup_dispatch_eq:
  "cogroup_dispatch seq = (ResultIterable (lefts seq), ResultIterable (rights seq))"
  by (simp add: cogroup_dispatch_def dispatch_bufs_eq)

lemma pairs_of_Nil [simp]: "pairs_of [] ws = []" "pairs_of vs [] = []"
  by (simp_all add: pairs_of_def)

lemma python_cogroup_groups:
  assumes "shuffle_ok env" "num_partitions env np = n" "0 < n" "union_ok u"
  shows "\<exists>out. python_cogroup env u A B np = Inr out \<and> length out = nat n \<and>
    distinct (map fst (collect out)) \<and>
    fst ` set (collect out) = fst ` set (collect A) \<union> fst ` set (collect B) \<and>
    (\<forall>(k, g, h)\<in>set (collect out). mset (ri_iter g) = mset (values_of k (collect A)) \<and>
       mset (ri_iter h) = mset (values_of k (collect B)) \<and>
       ri_len g = int (length (ri_iter g)) \<and> ri_len h = int (length (ri_iter h)))"
proof -
  obtain grp where grp: "groupByKey env np
        (rdd_union u (ctx_serializer u) (ctx_serializer u) (tag_left A) (tag_right B)) = Inr grp"
      "length grp = nat n" and dist: "distinct (map fst (collect grp))"
    and keys: "fst ` set (collect grp) = fst ` set (collect A) \<union> fst ` set (collect B)"
    and vals: "\<forall>(k, g)\<in>set (collect grp).
       mset (lefts (ri_iter g)) = mset (values_of k (collect A)) \<and>
       mset (rights (ri_iter g)) = mset (values_of k (collect B))"
    using joined_groups [OF assms, of "ctx_serializer u" "ctx_serializer u" A B] by blast
  let ?out = "mapValues (\<lambda>x. cogroup_dispatch (ri_iter x)) grp"
  have c: "collect ?out = map (\<lambda>(k, v). (k, cogroup_dispatch (ri_iter v))) (collect grp)"
    by (rule collect_mapValues)
  have "python_cogroup env u A B np = Inr ?out" by (simp add: python_cogroup_def grp)
  moreover have "length ?out = nat n" using grp by (simp add: mapValues_def)
  moreover have f: "map fst (collect ?out) = map fst (collect grp)"
    unfolding c by (simp add: case_prod_unfold)
  moreover have "distinct (map fst (collect ?out))" unfolding f by (rule dist)
  moreover have "fst ` set (collect ?out) = fst ` set (collect A) \<union> fst ` set (collect B)"
    unfolding set_map [symmetric] f by (simp only: set_map keys)
  moreover have "\<forall>(k, g, h)\<in>set (collect ?out). mset (ri_iter g) = mset (values_of k (collect A)) \<and>
       mset (ri_iter h) = mset (values_of k (collect B)) \<and>
       ri_len g = int (length (ri_iter g)) \<and> ri_len h = int (length (ri_iter h))"
    unfolding c using vals by (auto simp: cogroup_dispatch_eq)
  ultimately show ?thesis by blast
qed

text \<open>
  \<open>subtractByKey\<close> filters and flattens the cogrouped lists; on one key this keeps all the values
  of the left side or none.
\<close>

definition subtract_entry :: "'k \<times> ('v result_iterable \<times> 'w result_iterable) \<Rightarrow> ('k \<times> 'v) list" where
  "subtract_entry kgh = (if 0 < ri_len (fst (snd kgh)) \<and> ri_len (snd (snd kgh)) = 0
     then map (\<lambda>val. (fst kgh, val)) (ri_iter (fst (snd kgh))) else [])"

lemma collect_subtract_entries:
  "collect (flatMap (\<lambda>(key, vals). map (\<lambda>val. (key, val)) (ri_iter (fst vals)))
      (rdd_filter (\<lambda>(key, vals). 0 < ri_len (fst vals) \<and> ri_len (snd vals) = 0) cg)) =
   concat (map subtract_entry (collect cg))"
proof -
  have "concat (map (\<lambda>(key, vals). map (\<lambda>val. (key, val)) (ri_iter (fst vals)))
      (filter (\<lambda>(key, vals). 0 < ri_len (fst vals) \<and> ri_len (snd vals) = 0) xs)) =
      concat (map subtract_entry xs)" for xs :: "('a \<times> 'b result_iterable \<times> 'c result_iterable) list"
    by (induction xs) (auto simp: subtract_entry_def)
  then show ?thesis
    by (induction cg) (simp_all add: collect_def flatMap_def rdd_filter_def mapPartitions_def)
qed

lemma values_of_entries:
  assumes "distinct (map fst kgs)" and "\<And>kg. \<forall>kv\<in>set (e kg). fst kv = fst kg"
  shows "values_of k (concat (map e kgs)) =
    (case map_of kgs k of None \<Rightarrow> [] | Some g \<Rightarrow> values_of k (e (k, g)))"
  using assms(1)
proof (induction kgs)
  case (Cons kg kgs)
  obtain k' g where kg: "kg = (k', g)" by force
  have "values_of k (e (k', g)) = []" if "k' \<noteq> k"
    using assms(2) [of "(k', g)"] that by (auto simp: values_of_eq_Nil_iff)
  then show ?case
    using Cons by (auto simp: kg map_of_eq_None_iff [THEN iffD2] split: option.splits)
qed simp

lemma values_of_subtract_entries:
  assumes "distinct (map fst cg)"
  shows "values_of k (concat (map subtract_entry cg)) =
    (case map_of cg k of None \<Rightarrow> [] | Some gh \<Rightarrow> values_of k (subtract_entry (k, gh)))"
  by (rule values_of_entries [OF assms]) (auto simp: subtract_entry_def)

lemma multiset_eq_values_of:
  "mset xs = mset ys \<longleftrightarrow> (\<forall>k. mset (values_of k xs) = mset (values_of k ys))"
proof
  assume *: "\<forall>k. mset (values_of k xs) = mset (values_of k ys)"
  have "count (mset xs) (k, v) = count (mset ys) (k, v)" for k v
    using * by (metis count_values_of)
  then show "mset xs = mset ys" by (intro multiset_eqI) (metis surj_pair)
qed (blast intro: mset_values_of_cong)

lemma values_of_Pair: "values_of k (map (Pair k') xs) = (if k' = k then xs else [])"
  by (induction xs) auto

lemma values_of_filter_key:
  "values_of k (filter (\<lambda>kv. P (fst kv)) kvs) = (if P k then values_of k kvs else [])"
  by (induction kvs) auto

lemma subtractByKey_mset:
  assumes ok: "shuffle_ok env" "num_partitions env np = n" "0 < n" "union_ok u"
  shows "\<exists>out. subtractByKey env u A B np = Inr out \<and>
    mset (collect out) = mset (filter (\<lambda>kv. fst kv \<notin> fst ` set (collect B)) (collect A))"
proof -
  obtain cg where cg: "python_cogroup env u A B np = Inr cg"
    and dist: "distinct (map fst (collect cg))"
    and keys: "fst ` set (collect cg) = fst ` set (collect A) \<union> fst ` set (collect B)"
    and vals: "\<forall>(k, g, h)\<in>set (collect cg). mset (ri_iter g) = mset (values_of k (collect A)) \<and>
       mset (ri_iter h) = mset (values_of k (collect B)) \<and>
       ri_len g = int (length (ri_iter g)) \<and> ri_len h = int (length (ri_iter h))"
    using python_cogroup_groups [OF ok, of A B] by blast
  let ?keep = "\<lambda>kv. fst kv \<notin> fst ` set (collect B)"
  have "mset (values_of k (concat (map subtract_entry (collect cg)))) =
      mset (values_of k (filter ?keep (collect A)))" for k
  proof (cases "map_of (collect cg) k")
    case None
    then have "k \<notin> fst ` set (collect cg)" by (simp add: map_of_eq_None_iff)
    then have "values_of k (collect A) = []" using keys by (simp add: values_of_eq_Nil_iff)
    moreover have "values_of k (concat (map subtract_entry (collect cg))) = []"
      using values_of_subtract_entries [OF dist, of k] None by simp
    ultimately show ?thesis
      by (simp add: values_of_filter_key [of k "\<lambda>k. k \<notin> fst ` set (collect B)"])
  next
    case (Some gh)
    obtain g h where gh: "gh = (g, h)" by force
    have "(k, g, h) \<in> set (collect cg)" using Some gh by (metis map_of_SomeD)
    then have v: "mset (ri_iter g) = mset (values_of k (collect A))"
        "mset (ri_iter h) = mset (values_of k (collect B))"
        "ri_len g = int (length (ri_iter g))" "ri_len h = int (length (ri_iter h))"
      using vals by auto
    have "values_of k (subtract_entry (k, g, h)) =
        (if k \<notin> fst ` set (collect B) then ri_iter g else [])"
      using v values_of_empty_iff [OF v(2)] by (simp add: subtract_entry_def values_of_Pair)
    moreover have "values_of k (concat (map subtract_entry (collect cg))) = values_of k (subtract_entry (k, g, h))"
      using values_of_subtract_entries [OF dist, of k] Some gh by simp
    ultimately show ?thesis
      using v(1) by (simp add: values_of_filter_key [of k "\<lambda>k. k \<notin> fst ` set (collect B)"])
  qed
  then have "mset (concat (map subtract_entry (collect cg))) = mset (filter ?keep (collect A))"
    by (simp only: multiset_eq_values_of) simp
  then have "mset (collect (flatMap (\<lambda>(key, vals). map (\<lambda>val. (key, val)) (ri_iter (fst vals)))
      (rdd_filter (\<lambda>(key, vals). 0 < ri_len (fst vals) \<and> ri_len (snd vals) = 0) cg))) =
      mset (filter ?keep (collect A))"
    by (simp only: collect_subtract_entries)
  then show ?thesis
    unfolding subtractByKey_def cg map_res.simps by blast
qed

lemma collect_rdd_map: "collect (rdd_map f parts) = map f (collect parts)"
  by (simp add: rdd_map_def collect_def map_concat)

lemma nonempty_group:
  assumes "mset xs = mset (values_of k kvs)" and "n = int (length xs)"
  shows "n \<noteq> 0 \<longleftrightarrow> k \<in> fst ` set kvs"
  using values_of_empty_iff [OF assms(1)] assms(2) by simp

lemma intersection_set:
  assumes ok: "shuffle_ok env" "0 < defaultParallelism env" "union_ok u"
  shows "\<exists>i. intersection env u A B = Inr i \<and> distinct (collect i) \<and>
    set (collect i) = set (collect A) \<inter> set (collect B)"
proof -
  let ?A = "rdd_map (\<lambda>v. (v, ())) A" and ?B = "rdd_map (\<lambda>v. (v, ())) B"
  have n: "num_partitions env None = defaultParallelism env" by (simp add: num_partitions_def)
  obtain cg where cg: "python_cogroup env u ?A ?B None = Inr cg"
    and dist: "distinct (map fst (collect cg))"
    and keys: "fst ` set (collect cg) = fst ` set (collect ?A) \<union> fst ` set (collect ?B)"
    and vals: "\<forall>(k, g, h)\<in>set (collect cg). mset (ri_iter g) = mset (values_of k (collect ?A)) \<and>
       mset (ri_iter h) = mset (values_of k (collect ?B)) \<and>
       ri_len g = int (length (ri_iter g)) \<and> ri_len h = int (length (ri_iter h))"
    using python_cogroup_groups [OF ok(1) n ok(2,3), of ?A ?B] by blast
  have AB: "fst ` set (collect ?A) = set (collect A)" "fst ` set (collect ?B) = set (collect B)"
    by (auto simp: collect_rdd_map image_iff)
  let ?P = "\<lambda>x. ri_len (fst (snd x)) \<noteq> 0 \<and> ri_len (snd (snd x)) \<noteq> 0"
  have i: "collect (rdd_keys (rdd_filter ?P cg)) = map fst (filter ?P (collect cg))"
    by (simp only: rdd_keys_def rdd_filter_def mapPartitions_def
        mapPartitionsWithIndex_map collect_def filter_concat case_prod_unfold rdd_map_def map_concat map_map)
  have P: "?P (k, g, h) \<longleftrightarrow> k \<in> set (collect A) \<and> k \<in> set (collect B)"
    if "(k, g, h) \<in> set (collect cg)" for k g h
  proof -
    have g: "mset (ri_iter g) = mset (values_of k (collect ?A))" "ri_len g = int (length (ri_iter g))"
      and h: "mset (ri_iter h) = mset (values_of k (collect ?B))" "ri_len h = int (length (ri_iter h))"
      using bspec [OF vals that] by (simp_all only: prod.case)
    have "ri_len g \<noteq> 0 \<longleftrightarrow> k \<in> fst ` set (collect ?A)" using g by (rule nonempty_group)
    moreover have "ri_len h \<noteq> 0 \<longleftrightarrow> k \<in> fst ` set (collect ?B)" using h by (rule nonempty_group)
    ultimately show ?thesis unfolding AB by simp
  qed
  have "set (map fst (filter ?P (collect cg))) = set (collect A) \<inter> set (collect B)"
  proof (intro set_eqI iffI)
    fix k assume "k \<in> set (map fst (filter ?P (collect cg)))"
    then obtain g h where "(k, g, h) \<in> set (collect cg)" "?P (k, g, h)" by auto
    then show "k \<in> set (collect A) \<inter> set (collect B)" using P by blast
  next
    fix k assume k: "k \<in> set (collect A) \<inter> set (collect B)"
    then have "k \<in> fst ` set (collect cg)" unfolding keys AB by simp
    then obtain g h where "(k, g, h) \<in> set (collect cg)" by force
    then have "(k, g, h) \<in> set (filter ?P (collect cg))" using P [of k g h] k by simp
    then have "fst (k, g, h) \<in> set (map fst (filter ?P (collect cg)))"
      unfolding set_map by (rule imageI)
    then show "k \<in> set (map fst (filter ?P (collect cg)))" by (simp only: fst_conv)
  qed
  moreover have "distinct (map fst (filter ?P (collect cg)))" using dist by (rule distinct_map_filter)
  ultimately show ?thesis
    unfolding intersection_def cg map_res.simps i [symmetric] by blast
qed

lemma subtract_mset:
  assumes ok: "shuffle_ok env" "0 < defaultParallelism env" "union_ok u"
  shows "\<exists>s. subtract env u A B np = Inr s \<and>
    mset (collect s) = filter_mset (\<lambda>x. x \<notin> set (collect B)) (mset (collect A))"
proof -
  let ?A = "rdd_map (\<lambda>x. (x, True)) A" and ?B = "rdd_map (\<lambda>x. (x, True)) B"
  have n: "num_partitions env None = defaultParallelism env" by (simp add: num_partitions_def)
  obtain out where out: "subtractByKey env u ?A ?B None = Inr out"
    and m: "mset (collect out) = mset (filter (\<lambda>kv. fst kv \<notin> fst ` set (collect ?B)) (collect ?A))"
    using subtractByKey_mset [OF ok(1) n ok(2,3), of ?A ?B] by blast
  have B: "fst ` set (collect ?B) = set (collect B)" by (auto simp: collect_rdd_map image_iff)
  have "mset (map fst (collect out)) =
      mset (map fst (filter (\<lambda>kv. fst kv \<notin> set (collect B)) (map (\<lambda>x. (x, True)) (collect A))))"
    using m unfolding B by (simp add: collect_rdd_map)
  also have "map fst (filter (\<lambda>kv. fst kv \<notin> set (collect B)) (map (\<lambda>x. (x, True)) (collect A))) =
      filter (\<lambda>x. x \<notin> set (collect B)) (collect A)"
    by (simp add: filter_map comp_def)
  finally have "mset (collect (rdd_map (\<lambda>tpl. fst tpl) out)) =
      filter_mset (\<lambda>x. x \<notin> set (collect B)) (mset (collect A))"
    by (simp add: collect_rdd_map)
  moreover have "subtract env u A B np = Inr (rdd_map (\<lambda>tpl. fst tpl) out)"
    unfolding subtract_def Let_def out by (simp only: map_res.simps)
  ultimately show ?thesis by blast
qed

section \<open>Properties\<close>

text \<open>
  C3: \<open>join\<close> returns the pair \<open>(k, (v, w))\<close> exactly as often as \<open>(k, v)\<close> occurs on the left
  times the occurrences of \<open>(k, w)\<close> on the right, whatever the partitioning.
\<close>

theorem join_multiplies_occurrences:
  assumes "shuffle_ok env" and "num_partitions env np = n" and "0 < n" and "union_ok u"
  shows "\<exists>out. python_join env u A B np = Inr out \<and> length out = nat n \<and>
    (\<forall>k v w. count (mset (collect out)) (k, (v, w)) =
       count (mset (collect A)) (k, v) * count (mset (collect B)) (k, w))"
proof -
  obtain out where out: "python_join env u A B np = Inr out" "length out = nat n"
    and vals: "\<forall>k. \<exists>vs ws. mset vs = mset (values_of k (collect A)) \<and>
        mset ws = mset (values_of k (collect B)) \<and> values_of k (collect out) = pairs_of vs ws"
    using do_python_join_values [OF assms, of join_dispatch pairs_of A B]
    by (auto simp: python_join_def join_dispatch_eq)
  have "count (mset (collect out)) (k, (v, w)) =
       count (mset (collect A)) (k, v) * count (mset (collect B)) (k, w)" for k v w
    using vals by (metis count_values_of count_pairs_of)
  then show ?thesis using out by blast
qed

theorem join_multiplies_occurrences_witness:
  "\<exists>out. python_join (ordered_env 2 (\<lambda>k :: int. k)) (append_union PickleSer)
      [[(1, ''a''), (1, ''a'')]] [[(1, True)], [(2, False)]] None = Inr out \<and> length out = nat 2 \<and>
    (\<forall>k v w. count (mset (collect out)) (k, (v, w)) =
       count (mset (collect [[(1, ''a''), (1, ''a'')]])) (k, v) *
       count (mset (collect [[(1, True)], [(2, False)]])) (k, w))"
  by (rule join_multiplies_occurrences [OF shuffle_ok_ordered_env _ _ union_ok_append_union])
    (simp_all add: num_partitions_def ordered_env_def)

text \<open>
  C22: the outer joins agree with \<open>join\<close> on the pairs both sides have; \<open>leftOuterJoin\<close> adds
  \<open>(k, (v, None))\<close> as often as \<open>(k, v)\<close> occurs on the left, exactly for the keys the right side
  lacks, and \<open>rightOuterJoin\<close> does the same with the sides exchanged.
\<close>

theorem outer_joins_pad_missing_keys:
  assumes "shuffle_ok env" and "0 < num_partitions env np" and "union_ok u"
  shows "\<exists>l r. python_left_outer_join env u A B np = Inr l \<and>
    python_right_outer_join env u A B np = Inr r \<and>
    (\<forall>k v w. count (mset (collect l)) (k, (v, Some w)) =
         count (mset (collect A)) (k, v) * count (mset (collect B)) (k, w) \<and>
       count (mset (collect r)) (k, (Some v, w)) =
         count (mset (collect A)) (k, v) * count (mset (collect B)) (k, w)) \<and>
    (\<forall>k v. count (mset (collect l)) (k, (v, None)) =
       (if k \<in> fst ` set (collect B) then 0 else count (mset (collect A)) (k, v))) \<and>
    (\<forall>k w. count (mset (collect r)) (k, (None, w)) =
       (if k \<in> fst ` set (collect A) then 0 else count (mset (collect B)) (k, w)))"
proof -
  let ?pad = "\<lambda>xs. if xs = [] then [None] else map Some xs"
  obtain l where l: "python_left_outer_join env u A B np = Inr l"
    and lv: "\<forall>k. \<exists>vs ws. mset vs = mset (values_of k (collect A)) \<and>
        mset ws = mset (values_of k (collect B)) \<and> values_of k (collect l) = pairs_of vs (?pad ws)"
    using do_python_join_values [OF assms(1) refl assms(2,3), of left_outer_dispatch "\<lambda>vs ws. pairs_of vs (?pad ws)" A B]
    by (auto simp: python_left_outer_join_def left_outer_dispatch_eq)
  obtain r where r: "python_right_outer_join env u A B np = Inr r"
    and rv: "\<forall>k. \<exists>vs ws. mset vs = mset (values_of k (collect A)) \<and>
        mset ws = mset (values_of k (collect B)) \<and> values_of k (collect r) = pairs_of (?pad vs) ws"
    using do_python_join_values [OF assms(1) refl assms(2,3), of right_outer_dispatch "\<lambda>vs ws. pairs_of (?pad vs) ws" A B]
    by (auto simp: python_right_outer_join_def right_outer_dispatch_eq)
  have "count (mset (collect l)) (k, (v, x)) = count (mset (collect A)) (k, v) *
        (case x of Some w \<Rightarrow> count (mset (collect B)) (k, w)
         | None \<Rightarrow> if k \<in> fst ` set (collect B) then 0 else 1)" for k v x
  proof -
    obtain vs ws where vs: "mset vs = mset (values_of k (collect A))"
      and ws: "mset ws = mset (values_of k (collect B))" and p: "values_of k (collect l) = pairs_of vs (?pad ws)"
      using lv by blast
    have "count (mset (collect l)) (k, (v, x)) = count (mset vs) v * count (mset (?pad ws)) x"
      by (metis count_values_of p count_pairs_of)
    then show ?thesis by (simp only: count_values_of_mset [OF vs] count_pad [OF ws])
  qed
  moreover have "count (mset (collect r)) (k, (x, w)) = (case x of Some v \<Rightarrow> count (mset (collect A)) (k, v)
         | None \<Rightarrow> if k \<in> fst ` set (collect A) then 0 else 1) * count (mset (collect B)) (k, w)" for k w x
  proof -
    obtain vs ws where vs: "mset vs = mset (values_of k (collect A))"
      and ws: "mset ws = mset (values_of k (collect B))" and p: "values_of k (collect r) = pairs_of (?pad vs) ws"
      using rv by blast
    have "count (mset (collect r)) (k, (x, w)) = count (mset (?pad vs)) x * count (mset ws) w"
      by (metis count_values_of p count_pairs_of)
    then show ?thesis by (simp only: count_values_of_mset [OF ws] count_pad [OF vs])
  qed
  ultimately show ?thesis using l r by (intro exI [of _ l] exI [of _ r]) simp
qed

theorem outer_joins_pad_missing_keys_witness:
  "\<exists>l r. python_left_outer_join (ordered_env 2 (\<lambda>k :: int. k)) (append_union PickleSer)
      [[(1, ''a'')]] [[(2, True)]] None = Inr l \<and>
    python_right_outer_join (ordered_env 2 (\<lambda>k :: int. k)) (append_union PickleSer)
      [[(1, ''a'')]] [[(2, True)]] None = Inr r \<and>
    (\<forall>k v w. count (mset (collect l)) (k, (v, Some w)) =
         count (mset (collect [[(1, ''a'')]])) (k, v) * count (mset (collect [[(2, True)]])) (k, w) \<and>
       count (mset (collect r)) (k, (Some v, w)) =
         count (mset (collect [[(1, ''a'')]])) (k, v) * count (mset (collect [[(2, True)]])) (k, w)) \<and>
    (\<forall>k v. count (mset (collect l)) (k, (v, None)) =
       (if k \<in> fst ` set (collect [[(2, True)]]) then 0 else count (mset (collect [[(1, ''a'')]])) (k, v))) \<and>
    (\<forall>k w. count (mset (collect r)) (k, (None, w)) =
       (if k \<in> fst ` set (collect [[(1, ''a'')]]) then 0 else count (mset (collect [[(2, True)]])) (k, w)))"
  by (rule outer_joins_pad_missing_keys [OF shuffle_ok_ordered_env _ union_ok_append_union])
    (simp_all add: num_partitions_def ordered_env_def)

text \<open>
  \<open>subtractByKey\<close> keeps exactly the pairs of the left side whose key the right side lacks,
  each as often as it occurs.
\<close>

theorem subtractByKey_keeps_unmatched:
  assumes "shuffle_ok env" and "0 < num_partitions env np" and "union_ok u"
  shows "\<exists>out. subtractByKey env u A B np = Inr out \<and>
    mset (collect out) = mset (filter (\<lambda>kv. fst kv \<notin> fst ` set (collect B)) (collect A))"
  using assms(1) refl assms(2,3) by (rule subtractByKey_mset)

theorem subtractByKey_keeps_unmatched_witness:
  "\<exists>out. subtractByKey (ordered_env 2 (\<lambda>k :: int. k)) (append_union PickleSer)
      [[(1, ''a''), (2, ''b'')]] [[(2, True)]] None = Inr out \<and>
    mset (collect out) = mset (filter (\<lambda>kv. fst kv \<notin> fst ` set (collect [[(2 :: int, True)]]))
      (collect [[(1, ''a''), (2, ''b'')]]))"
  by (rule subtractByKey_keeps_unmatched [OF shuffle_ok_ordered_env _ union_ok_append_union])
    (simp_all add: num_partitions_def ordered_env_def)

text \<open>
  \<open>intersection\<close> returns the common elements, each once, and \<open>subtract\<close> the elements of the
  left side that are not on the right, with their multiplicity.
\<close>

theorem intersection_and_subtract:
  assumes "shuffle_ok env" and "0 < defaultParallelism env" and "union_ok u"
    and "shuffle_ok env'" and "0 < defaultParallelism env'" and "union_ok u'"
  shows "\<exists>i s. intersection env u A B = Inr i \<and> subtract env' u' A B np = Inr s \<and>
    distinct (collect i) \<and> set (collect i) = set (collect A) \<inter> set (collect B) \<and>
    mset (collect s) = filter_mset (\<lambda>x. x \<notin> set (collect B)) (mset (collect A))"
proof -
  obtain i where "intersection env u A B = Inr i" "distinct (collect i)"
      "set (collect i) = set (collect A) \<inter> set (collect B)"
    using intersection_set [OF assms(1-3)] by blast
  moreover obtain s where "subtract env' u' A B np = Inr s"
      "mset (collect s) = filter_mset (\<lambda>x. x \<notin> set (collect B)) (mset (collect A))"
    using subtract_mset [OF assms(4-6)] by blast
  ultimately show ?thesis by blast
qed

theorem intersection_and_subtract_witness:
  "\<exists>i s. intersection (ordered_env 2 (\<lambda>k :: int. k)) (append_union PickleSer) [[1, 2, 2]] [[2], [3]] = Inr i \<and>
    subtract (ordered_env 2 (\<lambda>k :: int. k)) (append_union PickleSer) [[1, 2, 2]] [[2], [3]] None = Inr s \<and>
    distinct (collect i) \<and> set (collect i) = set (collect [[1, 2, 2]]) \<inter> set (collect [[2], [3]]) \<and>
    mset (collect s) = filter_mset (\<lambda>x. x \<notin> set (collect [[2], [3]])) (mset (collect [[1, 2, 2]]))"
  by (rule intersection_and_subtract [OF shuffle_ok_ordered_env _ union_ok_append_union
        shuffle_ok_ordered_env _ union_ok_append_union])
    (simp_all add: ordered_env_def)

end
