(* ===== verification/Sampler.thy ===== *)
theory Sampler
  imports Rdd "HOL-Library.Sublist"
begin

text \<open>
  \<open>pyspark/rddsampler.py\<close> with \<open>sample\<close> and \<open>takeSample\<close> of \<open>pyspark/rdd.py\<close>. The random
  generators (\<open>numpy.random.RandomState\<close> or \<open>random.Random\<close>) are an argument: a record of
  the functions the code calls on them, over an abstract generator state.
\<close>

section \<open>Random generators\<close>

record 'g rng =
  rng_seed :: "int \<Rightarrow> 'g"
  rng_randint :: "int \<Rightarrow> int \<Rightarrow> 'g \<Rightarrow> int \<times> 'g"
  rng_uniform :: "'g \<Rightarrow> real \<times> 'g"
  rng_poisson :: "real \<Rightarrow> 'g \<Rightarrow> nat \<times> 'g"
  rng_expovariate :: "real \<Rightarrow> 'g \<Rightarrow> real \<times> 'g"
  rng_shuffle :: "nat \<Rightarrow> 'g \<Rightarrow> nat list \<times> 'g"

text \<open>
  What the code relies on: a uniform sample is at most 1, and a shuffle permutes the indices.
\<close>

definition rng_ok :: "'g rng \<Rightarrow> bool" where
  "rng_ok r \<longleftrightarrow> (\<forall>g. fst (rng_uniform r g) \<le> 1) \<and>
     (\<forall>n g. mset (fst (rng_shuffle r n g)) = mset [0..<n])"

text \<open>A generator that counts: it meets the contract.\<close>

definition counting_rng :: "int rng" where
  "counting_rng =
     \<lparr>rng_seed = (\<lambda>s. s), rng_randint = (\<lambda>lo hi g. (lo + g mod (hi - lo), g + 1)),
      rng_uniform = (\<lambda>g. (1 / 2, g + 1)), rng_poisson = (\<lambda>mean g. (1, g + 1)),
      rng_expovariate = (\<lambda>l g. (3 / 4, g + 1)), rng_shuffle = (\<lambda>n g. (rev [0..<n], g + 1))\<rparr>"

lemma rng_ok_counting_rng: "rng_ok counting_rng"
  by (simp add: rng_ok_def counting_rng_def)

definition sys_maxint :: int where
  "sys_maxint = 2 ^ 63 - 1"

section \<open>\<open>RDDSampler\<close>\<close>

record 'g rdd_sampler =
  rs_use_numpy :: bool
  rs_seed :: int
  rs_withReplacement :: bool
  rs_fraction :: real
  rs_random :: "'g option"
  rs_split :: "nat option"
  rs_rand_initialized :: bool

text \<open>
  \<open>fresh\<close> is what \<open>random.randint(0, sys.maxint)\<close> returns in the constructor, used when the
  caller gives no seed.
\<close>

definition RDDSampler :: "bool \<Rightarrow> int \<Rightarrow> bool \<Rightarrow> real \<Rightarrow> int option \<Rightarrow> 'g rdd_sampler" where
  "RDDSampler use_numpy fresh withReplacement fraction seed =
     \<lparr>rs_use_numpy = use_numpy, rs_seed = (case seed of Some s \<Rightarrow> s | None \<Rightarrow> fresh),
      rs_withReplacement = withReplacement, rs_fraction = fraction, rs_random = None,
      rs_split = None, rs_rand_initialized = False\<rparr>"

fun discard :: "'g rng \<Rightarrow> nat \<Rightarrow> 'g \<Rightarrow> 'g" where
  "discard r 0 g = g"
| "discard r (Suc n) g = discard r n (snd (rng_randint r 0 sys_maxint g))"

definition initRandomGenerator :: "'g rng \<Rightarrow> nat \<Rightarrow> 'g rdd_sampler \<Rightarrow> 'g rdd_sampler" where
  "initRandomGenerator r split s =
     s\<lparr>rs_random := Some (discard r split (rng_seed r (rs_seed s))),
       rs_split := Some split, rs_rand_initialized := True\<rparr>"

text \<open>The generator a draw for a split uses: a new one unless it was made for that split.\<close>

definition ready :: "'g rng \<Rightarrow> nat \<Rightarrow> 'g rdd_sampler \<Rightarrow> 'g rdd_sampler" where
  "ready r split s =
     (if \<not> rs_rand_initialized s \<or> Some split \<noteq> rs_split s then initRandomGenerator r split s else s)"

definition getUniformSample :: "'g rng \<Rightarrow> nat \<Rightarrow> 'g rdd_sampler \<Rightarrow> real \<times> 'g rdd_sampler" where
  "getUniformSample r split s =
     (let s = ready r split s; (u, g) = rng_uniform r (the (rs_random s))
      in (u, s\<lparr>rs_random := Some g\<rparr>))"

text \<open>
  The number of arrivals within one unit of time, drawn one delay at a time; the loop may not
  end when the delays add up to no more than 1.
\<close>

partial_function (option) arrivals ::
  "'g rng \<Rightarrow> real \<Rightarrow> real \<Rightarrow> nat \<Rightarrow> 'g \<Rightarrow> (nat \<times> 'g) option" where
  "arrivals r mean cur_time num_arrivals g =
     (if cur_time \<le> 1 then
        (let (d, g') = rng_expovariate r mean g
         in arrivals r mean (cur_time + d) (num_arrivals + 1) g')
      else Some (num_arrivals - 1, g))"

text \<open>\<open>expovariate(0.0)\<close> raises; the numpy generator accepts a mean of 0.\<close>

definition getPoissonSample ::
  "'g rng \<Rightarrow> nat \<Rightarrow> real \<Rightarrow> 'g rdd_sampler \<Rightarrow> (nat \<times> 'g rdd_sampler) res option" where
  "getPoissonSample r split mean s =
     (let s = ready r split s; g = the (rs_random s) in
      if rs_use_numpy s then
        (let (n, g') = rng_poisson r mean g in Some (Inr (n, s\<lparr>rs_random := Some g'\<rparr>)))
      else if mean = 0 then Some (Inl ZeroDivisionError)
      else
        (let (d, g') = rng_expovariate r mean g in
         if 0 + d > 1 then Some (Inr (0, s\<lparr>rs_random := Some g'\<rparr>))
         else (case arrivals r mean (0 + d) 1 g' of
                 None \<Rightarrow> None
               | Some (n, g'') \<Rightarrow> Some (Inr (n, s\<lparr>rs_random := Some g''\<rparr>)))))"

fun sample_uniform :: "'g rng \<Rightarrow> nat \<Rightarrow> 'g rdd_sampler \<Rightarrow> 'a list \<Rightarrow> 'a list" where
  "sample_uniform r split s [] = []"
| "sample_uniform r split s (obj # it) =
     (let (u, s') = getUniformSample r split s
      in if u \<le> rs_fraction s then obj # sample_uniform r split s' it
         else sample_uniform r split s' it)"

fun sample_poisson :: "'g rng \<Rightarrow> nat \<Rightarrow> 'g rdd_sampler \<Rightarrow> 'a list \<Rightarrow> 'a list res option" where
  "sample_poisson r split s [] = Some (Inr [])"
| "sample_poisson r split s (obj # it) =
     (case getPoissonSample r split (rs_fraction s) s of
        None \<Rightarrow> None
      | Some (Inl e) \<Rightarrow> Some (Inl e)
      | Some (Inr (n, s')) \<Rightarrow>
          map_option (map_res (\<lambda>out. replicate n obj @ out)) (sample_poisson r split s' it))"

definition sampler_func :: "'g rng \<Rightarrow> 'g rdd_sampler \<Rightarrow> nat \<Rightarrow> 'a list \<Rightarrow> 'a list res option" where
  "sampler_func r s split it =
     (if rs_withReplacement s then sample_poisson r split s it
      else Some (Inr (sample_uniform r split s it)))"

definition sampler_shuffle :: "'g rng \<Rightarrow> 'g rdd_sampler \<Rightarrow> 'a list \<Rightarrow> 'a list" where
  "sampler_shuffle r s vals =
     (let s = (if rs_random s = None then initRandomGenerator r 0 s else s);
          (is, g) = rng_shuffle r (length vals) (the (rs_random s))
      in map (\<lambda>i. vals ! i) is)"

section \<open>\<open>sample\<close> and \<open>takeSample\<close>\<close>

text \<open>
  The function shipped to the workers holds the sampler, so every task starts from the sampler
  the constructor built. The tasks run one after the other here; the first error is reported.
\<close>

fun run_tasks :: "(nat \<Rightarrow> 'a list \<Rightarrow> 'b list res option) \<Rightarrow> nat \<Rightarrow> 'a partitions \<Rightarrow> 'b partitions res option" where
  "run_tasks f i [] = Some (Inr [])"
| "run_tasks f i (p # ps) =
     (case f i p of
        None \<Rightarrow> None
      | Some (Inl e) \<Rightarrow> Some (Inl e)
      | Some (Inr q) \<Rightarrow> map_option (map_res (\<lambda>qs. q # qs)) (run_tasks f (Suc i) ps))"

text \<open>\<open>cfg\<close> is the generator, whether numpy is there, and the seed drawn when none is given.\<close>

record 'g sampler_cfg =
  sc_rng :: "'g rng"
  sc_numpy :: bool
  sc_fresh :: int

definition rdd_sample ::
  "'g sampler_cfg \<Rightarrow> bool \<Rightarrow> real \<Rightarrow> int option \<Rightarrow> 'a partitions \<Rightarrow> 'a partitions res option" where
  "rdd_sample cfg withReplacement fraction seed parts =
     (if \<not> fraction \<ge> 0 then Some (Inl AssertionError)
      else run_tasks (sampler_func (sc_rng cfg)
             (RDDSampler (sc_numpy cfg) (sc_fresh cfg) withReplacement fraction seed)) 0 parts)"

partial_function (option) resample ::
  "'g sampler_cfg \<Rightarrow> 'h rng \<Rightarrow> bool \<Rightarrow> real \<Rightarrow> int \<Rightarrow> 'a partitions \<Rightarrow> 'a list \<Rightarrow> 'h \<Rightarrow>
   ('a list \<times> 'h) res option" where
  "resample cfg prng withReplacement fraction target parts samples h =
     (if int (length samples) < target then
        (let (seed, h') = rng_randint prng 0 sys_maxint h in
         case rdd_sample cfg withReplacement fraction (Some seed) parts of
           None \<Rightarrow> None
         | Some (Inl e) \<Rightarrow> Some (Inl e)
         | Some (Inr s) \<Rightarrow> resample cfg prng withReplacement fraction target parts (collect s) h')
      else Some (Inr (samples, h)))"

text \<open>The fraction and the size of the sample that \<open>takeSample\<close> aims at.\<close>

definition sample_target :: "bool \<Rightarrow> int \<Rightarrow> int \<Rightarrow> real \<times> int" where
  "sample_target withReplacement num initialCount =
     (let maxSelected = (if initialCount > sys_maxint - 1 then sys_maxint - 1 else initialCount) in
      if num > initialCount \<and> \<not> withReplacement
      then (3 * (real_of_int maxSelected + 1) / real_of_int initialCount, maxSelected)
      else (3 * (real_of_int num + 1) / real_of_int initialCount, num))"

definition takeSample ::
  "'g sampler_cfg \<Rightarrow> 'h rng \<Rightarrow> bool \<Rightarrow> int \<Rightarrow> int option \<Rightarrow> 'a partitions \<Rightarrow> 'a list res option" where
  "takeSample cfg prng withReplacement num seed parts =
     (case rdd_count parts of
        Inl e \<Rightarrow> Some (Inl e)
      | Inr initialCount \<Rightarrow>
          if num < 0 then Some (Inl ValueError)
          else if initialCount = 0 then Some (Inr [])
          else (let (fraction, total) = sample_target withReplacement num initialCount in
            case rdd_sample cfg withReplacement fraction seed parts of
              None \<Rightarrow> None
            | Some (Inl e) \<Rightarrow> Some (Inl e)
            | Some (Inr s) \<Rightarrow>
                (let rand = rng_seed prng (case seed of Some x \<Rightarrow> x | None \<Rightarrow> sc_fresh cfg) in
                 case resample cfg prng withReplacement fraction total parts (collect s) rand of
                   None \<Rightarrow> None
                 | Some (Inl e) \<Rightarrow> Some (Inl e)
                 | Some (Inr (samples, h)) \<Rightarrow>
                     (let (seed', h') = rng_randint prng 0 sys_maxint h;
                          sampler = RDDSampler (sc_numpy cfg) (sc_fresh cfg) withReplacement fraction (Some seed')
                      in Some (Inr (py_prefix (sampler_shuffle (sc_rng cfg) sampler samples) total))))))"

section \<open>Samples without replacement\<close>

lemma rs_fraction_draw [simp]:
  "rs_fraction (snd (getUniformSample r split s)) = rs_fraction s"
  by (simp add: getUniformSample_def ready_def initRandomGenerator_def Let_def case_prod_unfold)

lemma uniform_le_1: "rng_ok r \<Longrightarrow> fst (getUniformSample r split s) \<le> 1"
  by (simp add: getUniformSample_def rng_ok_def Let_def case_prod_unfold)

lemma subseq_sample_uniform: "subseq (sample_uniform r split s it) it"
proof (induction it arbitrary: s)
  case (Cons x it)
  then show ?case by (auto simp: case_prod_unfold Let_def)
qed simp

lemma sample_uniform_all:
  "rng_ok r \<Longrightarrow> 1 \<le> rs_fraction s \<Longrightarrow> sample_uniform r split s it = it"
proof (induction it arbitrary: s)
  case (Cons x it)
  have "fst (getUniformSample r split s) \<le> rs_fraction s"
    using uniform_le_1 [OF Cons.prems(1), of split s] Cons.prems(2) by linarith
  then show ?case using Cons by (simp add: case_prod_unfold Let_def)
qed simp

lemma run_tasks_total:
  "(\<And>i p. f i p = Some (Inr (g i p))) \<Longrightarrow>
     run_tasks f i parts = Some (Inr (map (\<lambda>(i, p). g i p) (enumerate i parts)))"
  by (induction parts arbitrary: i) simp_all

lemma rdd_sample_without:
  "0 \<le> fraction \<Longrightarrow> rdd_sample cfg False fraction seed parts =
     Some (Inr (mapPartitionsWithIndex
       (\<lambda>split it. sample_uniform (sc_rng cfg) split
          (RDDSampler (sc_numpy cfg) (sc_fresh cfg) False fraction seed) it) parts))"
proof -
  let ?s = "RDDSampler (sc_numpy cfg) (sc_fresh cfg) False fraction seed"
  assume "0 \<le> fraction"
  moreover have "sampler_func (sc_rng cfg) ?s i p = Some (Inr (sample_uniform (sc_rng cfg) i ?s p))" for i p
    by (simp add: sampler_func_def RDDSampler_def)
  then have "run_tasks (sampler_func (sc_rng cfg) ?s) 0 parts =
      Some (Inr (map (\<lambda>(i, p). sample_uniform (sc_rng cfg) i ?s p) (enumerate 0 parts)))"
    by (rule run_tasks_total)
  ultimately show ?thesis by (simp add: rdd_sample_def mapPartitionsWithIndex_def)
qed

lemma rdd_sample_all:
  assumes "rng_ok (sc_rng cfg)" "1 \<le> fraction"
  shows "rdd_sample cfg False fraction seed parts = Some (Inr parts)"
proof -
  have "sample_uniform (sc_rng cfg) split (RDDSampler (sc_numpy cfg) (sc_fresh cfg) False fraction seed) it = it"
    for split and it :: "'b list"
    using assms by (intro sample_uniform_all) (simp_all add: RDDSampler_def)
  then show ?thesis
    using assms(2) by (simp add: rdd_sample_without)
qed

lemma mset_sampler_shuffle: "rng_ok r \<Longrightarrow> mset (sampler_shuffle r s vals) = mset vals"
proof -
  assume "rng_ok r"
  then have "mset (map (\<lambda>i. vals ! i) (fst (rng_shuffle r (length vals) g))) = mset vals" for g
    by (simp add: rng_ok_def) (metis map_nth mset_map mset_upt)
  then show ?thesis by (simp add: sampler_shuffle_def Let_def case_prod_unfold)
qed

lemma subseq_partitions:
  "list_all2 subseq (mapPartitionsWithIndex (\<lambda>split it. sample_uniform r split s it) parts) parts"
  unfolding mapPartitionsWithIndex_def
  by (intro list_all2_all_nthI) (simp_all add: nth_enumerate_eq subseq_sample_uniform)

lemma sample_fraction_ge_1:
  assumes "0 < c" "c \<le> sys_maxint - 1" "0 \<le> num" "num > c \<or> c \<le> 3 * (num + 1)"
  shows "sample_target False num c = (3 * (real_of_int (min num c) + 1) / real_of_int c, min num c) \<and>
    1 \<le> 3 * (real_of_int (min num c) + 1) / real_of_int c"
proof (cases "num > c")
  case True
  have "1 \<le> 3 * (real_of_int c + 1) / real_of_int c" using assms(1) by (simp add: field_simps)
  then show ?thesis using True assms(2) by (simp add: sample_target_def)
next
  case False
  then have "real_of_int c \<le> real_of_int (3 * (num + 1))" using assms(4) by (intro of_int_le_iff [THEN iffD2]) simp
  then have "1 \<le> 3 * (real_of_int num + 1) / real_of_int c" using assms(1) by (simp add: field_simps)
  then show ?thesis using False by (simp add: sample_target_def)
qed

lemma takeSample_first:
  assumes ok: "rng_ok (sc_rng cfg)" and "parts \<noteq> []" "0 \<le> num"
    and big: "c \<le> sys_maxint - 1" "num > c \<or> c \<le> 3 * (num + 1)"
    and c: "c = int (length (collect parts))" "0 < c"
    and f: "f = 3 * (real_of_int (min num c) + 1) / real_of_int c"
  shows "rdd_sample cfg False f seed parts = Some (Inr parts) \<and>
    takeSample cfg prng False num seed parts =
      Some (Inr (take (nat (min num c)) (sampler_shuffle (sc_rng cfg)
        (RDDSampler (sc_numpy cfg) (sc_fresh cfg) False f
          (Some (fst (rng_randint prng 0 sys_maxint (rng_seed prng (case seed of Some x \<Rightarrow> x | None \<Rightarrow> sc_fresh cfg))))))
        (collect parts))))"
proof -
  have ft: "sample_target False num c = (f, min num c)" "1 \<le> f"
    using sample_fraction_ge_1 [OF c(2) big(1) assms(3) big(2)] f by simp_all
  have s: "rdd_sample cfg False f seed parts = Some (Inr parts)"
    using ok ft(2) by (rule rdd_sample_all)
  moreover have "resample cfg prng False f (min num c) parts (collect parts) h = Some (Inr (collect parts, h))" for h
    by (subst resample.simps) (simp add: c(1))
  ultimately show ?thesis
    using c ft(1) assms(2,3)
    by (simp add: takeSample_def rdd_count_collect Let_def case_prod_unfold py_simps)
qed

section \<open>Properties\<close>

text \<open>
  Sampling without replacement keeps the order and picks no element twice: every partition
  of the sample is a subsequence of the partition; a negative fraction is refused, and a
  fraction of at least 1 keeps everything.
\<close>

theorem sample_is_subsequence:
  assumes "rng_ok (sc_rng cfg)"
  shows "if fraction < 0 then rdd_sample cfg False fraction seed parts = Some (Inl AssertionError)
    else \<exists>out. rdd_sample cfg False fraction seed parts = Some (Inr out) \<and>
      list_all2 subseq out parts \<and> (fraction < 1 \<or> out = parts)"
proof (cases "fraction < 0")
  case True
  then show ?thesis by (simp add: rdd_sample_def)
next
  case False
  then have "0 \<le> fraction" by simp
  from rdd_sample_without [OF this, of cfg seed parts] obtain out where
    out: "rdd_sample cfg False fraction seed parts = Some (Inr out)" "list_all2 subseq out parts"
    using subseq_partitions by blast
  moreover have "fraction < 1 \<or> out = parts"
    using rdd_sample_all [OF assms, of fraction seed parts] out(1) by (cases "fraction < 1") auto
  ultimately show ?thesis using False by auto
qed

theorem sample_is_subsequence_witness:
  "if (1 / 2 :: real) < 0
   then rdd_sample \<lparr>sc_rng = counting_rng, sc_numpy = True, sc_fresh = 0\<rparr> False (1 / 2) (Some 1) [[1], [2 :: nat]]
     = Some (Inl AssertionError)
   else \<exists>out. rdd_sample \<lparr>sc_rng = counting_rng, sc_numpy = True, sc_fresh = 0\<rparr> False (1 / 2) (Some 1) [[1], [2 :: nat]]
       = Some (Inr out) \<and> list_all2 subseq out [[1], [2 :: nat]] \<and> ((1 / 2 :: real) < 1 \<or> out = [[1], [2]])"
  by (rule sample_is_subsequence) (simp add: rng_ok_counting_rng)

text \<open>
  C30: When more elements are asked for than there are, or there are at most \<open>3 * (num + 1)\<close>, \<open>takeSample\<close> without
  replacement returns the asked number of different elements, or all elements when there are fewer. It needs only its
  first sample, which holds every element: it is that sample that is shuffled and cut, and the seed of the shuffle is the
  first number that is drawn from the generator, which would have gone to a second sample.
\<close>

theorem takeSample_without_replacement:
  assumes "rng_ok (sc_rng cfg)" and "parts \<noteq> []" and "0 \<le> num"
    and "c = int (length (collect parts))" and "c \<le> sys_maxint - 1"
    and "num > c \<or> c \<le> 3 * (num + 1)"
  shows "\<exists>xs. takeSample cfg prng False num seed parts = Some (Inr xs) \<and>
    int (length xs) = min num c \<and> mset xs \<subseteq># mset (collect parts) \<and>
    (c \<noteq> 0 \<longrightarrow> (\<exists>first fraction seed'.
       fraction = 3 * (real_of_int (min num c) + 1) / real_of_int c \<and>
       rdd_sample cfg False fraction seed parts = Some (Inr first) \<and> collect first = collect parts \<and>
       seed' = fst (rng_randint prng 0 sys_maxint (rng_seed prng (case seed of Some x \<Rightarrow> x | None \<Rightarrow> sc_fresh cfg))) \<and>
       xs = take (nat (min num c)) (sampler_shuffle (sc_rng cfg)
         (RDDSampler (sc_numpy cfg) (sc_fresh cfg) False fraction (Some seed')) (collect first))))"
proof (cases "c = 0")
  case True
  then show ?thesis using assms(2,3,4) by (simp add: takeSample_def rdd_count_collect)
next
  case False
  then have c: "0 < c" using assms(4) by simp
  note first = takeSample_first [OF assms(1-3,5,6,4) c refl, of seed prng]
  define ys where "ys = sampler_shuffle (sc_rng cfg)
    (RDDSampler (sc_numpy cfg) (sc_fresh cfg) False (3 * (real_of_int (min num c) + 1) / real_of_int c)
      (Some (fst (rng_randint prng 0 sys_maxint (rng_seed prng (case seed of Some x \<Rightarrow> x | None \<Rightarrow> sc_fresh cfg))))))
    (collect parts)"
  have m: "mset ys = mset (collect parts)" unfolding ys_def by (rule mset_sampler_shuffle [OF assms(1)])
  have "mset (take (nat (min num c)) ys) \<subseteq># mset ys"
    by (metis append_take_drop_id mset_append mset_subset_eq_add_left)
  moreover have "length ys = length (collect parts)" using m by (rule mset_eq_length)
  ultimately have "int (length (take (nat (min num c)) ys)) = min num c"
    "mset (take (nat (min num c)) ys) \<subseteq># mset (collect parts)"
    using assms(3,4) m by auto
  then show ?thesis using first unfolding ys_def by blast
qed

theorem takeSample_without_replacement_witness:
  "\<exists>xs. takeSample \<lparr>sc_rng = counting_rng, sc_numpy = True, sc_fresh = 0\<rparr> counting_rng False 2 (Some 1)
      [[1, 2], [3 :: nat]] = Some (Inr xs) \<and>
    int (length xs) = 2 \<and> mset xs \<subseteq># mset [1, 2, 3]"
  using takeSample_without_replacement [of "\<lparr>sc_rng = counting_rng, sc_numpy = True, sc_fresh = 0\<rparr>"
      "[[1, 2], [3 :: nat]]" 2 3 counting_rng "Some 1"]
  by (auto simp: rng_ok_counting_rng collect_def sys_maxint_def)

end
