(* ===== verification/SortByKey.thy ===== *)
theory SortByKey
  imports Shuffle Sampler
begin

text \<open>
  \<open>sortByKey\<close> of \<open>pyspark/rdd.py\<close>: a sample of the keys gives the bounds of the partitions, the
  pairs are moved to the partition their key falls into, and every partition is sorted.
\<close>

section \<open>Bounds and the partition function\<close>

definition sort_fraction :: "int \<Rightarrow> int \<Rightarrow> real" where
  "sort_fraction numPartitions rddSize =
     min (real_of_int numPartitions * 20 / real_of_int (max rddSize 1)) 1"

text \<open>The indices of the sample that become bounds; \<open>//\<close> on an empty sample gives \<open>- 1\<close>.\<close>

definition bounds_of :: "int \<Rightarrow> 'k list \<Rightarrow> 'k list res" where
  "bounds_of numPartitions samples =
     mapM_res (\<lambda>i. py_index samples ((int (length samples) - 1) * (i + 1) div numPartitions))
       [0..numPartitions - 2]"

definition key_sample ::
  "'g sampler_cfg \<Rightarrow> int \<Rightarrow> ('k \<times> 'v) partitions \<Rightarrow> 'k list res option" where
  "key_sample cfg numPartitions self =
     (case rdd_count self of
        Inl e \<Rightarrow> Some (Inl e)
      | Inr rddSize \<Rightarrow>
          map_option (map_res (\<lambda>s. collect (rdd_map (\<lambda>(k, v). k) s)))
            (rdd_sample cfg False (sort_fraction numPartitions rddSize) (Some 1) self))"

definition sort_bounds ::
  "'g sampler_cfg \<Rightarrow> bool \<Rightarrow> int \<Rightarrow> ('k \<Rightarrow> 'k::linorder) \<Rightarrow> ('k \<times> 'v) partitions \<Rightarrow> 'k list res option" where
  "sort_bounds cfg ascending numPartitions keyfunc self =
     (if numPartitions > 1 then
        map_option (\<lambda>r. bind_res r (\<lambda>samples.
            bounds_of numPartitions (py_sorted keyfunc (\<not> ascending) samples)))
          (key_sample cfg numPartitions self)
      else Some (Inr []))"

text \<open>The loop that counts the bounds below a key.\<close>

fun bounds_below :: "('k \<Rightarrow> 'k::linorder) \<Rightarrow> 'k \<Rightarrow> 'k list \<Rightarrow> int" where
  "bounds_below keyfunc k [] = 0"
| "bounds_below keyfunc k (b # bounds) =
     (if keyfunc k > b then 1 + bounds_below keyfunc k bounds else 0)"

definition rangePartitionFunc ::
  "bool \<Rightarrow> int \<Rightarrow> ('k \<Rightarrow> 'k::linorder) \<Rightarrow> 'k list \<Rightarrow> 'k \<Rightarrow> int" where
  "rangePartitionFunc ascending numPartitions keyfunc bounds k =
     (let p = bounds_below keyfunc k bounds
      in if ascending then p else numPartitions - 1 - p)"

definition sortByKey ::
  "('k::linorder, 'v) shuffle_env \<Rightarrow> 'g sampler_cfg \<Rightarrow> bool \<Rightarrow> int option \<Rightarrow> ('k \<Rightarrow> 'k) \<Rightarrow>
   ('k \<times> 'v) partitions \<Rightarrow> ('k \<times> 'v) partitions res option" where
  "sortByKey env cfg ascending numPartitions keyfunc self =
     (let n = num_partitions env numPartitions in
      case sort_bounds cfg ascending n keyfunc self of
        None \<Rightarrow> None
      | Some (Inl e) \<Rightarrow> Some (Inl e)
      | Some (Inr bounds) \<Rightarrow>
          Some (map_res
            (\<lambda>parts. flatMap (\<lambda>x. x)
               (mapPartitions (\<lambda>it. [py_sorted (\<lambda>(k, v). keyfunc k) (\<not> ascending) it]) parts))
            (partitionBy env (Some n) (rangePartitionFunc ascending n keyfunc bounds) self)))"

section \<open>The order of the partitions\<close>

lemma bounds_below_range: "0 \<le> bounds_below keyfunc k bs \<and> bounds_below keyfunc k bs \<le> int (length bs)"
  by (induction bs) auto

lemma bounds_below_mono:
  "keyfunc k \<le> keyfunc k' \<Longrightarrow> bounds_below keyfunc k bs \<le> bounds_below keyfunc k' bs"
  using bounds_below_range [of keyfunc k'] by (induction bs) (auto intro: less_le_trans simp: add_nonneg_nonneg)

lemma range_key_order:
  assumes "length bs \<le> nat (n - 1)"
    and "rangePartitionFunc asc n keyfunc bs k < rangePartitionFunc asc n keyfunc bs k'"
  shows "if asc then keyfunc k \<le> keyfunc k' else keyfunc k' \<le> keyfunc k"
proof (cases asc)
  case True
  then have "bounds_below keyfunc k bs < bounds_below keyfunc k' bs"
    using assms(2) by (simp add: rangePartitionFunc_def)
  then have "\<not> keyfunc k' \<le> keyfunc k" using bounds_below_mono [of keyfunc k' k bs] by fastforce
  then show ?thesis using True by simp
next
  case False
  then have "bounds_below keyfunc k' bs < bounds_below keyfunc k bs"
    using assms(2) by (simp add: rangePartitionFunc_def)
  then have "\<not> keyfunc k \<le> keyfunc k'" using bounds_below_mono [of keyfunc k k' bs] by fastforce
  then show ?thesis using False by simp
qed

lemma range_bounds:
  assumes "int (length bs) \<le> n - 1"
  shows "0 \<le> rangePartitionFunc asc n keyfunc bs k \<and> rangePartitionFunc asc n keyfunc bs k < n"
  using bounds_below_range [of keyfunc k bs] assms by (auto simp: rangePartitionFunc_def Let_def)

text \<open>Sorted partitions whose elements are ordered among each other concatenate to a sorted list.\<close>

lemma sorted_wrt_concat:
  assumes "\<forall>xs\<in>set xss. sorted_wrt R xs"
    and "\<And>i j x y. i < j \<Longrightarrow> j < length xss \<Longrightarrow> x \<in> set (xss ! i) \<Longrightarrow> y \<in> set (xss ! j) \<Longrightarrow> R x y"
  shows "sorted_wrt R (concat xss)"
  using assms
proof (induction xss)
  case (Cons xs xss)
  have "sorted_wrt R (concat xss)"
  proof (rule Cons.IH)
    fix i j x y assume "i < j" "j < length xss" "x \<in> set (xss ! i)" "y \<in> set (xss ! j)"
    then show "R x y" using Cons.prems(2) [of "Suc i" "Suc j" x y] by simp
  qed (use Cons.prems(1) in simp)
  moreover have "R x y" if "x \<in> set xs" "y \<in> set (concat xss)" for x y
  proof -
    from that(2) obtain j where "j < length xss" "y \<in> set (xss ! j)"
      unfolding set_concat by (metis UN_E in_set_conv_nth)
    then show ?thesis using Cons.prems(2) [of 0 "Suc j" x y] that(1) by simp
  qed
  ultimately show ?case using Cons.prems(1) by (simp add: sorted_wrt_append)
qed simp

definition key_order :: "bool \<Rightarrow> ('k \<Rightarrow> 'k::linorder) \<Rightarrow> 'k \<times> 'v \<Rightarrow> 'k \<times> 'v \<Rightarrow> bool" where
  "key_order asc keyfunc x y \<longleftrightarrow>
     (if asc then keyfunc (fst x) \<le> keyfunc (fst y) else keyfunc (fst y) \<le> keyfunc (fst x))"

text \<open>Whatever the bounds, moving and sorting gives a sorted permutation.\<close>

lemma sort_partitions:
  assumes env: "shuffle_ok env" "0 < n" and bs: "int (length bs) \<le> n - 1"
  shows "\<exists>parts. partitionBy env (Some n) (rangePartitionFunc asc n keyfunc bs) self = Inr parts \<and>
    length parts = nat n \<and>
    (let out = map (py_sorted (\<lambda>(k, v). keyfunc k) (\<not> asc)) parts in
       mset (collect out) = mset (collect self) \<and> sorted_wrt (key_order asc keyfunc) (collect out)) \<and>
    (\<forall>i < nat n. \<forall>kv\<in>set (parts ! i). rangePartitionFunc asc n keyfunc bs (fst kv) = int i)"
proof -
  let ?pf = "rangePartitionFunc asc n keyfunc bs"
  have np: "num_partitions env (Some n) = n" by (simp add: num_partitions_def)
  obtain parts where parts: "partitionBy env (Some n) ?pf self = Inr parts" "length parts = nat n"
      "mset (collect parts) = mset (collect self)"
    and "\<forall>i < nat n. \<forall>kv\<in>set (parts ! i). ?pf (fst kv) mod n = int i"
    using partitionBy_mset [OF env(1) np env(2), of ?pf self] by blast
  then have at: "\<forall>i < nat n. \<forall>kv\<in>set (parts ! i). ?pf (fst kv) = int i"
    using range_bounds [OF bs, of asc keyfunc] by (simp add: mod_pos_pos_trivial)
  let ?out = "map (py_sorted (\<lambda>(k, v). keyfunc k) (\<not> asc)) parts"
  have "mset (collect ?out) = mset (collect parts)"
    by (simp add: collect_def mset_concat comp_def flip: mset_map)
  moreover have "sorted_wrt (key_order asc keyfunc) (concat ?out)"
  proof (rule sorted_wrt_concat)
    have "sorted_wrt (key_order asc keyfunc) (py_sorted (\<lambda>(k, v). keyfunc k) (\<not> asc) xs)"
      for xs :: "('a \<times> 'b) list"
      using py_sorted_order [of "\<not> asc" "\<lambda>(k, v). keyfunc k" xs]
      by (rule sorted_wrt_mono_rel [rotated]) (auto simp: key_order_def split: if_splits)
    then show "\<forall>xs\<in>set ?out. sorted_wrt (key_order asc keyfunc) xs" by simp
  next
    fix i j x y
    assume *: "i < j" "j < length ?out" "x \<in> set (?out ! i)" "y \<in> set (?out ! j)"
    then have "?pf (fst x) = int i" "?pf (fst y) = int j" using at parts(2) by simp_all
    then have "?pf (fst x) < ?pf (fst y)" using *(1) by simp
    then show "key_order asc keyfunc x y"
      using range_key_order [of bs n asc keyfunc "fst x" "fst y"] bs by (simp add: key_order_def)
  qed
  ultimately show ?thesis using parts at by (simp add: collect_def)
qed

lemma bounds_of_length: "bounds_of n samples = Inr bs \<Longrightarrow> length bs = nat (n - 1)"
  unfolding bounds_of_def by (drule mapM_res_length) simp

lemma flatMap_sorted:
  "flatMap (\<lambda>x. x) (mapPartitions (\<lambda>it. [f it]) parts) = map f parts"
  by (simp add: flatMap_def mapPartitions_def comp_def)

lemma sortByKey_eq:
  assumes "sort_bounds cfg asc n keyfunc self = Some (Inr bs)" "num_partitions env np = n"
  shows "sortByKey env cfg asc np keyfunc self =
    Some (map_res (map (py_sorted (\<lambda>(k, v). keyfunc k) (\<not> asc)))
       (partitionBy env (Some n) (rangePartitionFunc asc n keyfunc bs) self))"
  unfolding sortByKey_def assms(2) Let_def assms(1) by (simp only: option.case sum.case flatMap_sorted)

text \<open>A non-empty sample has all the bounds.\<close>

lemma bounds_of_defined:
  assumes "samples \<noteq> []" "1 < n"
  shows "\<exists>bs. bounds_of n samples = Inr bs \<and> length bs = nat (n - 1) \<and> 
    bs = map (\<lambda>i. samples ! nat ((int (length samples) - 1) * (i + 1) div n)) [0..n - 2]"
proof -
  let ?m = "int (length samples) - 1"
  have "py_index samples (?m * (i + 1) div n) = Inr (samples ! nat (?m * (i + 1) div n))"
    if "i \<in> set [0..n - 2]" for i
  proof -
    have i: "0 \<le> i" "i + 1 \<le> n" using that by auto
    have m: "0 \<le> ?m" using assms(1) by (cases samples) auto
    have "0 \<le> ?m * (i + 1) div n" using m i assms(2) by (simp add: pos_imp_zdiv_nonneg_iff)
    moreover have "?m * (i + 1) \<le> ?m * n" using m i by (intro mult_left_mono)
    then have "?m * (i + 1) div n \<le> ?m * n div n" using assms(2) by (intro zdiv_mono1) simp_all
    then have "?m * (i + 1) div n \<le> ?m" using assms(2) by simp
    ultimately show ?thesis by (simp add: py_index_def Let_def)
  qed
  then have "bounds_of n samples =
      Inr (map (\<lambda>i. samples ! nat (?m * (i + 1) div n)) [0..n - 2])"
    unfolding bounds_of_def by (rule mapM_res_Inr)
  then show ?thesis by simp
qed

lemma sort_bounds_defined:
  assumes "0 < n" "n = 1 \<or> key_sample cfg n self = Some (Inr ks) \<and> ks \<noteq> []"
  shows "\<exists>bs. sort_bounds cfg asc n keyfunc self = Some (Inr bs) \<and> length bs = nat (n - 1)"
proof (cases "n = 1")
  case False
  then have n: "1 < n" and ks: "key_sample cfg n self = Some (Inr ks)" "ks \<noteq> []" using assms by auto
  have "py_sorted keyfunc (\<not> asc) ks \<noteq> []"
    using ks(2) by (metis mset_py_sorted mset_zero_iff)
  from bounds_of_defined [OF this n] obtain bs where
    "bounds_of n (py_sorted keyfunc (\<not> asc) ks) = Inr bs" "length bs = nat (n - 1)" by blast
  then show ?thesis using n ks by (simp add: sort_bounds_def)
qed (simp add: sort_bounds_def)

lemma sort_bounds_length:
  "sort_bounds cfg asc n keyfunc self = Some (Inr bs) \<Longrightarrow> 0 < n \<Longrightarrow> int (length bs) = n - 1"
  by (auto simp: sort_bounds_def split: if_splits dest: bounds_of_length)

lemma bounds_of_Nil: "1 < n \<Longrightarrow> bounds_of n [] = Inl IndexError"
proof -
  assume n: "1 < n"
  then have "[0..n - 2] = 0 # [1..n - 2]" by (simp add: upto_rec1)
  moreover have "(- 1) div n = - 1" using n by (simp add: div_eq_minus1)
  ultimately show ?thesis by (simp add: bounds_of_def py_index_def Let_def)
qed

text \<open>The bounds taken from keys in decreasing order decrease.\<close>

lemma bounds_of_sorted:
  assumes "sorted_wrt (\<lambda>x y. y \<le> x) (samples :: 'k::linorder list)" "bounds_of n samples = Inr bs" "1 < n"
  shows "sorted_wrt (\<lambda>x y. y \<le> x) bs"
proof (cases "samples = []")
  case True
  then show ?thesis using assms(2,3) by (simp add: bounds_of_Nil)
next
  case False
  let ?m = "int (length samples) - 1"
  have bs: "bs = map (\<lambda>i. samples ! nat (?m * (i + 1) div n)) [0..n - 2]"
    using bounds_of_defined [OF False assms(3)] assms(2) by auto
  have m: "0 \<le> ?m" using False by (cases samples) auto
  have "samples ! nat (?m * (j + 1) div n) \<le> samples ! nat (?m * (i + 1) div n)"
    if "0 \<le> i" "i \<le> j" "j \<le> n - 2" for i j
  proof -
    have "?m * (i + 1) \<le> ?m * (j + 1)" "?m * (j + 1) \<le> ?m * n"
      using m that by (intro mult_left_mono; simp)+
    then have le: "?m * (i + 1) div n \<le> ?m * (j + 1) div n" "?m * (j + 1) div n \<le> ?m * n div n"
      using assms(3) by (intro zdiv_mono1; simp)+
    have "0 \<le> ?m * (i + 1) div n" using m that assms(3) by (simp add: pos_imp_zdiv_nonneg_iff)
    with le have "nat (?m * (i + 1) div n) \<le> nat (?m * (j + 1) div n)"
        "nat (?m * (j + 1) div n) < length samples"
      using assms(3) m by auto
    moreover have "samples ! y \<le> samples ! x" if "x \<le> y" "y < length samples" for x y
      using assms(1) that by (cases "x = y") (auto simp: sorted_wrt_iff_nth_less)
    ultimately show ?thesis by blast
  qed
  then have "sorted_wrt (\<lambda>i j. samples ! nat (?m * (j + 1) div n) \<le> samples ! nat (?m * (i + 1) div n)) [0..n - 2]"
    by (intro sorted_wrt_mono_rel [OF _ sorted_wrt_upto]) simp
  then show ?thesis unfolding bs by (simp add: sorted_wrt_map)
qed

lemma bounds_below_decreasing:
  fixes bs :: "'k::linorder list"
  assumes "sorted_wrt (\<lambda>x y. y \<le> x) bs"
  shows "bounds_below (\<lambda>k. k) k bs = 0 \<or> bounds_below (\<lambda>k. k) k bs = int (length bs)"
proof (cases bs)
  case (Cons b cs)
  have all: "\<forall>c\<in>set cs'. c < k \<Longrightarrow> bounds_below (\<lambda>k. k) k cs' = int (length cs')" for cs'
    by (induction cs') auto
  have "\<forall>c\<in>set cs. c \<le> b" using assms Cons by simp
  then show ?thesis using all [of bs] Cons by (cases "b < k") (auto intro: le_less_trans)
qed simp

lemma key_sample_empty:
  assumes "1 < n" "self \<noteq> []" "collect self = []"
  shows "key_sample cfg n self = Some (Inr [])"
proof -
  have f: "0 \<le> sort_fraction n 0" using assms(1) by (simp add: sort_fraction_def)
  obtain s where s: "rdd_sample cfg False (sort_fraction n 0) (Some 1) self = Some (Inr s)"
      "list_all2 subseq s self"
    using rdd_sample_without [OF f] subseq_partitions by blast
  have "\<forall>q\<in>set s. q = []"
  proof
    fix q assume "q \<in> set s"
    then obtain p where "p \<in> set self" "subseq q p"
      using s(2) by (metis in_set_conv_nth list_all2_conv_all_nth)
    then have "subseq q []" using assms(3) by (auto simp: collect_def)
    then show "q = []" by simp
  qed
  then have "collect (rdd_map (\<lambda>(k, v). k) s) = []" by (auto simp: collect_def rdd_map_def)
  then show ?thesis using s(1) assms(2,3) by (simp add: key_sample_def rdd_count_collect)
qed

text \<open>Sorting, from a sample that is not empty.\<close>

lemma sortByKey_sorted:
  assumes "shuffle_ok env" and "num_partitions env np = n" and "0 < n"
    and "n = 1 \<or> key_sample cfg n self = Some (Inr ks) \<and> ks \<noteq> []"
  shows "\<exists>out. sortByKey env cfg asc np keyfunc self = Some (Inr out) \<and> length out = nat n \<and>
    mset (collect out) = mset (collect self) \<and>
    sorted_wrt (\<lambda>x y. if asc then keyfunc (fst x) \<le> keyfunc (fst y)
                     else keyfunc (fst y) \<le> keyfunc (fst x)) (collect out)"
proof -
  obtain bs where bs: "sort_bounds cfg asc n keyfunc self = Some (Inr bs)" "length bs = nat (n - 1)"
    using sort_bounds_defined [OF assms(3,4)] by blast
  obtain parts where parts: "partitionBy env (Some n) (rangePartitionFunc asc n keyfunc bs) self = Inr parts"
      "length parts = nat n"
      "let out = map (py_sorted (\<lambda>(k, v). keyfunc k) (\<not> asc)) parts in
       mset (collect out) = mset (collect self) \<and> sorted_wrt (key_order asc keyfunc) (collect out)"
    using sort_partitions [OF assms(1,3), of bs asc keyfunc self] bs(2) assms(3) by auto
  then show ?thesis
    unfolding sortByKey_eq [OF bs(1) assms(2)]
    by (simp add: Let_def key_order_def [abs_def])
qed

section \<open>Properties\<close>

text \<open>
  C5: \<open>sortByKey\<close> returns the pairs of the RDD, sorted over all partitions by \<open>keyfunc\<close> of the
  key, ascending or descending, whatever sample of keys was drawn, as long as it is not empty.
\<close>

theorem sortByKey_sorts:
  assumes "shuffle_ok env" and "num_partitions env np = n" and "0 < n"
    and "n = 1 \<or> key_sample cfg n self = Some (Inr ks) \<and> ks \<noteq> []"
  shows "\<exists>out. sortByKey env cfg asc np keyfunc self = Some (Inr out) \<and> length out = nat n \<and>
    mset (collect out) = mset (collect self) \<and>
    sorted_wrt (\<lambda>x y. if asc then keyfunc (fst x) \<le> keyfunc (fst y)
                     else keyfunc (fst y) \<le> keyfunc (fst x)) (collect out)"
  by (rule sortByKey_sorted [OF assms])

theorem sortByKey_sorts_witness:
  "\<exists>out. sortByKey (ordered_env 2 (\<lambda>k :: int. k)) \<lparr>sc_rng = counting_rng, sc_numpy = True, sc_fresh = 0\<rparr>
      False None (\<lambda>k. - k) [[(3, ''a''), (1, ''b'')], [(2, ''c'')]] = Some (Inr out) \<and> length out = nat 2 \<and>
    mset (collect out) = mset (collect [[(3, ''a''), (1, ''b'')], [(2, ''c'')]]) \<and>
    sorted_wrt (\<lambda>x y. if False then - fst x \<le> - fst y else - fst y \<le> - fst x) (collect out)"
proof (rule sortByKey_sorts [OF shuffle_ok_ordered_env])
  show "num_partitions (ordered_env 2 (\<lambda>k :: int. k)) None = 2" "0 < (2 :: int)"
    by (simp_all add: num_partitions_def ordered_env_def)
  have "sort_fraction 2 3 = 1" by (simp add: sort_fraction_def)
  then show "(2 :: int) = 1 \<or>
      key_sample \<lparr>sc_rng = counting_rng, sc_numpy = True, sc_fresh = 0\<rparr> 2
        [[(3 :: int, ''a''), (1, ''b'')], [(2, ''c'')]] = Some (Inr [3, 1, 2]) \<and> [3, 1, 2 :: int] \<noteq> []"
    by (simp add: key_sample_def rdd_count_collect collect_def rdd_sample_all rng_ok_counting_rng rdd_map_def)
qed

text \<open>
  On an RDD without elements \<open>sortByKey\<close> to more than one partition raises an IndexError
  instead of returning an empty RDD: there is no sample to take the bounds from.
\<close>

theorem sortByKey_empty_raises:
  assumes "num_partitions env np = n" and "1 < n" and "self \<noteq> []" and "collect self = []"
  shows "sortByKey env cfg asc np keyfunc self = Some (Inl IndexError)"
proof -
  have "key_sample cfg n self = Some (Inr [])" by (rule key_sample_empty [OF assms(2-4)])
  then have "sort_bounds cfg asc n keyfunc self = Some (Inl IndexError)"
    using assms(2) by (simp add: sort_bounds_def py_sorted_def bounds_of_Nil)
  then show ?thesis using assms(1) by (simp add: sortByKey_def)
qed

theorem sortByKey_empty_raises_witness:
  "sortByKey (ordered_env 2 (\<lambda>k :: int. k)) \<lparr>sc_rng = counting_rng, sc_numpy = True, sc_fresh = 0\<rparr>
     True None (\<lambda>k. k) [[], [] :: (int \<times> nat) list] = Some (Inl IndexError)"
  by (rule sortByKey_empty_raises [where n = 2])
    (simp_all add: num_partitions_def ordered_env_def collect_def)

text \<open>
  In descending order on plain keys only the first and the last partition ever receive
  elements: the partition function walks bounds that decrease as if they increased.
\<close>

theorem sortByKey_descending_leaves_middle_empty:
  assumes "shuffle_ok env" and "num_partitions env np = n" and "0 < n"
    and "sortByKey env cfg False np (\<lambda>k. k) self = Some (Inr out)"
    and "0 < i" and "int i < n - 1"
  shows "out ! i = []"
proof -
  obtain bs where bs: "sort_bounds cfg False n (\<lambda>k. k) self = Some (Inr bs)"
    using assms(2,4) by (auto simp: sortByKey_def Let_def split: option.splits sum.splits)
  have len: "int (length bs) = n - 1" using sort_bounds_length [OF bs assms(3)] .
  have "1 < n" using assms(5,6) by linarith
  then obtain samples where samples: "bounds_of n (py_sorted (\<lambda>k. k) True samples) = Inr bs"
    using bs by (auto simp: sort_bounds_def)
  have "sorted_wrt (\<lambda>x y. y \<le> x) (py_sorted (\<lambda>k. k) True samples)"
    using py_sorted_order [of True "\<lambda>k. k" samples] by simp
  then have "sorted_wrt (\<lambda>x y. y \<le> x) bs" using bounds_of_sorted samples \<open>1 < n\<close> by blast
  then have two: "rangePartitionFunc False n (\<lambda>k. k) bs k = n - 1 \<or> rangePartitionFunc False n (\<lambda>k. k) bs k = 0" for k
    using bounds_below_decreasing [of bs k] len by (auto simp: rangePartitionFunc_def)
  obtain parts where parts: "partitionBy env (Some n) (rangePartitionFunc False n (\<lambda>k. k) bs) self = Inr parts"
      "length parts = nat n"
      "\<forall>i < nat n. \<forall>kv\<in>set (parts ! i). rangePartitionFunc False n (\<lambda>k. k) bs (fst kv) = int i"
    using sort_partitions [OF assms(1,3), of bs False "\<lambda>k. k" self] len by auto
  have out: "out = map (py_sorted (\<lambda>(k, v). k) True) parts"
    using assms(4) parts(1) by (simp add: sortByKey_eq [OF bs assms(2)])
  have "parts ! i = []"
  proof (rule ccontr)
    assume "parts ! i \<noteq> []"
    then obtain kv where "kv \<in> set (parts ! i)" by (meson hd_in_set)
    then have "rangePartitionFunc False n (\<lambda>k. k) bs (fst kv) = int i" using parts(3) assms(6) by auto
    then show False using two [of "fst kv"] assms(5,6) by auto
  qed
  then show ?thesis using out parts(2) assms(6) by (simp add: py_sorted_def)
qed

theorem sortByKey_descending_leaves_middle_empty_witness:
  "sortByKey (ordered_env 3 (\<lambda>k :: int. k)) \<lparr>sc_rng = counting_rng, sc_numpy = True, sc_fresh = 0\<rparr>
      False None (\<lambda>k. k) [[(1, ''a''), (2, ''b''), (3, ''c'')]] =
     Some (Inr [[], [], [(3, ''c''), (2, ''b''), (1, ''a'')]]) \<and>
   [[], [], [(3 :: int, ''c''), (2, ''b''), (1, ''a'')]] ! 1 = []"
proof -
  let ?cfg = "\<lparr>sc_rng = counting_rng, sc_numpy = True, sc_fresh = 0\<rparr>"
  let ?rdd = "[[(1 :: int, ''a''), (2, ''b''), (3, ''c'')]]"
  have "sort_fraction 3 3 = 1" by (simp add: sort_fraction_def)
  then have "key_sample ?cfg 3 ?rdd = Some (Inr [1, 2, 3])"
    by (simp add: key_sample_def rdd_count_collect collect_def rdd_sample_all rng_ok_counting_rng rdd_map_def)
  moreover have "bounds_of 3 (py_sorted (\<lambda>k. k) True [1, 2, 3 :: int]) = Inr [3, 2]"
    by code_simp
  ultimately have b: "sort_bounds ?cfg False 3 (\<lambda>k. k) ?rdd = Some (Inr [3, 2])"
    by (simp add: sort_bounds_def)
  have n: "num_partitions (ordered_env 3 (\<lambda>k :: int. k)) None = 3"
    by (simp add: num_partitions_def ordered_env_def)
  have "map_res (map (py_sorted (\<lambda>(k, v). k) True))
      (partitionBy (ordered_env 3 (\<lambda>k. k)) (Some 3) (rangePartitionFunc False 3 (\<lambda>k. k) [3, 2]) ?rdd) =
      Inr [[], [], [(3, ''c''), (2, ''b''), (1, ''a'')]]"
    by code_simp
  then have s: "sortByKey (ordered_env 3 (\<lambda>k :: int. k)) ?cfg False None (\<lambda>k. k) ?rdd =
      Some (Inr [[], [], [(3, ''c''), (2, ''b''), (1, ''a'')]])"
    using sortByKey_eq [OF b n] by simp
  show ?thesis
    using sortByKey_descending_leaves_middle_empty [OF shuffle_ok_ordered_env n _ s, of 1] s by simp
qed

end
