(* ===== verification/StatCounters.thy ===== *)
theory StatCounters
  imports Rdd
begin

text \<open>
  \<open>pyspark/statcounter.py\<close> and the statistics of \<open>pyspark/rdd.py\<close> that reduce with it. Floating
  point numbers are real numbers here: rounding is not modelled. The infinities that the extrema
  start from are.
\<close>

section \<open>Floats with infinities\<close>

datatype py_float = NegInf | Fin real | PosInf

instantiation py_float :: linorder
begin

fun less_eq_py_float :: "py_float \<Rightarrow> py_float \<Rightarrow> bool" where
  "less_eq_py_float NegInf y \<longleftrightarrow> True"
| "less_eq_py_float (Fin a) NegInf \<longleftrightarrow> False"
| "less_eq_py_float (Fin a) (Fin b) \<longleftrightarrow> a \<le> b"
| "less_eq_py_float (Fin a) PosInf \<longleftrightarrow> True"
| "less_eq_py_float PosInf y \<longleftrightarrow> y = PosInf"

definition less_py_float :: "py_float \<Rightarrow> py_float \<Rightarrow> bool" where
  "less_py_float x y \<longleftrightarrow> x \<le> y \<and> \<not> y \<le> x"

instance
proof
  fix x y z :: py_float
  show "x < y \<longleftrightarrow> x \<le> y \<and> \<not> y \<le> x" by (rule less_py_float_def)
  show "x \<le> x" by (cases x) simp_all
  show "x \<le> y \<Longrightarrow> y \<le> z \<Longrightarrow> x \<le> z" by (cases x; cases y; cases z) simp_all
  show "x \<le> y \<Longrightarrow> y \<le> x \<Longrightarrow> x = y" by (cases x; cases y) simp_all
  show "x \<le> y \<or> y \<le> x" by (cases x; cases y) auto
qed

end

lemma NegInf_less [simp]: "max NegInf x = x" "min PosInf x = x" "x \<le> PosInf"
  by (cases x; simp add: max_def min_def)+

section \<open>\<open>StatCounter\<close>\<close>

record stat_counter =
  sc_n :: int
  sc_mu :: real
  sc_m2 :: real
  sc_maxValue :: py_float
  sc_minValue :: py_float

definition sc_empty :: stat_counter where
  "sc_empty = \<lparr>sc_n = 0, sc_mu = 0, sc_m2 = 0, sc_maxValue = NegInf, sc_minValue = PosInf\<rparr>"

definition sc_merge :: "stat_counter \<Rightarrow> real \<Rightarrow> stat_counter" where
  "sc_merge self value =
     (let delta = value - sc_mu self;
          n = sc_n self + 1;
          mu = sc_mu self + delta / real_of_int n;
          m2 = sc_m2 self + delta * (value - mu)
      in \<lparr>sc_n = n, sc_mu = mu, sc_m2 = m2,
          sc_maxValue = (if sc_maxValue self < Fin value then Fin value else sc_maxValue self),
          sc_minValue = (if sc_minValue self > Fin value then Fin value else sc_minValue self)\<rparr>)"

definition StatCounter :: "real list \<Rightarrow> stat_counter" where
  "StatCounter values = foldl sc_merge sc_empty values"

text \<open>The argument of \<open>mergeStats\<close>: the object itself, another counter, or something else.\<close>

datatype merge_arg = SelfRef | OtherStats stat_counter | NotStats

fun mergeStats :: "stat_counter \<Rightarrow> merge_arg \<Rightarrow> stat_counter res" where
  "mergeStats self NotStats = Inl (PyException ''Can only merge Statcounters!'')"
| "mergeStats self SelfRef = Inl TypeError"
| "mergeStats self (OtherStats other) =
     (if sc_n self = 0 then
        Inr (self\<lparr>sc_mu := sc_mu other, sc_m2 := sc_m2 other, sc_n := sc_n other,
                  sc_maxValue := sc_maxValue other, sc_minValue := sc_minValue other\<rparr>)
      else if sc_n other \<noteq> 0 then
        (let n = real_of_int (sc_n self); m = real_of_int (sc_n other);
             delta = sc_mu other - sc_mu self;
             self1 =
               (if sc_n other * 10 < sc_n self then
                  self\<lparr>sc_mu := sc_mu self + (delta * m) / (n + m)\<rparr>
                else if sc_n self * 10 < sc_n other then
                  self\<lparr>sc_mu := sc_mu other - (delta * n) / (n + m)\<rparr>
                else
                  self\<lparr>sc_mu := (sc_mu self * n + sc_mu other * m) / (n + m),
                       sc_maxValue := max (sc_maxValue self) (sc_maxValue other),
                       sc_minValue := min (sc_minValue self) (sc_minValue other)\<rparr>)
         in Inr (self1\<lparr>sc_m2 := sc_m2 self1 + (sc_m2 other + (delta * delta * n * m) / (n + m)),
                       sc_n := sc_n self1 + sc_n other\<rparr>))
      else Inr self)"

text \<open>The queries; \<open>float('nan')\<close> is None.\<close>

definition sc_sum :: "stat_counter \<Rightarrow> real" where
  "sc_sum self = real_of_int (sc_n self) * sc_mu self"

definition sc_variance :: "stat_counter \<Rightarrow> real option" where
  "sc_variance self = (if sc_n self = 0 then None else Some (sc_m2 self / real_of_int (sc_n self)))"

definition sc_sampleVariance :: "stat_counter \<Rightarrow> real option" where
  "sc_sampleVariance self =
     (if sc_n self \<le> 1 then None else Some (sc_m2 self / real_of_int (sc_n self - 1)))"

definition sc_stdev :: "stat_counter \<Rightarrow> real option" where
  "sc_stdev self = map_option sqrt (sc_variance self)"

definition sc_sampleStdev :: "stat_counter \<Rightarrow> real option" where
  "sc_sampleStdev self = map_option sqrt (sc_sampleVariance self)"

text \<open>The statistics of an RDD.\<close>

definition rdd_stats :: "real partitions \<Rightarrow> stat_counter res" where
  "rdd_stats parts =
     rdd_reduce (\<lambda>_. False) (\<lambda>left_counter right_counter. mergeStats left_counter (OtherStats right_counter))
       (mapPartitions (\<lambda>i. [StatCounter i]) parts)"

definition rdd_mean :: "real partitions \<Rightarrow> real res" where
  "rdd_mean parts = map_res sc_mu (rdd_stats parts)"

definition rdd_variance :: "real partitions \<Rightarrow> real option res" where
  "rdd_variance parts = map_res sc_variance (rdd_stats parts)"

definition rdd_stdev :: "real partitions \<Rightarrow> real option res" where
  "rdd_stdev parts = map_res sc_stdev (rdd_stats parts)"

definition rdd_sampleStdev :: "real partitions \<Rightarrow> real option res" where
  "rdd_sampleStdev parts = map_res sc_sampleStdev (rdd_stats parts)"

definition rdd_sampleVariance :: "real partitions \<Rightarrow> real option res" where
  "rdd_sampleVariance parts = map_res sc_sampleVariance (rdd_stats parts)"

section \<open>What a counter stands for\<close>

text \<open>The running moments are those of the values seen, whichever way they were merged.\<close>

definition mean_of :: "real list \<Rightarrow> real" where
  "mean_of xs = sum_list xs / real (length xs)"

definition sq_dev :: "real list \<Rightarrow> real" where
  "sq_dev xs = (\<Sum>x\<leftarrow>xs. (x - mean_of xs)\<^sup>2)"

definition moments :: "stat_counter \<Rightarrow> real list \<Rightarrow> bool" where
  "moments s xs \<longleftrightarrow> sc_n s = int (length xs) \<and> sc_mu s * real (length xs) = sum_list xs \<and>
     sc_m2 s = (\<Sum>x\<leftarrow>xs. x\<^sup>2) - real (length xs) * (sc_mu s)\<^sup>2"

lemma sum_sq_dev: "(\<Sum>x\<leftarrow>xs. (x - c)\<^sup>2) = (\<Sum>x\<leftarrow>xs. x\<^sup>2) - 2 * c * sum_list xs + real (length xs) * c\<^sup>2"
  by (induction xs) (simp_all add: power2_diff algebra_simps)

lemma moments_values:
  assumes "moments s xs" "xs \<noteq> []"
  shows "sc_mu s = mean_of xs" "sc_m2 s = sq_dev xs"
proof -
  have n: "real (length xs) \<noteq> 0" using assms(2) by simp
  have s: "sc_mu s * real (length xs) = sum_list xs" using assms(1) by (simp add: moments_def)
  then show mu: "sc_mu s = mean_of xs" using n by (simp add: mean_of_def field_simps)
  have "sq_dev xs = (\<Sum>x\<leftarrow>xs. x\<^sup>2) - 2 * sc_mu s * (sc_mu s * real (length xs)) + real (length xs) * (sc_mu s)\<^sup>2"
    by (simp only: sq_dev_def sum_sq_dev mu [symmetric] s)
  also have "\<dots> = (\<Sum>x\<leftarrow>xs. x\<^sup>2) - real (length xs) * (sc_mu s)\<^sup>2"
    by (simp add: power2_eq_square)
  finally show "sc_m2 s = sq_dev xs" using assms(1) by (simp add: moments_def)
qed

lemma moments_empty: "moments sc_empty []"
  by (simp add: moments_def sc_empty_def)

lemma moments_merge:
  assumes "moments s xs" shows "moments (sc_merge s v) (xs @ [v])"
proof -
  define n where "n = real (length xs)"
  define mu where "mu = sc_mu s"
  define mu' where "mu' = mu + (v - mu) / (n + 1)"
  have n: "0 \<le> n" by (simp add: n_def)
  have s: "mu * n = sum_list xs" "sc_m2 s = (\<Sum>x\<leftarrow>xs. x\<^sup>2) - n * mu\<^sup>2" "sc_n s = int (length xs)"
    using assms by (simp_all add: moments_def n_def mu_def)
  have mu': "mu' * (n + 1) = mu * n + v"
    using n by (simp add: mu'_def field_simps)
  have "(v - mu) * (v - mu') = v\<^sup>2 + n * mu\<^sup>2 - mu' * (mu' * (n + 1))"
  proof -
    have "mu' * (mu' * (n + 1)) = mu' * (mu * n + v)" by (simp only: mu')
    moreover have "mu * (mu' * (n + 1)) = mu * (mu * n + v)" by (simp only: mu')
    ultimately show ?thesis by (simp add: power2_eq_square algebra_simps)
  qed
  then have m2: "sc_m2 s + (v - mu) * (v - mu') = (\<Sum>x\<leftarrow>xs. x\<^sup>2) + v\<^sup>2 - (n + 1) * mu'\<^sup>2"
    by (simp add: s power2_eq_square algebra_simps)
  have f: "sc_mu (sc_merge s v) = mu'" "sc_m2 (sc_merge s v) = sc_m2 s + (v - mu) * (v - mu')"
    "sc_n (sc_merge s v) = int (length xs) + 1"
    by (simp_all add: sc_merge_def Let_def s mu'_def mu_def n_def)
  show ?thesis
    using m2 mu' s(1) by (simp add: moments_def f n_def [symmetric] add.commute)
qed

lemma moments_StatCounter: "moments (StatCounter xs) xs"
proof -
  have "moments s ys \<Longrightarrow> moments (foldl sc_merge s xs) (ys @ xs)" for s ys
  proof (induction xs arbitrary: s ys)
    case (Cons x xs)
    then show ?case using Cons.IH [OF moments_merge [OF Cons.prems, of x]] by simp
  qed simp
  from this [OF moments_empty] show ?thesis by (simp add: StatCounter_def)
qed

lemma moments_mergeStats:
  assumes "moments s xs" "moments t ys"
  shows "\<exists>r. mergeStats s (OtherStats t) = Inr r \<and> moments r (xs @ ys)"
proof -
  define n where "n = real (length xs)"
  define m where "m = real (length ys)"
  define d where "d = sc_mu t - sc_mu s"
  define mu where "mu = (sc_mu s * n + sc_mu t * m) / (n + m)"
  have s: "sc_mu s * n = sum_list xs" "sc_m2 s = (\<Sum>x\<leftarrow>xs. x\<^sup>2) - n * (sc_mu s)\<^sup>2" "sc_n s = int (length xs)"
    and t: "sc_mu t * m = sum_list ys" "sc_m2 t = (\<Sum>x\<leftarrow>ys. x\<^sup>2) - m * (sc_mu t)\<^sup>2" "sc_n t = int (length ys)"
    using assms by (simp_all add: moments_def n_def m_def)
  show ?thesis
  proof (cases "xs = [] \<or> ys = []")
    case True
    then show ?thesis using assms by (auto simp: moments_def s(3) t(3))
  next
    case False
    then have pos: "0 < n" "0 < m" by (simp_all add: n_def m_def)
    have mu: "mu * (n + m) = sc_mu s * n + sc_mu t * m" using pos by (simp add: mu_def)
    have b1: "sc_mu s + (d * m) / (n + m) = mu" and b2: "sc_mu t - (d * n) / (n + m) = mu"
      using pos by (simp_all add: mu_def d_def field_simps)
    have "d * d * n * m / (n + m) = n * (sc_mu s)\<^sup>2 + m * (sc_mu t)\<^sup>2 - (n + m) * mu\<^sup>2"
    proof -
      have "(n + m) * mu\<^sup>2 = (mu * (n + m)) * (mu * (n + m)) / (n + m)"
        using pos by (simp add: power2_eq_square)
      then show ?thesis using pos unfolding mu d_def by (simp add: power2_eq_square field_simps)
    qed
    then have m2: "sc_m2 s + (sc_m2 t + d * d * n * m / (n + m)) =
        (\<Sum>x\<leftarrow>xs @ ys. x\<^sup>2) - (n + m) * mu\<^sup>2"
      by (simp add: s t)
    obtain r where r: "mergeStats s (OtherStats t) = Inr r" "sc_mu r = mu"
      "sc_m2 r = sc_m2 s + (sc_m2 t + d * d * n * m / (n + m))" "sc_n r = int (length xs) + int (length ys)"
      using False b1 b2 by (auto simp: s(3) t(3) Let_def n_def m_def d_def mu_def)
    have "moments r (xs @ ys)"
      using mu m2 s(1) t(1) by (simp add: moments_def r n_def m_def)
    then show ?thesis using r(1) by blast
  qed
qed

lemma moments_fold:
  "moments s xs \<Longrightarrow>
     \<exists>r. foldM_res (\<lambda>a b. mergeStats a (OtherStats b)) s (map StatCounter parts) = Inr r \<and>
       moments r (xs @ concat parts)"
proof (induction parts arbitrary: s xs)
  case (Cons p parts)
  obtain r where "mergeStats s (OtherStats (StatCounter p)) = Inr r" "moments r (xs @ p)"
    using moments_mergeStats [OF Cons.prems moments_StatCounter] by blast
  with Cons.IH [of r "xs @ p"] show ?case by simp
qed simp

lemma rdd_stats_moments:
  assumes "parts \<noteq> []" shows "\<exists>s. rdd_stats parts = Inr s \<and> moments s (collect parts)"
proof -
  obtain p ps where parts: "parts = p # ps" using assms by (cases parts) auto
  have "rdd_stats parts = py_reduce (\<lambda>a b. mergeStats a (OtherStats b)) (map StatCounter parts)"
    using rdd_reduce_singletons [of "map StatCounter parts" "\<lambda>_. False" "\<lambda>a b. mergeStats a (OtherStats b)"]
    by (simp add: rdd_stats_def comp_def)
  also have "\<dots> = foldM_res (\<lambda>a b. mergeStats a (OtherStats b)) (StatCounter p) (map StatCounter ps)"
    by (simp add: py_reduce_def parts)
  finally show ?thesis
    using moments_fold [OF moments_StatCounter, of p ps] by (simp add: parts collect_def)
qed

text \<open>The extrema of a counter that only saw values.\<close>

lemma StatCounter_snoc: "StatCounter (xs @ [v]) = sc_merge (StatCounter xs) v"
  by (simp add: StatCounter_def)

lemma StatCounter_extrema:
  "xs \<noteq> [] \<Longrightarrow> sc_maxValue (StatCounter xs) = Fin (Max (set xs)) \<and>
     sc_minValue (StatCounter xs) = Fin (Min (set xs))"
proof (induction xs rule: rev_induct)
  case (snoc v xs)
  show ?case
  proof (cases "xs = []")
    case True
    then show ?thesis by (simp add: StatCounter_def sc_empty_def sc_merge_def Let_def less_py_float_def)
  next
    case False
    define hi lo where "hi = Max (set xs)" and "lo = Min (set xs)"
    have "Max (set (xs @ [v])) = max v hi" "Min (set (xs @ [v])) = min v lo"
      using False by (simp_all add: hi_def lo_def)
    then show ?thesis using snoc.IH [OF False]
      by (simp add: StatCounter_snoc sc_merge_def Let_def less_py_float_def max_def min_def
          flip: hi_def lo_def)
  qed
qed simp

section \<open>Properties\<close>

text \<open>
  C24: the statistics of an RDD are those of all its elements, however they are spread over the
  partitions and in whatever order and by whichever branch of \<open>mergeStats\<close> the partial counters
  are merged: the count, the mean, and the variance with the divisors \<open>n\<close> and \<open>n - 1\<close>.
\<close>

theorem stats_of_all_elements:
  assumes "parts \<noteq> []"
  shows "\<exists>s. rdd_stats parts = Inr s \<and> sc_n s = int (length (collect parts)) \<and>
    sc_sum s = sum_list (collect parts) \<and>
    (if collect parts = [] then rdd_variance parts = Inr None
     else rdd_mean parts = Inr (mean_of (collect parts)) \<and>
       rdd_variance parts = Inr (Some (sq_dev (collect parts) / real (length (collect parts)))) \<and>
       rdd_sampleVariance parts = Inr (if length (collect parts) = 1 then None
         else Some (sq_dev (collect parts) / (real (length (collect parts)) - 1))))"
proof -
  obtain s where s: "rdd_stats parts = Inr s" "moments s (collect parts)"
    using rdd_stats_moments [OF assms] by blast
  then have n: "sc_n s = int (length (collect parts))"
    and m: "sc_mu s * real (length (collect parts)) = sum_list (collect parts)"
    by (simp_all add: moments_def)
  show ?thesis
  proof (cases "collect parts = []")
    case True
    then show ?thesis using s(1) n by (simp add: sc_sum_def rdd_variance_def sc_variance_def)
  next
    case False
    then have "length (collect parts) \<noteq> 0" by simp
    moreover have "sc_n s \<le> 1 \<longleftrightarrow> length (collect parts) = 1" using n False by (cases "collect parts") auto
    ultimately show ?thesis
      using s(1) n m False moments_values [OF s(2) False]
      by (simp add: sc_sum_def mult.commute rdd_mean_def rdd_variance_def rdd_sampleVariance_def
          sc_variance_def sc_sampleVariance_def)
  qed
qed

theorem stats_of_all_elements_witness:
  "\<exists>s. rdd_stats [[1, 2], [], [6]] = Inr s \<and> sc_n s = int (length (collect [[1, 2], [], [6 :: real]])) \<and>
    sc_sum s = sum_list (collect [[1, 2], [], [6]]) \<and>
    (if collect [[1, 2], [], [6 :: real]] = [] then rdd_variance [[1, 2], [], [6]] = Inr None
     else rdd_mean [[1, 2], [], [6]] = Inr (mean_of (collect [[1, 2], [], [6]])) \<and>
       rdd_variance [[1, 2], [], [6]] =
         Inr (Some (sq_dev (collect [[1, 2], [], [6]]) / real (length (collect [[1, 2], [], [6 :: real]])))) \<and>
       rdd_sampleVariance [[1, 2], [], [6]] = Inr (if length (collect [[1, 2], [], [6 :: real]]) = 1 then None
         else Some (sq_dev (collect [[1, 2], [], [6]]) / (real (length (collect [[1, 2], [], [6 :: real]])) - 1))))"
  by (rule stats_of_all_elements) simp

text \<open>
  When one of two non-empty counters has seen more than ten times as many values as the
  other, \<open>mergeStats\<close> keeps the extrema of its left counter and ignores those of the right one:
  the maximum and the minimum of the merged counter can be wrong.
\<close>

theorem mergeStats_unbalanced_ignores_extrema:
  assumes "xs \<noteq> []" and "ys \<noteq> []"
    and "length ys * 10 < length xs \<or> length xs * 10 < length ys"
  shows "\<exists>r. mergeStats (StatCounter xs) (OtherStats (StatCounter ys)) = Inr r \<and>
    sc_maxValue r = Fin (Max (set xs)) \<and> sc_minValue r = Fin (Min (set xs))"
proof -
  have n: "sc_n (StatCounter xs) = int (length xs)" "sc_n (StatCounter ys) = int (length ys)"
    using moments_StatCounter by (simp_all add: moments_def)
  have "sc_n (StatCounter ys) * 10 < sc_n (StatCounter xs) \<or>
      sc_n (StatCounter xs) * 10 < sc_n (StatCounter ys)"
    using assms(3) n by linarith
  then show ?thesis
    using assms(1,2) StatCounter_extrema [OF assms(1)] n by (auto simp: Let_def)
qed

theorem mergeStats_unbalanced_ignores_extrema_witness:
  "\<exists>r. mergeStats (StatCounter (replicate 11 0)) (OtherStats (StatCounter [5])) = Inr r \<and>
    sc_maxValue r = Fin 0 \<and> sc_minValue r = Fin 0"
proof -
  have "set (replicate 11 (0 :: real)) = {0}" by simp
  then show ?thesis
    using mergeStats_unbalanced_ignores_extrema [of "replicate 11 0" "[5]"] by simp
qed

end
