(* ===== verification/Lineage.thy ===== *)
theory Lineage
  imports Rdd Serializers
begin

text \<open>
  The objects behind the contents: \<open>RDD\<close> and \<open>PipelinedRDD\<close> of \<open>pyspark/rdd.py\<close> with their
  mutable fields, the property \<open>_jrdd\<close> that builds the JVM side on first use, and the calls that
  change the storage of an RDD. An RDD object is an index into the list of the objects created
  so far; the elements of all RDDs have one type.
\<close>

section \<open>State\<close>

text \<open>
  A function shipped to the workers: what it does to a partition, and the broadcast variables it
  refers to, which register themselves with the context when the function is pickled.
\<close>

record 'a py_func =
  fn_run :: "nat \<Rightarrow> 'a list \<Rightarrow> 'a list"
  fn_broadcasts :: "nat list"

text \<open>
  The JVM side: an RDD that exists there already, or a \<open>PythonRDD\<close> over a parent, with the
  command (function, input and output serializer), whether the partitioning is preserved, and the
  broadcast variables sent along.
\<close>

datatype 'a jrdd =
    JBase nat "'a partitions"
  | JPython (jr_parent: "'a jrdd") (jr_func: "'a py_func") (jr_input: serializer) (jr_output: serializer)
      (jr_preserves: bool) (jr_broadcasts: "nat list")

fun jrdd_content :: "'a jrdd \<Rightarrow> 'a partitions" where
  "jrdd_content (JBase i parts) = parts"
| "jrdd_content (JPython j f din dout p bs) = mapPartitionsWithIndex (fn_run f) (jrdd_content j)"

text \<open>
  One record for both classes: \<open>ro_prev\<close> is None for a plain \<open>RDD\<close>, whose \<open>ro_jrdd\<close> is set from
  the start; for a \<open>PipelinedRDD\<close> it holds \<open>func\<close>, \<open>preservesPartitioning\<close>, \<open>_prev_jrdd\<close> and
  \<open>_prev_jrdd_deserializer\<close>, and \<open>ro_jrdd\<close> is \<open>_jrdd_val\<close>.
\<close>

record 'a rdd_obj =
  ro_jrdd :: "'a jrdd option"
  ro_prev :: "('a py_func \<times> bool \<times> 'a jrdd \<times> serializer) option"
  ro_deserializer :: serializer
  ro_is_cached :: bool
  ro_is_checkpointed :: bool
  ro_bypass_serializer :: bool

record storage_level =
  sl_useDisk :: bool
  sl_useMemory :: bool
  sl_useOffHeap :: bool
  sl_deserialized :: bool
  sl_replication :: int

datatype 'a jvm_call =
    JCache "'a jrdd"
  | JPersist "'a jrdd" storage_level
  | JUnpersist "'a jrdd"
  | JCheckpoint "'a jrdd"

record 'a driver =
  dr_objs :: "'a rdd_obj list"
  dr_serializer :: serializer
  dr_pickled_broadcasts :: "nat list"
  dr_calls :: "'a jvm_call list"

section \<open>Operations\<close>

text \<open>\<open>RDD(jrdd, ctx, jrdd_deserializer)\<close>\<close>

definition RDD :: "'a jrdd \<Rightarrow> serializer \<Rightarrow> 'a driver \<Rightarrow> nat \<times> 'a driver" where
  "RDD jrdd jrdd_deserializer s =
     (length (dr_objs s),
      s\<lparr>dr_objs := dr_objs s @
          [\<lparr>ro_jrdd = Some jrdd, ro_prev = None, ro_deserializer = jrdd_deserializer,
            ro_is_cached = False, ro_is_checkpointed = False, ro_bypass_serializer = False\<rparr>]\<rparr>)"

definition is_pipelinable :: "'a rdd_obj \<Rightarrow> bool" where
  "is_pipelinable self \<longleftrightarrow> \<not> (ro_is_cached self \<or> ro_is_checkpointed self)"

text \<open>The property \<open>_jrdd\<close>.\<close>

definition get_jrdd :: "nat \<Rightarrow> 'a driver \<Rightarrow> 'a jrdd \<times> 'a driver" where
  "get_jrdd r s =
     (let self = dr_objs s ! r in
      case ro_jrdd self of
        Some j \<Rightarrow> (j, s)
      | None \<Rightarrow>
          (case the (ro_prev self) of (func, preserves, prev_jrdd, prev_deserializer) \<Rightarrow>
             let serializer = (if ro_bypass_serializer self then NoOpSer else dr_serializer s);
                 broadcast_vars = List.union (fn_broadcasts func) (dr_pickled_broadcasts s);
                 j = JPython prev_jrdd func prev_deserializer serializer preserves broadcast_vars
             in (j, s\<lparr>dr_objs := (dr_objs s)[r := self\<lparr>ro_jrdd := Some j\<rparr>],
                     dr_pickled_broadcasts := []\<rparr>)))"

definition compose_func :: "'a py_func \<Rightarrow> 'a py_func \<Rightarrow> 'a py_func" where
  "compose_func func prev_func =
     \<lparr>fn_run = (\<lambda>split it. fn_run func split (fn_run prev_func split it)),
      fn_broadcasts = List.union (fn_broadcasts func) (fn_broadcasts prev_func)\<rparr>"

text \<open>\<open>PipelinedRDD(prev, func, preservesPartitioning)\<close>\<close>

definition PipelinedRDD :: "nat \<Rightarrow> 'a py_func \<Rightarrow> bool \<Rightarrow> 'a driver \<Rightarrow> nat \<times> 'a driver" where
  "PipelinedRDD prev func preservesPartitioning s =
     (let p = dr_objs s ! prev;
          (fields, s1) =
            (case ro_prev p of
               Some (prev_func, prev_preserves, prev_jrdd, prev_deserializer) \<Rightarrow>
                 if is_pipelinable p then
                   ((compose_func func prev_func, prev_preserves \<and> preservesPartitioning,
                     prev_jrdd, prev_deserializer), s)
                 else
                   (let (j, s1) = get_jrdd prev s
                    in ((func, preservesPartitioning, j, ro_deserializer p), s1))
             | None \<Rightarrow>
                 (let (j, s1) = get_jrdd prev s
                  in ((func, preservesPartitioning, j, ro_deserializer p), s1)))
      in (length (dr_objs s1),
          s1\<lparr>dr_objs := dr_objs s1 @
              [\<lparr>ro_jrdd = None, ro_prev = Some fields, ro_deserializer = dr_serializer s1,
                ro_is_cached = False, ro_is_checkpointed = False, ro_bypass_serializer = False\<rparr>]\<rparr>))"

definition rdd_cache :: "nat \<Rightarrow> 'a driver \<Rightarrow> nat \<times> 'a driver" where
  "rdd_cache r s =
     (let s1 = s\<lparr>dr_objs := (dr_objs s)[r := (dr_objs s ! r)\<lparr>ro_is_cached := True\<rparr>]\<rparr>;
          (j, s2) = get_jrdd r s1
      in (r, s2\<lparr>dr_calls := dr_calls s2 @ [JCache j]\<rparr>))"

definition rdd_persist :: "nat \<Rightarrow> storage_level \<Rightarrow> 'a driver \<Rightarrow> nat \<times> 'a driver" where
  "rdd_persist r storageLevel s =
     (let s1 = s\<lparr>dr_objs := (dr_objs s)[r := (dr_objs s ! r)\<lparr>ro_is_cached := True\<rparr>]\<rparr>;
          (j, s2) = get_jrdd r s1
      in (r, s2\<lparr>dr_calls := dr_calls s2 @ [JPersist j storageLevel]\<rparr>))"

definition rdd_unpersist :: "nat \<Rightarrow> 'a driver \<Rightarrow> nat \<times> 'a driver" where
  "rdd_unpersist r s =
     (let s1 = s\<lparr>dr_objs := (dr_objs s)[r := (dr_objs s ! r)\<lparr>ro_is_cached := False\<rparr>]\<rparr>;
          (j, s2) = get_jrdd r s1
      in (r, s2\<lparr>dr_calls := dr_calls s2 @ [JUnpersist j]\<rparr>))"

definition rdd_checkpoint :: "nat \<Rightarrow> 'a driver \<Rightarrow> 'a driver" where
  "rdd_checkpoint r s =
     (let s1 = s\<lparr>dr_objs := (dr_objs s)[r := (dr_objs s ! r)\<lparr>ro_is_checkpointed := True\<rparr>]\<rparr>;
          (j, s2) = get_jrdd r s1
      in s2\<lparr>dr_calls := dr_calls s2 @ [JCheckpoint j]\<rparr>)"

text \<open>\<open>SparkContext.union\<close> over RDD objects, with the serializers it has to agree on.\<close>

definition identity_func :: "'a py_func" where
  "identity_func = \<lparr>fn_run = (\<lambda>split it. map (\<lambda>x. x) it), fn_broadcasts = []\<rparr>"

definition obj_reserialize :: "nat \<Rightarrow> 'a driver \<Rightarrow> nat \<times> 'a driver" where
  "obj_reserialize r s =
     (if ser_op_eq (ro_deserializer (dr_objs s ! r)) (dr_serializer s) then (r, s)
      else PipelinedRDD r identity_func True s)"

fun reserialize_all :: "nat list \<Rightarrow> 'a driver \<Rightarrow> nat list \<times> 'a driver" where
  "reserialize_all [] s = ([], s)"
| "reserialize_all (r # rs) s =
     (let (r', s1) = obj_reserialize r s; (rs', s2) = reserialize_all rs s1 in (r' # rs', s2))"

fun get_jrdds :: "nat list \<Rightarrow> 'a driver \<Rightarrow> 'a jrdd list \<times> 'a driver" where
  "get_jrdds [] s = ([], s)"
| "get_jrdds (r # rs) s =
     (let (j, s1) = get_jrdd r s; (js, s2) = get_jrdds rs s1 in (j # js, s2))"

definition ctx_union ::
  "('a jrdd list \<Rightarrow> 'a jrdd) \<Rightarrow> nat list \<Rightarrow> 'a driver \<Rightarrow> (nat \<times> 'a driver) res" where
  "ctx_union jsc_union rdds s =
     (case rdds of
        [] \<Rightarrow> Inl IndexError
      | r0 # _ \<Rightarrow>
          (let first = ro_deserializer (dr_objs s ! r0);
               (rdds', s1) =
                 (if \<exists>x\<in>set rdds. ser_op_ne (ro_deserializer (dr_objs s ! x)) first
                  then reserialize_all rdds s else (rdds, s));
               (js, s2) = get_jrdds rdds' s1
           in Inr (RDD (jsc_union js) (ro_deserializer (dr_objs s2 ! hd rdds')) s2)))"

section \<open>Contents\<close>

text \<open>What an RDD object stands for.\<close>

definition obj_content :: "'a rdd_obj \<Rightarrow> 'a partitions" where
  "obj_content self =
     (case ro_prev self of
        None \<Rightarrow> jrdd_content (the (ro_jrdd self))
      | Some (func, _, prev_jrdd, _) \<Rightarrow> mapPartitionsWithIndex (fn_run func) (jrdd_content prev_jrdd))"

definition rdd_content :: "'a driver \<Rightarrow> nat \<Rightarrow> 'a partitions" where
  "rdd_content s r = obj_content (dr_objs s ! r)"

text \<open>
  The invariant of the driver: a plain RDD has its JVM side, and the JVM side of a pipelined RDD,
  once built, is the command of its fields.
\<close>

definition obj_ok :: "'a rdd_obj \<Rightarrow> bool" where
  "obj_ok self \<longleftrightarrow>
     (case ro_prev self of
        None \<Rightarrow> ro_jrdd self \<noteq> None
      | Some (func, preserves, prev_jrdd, prev_deserializer) \<Rightarrow>
          (\<forall>j. ro_jrdd self = Some j \<longrightarrow>
             (\<exists>out bs. j = JPython prev_jrdd func prev_deserializer out preserves bs \<and>
                set (fn_broadcasts func) \<subseteq> set bs)))"

definition driver_ok :: "'a driver \<Rightarrow> bool" where
  "driver_ok s \<longleftrightarrow> (\<forall>self\<in>set (dr_objs s). obj_ok self)"

lemma driver_okD: "driver_ok s \<Longrightarrow> r < length (dr_objs s) \<Longrightarrow> obj_ok (dr_objs s ! r)"
  by (simp add: driver_ok_def)

lemma mapPartitionsWithIndex_comp:
  "mapPartitionsWithIndex f (mapPartitionsWithIndex g parts) =
     mapPartitionsWithIndex (\<lambda>i it. f i (g i it)) parts"
proof -
  have "map (\<lambda>(i, it). f i it) (enumerate k (map (\<lambda>(i, it). g i it) (enumerate k ps))) =
      map (\<lambda>(i, it). f i (g i it)) (enumerate k ps)" for k ps
    by (induction ps arbitrary: k) simp_all
  then show ?thesis by (simp add: mapPartitionsWithIndex_def)
qed

lemma get_jrdd_props:
  assumes "driver_ok s" "r < length (dr_objs s)" "get_jrdd r s = (j, s')"
  shows "jrdd_content j = rdd_content s r \<and> driver_ok s' \<and>
    length (dr_objs s') = length (dr_objs s) \<and> dr_serializer s' = dr_serializer s \<and>
    dr_calls s' = dr_calls s \<and> ro_jrdd (dr_objs s' ! r) = Some j \<and>
    (\<forall>q < length (dr_objs s). obj_content (dr_objs s' ! q) = obj_content (dr_objs s ! q) \<and>
       ro_deserializer (dr_objs s' ! q) = ro_deserializer (dr_objs s ! q) \<and>
       ro_prev (dr_objs s' ! q) = ro_prev (dr_objs s ! q) \<and>
       is_pipelinable (dr_objs s' ! q) = is_pipelinable (dr_objs s ! q))"
proof (cases "ro_jrdd (dr_objs s ! r)")
  case (Some j')
  then have [simp]: "j' = j" "s' = s" using assms(3) by (simp_all add: get_jrdd_def)
  have "jrdd_content j = obj_content (dr_objs s ! r)"
    using driver_okD [OF assms(1,2)] Some
    by (auto simp: obj_ok_def obj_content_def split: option.splits)
  then show ?thesis using assms(1) Some by (simp add: rdd_content_def)
next
  case None
  let ?o = "dr_objs s ! r"
  obtain f p pj pd where prev: "ro_prev ?o = Some (f, p, pj, pd)"
    using driver_okD [OF assms(1,2)] None by (auto simp: obj_ok_def split: option.splits)
  define out where "out = (if ro_bypass_serializer ?o then NoOpSer else dr_serializer s)"
  define bs where "bs = List.union (fn_broadcasts f) (dr_pickled_broadcasts s)"
  have j: "j = JPython pj f pd out p bs"
    and s': "s' = s\<lparr>dr_objs := (dr_objs s)[r := ?o\<lparr>ro_jrdd := Some j\<rparr>], dr_pickled_broadcasts := []\<rparr>"
    using assms(3) None prev by (auto simp: get_jrdd_def Let_def out_def bs_def)
  have ok: "obj_ok (?o\<lparr>ro_jrdd := Some j\<rparr>)"
    by (simp add: obj_ok_def prev j bs_def)
  have "driver_ok s'"
    using assms(1) ok unfolding driver_ok_def s' by (auto dest!: set_update_subset_insert [THEN subsetD])
  moreover have "obj_content (?o\<lparr>ro_jrdd := Some j\<rparr>) = obj_content ?o"
    by (simp add: obj_content_def prev)
  moreover have "jrdd_content j = obj_content ?o" by (simp add: obj_content_def prev j)
  ultimately show ?thesis
    using assms(2) by (simp add: s' rdd_content_def nth_list_update is_pipelinable_def)
qed

lemma driver_ok_snoc:
  "driver_ok (s\<lparr>dr_objs := dr_objs s @ [self]\<rparr>) \<longleftrightarrow> driver_ok s \<and> obj_ok self"
  by (auto simp: driver_ok_def)

lemma new_stage:
  assumes "driver_ok s" "r < length (dr_objs s)" "ro_prev (dr_objs s ! r) = None \<or> \<not> is_pipelinable (dr_objs s ! r)"
    and "get_jrdd r s = (j, s1)"
  shows "PipelinedRDD r f p s = (length (dr_objs s1), s1\<lparr>dr_objs := dr_objs s1 @
      [\<lparr>ro_jrdd = None, ro_prev = Some (f, p, j, ro_deserializer (dr_objs s ! r)),
        ro_deserializer = dr_serializer s1, ro_is_cached = False, ro_is_checkpointed = False,
        ro_bypass_serializer = False\<rparr>]\<rparr>)"
  using assms(3,4) by (auto simp: PipelinedRDD_def Let_def split: option.splits)

lemma same_stage:
  assumes "ro_prev (dr_objs s ! r) = Some (g, pg, j, d)" "is_pipelinable (dr_objs s ! r)"
  shows "PipelinedRDD r f p s = (length (dr_objs s), s\<lparr>dr_objs := dr_objs s @
      [\<lparr>ro_jrdd = None, ro_prev = Some (compose_func f g, pg \<and> p, j, d),
        ro_deserializer = dr_serializer s, ro_is_cached = False, ro_is_checkpointed = False,
        ro_bypass_serializer = False\<rparr>]\<rparr>)"
  using assms by (simp add: PipelinedRDD_def Let_def)

lemma PipelinedRDD_content:
  assumes ok: "driver_ok s" "r < length (dr_objs s)" and q: "PipelinedRDD r f p s = (q, s')"
  shows "q = length (dr_objs s) \<and> length (dr_objs s') = Suc q \<and> driver_ok s' \<and>
    dr_serializer s' = dr_serializer s \<and> ro_deserializer (dr_objs s' ! q) = dr_serializer s \<and>
    rdd_content s' q = mapPartitionsWithIndex (fn_run f) (rdd_content s r) \<and>
    (\<forall>r' < length (dr_objs s). rdd_content s' r' = rdd_content s r' \<and>
       ro_deserializer (dr_objs s' ! r') = ro_deserializer (dr_objs s ! r'))"
proof (cases "ro_prev (dr_objs s ! r) = None \<or> \<not> is_pipelinable (dr_objs s ! r)")
  case True
  obtain j s1 where j: "get_jrdd r s = (j, s1)" by force
  note props = get_jrdd_props [OF ok j]
  show ?thesis
    using new_stage [OF ok True j, of f p] q props
    by (auto simp: driver_ok_snoc obj_ok_def rdd_content_def obj_content_def nth_append)
next
  case False
  then obtain g pg j d where *: "ro_prev (dr_objs s ! r) = Some (g, pg, j, d)" "is_pipelinable (dr_objs s ! r)"
    by auto
  show ?thesis
    using same_stage [OF *, of f p] q ok *(1)
    by (auto simp: driver_ok_snoc obj_ok_def rdd_content_def obj_content_def nth_append
        compose_func_def mapPartitionsWithIndex_comp)
qed

text \<open>Setting the flags of an object changes neither its content nor the invariant.\<close>

lemma flag_props:
  assumes "driver_ok s" "r < length (dr_objs s)"
    and "ro_jrdd self = ro_jrdd (dr_objs s ! r)" "ro_prev self = ro_prev (dr_objs s ! r)"
  shows "driver_ok (s\<lparr>dr_objs := (dr_objs s)[r := self]\<rparr>) \<and>
    (\<forall>q < length (dr_objs s). rdd_content (s\<lparr>dr_objs := (dr_objs s)[r := self]\<rparr>) q = rdd_content s q)"
proof -
  have "obj_ok self" using driver_okD [OF assms(1,2)] unfolding obj_ok_def assms(3,4) .
  then have "driver_ok (s\<lparr>dr_objs := (dr_objs s)[r := self]\<rparr>)"
    using assms(1) unfolding driver_ok_def by (auto dest!: set_update_subset_insert [THEN subsetD])
  moreover have "obj_content self = obj_content (dr_objs s ! r)"
    unfolding obj_content_def assms(3,4) ..
  ultimately show ?thesis using assms(2) by (simp add: rdd_content_def nth_list_update)
qed

text \<open>The four calls that change the storage of an RDD have one shape.\<close>

lemma storage_call_props:
  assumes ok: "driver_ok s" "r < length (dr_objs s)"
    and self: "ro_jrdd self = ro_jrdd (dr_objs s ! r)" "ro_prev self = ro_prev (dr_objs s ! r)"
    and call: "get_jrdd r (s\<lparr>dr_objs := (dr_objs s)[r := self]\<rparr>) = (j, s2)"
  shows "driver_ok (s2\<lparr>dr_calls := dr_calls s2 @ [c]\<rparr>) \<and> jrdd_content j = rdd_content s r \<and>
    dr_calls s2 = dr_calls s \<and> ro_jrdd (dr_objs s2 ! r) = Some j \<and>
    (\<forall>q < length (dr_objs s). rdd_content s2 q = rdd_content s q) \<and>
    is_pipelinable (dr_objs s2 ! r) = is_pipelinable self"
proof -
  let ?s1 = "s\<lparr>dr_objs := (dr_objs s)[r := self]\<rparr>"
  have s1: "driver_ok ?s1" "\<forall>q < length (dr_objs s). rdd_content ?s1 q = rdd_content s q"
    using flag_props [OF ok self] by blast+
  have r: "r < length (dr_objs ?s1)" using ok(2) by simp
  have p: "jrdd_content j = rdd_content ?s1 r" "driver_ok s2" "dr_calls s2 = dr_calls ?s1"
    "ro_jrdd (dr_objs s2 ! r) = Some j" "\<forall>q < length (dr_objs ?s1). obj_content (dr_objs s2 ! q) = obj_content (dr_objs ?s1 ! q)"
    "is_pipelinable (dr_objs s2 ! r) = is_pipelinable (dr_objs ?s1 ! r)"
    using get_jrdd_props [OF s1(1) r call] r by blast+
  have "\<forall>q < length (dr_objs s). rdd_content s2 q = rdd_content ?s1 q"
    using p(5) unfolding rdd_content_def by simp
  then show ?thesis using p s1 ok(2) by (simp add: driver_ok_def)
qed

section \<open>Properties\<close>

text \<open>
  C12: pipelining is invisible: whether the function is composed into the stage of its parent or
  starts a new stage, the new RDD holds the function applied to every partition of the parent,
  no other RDD changes, and the JVM side that is built later holds the same.
\<close>

theorem pipelining_preserves_contents:
  assumes "driver_ok s" and "r < length (dr_objs s)" and "PipelinedRDD r f p s = (q, s')"
  shows "rdd_content s' q = mapPartitionsWithIndex (fn_run f) (rdd_content s r) \<and>
    jrdd_content (fst (get_jrdd q s')) = rdd_content s' q \<and> driver_ok s' \<and>
    (\<forall>r' < length (dr_objs s). rdd_content s' r' = rdd_content s r')"
proof -
  note c = PipelinedRDD_content [OF assms]
  obtain j s2 where j: "get_jrdd q s' = (j, s2)" by force
  have "jrdd_content j = rdd_content s' q"
    using get_jrdd_props [of s' q j s2] c j by auto
  then show ?thesis using c j by auto
qed

definition example_driver :: "nat driver" where
  "example_driver = snd (RDD (JBase 0 [[1, 2], [3]]) (BatchedSer PickleSer 10)
     \<lparr>dr_objs = [], dr_serializer = BatchedSer PickleSer 10, dr_pickled_broadcasts = [], dr_calls = []\<rparr>)"

definition example_func :: "nat py_func" where
  "example_func = \<lparr>fn_run = (\<lambda>split it. map (\<lambda>x. 2 * x + split) it), fn_broadcasts = [7]\<rparr>"

lemma example_driver_ok: "driver_ok example_driver" "length (dr_objs example_driver) = 1"
  by (simp_all add: example_driver_def RDD_def driver_ok_def obj_ok_def)

theorem pipelining_preserves_contents_witness:
  "rdd_content (snd (PipelinedRDD 0 example_func True example_driver)) 1 = [[2, 4], [7]] \<and>
    jrdd_content (fst (get_jrdd 1 (snd (PipelinedRDD 0 example_func True example_driver)))) = [[2, 4], [7]]"
proof -
  have q: "PipelinedRDD 0 example_func True example_driver =
      (1, snd (PipelinedRDD 0 example_func True example_driver))"
    using PipelinedRDD_content [OF example_driver_ok(1), of 0] example_driver_ok(2)
    by (metis One_nat_def lessI prod.collapse)
  have "mapPartitionsWithIndex (fn_run example_func) (rdd_content example_driver 0) = [[2, 4], [7]]"
    by (simp add: example_func_def example_driver_def RDD_def rdd_content_def obj_content_def
        mapPartitionsWithIndex_def)
  then show ?thesis
    using pipelining_preserves_contents [OF example_driver_ok(1) _ q] example_driver_ok(2) by simp
qed

text \<open>
  A cached or checkpointed RDD ends a stage: what is built on it reads the very JVM RDD that
  was cached, and only the new function is shipped. A pipelinable one is not materialised: the
  command runs on the parent of its stage. Either way the command carries every broadcast
  variable its function refers to.
\<close>

theorem stage_boundaries:
  assumes "driver_ok s" and "r < length (dr_objs s)" and "PipelinedRDD r f p s = (q, s')"
    and "get_jrdd q s' = (j, s'')"
  shows "(if ro_prev (dr_objs s ! r) = None \<or> ro_is_cached (dr_objs s ! r) \<or> ro_is_checkpointed (dr_objs s ! r)
      then jr_parent j = fst (get_jrdd r s) \<and> jr_func j = f \<and> jr_preserves j = p \<and>
        jr_input j = ro_deserializer (dr_objs s ! r)
      else \<exists>g pg pj d. ro_prev (dr_objs s ! r) = Some (g, pg, pj, d) \<and>
        jr_parent j = pj \<and> jr_func j = compose_func f g \<and> jr_preserves j = (pg \<and> p) \<and> jr_input j = d) \<and>
    set (fn_broadcasts (jr_func j)) \<subseteq> set (jr_broadcasts j) \<and> dr_pickled_broadcasts s'' = []"
proof (cases "ro_prev (dr_objs s ! r) = None \<or> \<not> is_pipelinable (dr_objs s ! r)")
  case True
  obtain i s1 where i: "get_jrdd r s = (i, s1)" by force
  show ?thesis
    using new_stage [OF assms(1,2) True i, of f p] assms(3,4) i True
    by (auto simp: get_jrdd_def [of "length (dr_objs s1)"] Let_def nth_append is_pipelinable_def)
next
  case False
  then obtain g pg i d where *: "ro_prev (dr_objs s ! r) = Some (g, pg, i, d)" "is_pipelinable (dr_objs s ! r)"
    by auto
  show ?thesis
    using same_stage [OF *, of f p] assms(3,4) *
    by (auto simp: get_jrdd_def Let_def nth_append is_pipelinable_def)
qed

theorem stage_boundaries_witness:
  "jr_func (fst (get_jrdd 1 (snd (PipelinedRDD 0 example_func True example_driver)))) = example_func \<and>
    jr_parent (fst (get_jrdd 1 (snd (PipelinedRDD 0 example_func True example_driver)))) = JBase 0 [[1, 2], [3]] \<and>
    {7} \<subseteq> set (jr_broadcasts (fst (get_jrdd 1 (snd (PipelinedRDD 0 example_func True example_driver)))))"
proof -
  let ?s = "snd (PipelinedRDD 0 example_func True example_driver)"
  have q: "PipelinedRDD 0 example_func True example_driver = (1, ?s)"
    using PipelinedRDD_content [OF example_driver_ok(1), of 0] example_driver_ok(2)
    by (metis One_nat_def lessI prod.collapse)
  have j: "get_jrdd 1 ?s = (fst (get_jrdd 1 ?s), snd (get_jrdd 1 ?s))" by simp
  have "ro_prev (dr_objs example_driver ! 0) = None" "fst (get_jrdd 0 example_driver) = JBase 0 [[1, 2], [3]]"
    by (simp_all add: example_driver_def RDD_def get_jrdd_def)
  moreover have "fn_broadcasts example_func = [7]" by (simp add: example_func_def)
  ultimately show ?thesis
    using stage_boundaries [OF example_driver_ok(1) _ q j] example_driver_ok(2) by auto
qed

text \<open>
  \<open>cache\<close> and \<open>persist\<close> leave every content as it is, make the JVM store exactly the RDD
  whose content is that of the object, keep that JVM RDD for later use, and end the pipeline;
  \<open>unpersist\<close> addresses the same JVM RDD and lets the pipeline continue.
\<close>

theorem storage_calls_keep_contents:
  assumes "driver_ok s" and "r < length (dr_objs s)"
  shows "\<exists>j s1 s2. rdd_persist r level s = (r, s1) \<and> rdd_unpersist r s1 = (r, s2) \<and>
    driver_ok s1 \<and> driver_ok s2 \<and> jrdd_content j = rdd_content s r \<and>
    dr_calls s2 = dr_calls s @ [JPersist j level, JUnpersist j] \<and>
    \<not> is_pipelinable (dr_objs s1 ! r) \<and>
    is_pipelinable (dr_objs s2 ! r) = (\<not> ro_is_checkpointed (dr_objs s ! r)) \<and>
    (\<forall>q < length (dr_objs s). rdd_content s1 q = rdd_content s q \<and> rdd_content s2 q = rdd_content s q)"
proof -
  let ?o = "dr_objs s ! r"
  obtain j s2 where j: "get_jrdd r (s\<lparr>dr_objs := (dr_objs s)[r := ?o\<lparr>ro_is_cached := True\<rparr>]\<rparr>) = (j, s2)"
    by force
  define s1 where "s1 = s2\<lparr>dr_calls := dr_calls s2 @ [JPersist j level]\<rparr>"
  have p: "rdd_persist r level s = (r, s1)" by (simp add: rdd_persist_def j s1_def)
  have P: "driver_ok s1" "jrdd_content j = rdd_content s r" "dr_calls s2 = dr_calls s"
    "ro_jrdd (dr_objs s2 ! r) = Some j" "\<forall>q < length (dr_objs s). rdd_content s2 q = rdd_content s q"
    "is_pipelinable (dr_objs s2 ! r) = is_pipelinable (?o\<lparr>ro_is_cached := True\<rparr>)"
    using storage_call_props [OF assms _ _ j, of "JPersist j level"] unfolding s1_def by auto
  have len: "length (dr_objs s1) = length (dr_objs s)" and chk: "ro_is_checkpointed (dr_objs s1 ! r) = ro_is_checkpointed ?o"
    using j assms(2) by (auto simp: s1_def get_jrdd_def Let_def split: option.splits prod.splits)
  have r1: "r < length (dr_objs s1)" using len assms(2) by simp
  let ?o1 = "dr_objs s1 ! r"
  have j1: "ro_jrdd ?o1 = Some j" using P(4) by (simp add: s1_def)
  define s3 where "s3 = s1\<lparr>dr_objs := (dr_objs s1)[r := ?o1\<lparr>ro_is_cached := False\<rparr>]\<rparr>"
  have g3: "get_jrdd r s3 = (j, s3)" using j1 r1 by (simp add: get_jrdd_def s3_def)
  define s4 where "s4 = s3\<lparr>dr_calls := dr_calls s3 @ [JUnpersist j]\<rparr>"
  have u: "rdd_unpersist r s1 = (r, s4)"
    using g3 by (simp add: rdd_unpersist_def s4_def s3_def Let_def)
  have U: "driver_ok s4" "\<forall>q < length (dr_objs s1). rdd_content s3 q = rdd_content s1 q"
    using storage_call_props [OF P(1) r1 _ _ g3 [unfolded s3_def], of "JUnpersist j"]
    unfolding s4_def s3_def by auto
  have "dr_calls s4 = dr_calls s @ [JPersist j level, JUnpersist j]"
    by (simp add: s4_def s3_def s1_def P(3))
  moreover have "\<forall>q < length (dr_objs s). rdd_content s1 q = rdd_content s q"
    using P(5) by (simp add: s1_def rdd_content_def)
  moreover have "\<forall>q < length (dr_objs s). rdd_content s4 q = rdd_content s1 q"
    using U(2) len by (simp add: s4_def rdd_content_def)
  moreover have "\<not> is_pipelinable (dr_objs s1 ! r)" using P(6) by (simp add: s1_def is_pipelinable_def)
  moreover have "is_pipelinable (dr_objs s4 ! r) = (\<not> ro_is_checkpointed ?o)"
    using r1 chk by (simp add: s4_def s3_def is_pipelinable_def)
  ultimately show ?thesis using p u P(1,2) U(1) by (intro exI [of _ j] exI [of _ s1] exI [of _ s4]) simp
qed

definition memory_only :: storage_level where
  "memory_only = \<lparr>sl_useDisk = False, sl_useMemory = True, sl_useOffHeap = False,
     sl_deserialized = True, sl_replication = 1\<rparr>"

theorem storage_calls_keep_contents_witness:
  "\<exists>j s1 s2. rdd_persist 0 memory_only example_driver = (0, s1) \<and> rdd_unpersist 0 s1 = (0, s2) \<and>
    driver_ok s1 \<and> driver_ok s2 \<and> jrdd_content j = rdd_content example_driver 0 \<and>
    dr_calls s2 = dr_calls example_driver @ [JPersist j memory_only, JUnpersist j] \<and>
    \<not> is_pipelinable (dr_objs s1 ! 0) \<and>
    is_pipelinable (dr_objs s2 ! 0) = (\<not> ro_is_checkpointed (dr_objs example_driver ! 0)) \<and>
    (\<forall>q < length (dr_objs example_driver).
       rdd_content s1 q = rdd_content example_driver q \<and> rdd_content s2 q = rdd_content example_driver q)"
  by (rule storage_calls_keep_contents) (simp_all add: example_driver_ok)

end
