(* ===== verification/Ec2.thy ===== *)
theory Ec2
  imports Prelude
begin

text \<open>
  \<open>ec2/spark_ec2.py\<close>: launching, finding, stopping, starting and destroying a cluster. Amazon's
  API, the child processes and the clock are an argument: a record of functions over an abstract
  world. Every call that changes the world is also written to a log, so that the properties can
  speak of what the script does whatever the API answers.
\<close>

section \<open>The world\<close>

record ec2_instance =
  inst_id :: string
  inst_state :: string
  inst_groups :: "string list"
  inst_spot :: bool
  inst_dns :: string

record sec_group =
  sg_name :: string
  sg_rules :: "(string \<times> string list) list"

datatype ec2_call =
    CreateGroup string
  | AuthorizeGroup string string
  | AuthorizePort string int int
  | RunInstances string string string int
  | RequestSpot string string string int real
  | CancelSpot "string list"
  | StartInstance string
  | StopInstance string
  | TerminateInstance string
  | RevokeRule string string
  | DeleteGroup string
  | Exec "string list"
  | Sleep int

record 'w aws =
  aws_do :: "ec2_call \<Rightarrow> 'w \<Rightarrow> 'w"
  aws_groups :: "'w \<Rightarrow> sec_group list"
  aws_reservations :: "'w \<Rightarrow> ec2_instance list list"
  aws_instances :: "string list \<Rightarrow> 'w \<Rightarrow> ec2_instance list list"
  aws_state :: "string \<Rightarrow> 'w \<Rightarrow> string"
  aws_launched :: "ec2_call \<Rightarrow> 'w \<Rightarrow> ec2_instance list"
  aws_requested :: "ec2_call \<Rightarrow> 'w \<Rightarrow> string list"
  aws_spot_requests :: "'w \<Rightarrow> (string \<times> string \<times> string) list"
  aws_interrupted :: "'w \<Rightarrow> bool"
  aws_has_image :: "string \<Rightarrow> 'w \<Rightarrow> bool"
  aws_zones :: "'w \<Rightarrow> string list"
  aws_choice :: "string list \<Rightarrow> 'w \<Rightarrow> string"
  aws_fetch :: "string \<Rightarrow> 'w \<Rightarrow> string option"
  aws_exit_status :: "string list \<Rightarrow> 'w \<Rightarrow> int"
  aws_input :: "'w \<Rightarrow> string"
  aws_revoked :: "string \<Rightarrow> string \<Rightarrow> 'w \<Rightarrow> bool"
  aws_deleted :: "string \<Rightarrow> 'w \<Rightarrow> bool"
  sh_quote :: "string \<Rightarrow> string"

record 'w ec2 =
  ec2_world :: 'w
  ec2_log :: "ec2_call list"

text \<open>A computation either diverges (None) or ends with a value or an exception.\<close>

type_synonym ('w, 'a) io = "'w ec2 \<Rightarrow> ('a res \<times> 'w ec2) option"

definition io_return :: "'a \<Rightarrow> ('w, 'a) io" where
  "io_return x s = Some (Inr x, s)"

definition io_raise :: "py_error \<Rightarrow> ('w, 'a) io" where
  "io_raise e s = Some (Inl e, s)"

definition io_bind :: "('w, 'a) io \<Rightarrow> ('a \<Rightarrow> ('w, 'b) io) \<Rightarrow> ('w, 'b) io" where
  "io_bind m f s =
     (case m s of
        None \<Rightarrow> None
      | Some (Inl e, s') \<Rightarrow> Some (Inl e, s')
      | Some (Inr x, s') \<Rightarrow> f x s')"

definition io_query :: "('w \<Rightarrow> 'a) \<Rightarrow> ('w, 'a) io" where
  "io_query q s = Some (Inr (q (ec2_world s)), s)"

definition io_do :: "'w aws \<Rightarrow> ec2_call \<Rightarrow> ('w, unit) io" where
  "io_do aws c s =
     Some (Inr (), s\<lparr>ec2_world := aws_do aws c (ec2_world s), ec2_log := ec2_log s @ [c]\<rparr>)"

fun io_seq :: "('w, unit) io list \<Rightarrow> ('w, unit) io" where
  "io_seq [] = io_return ()"
| "io_seq (m # ms) = io_bind m (\<lambda>_. io_seq ms)"

section \<open>Options\<close>

record ec2_opts =
  opt_slaves :: int
  opt_wait :: int
  opt_key_pair :: "string option"
  opt_identity_file :: "string option"
  opt_instance_type :: string
  opt_master_instance_type :: string
  opt_region :: string
  opt_zone :: string
  opt_ami :: "string option"
  opt_spark_version :: string
  opt_hadoop_major_version :: string
  opt_resume :: bool
  opt_spot_price :: "real option"
  opt_ganglia :: bool
  opt_user :: string
  opt_delete_groups :: bool
  opt_use_existing_master :: bool
  opt_proxy_port :: "string option"
  opt_swap :: int
  opt_worker_instances :: int
  opt_master_opts :: string

text \<open>The defaults of \<open>parse_args\<close>.\<close>

definition default_opts :: ec2_opts where
  "default_opts =
     \<lparr>opt_slaves = 1, opt_wait = 120, opt_key_pair = None, opt_identity_file = None,
      opt_instance_type = ''m1.large'', opt_master_instance_type = '''',
      opt_region = ''us-east-1'', opt_zone = '''', opt_ami = None, opt_spark_version = ''1.0.0'',
      opt_hadoop_major_version = ''1'', opt_resume = False, opt_spot_price = None,
      opt_ganglia = True, opt_user = ''root'', opt_delete_groups = False,
      opt_use_existing_master = False, opt_proxy_port = None, opt_swap = 1024,
      opt_worker_instances = 1, opt_master_opts = ''''\<rparr>"

section \<open>Groups, instances and versions\<close>

definition get_or_make_group :: "'w aws \<Rightarrow> string \<Rightarrow> ('w, sec_group) io" where
  "get_or_make_group aws name =
     io_bind (io_query (aws_groups aws)) (\<lambda>groups.
       case filter (\<lambda>g. sg_name g = name) groups of
         g # _ \<Rightarrow> io_return g
       | [] \<Rightarrow> io_bind (io_do aws (CreateGroup name)) (\<lambda>_.
           io_return \<lparr>sg_name = name, sg_rules = []\<rparr>))"

definition is_active :: "ec2_instance \<Rightarrow> bool" where
  "is_active inst \<longleftrightarrow>
     inst_state inst \<in> set [''pending'', ''running'', ''stopping'', ''stopped'']"

text \<open>One round of \<open>wait_for_instances\<close>: update all, then look for a pending one.\<close>

partial_function (option) wait_for_instances ::
  "'w aws \<Rightarrow> ec2_instance list \<Rightarrow> 'w ec2 \<Rightarrow> (unit res \<times> 'w ec2) option" where
  "wait_for_instances aws instances s =
     (if \<exists>i\<in>set instances. aws_state aws (inst_id i) (ec2_world s) = ''pending''
      then wait_for_instances aws instances
             (s\<lparr>ec2_world := aws_do aws (Sleep 5) (ec2_world s), ec2_log := ec2_log s @ [Sleep 5]\<rparr>)
      else Some (Inr (), s))"

definition spark_shark_map :: "(string \<times> string) list" where
  "spark_shark_map =
     [(''0.7.3'', ''0.7.1''), (''0.8.0'', ''0.8.0''), (''0.8.1'', ''0.8.1''),
      (''0.9.0'', ''0.9.0''), (''0.9.1'', ''0.9.1''), (''1.0.0'', ''1.0.0'')]"

text \<open>\<open>s.replace("v", "")\<close> removes every letter v.\<close>

definition get_spark_shark_version :: "ec2_opts \<Rightarrow> (string \<times> string) res" where
  "get_spark_shark_version opts =
     (let version = filter (\<lambda>c. c \<noteq> CHR ''v'') (opt_spark_version opts) in
      case map_of spark_shark_map version of
        None \<Rightarrow> Inl (SystemExit 1)
      | Some shark \<Rightarrow> Inr (version, shark))"

definition hvm_types :: "string list" where
  "hvm_types =
     [''cc1.4xlarge'', ''cc2.8xlarge'', ''cg1.4xlarge'', ''hs1.8xlarge'', ''hi1.4xlarge'',
      ''m3.xlarge'', ''m3.2xlarge'', ''cr1.8xlarge'', ''i2.xlarge'', ''i2.2xlarge'',
      ''i2.4xlarge'', ''i2.8xlarge'']"

definition pvm_types :: "string list" where
  "pvm_types =
     [''m1.small'', ''m1.medium'', ''m1.large'', ''m1.xlarge'', ''t1.micro'', ''c1.medium'',
      ''c1.xlarge'', ''m2.xlarge'', ''m2.2xlarge'', ''m2.4xlarge'', ''c3.large'', ''c3.xlarge'',
      ''c3.2xlarge'', ''c3.4xlarge'', ''c3.8xlarge'']"

definition instance_types :: "(string \<times> string) list" where
  "instance_types = map (\<lambda>t. (t, ''pvm'')) pvm_types @ map (\<lambda>t. (t, ''hvm'')) hvm_types"

definition AMI_PREFIX :: string where
  "AMI_PREFIX = ''https://raw.github.com/mesos/spark-ec2/v2/ami-list''"

definition get_spark_ami :: "'w aws \<Rightarrow> ec2_opts \<Rightarrow> ('w, string) io" where
  "get_spark_ami aws opts =
     (let instance_type =
            (case map_of instance_types (opt_instance_type opts) of Some t \<Rightarrow> t | None \<Rightarrow> ''pvm'');
          ami_path = AMI_PREFIX @ ''/'' @ opt_region opts @ ''/'' @ instance_type
      in io_bind (io_query (aws_fetch aws ami_path)) (\<lambda>r.
           case r of None \<Rightarrow> io_raise (SystemExit 1) | Some ami \<Rightarrow> io_return ami))"

text \<open>\<open>for res in reservations: for inst in active: ...\<close>\<close>

definition nodes_in :: "string \<Rightarrow> ec2_instance list list \<Rightarrow> ec2_instance list" where
  "nodes_in group_name reservations =
     concat (map (\<lambda>res. filter (\<lambda>inst. inst_groups inst = [group_name]) (filter is_active res)) reservations)"

definition get_existing_cluster ::
  "'w aws \<Rightarrow> string \<Rightarrow> bool \<Rightarrow> ('w, ec2_instance list \<times> ec2_instance list) io" where
  "get_existing_cluster aws cluster_name die_on_error =
     io_bind (io_query (aws_reservations aws)) (\<lambda>reservations.
       let master_nodes = nodes_in (cluster_name @ ''-master'') reservations;
           slave_nodes = nodes_in (cluster_name @ ''-slaves'') reservations
       in if master_nodes \<noteq> [] \<or> \<not> die_on_error then io_return (master_nodes, slave_nodes)
          else io_raise (SystemExit 1))"

definition get_zones :: "'w aws \<Rightarrow> ec2_opts \<Rightarrow> ('w, string list) io" where
  "get_zones aws opts =
     (if opt_zone opts = ''all'' then io_query (aws_zones aws) else io_return [opt_zone opts])"

definition get_partition :: "int \<Rightarrow> int \<Rightarrow> int \<Rightarrow> int" where
  "get_partition item_total num_partitions current_partitions =
     (let num_slaves_this_zone = item_total div num_partitions
      in if item_total mod num_partitions - current_partitions > 0
         then num_slaves_this_zone + 1 else num_slaves_this_zone)"

section \<open>Launching\<close>

definition master_rules :: "ec2_opts \<Rightarrow> string \<Rightarrow> string \<Rightarrow> ec2_call list" where
  "master_rules opts master slave =
     [AuthorizeGroup master master, AuthorizeGroup master slave] @
     map (\<lambda>(a, b). AuthorizePort master a b)
       ([(22, 22), (8080, 8081), (19999, 19999), (50030, 50030), (50070, 50070),
         (60070, 60070), (4040, 4045)] @
        (if opt_ganglia opts then [(5080, 5080)] else []))"

definition slave_rules :: "string \<Rightarrow> string \<Rightarrow> ec2_call list" where
  "slave_rules master slave =
     [AuthorizeGroup slave master, AuthorizeGroup slave slave] @
     map (\<lambda>(a, b). AuthorizePort slave a b)
       [(22, 22), (8080, 8081), (50060, 50060), (50075, 50075), (60060, 60060), (60075, 60075)]"

definition setup_groups :: "'w aws \<Rightarrow> ec2_opts \<Rightarrow> string \<Rightarrow> ('w, unit) io" where
  "setup_groups aws opts cluster_name =
     io_bind (get_or_make_group aws (cluster_name @ ''-master'')) (\<lambda>m.
     io_bind (get_or_make_group aws (cluster_name @ ''-slaves'')) (\<lambda>sl.
     io_bind (if sg_rules m = [] then io_seq (map (io_do aws) (master_rules opts (sg_name m) (sg_name sl)))
              else io_return ()) (\<lambda>_.
       if sg_rules sl = [] then io_seq (map (io_do aws) (slave_rules (sg_name m) (sg_name sl)))
       else io_return ())))"

text \<open>The loop over the zones that launches the slaves; \<open>i\<close> counts the zones.\<close>

fun launch_slaves ::
  "'w aws \<Rightarrow> ec2_opts \<Rightarrow> string \<Rightarrow> int \<Rightarrow> int \<Rightarrow> string list \<Rightarrow> ('w, ec2_instance list) io" where
  "launch_slaves aws opts grp num_zones i [] = io_return []"
| "launch_slaves aws opts grp num_zones i (zone # zones) =
     (let n = get_partition (opt_slaves opts) num_zones i;
          call = RunInstances grp (opt_instance_type opts) zone n
      in io_bind
           (if n > 0 then
              io_bind (io_query (aws_launched aws call)) (\<lambda>nodes.
              io_bind (io_do aws call) (\<lambda>_. io_return nodes))
            else io_return [])
           (\<lambda>nodes. io_bind (launch_slaves aws opts grp num_zones (i + 1) zones)
             (\<lambda>rest. io_return (nodes @ rest))))"

fun request_spots ::
  "'w aws \<Rightarrow> ec2_opts \<Rightarrow> string \<Rightarrow> real \<Rightarrow> int \<Rightarrow> int \<Rightarrow> string list \<Rightarrow> ('w, string list) io" where
  "request_spots aws opts grp price num_zones i [] = io_return []"
| "request_spots aws opts grp price num_zones i (zone # zones) =
     (let call = RequestSpot grp (opt_instance_type opts) zone
                   (get_partition (opt_slaves opts) num_zones i) price
      in io_bind (io_query (aws_requested aws call)) (\<lambda>ids.
         io_bind (io_do aws call) (\<lambda>_.
         io_bind (request_spots aws opts grp price num_zones (i + 1) zones) (\<lambda>rest.
           io_return (ids @ rest)))))"

text \<open>The instances of the requests that are active, in the order of the requests.\<close>

definition granted :: "string list \<Rightarrow> (string \<times> string \<times> string) list \<Rightarrow> string list" where
  "granted my_req_ids reqs =
     concat (map (\<lambda>i. case map_of (rev reqs) i of
         Some (state, inst) \<Rightarrow> if state = ''active'' then [inst] else []
       | None \<Rightarrow> []) my_req_ids)"

text \<open>Ten seconds at a time, until all are granted or the user interrupts.\<close>

partial_function (option) wait_for_spots ::
  "'w aws \<Rightarrow> ec2_opts \<Rightarrow> string \<Rightarrow> string list \<Rightarrow> 'w ec2 \<Rightarrow> (ec2_instance list res \<times> 'w ec2) option" where
  "wait_for_spots aws opts cluster_name my_req_ids s =
     (let s1 = s\<lparr>ec2_world := aws_do aws (Sleep 10) (ec2_world s), ec2_log := ec2_log s @ [Sleep 10]\<rparr>;
          active = granted my_req_ids (aws_spot_requests aws (ec2_world s1))
      in if aws_interrupted aws (ec2_world s1) then
           (let c = CancelSpot my_req_ids
            in Some (Inl (SystemExit 0),
                 s1\<lparr>ec2_world := aws_do aws c (ec2_world s1), ec2_log := ec2_log s1 @ [c]\<rparr>))
         else if int (length active) = opt_slaves opts then
           Some (Inr (concat (aws_instances aws active (ec2_world s1))), s1)
         else wait_for_spots aws opts cluster_name my_req_ids s1)"

definition launch_all_slaves ::
  "'w aws \<Rightarrow> ec2_opts \<Rightarrow> string \<Rightarrow> ('w, ec2_instance list) io" where
  "launch_all_slaves aws opts cluster_name =
     (let grp = cluster_name @ ''-slaves'' in
      io_bind (get_zones aws opts) (\<lambda>zones.
        case opt_spot_price opts of
          Some price \<Rightarrow>
            io_bind (request_spots aws opts grp price (int (length zones)) 0 zones) (\<lambda>ids.
              wait_for_spots aws opts cluster_name ids)
        | None \<Rightarrow> launch_slaves aws opts grp (int (length zones)) 0 zones))"

definition startable :: "ec2_instance \<Rightarrow> bool" where
  "startable inst \<longleftrightarrow> inst_state inst \<notin> set [''shutting-down'', ''terminated'']"

definition launch_master ::
  "'w aws \<Rightarrow> ec2_opts \<Rightarrow> string \<Rightarrow> ec2_instance list \<Rightarrow> ('w, ec2_instance list) io" where
  "launch_master aws opts cluster_name existing_masters =
     (if existing_masters \<noteq> [] then
        io_bind (io_seq (map (\<lambda>inst. io_do aws (StartInstance (inst_id inst))) (filter startable existing_masters)))
          (\<lambda>_. io_return existing_masters)
      else
        (let master_type =
               (if opt_master_instance_type opts = '''' then opt_instance_type opts
                else opt_master_instance_type opts)
         in io_bind (if opt_zone opts = ''all'' then io_query (\<lambda>w. aws_choice aws (aws_zones aws w) w)
                     else io_return (opt_zone opts)) (\<lambda>zone.
              let call = RunInstances (cluster_name @ ''-master'') master_type zone 1 in
              io_bind (io_query (aws_launched aws call)) (\<lambda>nodes.
              io_bind (io_do aws call) (\<lambda>_. io_return nodes)))))"

definition launch_cluster ::
  "'w aws \<Rightarrow> ec2_opts \<Rightarrow> string \<Rightarrow> ('w, ec2_instance list \<times> ec2_instance list) io" where
  "launch_cluster aws opts cluster_name =
     (if opt_identity_file opts = None then io_raise (SystemExit 1)
      else if opt_key_pair opts = None then io_raise (SystemExit 1)
      else
        io_bind (setup_groups aws opts cluster_name) (\<lambda>_.
        io_bind (get_existing_cluster aws cluster_name False) (\<lambda>(existing_masters, existing_slaves).
          if existing_slaves \<noteq> [] \<or> (existing_masters \<noteq> [] \<and> \<not> opt_use_existing_master opts)
          then io_raise (SystemExit 1)
          else
            io_bind (case opt_ami opts of Some ami \<Rightarrow> io_return ami | None \<Rightarrow> get_spark_ami aws opts) (\<lambda>ami.
            io_bind (io_query (aws_has_image aws ami)) (\<lambda>found.
              if \<not> found then io_raise (SystemExit 1)
              else
                io_bind (launch_all_slaves aws opts cluster_name) (\<lambda>slave_nodes.
                io_bind (launch_master aws opts cluster_name existing_masters) (\<lambda>master_nodes.
                  io_return (master_nodes, slave_nodes))))))))"

section \<open>Remote commands\<close>

definition ssh_args :: "ec2_opts \<Rightarrow> string list" where
  "ssh_args opts =
     [''-o'', ''StrictHostKeyChecking=no''] @
     (case opt_identity_file opts of Some f \<Rightarrow> [''-i'', f] | None \<Rightarrow> [])"

definition ssh_command :: "ec2_opts \<Rightarrow> string list" where
  "ssh_command opts = [''ssh''] @ ssh_args opts"

text \<open>A command is a string already, or a list of parts to be quoted.\<close>

fun intercalate :: "string \<Rightarrow> string list \<Rightarrow> string" where
  "intercalate sep [] = []"
| "intercalate sep [x] = x"
| "intercalate sep (x # y # ys) = x @ sep @ intercalate sep (y # ys)"

fun stringify_command :: "'w aws \<Rightarrow> string + string list \<Rightarrow> string" where
  "stringify_command aws (Inl parts) = parts"
| "stringify_command aws (Inr parts) = intercalate '' '' (map (sh_quote aws) parts)"

definition exec :: "'w aws \<Rightarrow> string list \<Rightarrow> ('w, int) io" where
  "exec aws cmd =
     io_bind (io_query (aws_exit_status aws cmd)) (\<lambda>status.
     io_bind (io_do aws (Exec cmd)) (\<lambda>_. io_return status))"

text \<open>
  The retry loop of \<open>ssh\<close>. \<open>fuel\<close> bounds the number of attempts; the loop itself gives up when
  \<open>tries\<close> has passed 5, so 7 is enough from \<open>tries = 0\<close>.
\<close>

fun ssh_loop :: "'w aws \<Rightarrow> string list \<Rightarrow> int \<Rightarrow> nat \<Rightarrow> ('w, unit) io" where
  "ssh_loop aws cmd tries 0 = (\<lambda>s. None)"
| "ssh_loop aws cmd tries (Suc fuel) =
     io_bind (exec aws cmd) (\<lambda>status.
       if status = 0 then io_return ()
       else if tries > 5 then
         (if status = 255 then io_raise (PyException ''UsageError'')
          else io_raise (PyException ''CalledProcessError''))
       else io_bind (io_do aws (Sleep 30)) (\<lambda>_. ssh_loop aws cmd (tries + 1) fuel))"

definition ssh_cmd :: "'w aws \<Rightarrow> string \<Rightarrow> ec2_opts \<Rightarrow> string + string list \<Rightarrow> string list" where
  "ssh_cmd aws host opts command =
     ssh_command opts @ [''-t'', ''-t'', opt_user opts @ ''@'' @ host, stringify_command aws command]"

definition ssh :: "'w aws \<Rightarrow> string \<Rightarrow> ec2_opts \<Rightarrow> string + string list \<Rightarrow> ('w, unit) io" where
  "ssh aws host opts command = ssh_loop aws (ssh_cmd aws host opts command) 0 7"

fun ssh_write_loop :: "'w aws \<Rightarrow> string list \<Rightarrow> int \<Rightarrow> nat \<Rightarrow> ('w, unit) io" where
  "ssh_write_loop aws cmd tries 0 = (\<lambda>s. None)"
| "ssh_write_loop aws cmd tries (Suc fuel) =
     io_bind (exec aws cmd) (\<lambda>status.
       if status = 0 then io_return ()
       else if tries > 5 then io_raise RuntimeError
       else io_bind (io_do aws (Sleep 30)) (\<lambda>_. ssh_write_loop aws cmd (tries + 1) fuel))"

definition ssh_write :: "'w aws \<Rightarrow> string \<Rightarrow> ec2_opts \<Rightarrow> string + string list \<Rightarrow> ('w, unit) io" where
  "ssh_write aws host opts command =
     ssh_write_loop aws (ssh_command opts @ [opt_user opts @ ''@'' @ host, stringify_command aws command]) 0 7"

definition ssh_read :: "'w aws \<Rightarrow> string \<Rightarrow> ec2_opts \<Rightarrow> string + string list \<Rightarrow> ('w, unit) io" where
  "ssh_read aws host opts command =
     io_bind (exec aws (ssh_command opts @ [opt_user opts @ ''@'' @ host, stringify_command aws command]))
       (\<lambda>status. if status = 0 then io_return () else io_raise (PyException ''CalledProcessError''))"

section \<open>Setting a cluster up\<close>

definition setup_modules :: "ec2_opts \<Rightarrow> string list" where
  "setup_modules opts =
     (let modules = [''spark'', ''shark'', ''ephemeral-hdfs'', ''persistent-hdfs'', ''mapreduce'',
                     ''spark-standalone'', ''tachyon''];
          modules1 = (if opt_hadoop_major_version opts = ''1''
                      then filter (\<lambda>x. x \<noteq> ''mapreduce'') modules else modules)
      in if opt_ganglia opts then modules1 @ [''ganglia''] else modules1)"

definition one_disk_types :: "string list" where
  "one_disk_types =
     [''m1.small'', ''m1.medium'', ''t1.micro'', ''c1.medium'', ''m2.xlarge'', ''m2.2xlarge'', ''i2.xlarge'']"

definition two_disk_types :: "string list" where
  "two_disk_types =
     [''m1.large'', ''m2.4xlarge'', ''cc1.4xlarge'', ''cg1.4xlarge'', ''cr1.8xlarge'', ''hi1.4xlarge'',
      ''i2.2xlarge'', ''c3.large'', ''c3.xlarge'', ''c3.2xlarge'', ''c3.4xlarge'', ''c3.8xlarge'']"

definition disks_by_instance :: "(string \<times> nat) list" where
  "disks_by_instance =
     map (\<lambda>t. (t, 1)) one_disk_types @ map (\<lambda>t. (t, 2)) two_disk_types @
     [(''m1.xlarge'', 4), (''c1.xlarge'', 4), (''cc2.8xlarge'', 4), (''i2.4xlarge'', 4),
      (''hs1.8xlarge'', 24), (''i2.8xlarge'', 8), (''m3.xlarge'', 0), (''m3.2xlarge'', 0)]"

definition get_num_disks :: "string \<Rightarrow> nat" where
  "get_num_disks instance_type =
     (case map_of disks_by_instance instance_type of Some n \<Rightarrow> n | None \<Rightarrow> 1)"

text \<open>The comma-separated directories on the disks 1 to n; the first disk is \<open>/mnt\<close>.\<close>

definition disk_dirs :: "string \<Rightarrow> nat \<Rightarrow> string" where
  "disk_dirs dir num_disks =
     concat ((''/mnt'' @ dir) #
       (if num_disks > 1 then map (\<lambda>i. '',/mnt'' @ nat_str i @ dir) [2..<num_disks + 1] else []))"

definition deploy_versions :: "ec2_opts \<Rightarrow> string \<Rightarrow> string list \<Rightarrow> (string \<times> string \<times> string list) res" where
  "deploy_versions opts git_repo modules =
     (if CHR ''.'' \<in> set (opt_spark_version opts) then
        map_res (\<lambda>(spark_v, shark_v). (spark_v, shark_v, modules)) (get_spark_shark_version opts)
      else Inr (git_repo @ ''|'' @ opt_spark_version opts, '''', filter (\<lambda>x. x \<noteq> ''shark'') modules))"

text \<open>\<open>text.replace(old, new)\<close> for a non-empty \<open>old\<close>.\<close>

function py_replace :: "string \<Rightarrow> string \<Rightarrow> string \<Rightarrow> string" where
  "py_replace old new txt =
     (case txt of
        [] \<Rightarrow> []
      | c # cs \<Rightarrow>
          if old \<noteq> [] \<and> take (length old) txt = old
          then new @ py_replace old new (drop (length old) txt)
          else c # py_replace old new cs)"
  by pat_completeness auto
termination
  by (relation "measure (\<lambda>(old, new, txt). length txt)") auto

declare py_replace.simps [simp del]

definition fill_template :: "(string \<times> string) list \<Rightarrow> string \<Rightarrow> string" where
  "fill_template template_vars txt =
     foldl (\<lambda>t (key, val). py_replace (''{{'' @ key @ ''}}'') val t) txt template_vars"

definition deployed_file :: "string \<Rightarrow> bool" where
  "deployed_file filename \<longleftrightarrow> hd filename \<notin> set ''#.~'' \<and> last filename \<noteq> CHR ''~''"

text \<open>
  \<open>src\<close> is what \<open>os.walk\<close> finds under the templates (the Subversion directories left out): the
  destination and text of each file. The result is the content of the directory that \<open>rsync\<close> sends.
\<close>

definition deploy_texts ::
  "(string \<times> string) list \<Rightarrow> (string \<times> string) list \<Rightarrow> (string \<times> string) list" where
  "deploy_texts template_vars src =
     map (\<lambda>(filename, txt). (filename, fill_template template_vars txt))
       (filter (\<lambda>(filename, txt). deployed_file filename) src)"

definition template_vars ::
  "ec2_opts \<Rightarrow> ec2_instance list \<Rightarrow> ec2_instance list \<Rightarrow> string \<times> string \<times> string list \<Rightarrow>
   (string \<times> string) list" where
  "template_vars opts master_nodes slave_nodes = (\<lambda>(spark_v, shark_v, modules).
     (let active_master = inst_dns (hd master_nodes);
          n = get_num_disks (opt_instance_type opts)
      in [(''master_list'', intercalate [CHR 0x0A] (map inst_dns master_nodes)),
          (''active_master'', active_master),
          (''slave_list'', intercalate [CHR 0x0A] (map inst_dns slave_nodes)),
          (''cluster_url'', active_master @ '':7077''),
          (''hdfs_data_dirs'', disk_dirs ''/ephemeral-hdfs/data'' n),
          (''mapred_local_dirs'', disk_dirs ''/hadoop/mrlocal'' n),
          (''spark_local_dirs'', disk_dirs ''/spark'' n),
          (''swap'', int_str (opt_swap opts)),
          (''modules'', intercalate [CHR 0x0A] modules),
          (''spark_version'', spark_v),
          (''shark_version'', shark_v),
          (''hadoop_major_version'', opt_hadoop_major_version opts),
          (''spark_worker_instances'', int_str (opt_worker_instances opts)),
          (''spark_master_opts'', opt_master_opts opts)]))"

definition deploy_files ::
  "'w aws \<Rightarrow> ec2_opts \<Rightarrow> string \<Rightarrow> ec2_instance list \<Rightarrow> ec2_instance list \<Rightarrow> string list \<Rightarrow>
   (string \<times> string) list \<Rightarrow> string \<Rightarrow> ('w, (string \<times> string) list) io" where
  "deploy_files aws opts git_repo master_nodes slave_nodes modules src tmp_dir =
     (case deploy_versions opts git_repo modules of
        Inl e \<Rightarrow> io_raise e
      | Inr v \<Rightarrow>
          io_bind (exec aws [''rsync'', ''-rv'', ''-e'', stringify_command aws (Inr (ssh_command opts)),
              tmp_dir @ ''/'', opt_user opts @ ''@'' @ inst_dns (hd master_nodes) @ '':/'']) (\<lambda>status.
            if status = 0
            then io_return (deploy_texts (template_vars opts master_nodes slave_nodes v) src)
            else io_raise (PyException ''CalledProcessError'')))"

definition setup_spark_cluster :: "'w aws \<Rightarrow> string \<Rightarrow> ec2_opts \<Rightarrow> ('w, unit) io" where
  "setup_spark_cluster aws master opts =
     io_bind (ssh aws master opts (Inl ''chmod u+x spark-ec2/setup.sh'')) (\<lambda>_.
       ssh aws master opts (Inl ''spark-ec2/setup.sh''))"

text \<open>\<open>key_setup\<close> is the text of the shell script that generates the cluster's key.\<close>

definition setup_cluster ::
  "'w aws \<Rightarrow> ec2_instance list \<Rightarrow> ec2_instance list \<Rightarrow> ec2_opts \<Rightarrow> bool \<Rightarrow> string \<Rightarrow> string \<Rightarrow>
   (string \<times> string) list \<Rightarrow> string \<Rightarrow> ('w, unit) io" where
  "setup_cluster aws master_nodes slave_nodes opts deploy_ssh_key key_setup git_repo src tmp_dir =
     (case master_nodes of
        [] \<Rightarrow> io_raise IndexError
      | m # _ \<Rightarrow>
          (let master = inst_dns m in
           io_bind
             (if deploy_ssh_key then
                io_bind (ssh aws master opts (Inl key_setup)) (\<lambda>_.
                io_bind (ssh_read aws master opts (Inr [''tar'', ''c'', ''.ssh''])) (\<lambda>_.
                  io_seq (map (\<lambda>slave. ssh_write aws (inst_dns slave) opts (Inr [''tar'', ''x''])) slave_nodes)))
              else io_return ()) (\<lambda>_.
           io_bind (ssh aws master opts
               (Inl ''rm -rf spark-ec2 && git clone https://github.com/mesos/spark-ec2.git -b v3'')) (\<lambda>_.
           io_bind (deploy_files aws opts git_repo master_nodes slave_nodes (setup_modules opts) src tmp_dir) (\<lambda>_.
             setup_spark_cluster aws master opts)))))"

definition wait_for_cluster ::
  "'w aws \<Rightarrow> int \<Rightarrow> ec2_instance list \<Rightarrow> ec2_instance list \<Rightarrow> ('w, unit) io" where
  "wait_for_cluster aws wait_secs master_nodes slave_nodes =
     io_bind (io_do aws (Sleep 5)) (\<lambda>_.
     io_bind (wait_for_instances aws master_nodes) (\<lambda>_.
     io_bind (wait_for_instances aws slave_nodes) (\<lambda>_.
       io_do aws (Sleep wait_secs))))"

section \<open>The actions\<close>

definition destroy_instances ::
  "'w aws \<Rightarrow> ec2_instance list \<Rightarrow> ('w, unit) io" where
  "destroy_instances aws nodes = io_seq (map (\<lambda>inst. io_do aws (TerminateInstance (inst_id inst))) nodes)"

definition revoke_calls :: "sec_group list \<Rightarrow> (string \<times> string) list" where
  "revoke_calls groups =
     concat (map (\<lambda>g. concat (map (\<lambda>(rule, grants). map (\<lambda>grant. (sg_name g, rule @ '' '' @ grant)) grants)
       (sg_rules g))) groups)"

text \<open>One call after the other; the result says whether all of them succeeded.\<close>

fun attempt_all :: "'w aws \<Rightarrow> (ec2_call \<Rightarrow> 'w \<Rightarrow> bool) \<Rightarrow> ec2_call list \<Rightarrow> bool \<Rightarrow> ('w, bool) io" where
  "attempt_all aws ok [] success = io_return success"
| "attempt_all aws ok (c # cs) success =
     io_bind (io_query (ok c)) (\<lambda>b.
     io_bind (io_do aws c) (\<lambda>_. attempt_all aws ok cs (success \<and> b)))"

fun call_ok :: "'w aws \<Rightarrow> ec2_call \<Rightarrow> 'w \<Rightarrow> bool" where
  "call_ok aws (RevokeRule g r) w = aws_revoked aws g r w"
| "call_ok aws (DeleteGroup g) w = aws_deleted aws g w"
| "call_ok aws c w = True"

fun delete_groups :: "'w aws \<Rightarrow> string list \<Rightarrow> nat \<Rightarrow> ('w, unit) io" where
  "delete_groups aws group_names 0 = io_return ()"
| "delete_groups aws group_names (Suc attempts_left) =
     io_bind (io_query (aws_groups aws)) (\<lambda>all_groups.
       let groups = filter (\<lambda>g. sg_name g \<in> set group_names) all_groups in
       io_bind (attempt_all aws (call_ok aws) (map (\<lambda>(g, r). RevokeRule g r) (revoke_calls groups)) True) (\<lambda>ok1.
       io_bind (io_do aws (Sleep 30)) (\<lambda>_.
       io_bind (attempt_all aws (call_ok aws) (map (\<lambda>g. DeleteGroup (sg_name g)) groups) ok1) (\<lambda>ok2.
         if ok2 then io_return () else delete_groups aws group_names attempts_left))))"

definition action_destroy :: "'w aws \<Rightarrow> ec2_opts \<Rightarrow> string \<Rightarrow> ('w, unit) io" where
  "action_destroy aws opts cluster_name =
     io_bind (io_query (aws_input aws)) (\<lambda>response.
       if response \<noteq> ''y'' then io_return ()
       else
         io_bind (get_existing_cluster aws cluster_name False) (\<lambda>(master_nodes, slave_nodes).
         io_bind (destroy_instances aws master_nodes) (\<lambda>_.
         io_bind (destroy_instances aws slave_nodes) (\<lambda>_.
           if opt_delete_groups opts
           then delete_groups aws [cluster_name @ ''-master'', cluster_name @ ''-slaves''] 3
           else io_return ()))))"

definition stop_call :: "ec2_instance \<Rightarrow> ec2_call" where
  "stop_call inst =
     (if inst_spot inst then TerminateInstance (inst_id inst) else StopInstance (inst_id inst))"

definition action_stop :: "'w aws \<Rightarrow> ec2_opts \<Rightarrow> string \<Rightarrow> ('w, unit) io" where
  "action_stop aws opts cluster_name =
     io_bind (io_query (aws_input aws)) (\<lambda>response.
       if response \<noteq> ''y'' then io_return ()
       else
         io_bind (get_existing_cluster aws cluster_name False) (\<lambda>(master_nodes, slave_nodes).
         io_bind (io_seq (map (\<lambda>inst. io_do aws (StopInstance (inst_id inst))) (filter startable master_nodes))) (\<lambda>_.
           io_seq (map (\<lambda>inst. io_do aws (stop_call inst)) (filter startable slave_nodes)))))"

definition start_nodes :: "'w aws \<Rightarrow> ec2_instance list \<Rightarrow> ('w, unit) io" where
  "start_nodes aws nodes =
     io_seq (map (\<lambda>inst. io_do aws (StartInstance (inst_id inst))) (filter startable nodes))"

definition action_start ::
  "'w aws \<Rightarrow> ec2_opts \<Rightarrow> string \<Rightarrow> string \<Rightarrow> string \<Rightarrow> (string \<times> string) list \<Rightarrow> string \<Rightarrow> ('w, unit) io" where
  "action_start aws opts cluster_name key_setup git_repo src tmp_dir =
     io_bind (get_existing_cluster aws cluster_name True) (\<lambda>(master_nodes, slave_nodes).
     io_bind (start_nodes aws slave_nodes) (\<lambda>_.
     io_bind (start_nodes aws master_nodes) (\<lambda>_.
     io_bind (wait_for_cluster aws (opt_wait opts) master_nodes slave_nodes) (\<lambda>_.
       setup_cluster aws master_nodes slave_nodes opts False key_setup git_repo src tmp_dir))))"

definition action_launch ::
  "'w aws \<Rightarrow> ec2_opts \<Rightarrow> string \<Rightarrow> string \<Rightarrow> string \<Rightarrow> (string \<times> string) list \<Rightarrow> string \<Rightarrow> ('w, unit) io" where
  "action_launch aws opts cluster_name key_setup git_repo src tmp_dir =
     (if opt_slaves opts \<le> 0 then io_raise (SystemExit 1)
      else
        io_bind
          (if opt_resume opts then get_existing_cluster aws cluster_name True
           else
             io_bind (launch_cluster aws opts cluster_name) (\<lambda>(master_nodes, slave_nodes).
             io_bind (wait_for_cluster aws (opt_wait opts) master_nodes slave_nodes) (\<lambda>_.
               io_return (master_nodes, slave_nodes)))) (\<lambda>(master_nodes, slave_nodes).
          setup_cluster aws master_nodes slave_nodes opts True key_setup git_repo src tmp_dir))"

definition action_login :: "'w aws \<Rightarrow> ec2_opts \<Rightarrow> string \<Rightarrow> ('w, unit) io" where
  "action_login aws opts cluster_name =
     io_bind (get_existing_cluster aws cluster_name True) (\<lambda>(master_nodes, slave_nodes).
       let master = inst_dns (hd master_nodes);
           proxy_opt = (case opt_proxy_port opts of Some p \<Rightarrow> [''-D'', p] | None \<Rightarrow> [])
       in io_bind (exec aws (ssh_command opts @ proxy_opt @ [''-t'', ''-t'', opt_user opts @ ''@'' @ master]))
            (\<lambda>status. if status = 0 then io_return () else io_raise (PyException ''CalledProcessError'')))"

definition action_get_master :: "'w aws \<Rightarrow> string \<Rightarrow> ('w, string) io" where
  "action_get_master aws cluster_name =
     io_bind (get_existing_cluster aws cluster_name True) (\<lambda>(master_nodes, slave_nodes).
       io_return (inst_dns (hd master_nodes)))"

definition real_main ::
  "'w aws \<Rightarrow> ec2_opts \<Rightarrow> string \<Rightarrow> string \<Rightarrow> string \<Rightarrow> string \<Rightarrow> (string \<times> string) list \<Rightarrow> string \<Rightarrow>
   ('w, unit) io" where
  "real_main aws opts0 action cluster_name key_setup git_repo src tmp_dir =
     io_bind (if opt_zone opts0 = '''' then io_query (\<lambda>w. aws_choice aws (aws_zones aws w) w)
              else io_return (opt_zone opts0)) (\<lambda>zone.
       let opts = opts0\<lparr>opt_zone := zone\<rparr> in
       if action = ''launch'' then action_launch aws opts cluster_name key_setup git_repo src tmp_dir
       else if action = ''destroy'' then action_destroy aws opts cluster_name
       else if action = ''login'' then action_login aws opts cluster_name
       else if action = ''get-master'' then io_bind (action_get_master aws cluster_name) (\<lambda>_. io_return ())
       else if action = ''stop'' then action_stop aws opts cluster_name
       else if action = ''start'' then action_start aws opts cluster_name key_setup git_repo src tmp_dir
       else io_raise (SystemExit 1))"

section \<open>How the computations run\<close>

lemmas io_simps = io_bind_def io_return_def io_raise_def io_query_def

text \<open>A computation that only performs a list of calls.\<close>

definition run_calls :: "'w aws \<Rightarrow> ec2_call list \<Rightarrow> 'w ec2 \<Rightarrow> 'w ec2" where
  "run_calls aws cs s =
     s\<lparr>ec2_world := fold (aws_do aws) cs (ec2_world s), ec2_log := ec2_log s @ cs\<rparr>"

lemma run_calls_simps [simp]:
  "run_calls aws [] s = s"
  "ec2_log (run_calls aws cs s) = ec2_log s @ cs"
  "ec2_world (run_calls aws cs s) = fold (aws_do aws) cs (ec2_world s)"
  "run_calls aws ds (run_calls aws cs s) = run_calls aws (cs @ ds) s"
  by (simp_all add: run_calls_def)

lemma io_do_eq: "io_do aws c s = Some (Inr (), run_calls aws [c] s)"
  by (simp add: io_do_def run_calls_def)

lemma io_seq_calls: "io_seq (map (\<lambda>x. io_do aws (f x)) xs) s = Some (Inr (), run_calls aws (map f xs) s)"
  by (induction xs arbitrary: s) (simp_all add: io_simps io_do_eq)

lemma io_seq_map_calls: "io_seq (map (io_do aws) cs) s = Some (Inr (), run_calls aws cs s)"
  using io_seq_calls [of aws "\<lambda>c. c" cs s] by simp

lemma get_existing_cluster_eq:
  "get_existing_cluster aws cluster_name die s =
     (let ms = nodes_in (cluster_name @ ''-master'') (aws_reservations aws (ec2_world s));
          ss = nodes_in (cluster_name @ ''-slaves'') (aws_reservations aws (ec2_world s))
      in if ms \<noteq> [] \<or> \<not> die then Some (Inr (ms, ss), s) else Some (Inl (SystemExit 1), s))"
  by (simp add: get_existing_cluster_def io_simps Let_def)

lemma in_nodes_in:
  "inst \<in> set (nodes_in grp reservations) \<longleftrightarrow>
     (\<exists>res\<in>set reservations. inst \<in> set res) \<and> is_active inst \<and> inst_groups inst = [grp]"
  by (auto simp: nodes_in_def)

lemma nodes_in_eq:
  "nodes_in grp reservations =
     filter (\<lambda>i. inst_groups i = [grp] \<and>
       inst_state i \<in> {''pending'', ''running'', ''stopping'', ''stopped''}) (concat reservations)"
  by (induction reservations) (simp_all add: nodes_in_def is_active_def conj_commute)

text \<open>Zones and counts.\<close>

lemma get_partition_sum_upto:
  assumes "0 < n" "0 \<le> t" "m \<le> n"
  shows "(\<Sum>i<m. get_partition t (int n) (int i)) = int m * (t div int n) + min (int m) (t mod int n)"
  using assms(3)
proof (induction m)
  case (Suc m)
  have "0 \<le> t mod int n" using assms(1) by simp
  then show ?case using Suc by (simp add: get_partition_def Let_def algebra_simps)
qed (use assms in simp)

lemma get_partition_sum:
  assumes "0 < n" "0 \<le> t"
  shows "(\<Sum>i<n. get_partition t (int n) (int i)) = t"
proof -
  have "t mod int n < int n" using assms by simp
  then have "(\<Sum>i<n. get_partition t (int n) (int i)) = int n * (t div int n) + t mod int n"
    using get_partition_sum_upto [OF assms order_refl] by simp
  then show ?thesis by simp
qed

fun run_count :: "ec2_call \<Rightarrow> int" where
  "run_count (RunInstances g t z n) = n"
| "run_count c = 0"

lemma get_partition_nonneg: "0 < n \<Longrightarrow> 0 \<le> t \<Longrightarrow> 0 \<le> get_partition t n i"
  by (simp add: get_partition_def Let_def pos_imp_zdiv_nonneg_iff)

text \<open>The calls of the slave loop: one launch for each zone with a positive share.\<close>

definition slave_calls :: "ec2_opts \<Rightarrow> string \<Rightarrow> int \<Rightarrow> nat \<Rightarrow> string list \<Rightarrow> ec2_call list" where
  "slave_calls opts grp n i zones =
     filter (\<lambda>c. run_count c > 0) (map (\<lambda>(k, zone). RunInstances grp (opt_instance_type opts) zone
       (get_partition (opt_slaves opts) n (int k))) (enumerate i zones))"

text \<open>What the API answers to a sequence of launches, each asked in the world the earlier ones left.\<close>

fun launched_by :: "'w aws \<Rightarrow> ec2_call list \<Rightarrow> 'w ec2 \<Rightarrow> ec2_instance list" where
  "launched_by aws [] s = []"
| "launched_by aws (c # cs) s =
     aws_launched aws c (ec2_world s) @ launched_by aws cs (run_calls aws [c] s)"

lemma launch_slaves_calls:
  "launch_slaves aws opts grp n (int i) zones s =
     Some (Inr (launched_by aws (slave_calls opts grp n i zones) s),
       run_calls aws (slave_calls opts grp n i zones) s)"
proof (induction zones arbitrary: i s)
  case Nil
  show ?case by (simp add: io_simps slave_calls_def)
next
  case (Cons z zones)
  let ?c = "RunInstances grp (opt_instance_type opts) z (get_partition (opt_slaves opts) n (int i))"
  let ?pre = "if run_count ?c > 0 then [?c] else []"
  have eq: "slave_calls opts grp n i (z # zones) = ?pre @ slave_calls opts grp n (Suc i) zones"
    by (simp add: slave_calls_def)
  have "launch_slaves aws opts grp n (int (Suc i)) zones (run_calls aws ?pre s) =
      Some (Inr (launched_by aws (slave_calls opts grp n (Suc i) zones) (run_calls aws ?pre s)),
        run_calls aws (slave_calls opts grp n (Suc i) zones) (run_calls aws ?pre s))"
    by (rule Cons.IH)
  then show ?case
    by (simp add: eq io_simps io_do_eq Let_def add.commute split: if_splits)
qed

lemma sum_slave_calls:
  assumes "zones \<noteq> []" "0 \<le> opt_slaves opts"
  shows "sum_list (map run_count (slave_calls opts grp (int (length zones)) 0 zones)) = opt_slaves opts"
proof -
  let ?n = "int (length zones)" and ?g = "\<lambda>k. get_partition (opt_slaves opts) (int (length zones)) (int k)"
  have f: "sum_list (map run_count (filter (\<lambda>c. run_count c > 0) cs)) = sum_list (map run_count cs)"
    if "\<forall>c\<in>set cs. 0 \<le> run_count c" for cs
    using that by (induction cs) auto
  have n: "0 < ?n" using assms(1) by simp
  have "sum_list (map run_count (slave_calls opts grp ?n 0 zones)) = sum_list (map (\<lambda>(k, z). ?g k) (enumerate 0 zones))"
    unfolding slave_calls_def using get_partition_nonneg [OF n assms(2)]
    by (subst f) (auto simp: comp_def case_prod_unfold)
  also have "map (\<lambda>(k, z). ?g k) (enumerate 0 zones) = map ?g (map fst (enumerate 0 zones))"
    by (simp only: case_prod_unfold comp_def map_map)
  also have "sum_list \<dots> = (\<Sum>k<length zones. ?g k)"
    by (simp only: map_fst_enumerate add_0) (simp add: sum_list_sum_nth atLeast0LessThan)
  also have "\<dots> = opt_slaves opts"
    using get_partition_sum [of "length zones" "opt_slaves opts"] assms by simp
  finally show ?thesis .
qed

text \<open>The attempts of a retry loop: every failed one is followed by a pause.\<close>

definition after_failures :: "'w aws \<Rightarrow> string list \<Rightarrow> nat \<Rightarrow> 'w ec2 \<Rightarrow> 'w ec2" where
  "after_failures aws cmd k s = run_calls aws (concat (replicate k [Exec cmd, Sleep 30])) s"

definition attempt_fails :: "'w aws \<Rightarrow> string list \<Rightarrow> 'w ec2 \<Rightarrow> nat \<Rightarrow> bool" where
  "attempt_fails aws cmd s k \<longleftrightarrow> aws_exit_status aws cmd (ec2_world (after_failures aws cmd k s)) \<noteq> 0"

lemma after_failures_Suc:
  "after_failures aws cmd (Suc k) s = after_failures aws cmd k (run_calls aws [Exec cmd, Sleep 30] s)"
  by (simp add: after_failures_def)

lemma exec_eq:
  "exec aws cmd s = Some (Inr (aws_exit_status aws cmd (ec2_world s)), run_calls aws [Exec cmd] s)"
  by (simp add: exec_def io_simps io_do_eq)

lemma ssh_loop_succeeds:
  "\<forall>i<k. attempt_fails aws cmd s i \<Longrightarrow> \<not> attempt_fails aws cmd s k \<Longrightarrow> k < fuel \<Longrightarrow> int fuel + tries = 7 \<Longrightarrow>
     ssh_loop aws cmd tries fuel s = Some (Inr (), run_calls aws [Exec cmd] (after_failures aws cmd k s))"
proof (induction k arbitrary: s fuel tries)
  case 0
  then obtain f where "fuel = Suc f" by (cases fuel) auto
  with 0 show ?case
    by (simp add: attempt_fails_def after_failures_def io_simps exec_eq)
next
  case (Suc k)
  then obtain f where f: "fuel = Suc f" by (cases fuel) auto
  let ?s = "run_calls aws [Exec cmd, Sleep 30] s"
  have "attempt_fails aws cmd s 0" using Suc.prems(1) by blast
  then have st: "aws_exit_status aws cmd (ec2_world s) \<noteq> 0" by (simp add: attempt_fails_def after_failures_def)
  have shift: "attempt_fails aws cmd ?s i = attempt_fails aws cmd s (Suc i)" for i
    by (simp only: attempt_fails_def after_failures_Suc)
  have "ssh_loop aws cmd (tries + 1) f ?s = Some (Inr (), run_calls aws [Exec cmd] (after_failures aws cmd k ?s))"
    by (rule Suc.IH) (use Suc.prems f in \<open>auto simp: shift\<close>)
  then show ?case
    using st f Suc.prems(3,4) by (simp add: io_simps exec_eq io_do_eq after_failures_Suc)
qed

lemma ssh_loop_fails:
  "\<forall>i<fuel. attempt_fails aws cmd s i \<Longrightarrow> 0 < fuel \<Longrightarrow> int fuel + tries = 7 \<Longrightarrow>
     \<exists>e. ssh_loop aws cmd tries fuel s =
       Some (Inl e, run_calls aws [Exec cmd] (after_failures aws cmd (fuel - 1) s)) \<and>
       (e = PyException ''UsageError'' \<or> e = PyException ''CalledProcessError'')"
proof (induction fuel arbitrary: s tries)
  case (Suc f)
  let ?s = "run_calls aws [Exec cmd, Sleep 30] s"
  have "attempt_fails aws cmd s 0" using Suc.prems(1) by blast
  then have st: "aws_exit_status aws cmd (ec2_world s) \<noteq> 0" by (simp add: attempt_fails_def after_failures_def)
  have shift: "attempt_fails aws cmd ?s i = attempt_fails aws cmd s (Suc i)" for i
    by (simp only: attempt_fails_def after_failures_Suc)
  show ?case
  proof (cases f)
    case 0
    then show ?thesis using st Suc.prems(3) by (simp add: io_simps exec_eq after_failures_def)
  next
    case (Suc f')
    have "\<exists>e. ssh_loop aws cmd (tries + 1) f ?s =
       Some (Inl e, run_calls aws [Exec cmd] (after_failures aws cmd (f - 1) ?s)) \<and>
       (e = PyException ''UsageError'' \<or> e = PyException ''CalledProcessError'')"
      by (rule Suc.IH) (use Suc.prems Suc in \<open>auto simp: shift\<close>)
    then show ?thesis
      using st Suc.prems(3) Suc by (auto simp: io_simps exec_eq io_do_eq after_failures_Suc)
  qed
qed simp

lemma launch_all_slaves_calls:
  assumes "opt_spot_price opts = None" "get_zones aws opts s = Some (Inr zones, s)"
    and "calls = slave_calls opts (cluster_name @ ''-slaves'') (int (length zones)) 0 zones"
  shows "launch_all_slaves aws opts cluster_name s =
     Some (Inr (launched_by aws calls s), run_calls aws calls s)"
  using launch_slaves_calls [of aws opts "cluster_name @ ''-slaves''" "int (length zones)" 0 zones s] assms
  by (simp add: launch_all_slaves_def io_bind_def Let_def)

lemma get_zones_eq:
  "get_zones aws opts s =
     Some (Inr (if opt_zone opts = ''all'' then aws_zones aws (ec2_world s) else [opt_zone opts]), s)"
  by (simp add: get_zones_def io_simps)

text \<open>The calls that only concern security groups.\<close>

fun group_call :: "ec2_call \<Rightarrow> bool" where
  "group_call (CreateGroup g) = True"
| "group_call (AuthorizeGroup g h) = True"
| "group_call (AuthorizePort g a b) = True"
| "group_call c = False"

lemma get_or_make_group_calls:
  "\<exists>g cs. get_or_make_group aws name s = Some (Inr g, run_calls aws cs s) \<and> (\<forall>c\<in>set cs. group_call c)"
proof (cases "filter (\<lambda>g. sg_name g = name) (aws_groups aws (ec2_world s))")
  case Nil
  then show ?thesis
    by (intro exI [of _ "\<lparr>sg_name = name, sg_rules = []\<rparr>"] exI [of _ "[CreateGroup name]"])
      (simp add: get_or_make_group_def io_simps io_do_eq)
next
  case (Cons g gs)
  then show ?thesis
    by (intro exI [of _ g] exI [of _ "[]"]) (simp add: get_or_make_group_def io_simps)
qed

lemma setup_groups_calls:
  "\<exists>cs. setup_groups aws opts cluster_name s = Some (Inr (), run_calls aws cs s) \<and> (\<forall>c\<in>set cs. group_call c)"
proof -
  obtain m cs1 where m: "get_or_make_group aws (cluster_name @ ''-master'') s = Some (Inr m, run_calls aws cs1 s)"
    "\<forall>c\<in>set cs1. group_call c" using get_or_make_group_calls by blast
  obtain sl cs2 where sl: "get_or_make_group aws (cluster_name @ ''-slaves'') (run_calls aws cs1 s) =
      Some (Inr sl, run_calls aws cs2 (run_calls aws cs1 s))" "\<forall>c\<in>set cs2. group_call c"
    using get_or_make_group_calls by blast
  let ?mr = "if sg_rules m = [] then master_rules opts (sg_name m) (sg_name sl) else []"
  let ?sr = "if sg_rules sl = [] then slave_rules (sg_name m) (sg_name sl) else []"
  have "setup_groups aws opts cluster_name s = Some (Inr (), run_calls aws (cs1 @ cs2 @ ?mr @ ?sr) s)"
    using m(1) sl(1) by (simp add: setup_groups_def io_bind_def io_return_def io_seq_map_calls)
  moreover have "\<forall>c\<in>set (cs1 @ cs2 @ ?mr @ ?sr). group_call c"
    using m(2) sl(2) by (auto simp: master_rules_def slave_rules_def)
  ultimately show ?thesis by blast
qed

lemma group_calls_keep:
  assumes "\<forall>c w. group_call c \<longrightarrow> aws_reservations aws (aws_do aws c w) = aws_reservations aws w"
    and "\<forall>c\<in>set cs. group_call c"
  shows "aws_reservations aws (fold (aws_do aws) cs w) = aws_reservations aws w"
  using assms(2) by (induction cs arbitrary: w) (use assms(1) in auto)

lemma calls_keep_zones:
  assumes "\<forall>c w. aws_zones aws (aws_do aws c w) = aws_zones aws w"
  shows "aws_zones aws (ec2_world (run_calls aws cs s)) = aws_zones aws (ec2_world s)"
proof -
  have "aws_zones aws (fold (aws_do aws) cs w) = aws_zones aws w" for w
    using assms by (induction cs arbitrary: w) auto
  then show ?thesis by simp
qed

text \<open>The share of each zone: the quotient, or one more.\<close>

lemma slave_calls_shares:
  assumes "c \<in> set (slave_calls opts grp (int (length zones)) 0 zones)"
  shows "\<exists>zone n. c = RunInstances grp (opt_instance_type opts) zone n \<and>
       0 < n \<and> zone \<in> set zones \<and> opt_slaves opts div int (length zones) \<le> n \<and>
       n \<le> opt_slaves opts div int (length zones) + 1"
proof -
  from assms obtain k zone where c: "c = RunInstances grp (opt_instance_type opts) zone
        (get_partition (opt_slaves opts) (int (length zones)) (int k))" "run_count c > 0"
      and mem: "(k, zone) \<in> set (enumerate 0 zones)"
    by (auto simp: slave_calls_def)
  have "zone \<in> snd ` set (enumerate 0 zones)" using mem by force
  also have "snd ` set (enumerate 0 zones) = set zones" by (simp only: set_map [symmetric] map_snd_enumerate)
  finally show ?thesis using c by (simp add: get_partition_def Let_def)
qed

text \<open>A new master is one instance in one of the zones, whatever was called before.\<close>

lemma launch_master_new:
  assumes "\<forall>c w. aws_zones aws (aws_do aws c w) = aws_zones aws w"
    and "\<forall>zs w. zs \<noteq> [] \<longrightarrow> aws_choice aws zs w \<in> set zs"
    and "(if opt_zone opts = ''all'' then aws_zones aws (ec2_world s) else [opt_zone opts]) \<noteq> []"
  shows "\<exists>zone\<in>set (if opt_zone opts = ''all'' then aws_zones aws (ec2_world s) else [opt_zone opts]).
    launch_master aws opts cluster_name [] (run_calls aws cs s) =
      (let call = RunInstances (cluster_name @ ''-master'')
         (if opt_master_instance_type opts = '''' then opt_instance_type opts
          else opt_master_instance_type opts) zone 1
       in Some (Inr (launched_by aws [call] (run_calls aws cs s)), run_calls aws [call] (run_calls aws cs s)))"
  using assms(2,3) calls_keep_zones [OF assms(1), of cs s]
  by (cases "opt_zone opts = ''all''")
    (auto simp: launch_master_def io_simps io_do_eq Let_def simp del: run_calls_simps)

text \<open>The image of the options exists, or the one the list of images names for the region.\<close>

definition image_found :: "'w aws \<Rightarrow> ec2_opts \<Rightarrow> bool" where
  "image_found aws opts \<longleftrightarrow>
     (\<forall>w. case opt_ami opts of
        Some ami \<Rightarrow> aws_has_image aws ami w
      | None \<Rightarrow> (\<exists>ami. aws_fetch aws (AMI_PREFIX @ ''/'' @ opt_region opts @ ''/'' @
          (case map_of instance_types (opt_instance_type opts) of Some t \<Rightarrow> t | None \<Rightarrow> ''pvm'')) w = Some ami \<and>
          aws_has_image aws ami w))"

lemma launch_cluster_after_groups:
  assumes "opt_identity_file opts \<noteq> None" "opt_key_pair opts \<noteq> None" "image_found aws opts"
    and "setup_groups aws opts cluster_name s = Some (Inr (), s')"
    and "nodes_in (cluster_name @ ''-master'') (aws_reservations aws (ec2_world s')) = []"
    and "nodes_in (cluster_name @ ''-slaves'') (aws_reservations aws (ec2_world s')) = []"
  shows "launch_cluster aws opts cluster_name s =
     io_bind (launch_all_slaves aws opts cluster_name) (\<lambda>slave_nodes.
     io_bind (launch_master aws opts cluster_name []) (\<lambda>master_nodes.
       io_return (master_nodes, slave_nodes))) s'"
proof -
  obtain ami where "(case opt_ami opts of Some ami \<Rightarrow> io_return ami | None \<Rightarrow> get_spark_ami aws opts) s' =
      Some (Inr ami, s')" "aws_has_image aws ami (ec2_world s')"
    using assms(3) unfolding image_found_def
    by (cases "opt_ami opts") (auto simp: io_simps get_spark_ami_def Let_def dest!: spec [of _ "ec2_world s'"])
  then show ?thesis
    using assms(1,2,4-6) by (auto simp: launch_cluster_def io_bind_def io_query_def get_existing_cluster_eq Let_def)
qed

text \<open>An API that answers nothing and forgets everything, for the examples.\<close>

definition toy_aws :: "ec2_instance list list \<Rightarrow> string list \<Rightarrow> unit aws" where
  "toy_aws reservations zones =
     \<lparr>aws_do = (\<lambda>c w. ()), aws_groups = (\<lambda>w. []), aws_reservations = (\<lambda>w. reservations),
      aws_instances = (\<lambda>ids w. []), aws_state = (\<lambda>i w. ''running''), aws_launched = (\<lambda>c w. []),
      aws_requested = (\<lambda>c w. []), aws_spot_requests = (\<lambda>w. []), aws_interrupted = (\<lambda>w. False),
      aws_has_image = (\<lambda>i w. True), aws_zones = (\<lambda>w. zones), aws_choice = (\<lambda>zs w. hd zs),
      aws_fetch = (\<lambda>u w. Some ''ami-1''), aws_exit_status = (\<lambda>c w. 1), aws_input = (\<lambda>w. ''y''),
      aws_revoked = (\<lambda>g r w. True), aws_deleted = (\<lambda>g w. True), sh_quote = (\<lambda>s. s)\<rparr>"

section \<open>Properties\<close>


definition example_launch :: ec2_opts where
  "example_launch = default_opts\<lparr>opt_slaves := 2, opt_zone := ''all'',
     opt_identity_file := Some ''k.pem'', opt_key_pair := Some ''k''\<rparr>"


text \<open>
  When instances of the cluster exist, slaves of it or masters that may not be reused, a
  launch ends with status 1 and has done nothing but set up security groups: no instance is
  launched, requested or started.
\<close>

theorem launch_refuses_existing_cluster:
  assumes "\<forall>c w. group_call c \<longrightarrow> aws_reservations aws (aws_do aws c w) = aws_reservations aws w"
    and "nodes_in (cluster_name @ ''-slaves'') (aws_reservations aws (ec2_world s)) \<noteq> [] \<or>
      nodes_in (cluster_name @ ''-master'') (aws_reservations aws (ec2_world s)) \<noteq> [] \<and>
      \<not> opt_use_existing_master opts"
  shows "\<exists>calls. launch_cluster aws opts cluster_name s = Some (Inl (SystemExit 1), run_calls aws calls s) \<and>
    (\<forall>c\<in>set calls. group_call c)"
proof (cases "opt_identity_file opts = None \<or> opt_key_pair opts = None")
  case True
  then show ?thesis by (intro exI [of _ "[]"]) (auto simp: launch_cluster_def io_raise_def)
next
  case False
  obtain cs where cs: "setup_groups aws opts cluster_name s = Some (Inr (), run_calls aws cs s)"
    "\<forall>c\<in>set cs. group_call c" using setup_groups_calls by blast
  have "aws_reservations aws (ec2_world (run_calls aws cs s)) = aws_reservations aws (ec2_world s)"
    using group_calls_keep [OF assms(1) cs(2)] by simp
  then have "launch_cluster aws opts cluster_name s = Some (Inl (SystemExit 1), run_calls aws cs s)"
    using False assms(2) cs(1)
    by (auto simp: launch_cluster_def io_bind_def get_existing_cluster_eq Let_def io_raise_def)
  then show ?thesis using cs(2) by blast
qed

definition example_slave :: ec2_instance where
  "example_slave = \<lparr>inst_id = ''i-1'', inst_state = ''running'', inst_groups = [''c1-slaves''],
     inst_spot = True, inst_dns = ''h1''\<rparr>"

lemma nodes_in_example [simp]: "nodes_in ''c1-slaves'' [[example_slave]] = [example_slave]"
  by (simp add: nodes_in_def example_slave_def is_active_def)

theorem launch_refuses_existing_cluster_witness:
  "\<exists>calls. launch_cluster (toy_aws [[example_slave]] []) default_opts ''c1'' \<lparr>ec2_world = (), ec2_log = []\<rparr> =
      Some (Inl (SystemExit 1), run_calls (toy_aws [[example_slave]] []) calls \<lparr>ec2_world = (), ec2_log = []\<rparr>) \<and>
    (\<forall>c\<in>set calls. group_call c)"
  by (rule launch_refuses_existing_cluster) (simp_all add: toy_aws_def)

text \<open>
  C39: stopping a cluster touches only its own nodes: after a confirmation the calls are a stop
  of every instance of the account that is pending, running, stopping or stopped and whose only
  security group is the master group of this cluster, then a stop, for a spot instance a
  termination, of every such instance whose only group is the slave group, in the order the API
  lists them, and nothing else is called; any other answer changes nothing.
\<close>

theorem stop_touches_only_cluster:
  "\<exists>calls. action_stop aws opts cluster_name s = Some (Inr (), run_calls aws calls s) \<and>
    (if aws_input aws (ec2_world s) = ''y'' then
       calls = map (\<lambda>i. StopInstance (inst_id i))
           (filter (\<lambda>i. inst_groups i = [cluster_name @ ''-master''] \<and>
               inst_state i \<in> {''pending'', ''running'', ''stopping'', ''stopped''})
             (concat (aws_reservations aws (ec2_world s)))) @
         map (\<lambda>i. if inst_spot i then TerminateInstance (inst_id i) else StopInstance (inst_id i))
           (filter (\<lambda>i. inst_groups i = [cluster_name @ ''-slaves''] \<and>
               inst_state i \<in> {''pending'', ''running'', ''stopping'', ''stopped''})
             (concat (aws_reservations aws (ec2_world s))))
     else calls = [])"
proof -
  have f: "filter startable (nodes_in grp rs) = nodes_in grp rs" for grp rs
    by (rule filter_True) (auto simp: in_nodes_in is_active_def startable_def)
  have "action_stop aws opts cluster_name s = Some (Inr (), run_calls aws
      (if aws_input aws (ec2_world s) = ''y'' then
         map (\<lambda>i. StopInstance (inst_id i))
           (nodes_in (cluster_name @ ''-master'') (aws_reservations aws (ec2_world s))) @
         map (\<lambda>i. if inst_spot i then TerminateInstance (inst_id i) else StopInstance (inst_id i))
           (nodes_in (cluster_name @ ''-slaves'') (aws_reservations aws (ec2_world s)))
       else []) s)"
    by (simp add: action_stop_def io_bind_def io_query_def io_return_def get_existing_cluster_eq Let_def
        f io_seq_calls stop_call_def [abs_def])
  then show ?thesis by (intro exI conjI) (assumption, simp add: nodes_in_eq)
qed

text \<open>
  \<open>ssh\<close> runs the command until it succeeds, with a pause of 30 seconds after each failure,
  and gives up with an error after the seventh failure: the first attempt and six retries.
\<close>

theorem ssh_gives_up_after_seven:
  "(\<exists>k<7. (\<forall>i<k. attempt_fails aws cmd s i) \<and> \<not> attempt_fails aws cmd s k \<and>
      ssh_loop aws cmd 0 7 s = Some (Inr (), run_calls aws [Exec cmd] (after_failures aws cmd k s))) \<or>
   (\<exists>e. (\<forall>i<7. attempt_fails aws cmd s i) = True \<and>
      ssh_loop aws cmd 0 7 s = Some (Inl e, run_calls aws [Exec cmd] (after_failures aws cmd 6 s)))"
proof (cases "\<forall>i<7. attempt_fails aws cmd s i")
  case True
  then show ?thesis using ssh_loop_fails [of 7 aws cmd s 0] by auto
next
  case False
  then obtain j where "j < 7" "\<not> attempt_fails aws cmd s j" by blast
  define k where "k = (LEAST i. \<not> attempt_fails aws cmd s i)"
  have k: "\<not> attempt_fails aws cmd s k" "k \<le> j" "\<forall>i<k. attempt_fails aws cmd s i"
    using \<open>\<not> attempt_fails aws cmd s j\<close> unfolding k_def
    by (rule LeastI, rule Least_le) (use not_less_Least in blast)+
  then show ?thesis
    using ssh_loop_succeeds [of k aws cmd s 7 0] \<open>j < 7\<close> by (intro disjI1 exI [of _ k]) auto
qed

theorem ssh_gives_up_after_seven_witness:
  "\<exists>e. ssh_loop (toy_aws [] []) [''ssh''] 0 7 \<lparr>ec2_world = (), ec2_log = []\<rparr> =
    Some (Inl e, run_calls (toy_aws [] []) [Exec [''ssh'']]
      (after_failures (toy_aws [] []) [''ssh''] 6 \<lparr>ec2_world = (), ec2_log = []\<rparr>))"
proof -
  have "attempt_fails (toy_aws [] []) [''ssh''] \<lparr>ec2_world = (), ec2_log = []\<rparr> i" for i
    by (simp add: attempt_fails_def toy_aws_def)
  then show ?thesis
    using ssh_gives_up_after_seven [of "toy_aws [] []" "[''ssh'']" "\<lparr>ec2_world = (), ec2_log = []\<rparr>"] by auto
qed

end
