(* ===== verification/Fabric.thy ===== *)
theory Fabric
  imports Prelude "HOL-Library.Sublist"
begin

text \<open>
  The two fabfiles of the repository: \<open>application-deployment-fabfile.py\<close>, which submits a job,
  remembers the driver it was given and later kills it or fetches its output, and
  \<open>initial-deployment-fabfile.py\<close>, which bootstraps the servers. Commands are recorded in the
  order in which fabric runs them; what they print is an argument.
\<close>

section \<open>Configuration\<close>

datatype cfg_val = CStr string | CList "string list"

type_synonym config = "(string, cfg_val) dict"

definition load_config :: "config \<Rightarrow> config option \<Rightarrow> config res" where
  "load_config script_config local_config =
     (case local_config of
        None \<Rightarrow> Inl (SystemExit (- 1))
      | Some c \<Rightarrow> Inr (AList.merge script_config c))"

definition cfg_str :: "config \<Rightarrow> string \<Rightarrow> string res" where
  "cfg_str config k =
     (case map_of config k of
        None \<Rightarrow> Inl KeyError
      | Some (CStr s) \<Rightarrow> Inr s
      | Some (CList l) \<Rightarrow> Inl TypeError)"

definition cfg_list :: "config \<Rightarrow> string \<Rightarrow> string list res" where
  "cfg_list config k =
     (case map_of config k of
        None \<Rightarrow> Inl KeyError
      | Some (CStr s) \<Rightarrow> Inr (map (\<lambda>c. [c]) s)
      | Some (CList l) \<Rightarrow> Inr l)"

section \<open>Searching the output of \<open>spark-submit\<close>\<close>

text \<open>\<open>re.search\<close>: the leftmost position at which the pattern matches.\<close>

fun re_search :: "(string \<Rightarrow> 'm option) \<Rightarrow> string \<Rightarrow> 'm option" where
  "re_search m [] = m []"
| "re_search m (c # cs) = (case m (c # cs) of Some r \<Rightarrow> Some r | None \<Rightarrow> re_search m cs)"

definition match_prefix :: "string \<Rightarrow> string \<Rightarrow> string option" where
  "match_prefix p s = (if take (length p) s = p then Some (drop (length p) s) else None)"

definition is_space :: "char \<Rightarrow> bool" where
  "is_space c \<longleftrightarrow> c \<in> {CHR '' '', CHR 0x09, CHR 0x0A, CHR 0x0B, CHR 0x0C, CHR 0x0D}"

text \<open>
  \<open>State of (driver-\d*-\d*) is (\S*)\<close> at the start of the string. A run of digits is followed by
  a character that is no digit, so the greedy match is the only one.
\<close>

definition match_state :: "string \<Rightarrow> (string \<times> string) option" where
  "match_state s =
     Option.bind (match_prefix ''State of driver-'' s) (\<lambda>s1.
       let d1 = takeWhile is_digit s1; s2 = dropWhile is_digit s1 in
       Option.bind (match_prefix ''-'' s2) (\<lambda>s3.
         let d2 = takeWhile is_digit s3; s4 = dropWhile is_digit s3 in
         Option.bind (match_prefix '' is '' s4) (\<lambda>s5.
           Some (''driver-'' @ d1 @ ''-'' @ d2, takeWhile (\<lambda>c. \<not> is_space c) s5))))"

text \<open>
  \<open>Driver running on (\S*):\d* \<close> with the space at its end: the word has to end in a colon and
  digits and to be followed by a space, and its last colon is where it is split.
\<close>

definition match_server :: "string \<Rightarrow> string option" where
  "match_server s =
     Option.bind (match_prefix ''Driver running on '' s) (\<lambda>s1.
       let word = takeWhile (\<lambda>c. \<not> is_space c) s1;
           rest = dropWhile (\<lambda>c. \<not> is_space c) s1;
           ds = takeWhile is_digit (rev word);
           r = dropWhile is_digit (rev word)
       in (case r of
             CHR '':'' # h \<Rightarrow> (case rest of CHR '' '' # _ \<Rightarrow> Some (rev h) | _ \<Rightarrow> None)
           | _ \<Rightarrow> None))"

definition search_state :: "string \<Rightarrow> (string \<times> string) option" where
  "search_state = re_search match_state"

definition search_server :: "string \<Rightarrow> string option" where
  "search_server = re_search match_server"

section \<open>Jobs\<close>

datatype fab_call =
    Sudo string
  | LocalRun string
  | RemoteRun string
  | Rsync
  | AppendLine string string

text \<open>\<open>lastJobStarted.pickle\<close>, and the commands run so far.\<close>

record job_file =
  job_driverId :: string
  job_driverServer :: string

record fab =
  fab_job :: "job_file option"
  fab_calls :: "fab_call list"

definition fab_run :: "fab_call \<Rightarrow> fab \<Rightarrow> fab" where
  "fab_run c s = s\<lparr>fab_calls := fab_calls s @ [c]\<rparr>"

fun join_words :: "string list \<Rightarrow> string" where
  "join_words [] = []"
| "join_words [w] = w"
| "join_words (w # ws) = w @ '' '' @ join_words ws"

definition submit_command :: "config \<Rightarrow> string res" where
  "submit_command config =
     bind_res (cfg_str config ''remote_spark_dir'') (\<lambda>dir.
     bind_res (cfg_str config ''main_class'') (\<lambda>main_class.
     bind_res (cfg_str config ''spark_master'') (\<lambda>master.
     bind_res (cfg_str config ''remote_jar_dir'') (\<lambda>jar_dir.
     bind_res (cfg_str config ''jar'') (\<lambda>jar.
       Inr (join_words
         [dir @ ''/bin/spark-submit '', ''--class'', main_class, ''--master'', master,
          ''--deploy-mode'', ''cluster'', jar_dir @ ''/'' @ jar]))))))"

text \<open>\<open>outStr\<close> is what the command prints; a failed search has no \<open>group\<close>.\<close>

definition start :: "config \<Rightarrow> string \<Rightarrow> fab \<Rightarrow> unit res \<times> fab" where
  "start config outStr s =
     (case submit_command config of
        Inl e \<Rightarrow> (Inl e, s)
      | Inr cmd \<Rightarrow>
          (let s1 = fab_run (Sudo cmd) s in
           case search_state outStr of
             None \<Rightarrow> (Inl (PyException ''AttributeError''), s1)
           | Some (driverId, status) \<Rightarrow>
               if status = ''ERROR'' then (Inr (), s1)
               else if status = ''RUNNING'' then
                 (case search_server outStr of
                    None \<Rightarrow> (Inl (PyException ''AttributeError''), s1)
                  | Some driverServer \<Rightarrow>
                      (Inr (), s1\<lparr>fab_job :=
                         Some \<lparr>job_driverId = driverId, job_driverServer = driverServer\<rparr>\<rparr>))
               else (Inr (), s1)))"

definition kill_command :: "config \<Rightarrow> string \<Rightarrow> string res" where
  "kill_command config driverId =
     bind_res (cfg_str config ''remote_spark_dir'') (\<lambda>dir.
     bind_res (cfg_str config ''spark_master'') (\<lambda>master.
       Inr (join_words
         [dir @ ''/bin/spark-class '', ''org.apache.spark.deploy.Client kill'', master, driverId])))"

text \<open>An unset or empty argument is falsy. A missing file is reported, and then \<open>m\<close> is read.\<close>

definition kill :: "config \<Rightarrow> string option \<Rightarrow> fab \<Rightarrow> unit res \<times> fab" where
  "kill config driverId s =
     (let d = (if driverId = None \<or> driverId = Some ''''
               then (case fab_job s of None \<Rightarrow> Inl NameError | Some m \<Rightarrow> Inr (job_driverId m))
               else Inr (the driverId))
      in case bind_res d (kill_command config) of
           Inl e \<Rightarrow> (Inl e, s)
         | Inr cmd \<Rightarrow> (Inr (), fab_run (Sudo cmd) s))"

definition scp_command :: "config \<Rightarrow> string option \<Rightarrow> string \<Rightarrow> string \<Rightarrow> string res" where
  "scp_command config driverServer driverId stream =
     (case driverServer of
        None \<Rightarrow> Inl TypeError
      | Some server \<Rightarrow>
          bind_res (cfg_str config ''spark_work'') (\<lambda>work.
            Inr (''scp '' @ server @ '':'' @ work @ ''/'' @ driverId @ ''/'' @ stream @ '' '' @ stream @ ''.txt'')))"

definition getOutput :: "config \<Rightarrow> string option \<Rightarrow> string option \<Rightarrow> fab \<Rightarrow> unit res \<times> fab" where
  "getOutput config driverId driverServer s =
     (let job = (if driverId = None \<or> driverId = Some ''''
                 then (case fab_job s of
                         None \<Rightarrow> Inl (SystemExit (- 1))
                       | Some m \<Rightarrow> Inr (job_driverId m, Some (job_driverServer m)))
                 else Inr (the driverId, driverServer))
      in case job of
           Inl e \<Rightarrow> (Inl e, s)
         | Inr (d, server) \<Rightarrow>
             (case scp_command config server d ''stdout'' of
                Inl e \<Rightarrow> (Inl e, s)
              | Inr c1 \<Rightarrow>
                  (case scp_command config server d ''stderr'' of
                     Inl e \<Rightarrow> (Inl e, fab_run (LocalRun c1) s)
                   | Inr c2 \<Rightarrow> (Inr (), fab_run (LocalRun c2) (fab_run (LocalRun c1) s)))))"

definition assembly :: "fab \<Rightarrow> fab" where
  "assembly s = fab_run (LocalRun ''sbt assembly &> assembly.log'') s"

definition sync :: "config \<Rightarrow> fab \<Rightarrow> unit res \<times> fab" where
  "sync config s =
     (case bind_res (cfg_list config ''all'') (\<lambda>servers.
         mapM_res (\<lambda>server.
             bind_res (cfg_str config ''local_jar_dir'') (\<lambda>ldir.
             bind_res (cfg_str config ''jar'') (\<lambda>jar.
             bind_res (cfg_str config ''remote_jar_dir'') (\<lambda>rdir.
               Inr (''rsync -azrv --progress '' @ ldir @ ''/'' @ jar @ '' '' @ server @ '':/'' @ rdir)))))
           servers) of
        Inl e \<Rightarrow> (Inl e, s)
      | Inr cmds \<Rightarrow> (Inr (), foldl (\<lambda>s c. fab_run (LocalRun c) s) s cmds))"

section \<open>Bootstrapping the servers\<close>

definition deployDir :: string where
  "deployDir = ''initial-deployment-puppet''"

definition puppetApply :: "string \<Rightarrow> fab_call" where
  "puppetApply manifest =
     Sudo (''puppet apply --modulepath '' @ deployDir @ ''/modules '' @ deployDir @ ''/manifests/'' @ manifest)"

text \<open>A task: the role it runs on, and its commands on every host of the role.\<close>

datatype fab_role = Master | Workers | All

definition fab_task :: "string \<Rightarrow> (fab_role \<times> fab_call list) option" where
  "fab_task name = map_of
     [(''startSparkMaster'', (Master, [Rsync, puppetApply ''spark-master.pp''])),
      (''startSparkWorkers'', (Workers, [Rsync, puppetApply ''spark-worker.pp''])),
      (''stopSparkMaster'', (Master, [Sudo ''/sbin/initctl stop spark-master''])),
      (''stopSparkWorkers'', (Workers, [Sudo ''/sbin/initctl stop spark-worker''])),
      (''startHdfsMaster'', (Master, [Rsync, puppetApply ''hdfs-master.pp''])),
      (''startHdfsWorkers'', (Workers, [Rsync, puppetApply ''hdfs-worker.pp''])),
      (''stopHdfsMaster'', (Master,
         [Sudo ''/sbin/service hadoop-hdfs-namenode stop'',
          Sudo ''/sbin/service hadoop-0.20-mapreduce-jobtracker stop'',
          Sudo ''/sbin/service hadoop-mapreduce-historyserver stop'',
          Sudo ''/sbin/service hadoop-yarn-nodemanager stop'',
          Sudo ''/sbin/service hadoop-yarn-resourcemanager stop''])),
      (''stopHdfsWorkers'', (Workers, [Sudo ''/sbin/service hadoop-hdfs-datanode stop'']))] name"

text \<open>
  The state of a host that \<open>init\<close> looks at. \<open>contains\<close> is fabric's: the text occurs in the file.
\<close>

record host =
  host_dotfiles :: bool
  host_ssh_config :: "string option"
  host_calls :: "fab_call list"

definition host_run :: "fab_call \<Rightarrow> host \<Rightarrow> host" where
  "host_run c h = h\<lparr>host_calls := host_calls h @ [c]\<rparr>"

definition ssh_entry :: "string \<Rightarrow> string" where
  "ssh_entry server =
     ''Host '' @ server @ [CHR 0x0A] @ ''  HostName '' @ server @ ''.or1''"

definition add_server :: "(string \<Rightarrow> string \<Rightarrow> bool) \<Rightarrow> host \<Rightarrow> string \<Rightarrow> host" where
  "add_server contains h server =
     (let h1 = (case host_ssh_config h of
                  Some _ \<Rightarrow> h
                | None \<Rightarrow> (host_run (RemoteRun ''touch .ssh/config; chmod 600 .ssh/config'') h)
                            \<lparr>host_ssh_config := Some ''''\<rparr>);
          content = the (host_ssh_config h1)
      in if \<not> contains content server
         then (host_run (AppendLine ''.ssh/config'' (ssh_entry server)) h1)
                \<lparr>host_ssh_config := Some (content @ ssh_entry server @ [CHR 0x0A])\<rparr>
         else h1)"

definition init :: "(string \<Rightarrow> string \<Rightarrow> bool) \<Rightarrow> string list \<Rightarrow> host \<Rightarrow> host" where
  "init contains all h =
     (let h1 = host_run (Sudo ''chsh -s /bin/zsh amos'')
                 (host_run (Sudo ''yum install java-1.7.0-openjdk-devel make puppet zsh -y'') h);
          h2 = (if host_dotfiles h1 then h1
                else (host_run (RemoteRun ''./.dotfiles/bootstrap.sh -n'')
                       (host_run (RemoteRun ''git clone --recursive http://github.com/bamos/dotfiles.git .dotfiles'') h1))
                       \<lparr>host_dotfiles := True\<rparr>);
          h3 = host_run (RemoteRun ''cd .dotfiles && git pull'') h2;
          h4 = foldl (add_server contains) h3 all
      in host_run (Sudo ''mkdir -p /raid/hadoop'') h4)"

section \<open>Searching\<close>

lemma match_prefix_append [simp]: "match_prefix p (p @ s) = Some s"
  by (simp add: match_prefix_def)

lemma match_prefix_head: "c \<noteq> p1 \<Longrightarrow> match_prefix (p1 # ps) (c # s) = None"
  by (simp add: match_prefix_def)

lemma takeWhile_run: "(\<forall>c\<in>set ds. P c) \<Longrightarrow> \<not> P c \<Longrightarrow> takeWhile P (ds @ c # s) = ds \<and> dropWhile P (ds @ c # s) = c # s"
  by (induction ds) auto

lemma match_state_line:
  assumes "\<forall>c\<in>set d1. is_digit c" "\<forall>c\<in>set d2. is_digit c" "\<forall>c\<in>set status. \<not> is_space c" "is_space x"
  shows "match_state (''State of driver-'' @ d1 @ ''-'' @ d2 @ '' is '' @ status @ x # rest) =
    Some (''driver-'' @ d1 @ ''-'' @ d2, status)"
proof -
  have n: "\<not> is_digit (CHR ''-'')" "\<not> is_digit (CHR '' '')" by (simp_all add: is_digit_def)
  have "takeWhile is_digit (d1 @ ''-'' @ t) = d1 \<and> dropWhile is_digit (d1 @ ''-'' @ t) = ''-'' @ t" for t
    using takeWhile_run [of d1 is_digit "CHR ''-''" t] assms(1) n by simp
  moreover have "takeWhile is_digit (d2 @ '' is '' @ t) = d2 \<and> dropWhile is_digit (d2 @ '' is '' @ t) = '' is '' @ t" for t
    using takeWhile_run [of d2 is_digit "CHR '' ''" "''is '' @ t"] assms(2) n by simp
  moreover have "takeWhile (\<lambda>c. \<not> is_space c) (status @ x # rest) = status"
    using takeWhile_run [of status "\<lambda>c. \<not> is_space c" x rest] assms(3,4) by simp
  ultimately show ?thesis
    unfolding match_state_def by (simp only: match_prefix_append bind.bind_lunit Let_def)
qed

lemma match_state_None: "c \<noteq> CHR ''S'' \<Longrightarrow> match_state (c # s) = None"
  unfolding match_state_def by (simp add: match_prefix_head)

lemma match_server_None: "c \<noteq> CHR ''D'' \<Longrightarrow> match_server (c # s) = None"
  unfolding match_server_def by (simp add: match_prefix_head)

lemma re_search_skip:
  assumes "\<And>c t. P c \<Longrightarrow> m (c # t) = None" "\<forall>c\<in>set pre. P c" "m s = Some r"
  shows "re_search m (pre @ s) = Some r"
  using assms(2)
proof (induction pre)
  case Nil
  then show ?case using assms(3) by (cases s) simp_all
next
  case (Cons c pre)
  then show ?case using assms(1) by simp
qed

lemma match_server_line:
  assumes "\<forall>c\<in>set host. \<not> is_space c" "\<forall>c\<in>set port. is_digit c"
  shows "match_server (''Driver running on '' @ host @ '':'' @ port @ '' '' @ rest) = Some host"
proof -
  have ds: "\<not> is_space c" if "is_digit c" for c using that by (auto simp: is_digit_def is_space_def)
  have w: "takeWhile (\<lambda>c. \<not> is_space c) (host @ '':'' @ port @ '' '' @ rest) = host @ '':'' @ port \<and>
      dropWhile (\<lambda>c. \<not> is_space c) (host @ '':'' @ port @ '' '' @ rest) = '' '' @ rest"
    using takeWhile_run [of "host @ '':'' @ port" "\<lambda>c. \<not> is_space c" "CHR '' ''" rest] assms ds
    by (auto simp: is_space_def)
  have n: "\<not> is_digit (CHR '':'')" by (simp add: is_digit_def)
  have r: "takeWhile is_digit (rev (host @ '':'' @ port)) = rev port \<and>
      dropWhile is_digit (rev (host @ '':'' @ port)) = CHR '':'' # rev host"
    using takeWhile_run [of "rev port" is_digit "CHR '':''" "rev host"] assms(2) n by simp
  show ?thesis
    unfolding match_server_def by (simp only: match_prefix_append bind.bind_lunit Let_def w r) simp
qed

section \<open>Properties\<close>

text \<open>
  After a submission that reports a running driver, \<open>kill\<close> without an argument kills exactly
  this driver and \<open>getOutput\<close> would fetch from its server: the driver id and the server are read
  from the output, whatever other text surrounds them.
\<close>

theorem start_then_kill:
  assumes "submit_command config = Inr submit" and "kill_command config (''driver-'' @ d1 @ ''-'' @ d2) = Inr cmd"
    and "\<forall>c\<in>set d1. is_digit c" and "\<forall>c\<in>set d2. is_digit c"
    and "\<forall>c\<in>set host. \<not> is_space c" and "\<forall>c\<in>set port. is_digit c"
    and "\<forall>c\<in>set pre. c \<noteq> CHR ''S'' \<and> c \<noteq> CHR ''D''" and "CHR ''D'' \<notin> set mid"
    and out: "outStr = pre @ ''State of driver-'' @ d1 @ ''-'' @ d2 @ '' is RUNNING'' @ CHR 0x0A # mid @
      ''Driver running on '' @ host @ '':'' @ port @ '' '' @ rest"
  shows "\<exists>s1. start config outStr s = (Inr (), s1) \<and>
    fab_job s1 = Some \<lparr>job_driverId = ''driver-'' @ d1 @ ''-'' @ d2, job_driverServer = host\<rparr> \<and>
    kill config None s1 = (Inr (), s1\<lparr>fab_calls := fab_calls s @ [Sudo submit, Sudo cmd]\<rparr>)"
proof -
  let ?tail = "''Driver running on '' @ host @ '':'' @ port @ '' '' @ rest"
  let ?line = "''State of driver-'' @ d1 @ ''-'' @ d2 @ '' is '' @ ''RUNNING'' @ CHR 0x0A # mid @ ?tail"
  have outl: "outStr = pre @ ?line" unfolding out by simp
  have "match_state ?line = Some (''driver-'' @ d1 @ ''-'' @ d2, ''RUNNING'')"
    by (rule match_state_line) (use assms(3,4) in \<open>simp_all add: is_space_def\<close>)
  then have st: "search_state outStr = Some (''driver-'' @ d1 @ ''-'' @ d2, ''RUNNING'')"
    unfolding outl search_state_def
    using re_search_skip [of "\<lambda>c. c \<noteq> CHR ''S''" match_state pre] match_state_None assms(7) by blast
  let ?pre2 = "pre @ ''State of driver-'' @ d1 @ ''-'' @ d2 @ '' is '' @ ''RUNNING'' @ CHR 0x0A # mid"
  have dig: "is_digit c \<Longrightarrow> c \<noteq> CHR ''D''" for c by (auto simp: is_digit_def)
  have "\<forall>c\<in>set ?pre2. c \<noteq> CHR ''D''" using assms(3,4,7,8) dig by auto
  moreover have "match_server ?tail = Some host" using assms(5,6) by (rule match_server_line)
  ultimately have "re_search match_server (?pre2 @ ?tail) = Some host"
    using re_search_skip [of "\<lambda>c. c \<noteq> CHR ''D''" match_server ?pre2 ?tail host] match_server_None by blast
  then have sv: "search_server outStr = Some host"
    unfolding search_server_def out by simp
  show ?thesis
    using assms(1,2) by (simp add: start_def st sv Let_def kill_def fab_run_def)
qed

definition example_config :: config where
  "example_config =
     [(''remote_spark_dir'', CStr ''/spark''), (''main_class'', CStr ''Main''),
      (''spark_master'', CStr ''spark://m:7077''), (''remote_jar_dir'', CStr ''/jars''),
      (''jar'', CStr ''app.jar''), (''spark_work'', CStr ''/work'')]"

definition example_output :: string where
  "example_output = ''... '' @ ''State of driver-'' @ ''2014'' @ ''-'' @ ''0001'' @ '' is RUNNING'' @ CHR 0x0A # '''' @
     ''Driver running on '' @ ''node3'' @ '':'' @ ''7078'' @ '' '' @ ''(worker)''"

theorem start_then_kill_witness:
  "\<exists>s1 submit cmd. start example_config example_output \<lparr>fab_job = None, fab_calls = []\<rparr> = (Inr (), s1) \<and>
    fab_job s1 = Some \<lparr>job_driverId = ''driver-2014-0001'', job_driverServer = ''node3''\<rparr> \<and>
    kill example_config None s1 = (Inr (), s1\<lparr>fab_calls := [Sudo submit, Sudo cmd]\<rparr>)"
proof -
  obtain submit where submit: "submit_command example_config = Inr submit"
    by (simp add: submit_command_def example_config_def cfg_str_def)
  obtain cmd where cmd: "kill_command example_config (''driver-'' @ ''2014'' @ ''-'' @ ''0001'') = Inr cmd"
    by (simp add: kill_command_def example_config_def cfg_str_def)
  have "\<exists>s1. start example_config example_output \<lparr>fab_job = None, fab_calls = []\<rparr> = (Inr (), s1) \<and>
    fab_job s1 = Some \<lparr>job_driverId = ''driver-'' @ ''2014'' @ ''-'' @ ''0001'', job_driverServer = ''node3''\<rparr> \<and>
    kill example_config None s1 =
      (Inr (), s1\<lparr>fab_calls := fab_calls \<lparr>fab_job = None, fab_calls = []\<rparr> @ [Sudo submit, Sudo cmd]\<rparr>)"
    by (rule start_then_kill [OF submit cmd _ _ _ _ _ _ example_output_def])
      (simp_all add: is_digit_def is_space_def)
  then show ?thesis by auto
qed

text \<open>
  A job whose driver is not reported as running leaves the file of the previous job in place,
  so that a \<open>kill\<close> without an argument right after it kills the driver of that earlier job.
\<close>

theorem kill_after_other_status_hits_previous_job:
  assumes "submit_command config = Inr submit" and "search_state outStr = Some (driverId, status)"
    and "status \<noteq> ''RUNNING''" and "fab_job s = Some m" and "kill_command config (job_driverId m) = Inr cmd"
  shows "\<exists>s1. start config outStr s = (Inr (), s1) \<and>
    kill config None s1 = (Inr (), s1\<lparr>fab_calls := fab_calls s @ [Sudo submit, Sudo cmd]\<rparr>)"
  using assms by (simp add: start_def Let_def kill_def fab_run_def)

theorem kill_after_other_status_hits_previous_job_witness:
  "\<exists>s1 submit cmd. start example_config ''State of driver-2-2 is SUBMITTED''
      \<lparr>fab_job = Some \<lparr>job_driverId = ''driver-1-1'', job_driverServer = ''node1''\<rparr>, fab_calls = []\<rparr> = (Inr (), s1) \<and>
    kill_command example_config ''driver-1-1'' = Inr cmd \<and>
    kill example_config None s1 = (Inr (), s1\<lparr>fab_calls := [] @ [Sudo submit, Sudo cmd]\<rparr>)"
proof -
  let ?s = "\<lparr>fab_job = Some \<lparr>job_driverId = ''driver-1-1'', job_driverServer = ''node1''\<rparr>, fab_calls = []\<rparr>"
  obtain submit where submit: "submit_command example_config = Inr submit"
    by (simp add: submit_command_def example_config_def cfg_str_def)
  obtain cmd where cmd: "kill_command example_config ''driver-1-1'' = Inr cmd"
    by (simp add: kill_command_def example_config_def cfg_str_def)
  have st: "search_state ''State of driver-2-2 is SUBMITTED'' = Some (''driver-2-2'', ''SUBMITTED'')"
    by code_simp
  have "\<exists>s1. start example_config ''State of driver-2-2 is SUBMITTED'' ?s = (Inr (), s1) \<and>
    kill example_config None s1 = (Inr (), s1\<lparr>fab_calls := fab_calls ?s @ [Sudo submit, Sudo cmd]\<rparr>)"
    by (rule kill_after_other_status_hits_previous_job
        [OF submit st, where m = "\<lparr>job_driverId = ''driver-1-1'', job_driverServer = ''node1''\<rparr>"]) (simp_all add: cmd)
  then show ?thesis using cmd by auto
qed

text \<open>
  Without the file of a started job \<open>kill\<close> reports the missing file and then fails on the
  unbound variable, while \<open>getOutput\<close> exits; \<open>getOutput\<close> for an explicit driver without its server
  fails on the missing server instead of looking it up.
\<close>

theorem missing_job_errors:
  assumes "fab_job s = None" and "d \<noteq> ''''"
  shows "kill config None s = (Inl NameError, s) \<and>
    getOutput config None driverServer s = (Inl (SystemExit (- 1)), s) \<and>
    getOutput config (Some d) None s = (Inl TypeError, s)"
  using assms by (simp add: kill_def getOutput_def Let_def scp_command_def)

theorem missing_job_errors_witness:
  "kill example_config None \<lparr>fab_job = None, fab_calls = []\<rparr> = (Inl NameError, \<lparr>fab_job = None, fab_calls = []\<rparr>) \<and>
    getOutput example_config None (Some ''node1'') \<lparr>fab_job = None, fab_calls = []\<rparr> =
      (Inl (SystemExit (- 1)), \<lparr>fab_job = None, fab_calls = []\<rparr>) \<and>
    getOutput example_config (Some ''driver-1-1'') None \<lparr>fab_job = None, fab_calls = []\<rparr> =
      (Inl TypeError, \<lparr>fab_job = None, fab_calls = []\<rparr>)"
  by (rule missing_job_errors) simp_all

text \<open>
  The bootstrap of the SSH configuration skips a server whose name occurs in what is already
  in the file: it looks for the name as text, so that with \<open>node10\<close> in the file \<open>node1\<close> gets no
  entry of its own.
\<close>

theorem ssh_config_skips_contained_name:
  assumes "host_ssh_config h = Some content" and "sublist server2 (ssh_entry server1)"
    and "\<not> sublist server1 content"
  shows "host_ssh_config (foldl (add_server (\<lambda>file txt. sublist txt file)) h [server1, server2]) =
    Some (content @ ssh_entry server1 @ [CHR 0x0A])"
proof -
  have "sublist server2 (content @ ssh_entry server1 @ [CHR 0x0A])"
    using assms(2) by (meson sublist_appendI sublist_order.order_trans)
  then show ?thesis using assms(1,3) by (simp add: add_server_def Let_def host_run_def)
qed

theorem ssh_config_skips_contained_name_witness:
  "host_ssh_config (foldl (add_server (\<lambda>file txt. sublist txt file))
      \<lparr>host_dotfiles = True, host_ssh_config = Some [], host_calls = []\<rparr> [''node10'', ''node1'']) =
    Some ([] @ ssh_entry ''node10'' @ [CHR 0x0A])"
proof (rule ssh_config_skips_contained_name)
  have "ssh_entry ''node10'' = ''Host '' @ ''node1'' @ ''0'' @ [CHR 0x0A] @ ''  HostName '' @ ''node10'' @ ''.or1''"
    by (simp add: ssh_entry_def)
  then show "sublist ''node1'' (ssh_entry ''node10'')" by (metis sublist_appendI)
qed simp_all

end
