(* ===== verification/Linalg.thy ===== *)
theory Linalg
  imports Prelude "HOL-Library.Product_Lexorder"
begin

text \<open>
  \<open>pyspark/mllib/linalg.py\<close>: sparse vectors, their construction, dot product and squared distance
  against sparse and dense vectors. Floating point values are real numbers here, so that the
  optimised loops can be compared with the sums they stand for; rounding is not modelled.
\<close>

section \<open>\<open>SparseVector\<close>\<close>

record 'v sparse_vector =
  sv_size :: int
  sv_indices :: "int list"
  sv_values :: "'v list"

text \<open>The arguments after the size: one dictionary or list of pairs, or two arrays.\<close>

datatype 'v sv_args = Pairs "(int \<times> 'v) list" | Arrays "int list" "'v list"

fun strictly_increasing :: "int list \<Rightarrow> bool" where
  "strictly_increasing (i # j # is') \<longleftrightarrow> i < j \<and> strictly_increasing (j # is')"
| "strictly_increasing _ \<longleftrightarrow> True"

fun SparseVector :: "int \<Rightarrow> 'v::linorder sv_args \<Rightarrow> 'v sparse_vector res" where
  "SparseVector sz (Pairs pairs) =
     (let ps = sort pairs
      in Inr \<lparr>sv_size = sz, sv_indices = map fst ps, sv_values = map snd ps\<rparr>)"
| "SparseVector sz (Arrays indices values) =
     (if length indices \<noteq> length values then Inl AssertionError
      else if \<not> strictly_increasing indices then Inl TypeError
      else Inr \<lparr>sv_size = sz, sv_indices = indices, sv_values = values\<rparr>)"

definition sv_entries :: "'v sparse_vector \<Rightarrow> (int \<times> 'v) list" where
  "sv_entries v = zip (sv_indices v) (sv_values v)"

text \<open>A NumPy array: one-dimensional, two-dimensional (given by its columns), or of more dimensions.\<close>

datatype 'v np_array = Vec "'v list" | Mat "'v list list" | HigherDim nat

section \<open>Dot product\<close>

text \<open>\<open>other[self.indices[i]]\<close> is Python indexing: a negative index counts from the end.\<close>

fun dot_entries :: "(int \<times> real) list \<Rightarrow> real list \<Rightarrow> real \<Rightarrow> real res" where
  "dot_entries [] other result = Inr result"
| "dot_entries ((i, v) # es) other result =
     bind_res (py_index other i) (\<lambda>x. dot_entries es other (result + v * x))"

definition dot_vec :: "real sparse_vector \<Rightarrow> real list \<Rightarrow> real res" where
  "dot_vec self other = dot_entries (sv_entries self) other 0"

text \<open>The two-pointer loop over two sparse vectors; the lists are what the pointers have left.\<close>

function sparse_dot_loop :: "(int \<times> real) list \<Rightarrow> (int \<times> real) list \<Rightarrow> real \<Rightarrow> real" where
  "sparse_dot_loop [] qs result = result"
| "sparse_dot_loop (p # ps) [] result = result"
| "sparse_dot_loop ((i, v) # ps) ((j, w) # qs) result =
     (if i = j then sparse_dot_loop ps qs (result + v * w)
      else if i < j then sparse_dot_loop ps ((j, w) # qs) result
      else sparse_dot_loop ((i, v) # ps) qs result)"
  by pat_completeness auto
termination
  by (relation "measure (\<lambda>(ps, qs, r). length ps + length qs)") auto

definition sparse_dot :: "real sparse_vector \<Rightarrow> real sparse_vector \<Rightarrow> real" where
  "sparse_dot self other = sparse_dot_loop (sv_entries self) (sv_entries other) 0"

datatype dot_result = Scalar real | Vector "real list"

fun sv_dot :: "real sparse_vector \<Rightarrow> real np_array + real sparse_vector \<Rightarrow> dot_result res" where
  "sv_dot self (Inl (Vec other)) = map_res Scalar (dot_vec self other)"
| "sv_dot self (Inl (Mat columns)) = map_res Vector (mapM_res (dot_vec self) columns)"
| "sv_dot self (Inl (HigherDim n)) = Inl (PyException ''Cannot call dot'')"
| "sv_dot self (Inr other) = Inr (Scalar (sparse_dot self other))"

section \<open>Squared distance\<close>

text \<open>The loop over a dense vector: \<open>i\<close> is the position, the list what the own pointer has left.\<close>

fun dense_distance_loop :: "(int \<times> real) list \<Rightarrow> int \<Rightarrow> real list \<Rightarrow> real \<Rightarrow> real" where
  "dense_distance_loop es i [] result = result"
| "dense_distance_loop [] i (x # xs) result = dense_distance_loop [] (i + 1) xs (result + x * x)"
| "dense_distance_loop ((k, v) # es) i (x # xs) result =
     (if k = i then dense_distance_loop es (i + 1) xs (result + (v - x) * (v - x))
      else dense_distance_loop ((k, v) # es) (i + 1) xs (result + x * x))"

function sparse_distance_loop :: "(int \<times> real) list \<Rightarrow> (int \<times> real) list \<Rightarrow> real \<Rightarrow> real" where
  "sparse_distance_loop [] [] result = result"
| "sparse_distance_loop ((i, v) # ps) [] result = sparse_distance_loop ps [] (result + v * v)"
| "sparse_distance_loop [] ((j, w) # qs) result = sparse_distance_loop [] qs (result + w * w)"
| "sparse_distance_loop ((i, v) # ps) ((j, w) # qs) result =
     (if i = j then sparse_distance_loop ps qs (result + (v - w) * (v - w))
      else if i < j then sparse_distance_loop ps ((j, w) # qs) (result + v * v)
      else sparse_distance_loop ((i, v) # ps) qs (result + w * w))"
  by pat_completeness auto
termination
  by (relation "measure (\<lambda>(ps, qs, r). length ps + length qs)") auto

fun squared_distance :: "real sparse_vector \<Rightarrow> real np_array + real sparse_vector \<Rightarrow> real res" where
  "squared_distance self (Inl (Vec other)) = Inr (dense_distance_loop (sv_entries self) 0 other 0)"
| "squared_distance self (Inl _) = Inl (PyException ''Cannot call squared_distance'')"
| "squared_distance self (Inr other) = Inr (sparse_distance_loop (sv_entries self) (sv_entries other) 0)"

definition sv_eq :: "'v sparse_vector \<Rightarrow> 'v sparse_vector \<Rightarrow> bool" where
  "sv_eq self other \<longleftrightarrow> sv_size other = sv_size self \<and> sv_indices other = sv_indices self \<and>
     sv_values other = sv_values self"

section \<open>The vector an object stands for\<close>

definition entry_at :: "(int \<times> real) list \<Rightarrow> int \<Rightarrow> real" where
  "entry_at es k = (case map_of es k of Some v \<Rightarrow> v | None \<Rightarrow> 0)"

definition well_formed :: "'v sparse_vector \<Rightarrow> bool" where
  "well_formed v \<longleftrightarrow> length (sv_indices v) = length (sv_values v) \<and>
     sorted_wrt (<) (sv_indices v) \<and> (\<forall>i\<in>set (sv_indices v). 0 \<le> i \<and> i < sv_size v)"

lemma entry_at_simps [simp]:
  "entry_at [] k = 0" "entry_at ((i, v) # es) k = (if k = i then v else entry_at es k)"
  by (simp_all add: entry_at_def)

lemma entry_at_outside: "k \<notin> fst ` set es \<Longrightarrow> entry_at es k = 0"
  by (simp add: entry_at_def map_of_eq_None_iff [THEN iffD2])

lemma strictly_increasing_iff: "strictly_increasing is' \<longleftrightarrow> sorted_wrt (<) is'"
  by (induction is' rule: strictly_increasing.induct) (auto intro: order.strict_trans)

lemma sum_entry_at:
  assumes "distinct (map fst es)" "\<forall>e\<in>set es. 0 \<le> fst e \<and> fst e < n"
  shows "(\<Sum>k\<in>{0..<n}. entry_at es k * g k) = (\<Sum>(i, v)\<leftarrow>es. v * g i)"
  using assms
proof (induction es)
  case (Cons e es)
  obtain i v where e: "e = (i, v)" by force
  have i: "i \<in> {0..<n}" and at_i: "entry_at es i = 0" using Cons.prems e by (auto intro: entry_at_outside)
  have "(\<Sum>k\<in>{0..<n}. entry_at (e # es) k * g k) = (\<Sum>k\<in>{0..<n}. entry_at es k * g k + (if k = i then v * g i else 0))"
    by (rule sum.cong) (auto simp: e at_i)
  also have "\<dots> = (\<Sum>k\<in>{0..<n}. entry_at es k * g k) + v * g i" using i by (simp add: sum.distrib)
  finally show ?case using Cons by (simp add: e)
qed simp

lemma sparse_dot_loop_sum:
  "sorted_wrt (<) (map fst ps) \<Longrightarrow> sorted_wrt (<) (map fst qs) \<Longrightarrow>
     sparse_dot_loop ps qs r = r + (\<Sum>(i, v)\<leftarrow>ps. v * entry_at qs i)"
proof (induction ps qs r rule: sparse_dot_loop.induct)
  case (3 i v ps j w qs r)
  have later: "(\<Sum>(k, x)\<leftarrow>es. x * entry_at ((j, w) # qs) k) = (\<Sum>(k, x)\<leftarrow>es. x * entry_at qs k)"
    if "\<forall>e\<in>set es. j < fst e" for es
    using that by (induction es) auto
  consider "i = j" | "i < j" | "j < i" by linarith
  then show ?case
  proof cases
    case 1
    then show ?thesis using 3 later [of ps] by simp
  next
    case 2
    have "entry_at ((j, w) # qs) i = 0" using 2 "3.prems"(2) by (intro entry_at_outside) force
    then show ?thesis using 2 3 by simp
  next
    case 3
    have "\<forall>e\<in>set ((i, v) # ps). j < fst e" using 3 "3.prems"(1) by auto
    then show ?thesis using 3 "3.IH"(3) "3.prems" later [of "(i, v) # ps"] by simp
  qed
next
  case (2 p ps r)
  have "(\<Sum>(i, v)\<leftarrow>es. v * entry_at [] i) = 0" for es by (induction es) auto
  then show ?case by simp
qed simp

lemma sparse_dot_loop_acc: "sparse_dot_loop ps qs (a + b) = a + sparse_dot_loop ps qs b"
  by (induction ps qs b arbitrary: a rule: sparse_dot_loop.induct) (simp_all add: add.assoc)

lemma sparse_dot_loop_acc0: "sparse_dot_loop ps qs a = a + sparse_dot_loop ps qs 0"
  using sparse_dot_loop_acc [of ps qs a 0] by simp

lemma sparse_distance_loop_sum:
  "sparse_distance_loop ps qs r =
     r + (\<Sum>(i, v)\<leftarrow>ps. v * v) - 2 * sparse_dot_loop ps qs 0 + (\<Sum>(j, w)\<leftarrow>qs. w * w)"
proof (induction ps qs r rule: sparse_distance_loop.induct)
  case (2 i v ps r)
  have "sparse_dot_loop ps [] 0 = 0" by (cases ps) simp_all
  then show ?case using 2 by simp
next
  case (4 i v ps j w qs r)
  consider "i = j" | "i < j" | "j < i" by linarith
  then show ?case
  proof cases
    case 1
    then show ?thesis
      using 4 sparse_dot_loop_acc0 [of ps qs "v * w"] by (simp add: algebra_simps)
  qed (use 4 in simp_all)
qed simp_all

lemma distinct_if_increasing: "sorted_wrt (<) (is' :: int list) \<Longrightarrow> distinct is'"
  by (simp add: strict_sorted_iff)

lemma entries_wf:
  assumes "well_formed v"
  shows "sorted_wrt (<) (map fst (sv_entries v))" "distinct (map fst (sv_entries v))"
    "\<forall>e\<in>set (sv_entries v). 0 \<le> fst e \<and> fst e < sv_size v"
proof -
  have f: "map fst (sv_entries v) = sv_indices v"
    using assms by (simp add: sv_entries_def well_formed_def)
  show "sorted_wrt (<) (map fst (sv_entries v))" using assms by (simp add: f well_formed_def)
  then show "distinct (map fst (sv_entries v))" by (rule distinct_if_increasing)
  show "\<forall>e\<in>set (sv_entries v). 0 \<le> fst e \<and> fst e < sv_size v"
  proof
    fix e assume "e \<in> set (sv_entries v)"
    then have "fst e \<in> set (sv_indices v)" unfolding f [symmetric] by simp
    then show "0 \<le> fst e \<and> fst e < sv_size v" using assms by (simp add: well_formed_def)
  qed
qed

lemma dot_entries_sum:
  "\<forall>e\<in>set es. 0 \<le> fst e \<and> fst e < int (length xs) \<Longrightarrow>
     dot_entries es xs r = Inr (r + (\<Sum>(i, v)\<leftarrow>es. v * xs ! nat i))"
proof (induction es arbitrary: r)
  case (Cons e es)
  obtain i v where e: "e = (i, v)" by force
  then show ?case using Cons by (simp add: py_index_def nat_less_iff)
qed simp

lemma sum_entries_dense:
  assumes "well_formed v"
  shows "(\<Sum>(i, x)\<leftarrow>sv_entries v. x * g i) = (\<Sum>k\<in>{0..<sv_size v}. entry_at (sv_entries v) k * g k)"
  using sum_entry_at [OF entries_wf(2,3) [OF assms], of g] by simp

lemma dense_distance_loop_sum:
  "sorted_wrt (<) (map fst es) \<Longrightarrow> \<forall>e\<in>set es. i \<le> fst e \<Longrightarrow>
     dense_distance_loop es i xs r = r + (\<Sum>k<length xs. (entry_at es (i + int k) - xs ! k)\<^sup>2)"
proof (induction es i xs r rule: dense_distance_loop.induct)
  case (2 i x xs r)
  then show ?case
    by (simp add: lessThan_Suc_eq_insert_0 sum.reindex power2_eq_square algebra_simps
        del: sum.lessThan_Suc sum.lessThan_Suc_shift)
next
  case (3 k v es i x xs r)
  have shift: "(\<Sum>j<length (x # xs). f j) = f 0 + (\<Sum>j<length xs. f (Suc j))" for f :: "nat \<Rightarrow> real"
    by (simp add: sum.lessThan_Suc_shift del: sum.lessThan_Suc)
  show ?case
  proof (cases "k = i")
    case True
    have "\<forall>e\<in>set es. i + 1 \<le> fst e" using "3.prems"(1) True by auto
    moreover have "entry_at ((k, v) # es) (i + 1 + int j) = entry_at es (i + 1 + int j)" for j using True by simp
    ultimately show ?thesis
      unfolding shift using 3 True by (simp add: power2_eq_square add.assoc add.commute add.left_commute)
  next
    case False
    then have k: "i + 1 \<le> k" using "3.prems"(2) by auto
    then have "\<forall>e\<in>set ((k, v) # es). i + 1 \<le> fst e" using "3.prems"(1) by auto
    moreover have "entry_at ((k, v) # es) i = 0" using k "3.prems"(1) by (intro entry_at_outside) auto
    ultimately show ?thesis
      unfolding shift using 3 False by (simp add: power2_eq_square add.assoc add.commute add.left_commute)
  qed
qed simp

text \<open>The loops as sums over the positions of the dense vectors.\<close>

lemma dot_vec_sum:
  assumes "well_formed a" and "int (length xs) = sv_size a"
  shows "dot_vec a xs = Inr (\<Sum>k\<in>{0..<sv_size a}. entry_at (sv_entries a) k * xs ! nat k)"
  using dot_entries_sum [of "sv_entries a" xs 0] entries_wf(3) [OF assms(1)] assms(2)
    sum_entries_dense [OF assms(1), of "\<lambda>k. xs ! nat k"]
  by (simp add: dot_vec_def)

lemma sum_squares_dense:
  assumes "well_formed w"
  shows "(\<Sum>(i, x)\<leftarrow>sv_entries w. x * x) = (\<Sum>k\<in>{0..<sv_size w}. (entry_at (sv_entries w) k)\<^sup>2)"
proof -
  have "\<forall>e\<in>set (sv_entries w). snd e = entry_at (sv_entries w) (fst e)"
    using entries_wf(2) [OF assms] by (auto simp: entry_at_def)
  then have "(\<Sum>(i, x)\<leftarrow>sv_entries w. x * x) = (\<Sum>(i, x)\<leftarrow>sv_entries w. x * entry_at (sv_entries w) i)"
    by (intro arg_cong [where f = sum_list] map_cong) auto
  then show ?thesis by (simp add: sum_entries_dense [OF assms] power2_eq_square)
qed

lemma sparse_distance_dense:
  assumes u: "well_formed u" and v: "well_formed v" and s: "sv_size v = sv_size u"
  shows "sparse_distance_loop (sv_entries u) (sv_entries v) 0 =
    (\<Sum>k\<in>{0..<sv_size u}. (entry_at (sv_entries u) k - entry_at (sv_entries v) k)\<^sup>2)"
proof -
  let ?u = "entry_at (sv_entries u)" and ?v = "entry_at (sv_entries v)" and ?S = "{0..<sv_size u}"
  have "sparse_dot_loop (sv_entries u) (sv_entries v) 0 = (\<Sum>k\<in>?S. ?u k * ?v k)"
    using sparse_dot_loop_sum [OF entries_wf(1) [OF u] entries_wf(1) [OF v], of 0]
      sum_entries_dense [OF u, of ?v] by simp
  then have "sparse_distance_loop (sv_entries u) (sv_entries v) 0 =
      (\<Sum>k\<in>?S. (?u k)\<^sup>2) - 2 * (\<Sum>k\<in>?S. ?u k * ?v k) + (\<Sum>k\<in>?S. (?v k)\<^sup>2)"
    using sparse_distance_loop_sum [of "sv_entries u" "sv_entries v" 0]
      sum_squares_dense [OF u] sum_squares_dense [OF v] s by simp
  also have "\<dots> = (\<Sum>k\<in>?S. (?u k - ?v k)\<^sup>2)"
    by (simp add: power2_diff sum.distrib sum_subtractf sum_distrib_left mult.assoc algebra_simps)
  finally show ?thesis .
qed

lemma dense_distance_dense:
  assumes "well_formed a"
  shows "dense_distance_loop (sv_entries a) 0 xs 0 = (\<Sum>k<length xs. (entry_at (sv_entries a) (int k) - xs ! k)\<^sup>2)"
proof -
  have "\<forall>e\<in>set (sv_entries a). 0 \<le> fst e" using entries_wf(3) [OF assms] by blast
  then show ?thesis
    using dense_distance_loop_sum [OF entries_wf(1) [OF assms], of 0 xs 0] by simp
qed

section \<open>Properties\<close>

text \<open>
  The two-pointer dot product of sparse vectors, and the dot product with a dense vector, are
  the sums over all positions of the products of the entries.
\<close>

theorem dot_is_dense_dot:
  assumes "well_formed a" and "well_formed b" and "sv_size b = sv_size a"
    and "int (length xs) = sv_size a"
  shows "sv_dot a (Inr b) = Inr (Scalar
      (\<Sum>k\<in>{0..<sv_size a}. entry_at (sv_entries a) k * entry_at (sv_entries b) k)) \<and>
    sv_dot a (Inl (Vec xs)) = Inr (Scalar
      (\<Sum>k\<in>{0..<sv_size a}. entry_at (sv_entries a) k * xs ! nat k))"
proof -
  have "sparse_dot a b = (\<Sum>k\<in>{0..<sv_size a}. entry_at (sv_entries a) k * entry_at (sv_entries b) k)"
    using sparse_dot_loop_sum [OF entries_wf(1) [OF assms(1)] entries_wf(1) [OF assms(2)], of 0]
      sum_entries_dense [OF assms(1), of "entry_at (sv_entries b)"]
    by (simp add: sparse_dot_def)
  moreover have "dot_vec a xs = Inr (\<Sum>k\<in>{0..<sv_size a}. entry_at (sv_entries a) k * xs ! nat k)"
    by (rule dot_vec_sum [OF assms(1,4)])
  ultimately show ?thesis by simp
qed

definition example_vector :: "real sparse_vector" where
  "example_vector = \<lparr>sv_size = 4, sv_indices = [1, 3], sv_values = [3, 4]\<rparr>"

lemma example_vector_wf: "well_formed example_vector"
  by (simp add: well_formed_def example_vector_def)

theorem dot_is_dense_dot_witness:
  "sv_dot example_vector (Inr example_vector) = Inr (Scalar
      (\<Sum>k\<in>{0..<sv_size example_vector}.
         entry_at (sv_entries example_vector) k * entry_at (sv_entries example_vector) k)) \<and>
    sv_dot example_vector (Inl (Vec [1, 2, 3, 4])) = Inr (Scalar
      (\<Sum>k\<in>{0..<sv_size example_vector}. entry_at (sv_entries example_vector) k * [1, 2, 3, 4] ! nat k))"
  by (rule dot_is_dense_dot) (simp_all add: example_vector_wf, simp_all add: example_vector_def)

text \<open>
  The squared distance of sparse vectors, and of a sparse and a dense one, is the sum over all
  positions of the squared differences; in particular it is symmetric.
\<close>

theorem squared_distance_is_dense_distance:
  assumes "well_formed a" and "well_formed b" and "sv_size b = sv_size a"
    and "int (length xs) = sv_size a"
  shows "squared_distance a (Inr b) = Inr
      (\<Sum>k\<in>{0..<sv_size a}. (entry_at (sv_entries a) k - entry_at (sv_entries b) k)\<^sup>2) \<and>
    squared_distance a (Inr b) = squared_distance b (Inr a) \<and>
    squared_distance a (Inl (Vec xs)) = Inr
      (\<Sum>k<length xs. (entry_at (sv_entries a) (int k) - xs ! k)\<^sup>2)"
proof -
  have "sparse_distance_loop (sv_entries b) (sv_entries a) 0 =
      sparse_distance_loop (sv_entries a) (sv_entries b) 0"
    using sparse_distance_dense [OF assms(1,2,3)] sparse_distance_dense [OF assms(2,1)] assms(3)
    by (simp add: power2_commute)
  then show ?thesis
    using sparse_distance_dense [OF assms(1-3)] dense_distance_dense [OF assms(1)] by simp
qed

theorem squared_distance_is_dense_distance_witness:
  "squared_distance example_vector (Inr example_vector) = Inr
      (\<Sum>k\<in>{0..<sv_size example_vector}.
         (entry_at (sv_entries example_vector) k - entry_at (sv_entries example_vector) k)\<^sup>2) \<and>
    squared_distance example_vector (Inr example_vector) = squared_distance example_vector (Inr example_vector) \<and>
    squared_distance example_vector (Inl (Vec [1, 2, 3, 4])) = Inr
      (\<Sum>k<length [1, 2, 3, 4 :: real]. (entry_at (sv_entries example_vector) (int k) - [1, 2, 3, 4] ! k)\<^sup>2)"
  by (rule squared_distance_is_dense_distance) (simp_all add: example_vector_wf, simp_all add: example_vector_def)

end
