(* ===== verification/MLCommon.thy ===== *)
theory MLCommon
  imports Linalg Serializers
begin

text \<open>
  \<open>pyspark/mllib/_common.py\<close>: the byte formats in which vectors, matrices, labeled points and
  ratings travel to the JVM, the conversion of the vector types, and the checks of the linear
  models. A \<open>float64\<close> is its 64-bit pattern; the machine is little-endian. Storing an integer in
  an \<open>int32\<close> array keeps its low 32 bits.
\<close>

type_synonym f64 = "64 word"

section \<open>NumPy arrays over a buffer\<close>

definition le_bytes :: "nat \<Rightarrow> int \<Rightarrow> bytes" where
  "le_bytes n x = rev (be_bytes n x)"

definition le_int32 :: "bytes \<Rightarrow> int" where
  "le_int32 b = be_signed (rev b)"

definition f64_bytes :: "f64 \<Rightarrow> bytes" where
  "f64_bytes w = le_bytes 8 (uint w)"

definition f64_value :: "bytes \<Rightarrow> f64" where
  "f64_value b = word_of_int (be_value (rev b))"

text \<open>\<open>ndarray(shape=[n], buffer=ba, offset=off, dtype=..)\<close> with elements of \<open>w\<close> bytes.\<close>

definition np_items :: "nat \<Rightarrow> (bytes \<Rightarrow> 'v) \<Rightarrow> int \<Rightarrow> bytes \<Rightarrow> nat \<Rightarrow> 'v list res" where
  "np_items w dec n ba off =
     (if n < 0 then Inl ValueError
      else if int (length ba) < int off + n * int w then Inl TypeError
      else Inr (map (\<lambda>k. dec (take w (drop (off + k * w) ba))) [0..<nat n]))"

datatype dtype = Float64 | Complex | OtherReal

text \<open>An array: its type, its shape, and its elements as floats in C order.\<close>

record 'v nd_array =
  nd_dtype :: dtype
  nd_shape :: "nat list"
  nd_data :: "'v list"

text \<open>
  What the functions are called with. A SciPy matrix is given by its number of columns and its
  column of entries, if SciPy is there at all.
\<close>

datatype 'v vec_obj =
    NdArray "'v nd_array"
  | Sparse "'v sparse_vector"
  | PyList "'v list"
  | SciPy nat int "int list" "'v list"
  | RddObj
  | OtherObj

section \<open>Conversion\<close>

definition convert_vector :: "bool \<Rightarrow> 'v::linorder vec_obj \<Rightarrow> 'v vec_obj res" where
  "convert_vector have_scipy vec =
     (case vec of
        NdArray a \<Rightarrow> Inr vec
      | Sparse v \<Rightarrow> Inr vec
      | PyList xs \<Rightarrow> Inr (NdArray \<lparr>nd_dtype = Float64, nd_shape = [length xs], nd_data = xs\<rparr>)
      | SciPy cols n is' xs \<Rightarrow>
          if have_scipy then
            (if cols = 1 then map_res Sparse (SparseVector n (Arrays is' xs)) else Inl AssertionError)
          else Inl TypeError
      | _ \<Rightarrow> Inl TypeError)"

section \<open>Vectors\<close>

definition DENSE_VECTOR_MAGIC :: "8 word" where "DENSE_VECTOR_MAGIC = 1"
definition SPARSE_VECTOR_MAGIC :: "8 word" where "SPARSE_VECTOR_MAGIC = 2"
definition DENSE_MATRIX_MAGIC :: "8 word" where "DENSE_MATRIX_MAGIC = 3"
definition LABELED_POINT_MAGIC :: "8 word" where "LABELED_POINT_MAGIC = 4"

definition serialize_dense_vector :: "f64 nd_array \<Rightarrow> bytes res" where
  "serialize_dense_vector v =
     (if length (nd_shape v) \<noteq> 1 then Inl TypeError
      else if nd_dtype v = Complex then Inl TypeError
      else Inr ([DENSE_VECTOR_MAGIC] @ le_bytes 4 (int (hd (nd_shape v))) @
        concat (map f64_bytes (nd_data v))))"

definition serialize_sparse_vector :: "f64 sparse_vector \<Rightarrow> bytes res" where
  "serialize_sparse_vector v =
     (let nonzeros = length (sv_indices v) in
      if length (sv_values v) \<noteq> nonzeros then Inl ValueError
      else Inr ([SPARSE_VECTOR_MAGIC] @ le_bytes 4 (sv_size v) @ le_bytes 4 (int nonzeros) @
        concat (map (le_bytes 4) (sv_indices v)) @ concat (map f64_bytes (sv_values v))))"

definition serialize_double_vector :: "bool \<Rightarrow> f64 vec_obj \<Rightarrow> bytes res" where
  "serialize_double_vector have_scipy v =
     bind_res (convert_vector have_scipy v) (\<lambda>v.
       case v of
         NdArray a \<Rightarrow> serialize_dense_vector a
       | Sparse s \<Rightarrow> serialize_sparse_vector s
       | _ \<Rightarrow> Inl TypeError)"

definition deserialize_dense_vector :: "bytes \<Rightarrow> f64 vec_obj res" where
  "deserialize_dense_vector ba =
     (if length ba < 5 then Inl TypeError
      else
        (let len = le_int32 (take 4 (drop 1 ba)) in
         if int (length ba) \<noteq> 8 * len + 5 then Inl TypeError
         else map_res (\<lambda>xs. NdArray \<lparr>nd_dtype = Float64, nd_shape = [nat len], nd_data = xs\<rparr>)
           (np_items 8 f64_value len ba 5)))"

definition deserialize_sparse_vector :: "bytes \<Rightarrow> f64 vec_obj res" where
  "deserialize_sparse_vector ba =
     (if length ba < 9 then Inl TypeError
      else
        (let sz = le_int32 (take 4 (drop 1 ba)); nonzeros = le_int32 (take 4 (drop 5 ba)) in
         if int (length ba) \<noteq> 9 + 12 * nonzeros then Inl TypeError
         else
           bind_res (np_items 4 le_int32 nonzeros ba 9) (\<lambda>indices.
           bind_res (np_items 8 f64_value nonzeros ba (9 + 4 * nat nonzeros)) (\<lambda>values.
             map_res Sparse (SparseVector sz (Arrays indices values))))))"

text \<open>The argument is a bytearray here; anything else raises the first TypeError of the code.\<close>

definition deserialize_double_vector :: "bytes \<Rightarrow> f64 vec_obj res" where
  "deserialize_double_vector ba =
     (if length ba < 5 then Inl TypeError
      else if hd ba = DENSE_VECTOR_MAGIC then deserialize_dense_vector ba
      else if hd ba = SPARSE_VECTOR_MAGIC then deserialize_sparse_vector ba
      else Inl TypeError)"

section \<open>Matrices, labeled points and ratings\<close>

text \<open>
  The header array is declared with three elements where two are used, and NumPy refuses a buffer
  that is too short for it.
\<close>

definition serialize_double_matrix :: "f64 nd_array \<Rightarrow> bytes res" where
  "serialize_double_matrix m =
     (case nd_shape m of
        [rows, cols] \<Rightarrow>
          if nd_dtype m = Complex then Inl TypeError
          else if 9 + 8 * rows * cols < 1 + 3 * 4 then Inl TypeError
          else Inr ([DENSE_MATRIX_MAGIC] @ le_bytes 4 (int rows) @ le_bytes 4 (int cols) @
            concat (map f64_bytes (nd_data m)))
      | _ \<Rightarrow> Inl TypeError)"

definition deserialize_double_matrix :: "bytes \<Rightarrow> f64 nd_array res" where
  "deserialize_double_matrix ba =
     (if length ba < 9 then Inl TypeError
      else if hd ba \<noteq> DENSE_MATRIX_MAGIC then Inl TypeError
      else
        (let rows = le_int32 (take 4 (drop 1 ba)); cols = le_int32 (take 4 (drop 5 ba)) in
         if int (length ba) \<noteq> 8 * rows * cols + 9 then Inl TypeError
         else if rows < 0 \<or> cols < 0 then Inl ValueError
         else map_res (\<lambda>xs. \<lparr>nd_dtype = Float64, nd_shape = [nat rows, nat cols], nd_data = xs\<rparr>)
           (np_items 8 f64_value (rows * cols) ba 9)))"

definition serialize_labeled_point :: "bool \<Rightarrow> f64 \<Rightarrow> f64 vec_obj \<Rightarrow> bytes res" where
  "serialize_labeled_point have_scipy label features =
     map_res (\<lambda>fs. [LABELED_POINT_MAGIC] @ f64_bytes label @ fs) (serialize_double_vector have_scipy features)"

definition serialize_rating :: "int \<times> int \<times> f64 \<Rightarrow> bytes" where
  "serialize_rating = (\<lambda>(user, product, rating). le_bytes 4 user @ le_bytes 4 product @ f64_bytes rating)"

definition serialize_tuple :: "int \<times> int \<Rightarrow> bytes" where
  "serialize_tuple = (\<lambda>(a, b). le_bytes 4 a @ le_bytes 4 b)"

text \<open>\<open>f64_int\<close> is Python's \<open>int\<close> of a float, which raises for NaN and the infinities.\<close>

definition rating_loads :: "(f64 \<Rightarrow> int res) \<Rightarrow> bytes \<Rightarrow> ((int \<times> int \<times> f64) \<times> bytes) res" where
  "rating_loads f64_int s =
     bind_res (struct_unpack 4 (fst (stream_read 4 s))) (\<lambda>len.
       let (ba, s2) = stream_read len (snd (stream_read 4 s)) in
       bind_res (np_items 8 f64_value 3 ba 4) (\<lambda>r.
       bind_res (f64_int (r ! 0)) (\<lambda>user.
       bind_res (f64_int (r ! 1)) (\<lambda>product.
         Inr ((user, product, r ! 2), s2)))))"

lemma rating_loads_length:
  assumes "rating_loads f64_int s = Inr (x, s')" shows "length s' < length s"
  using assms
  by (auto simp: rating_loads_def stream_read_def struct_unpack_def Let_def split: if_splits)

function rating_load_stream :: "(f64 \<Rightarrow> int res) \<Rightarrow> bytes \<Rightarrow> (int \<times> int \<times> f64) list \<times> py_error option" where
  "rating_load_stream f64_int s =
     (case rating_loads f64_int s of
        Inl e \<Rightarrow> ([], if e \<in> {StructError, EOFError} then None else Some e)
      | Inr (x, s') \<Rightarrow> (case rating_load_stream f64_int s' of (xs, e) \<Rightarrow> (x # xs, e)))"
  by pat_completeness auto
termination
  by (relation "measure (\<lambda>(f, s). length s)") (auto dest: rating_loads_length)

declare rating_load_stream.simps [simp del]

section \<open>Linear models\<close>

definition linear_predictor_typecheck :: "bool \<Rightarrow> 'v::linorder vec_obj \<Rightarrow> nat list \<Rightarrow> unit res" where
  "linear_predictor_typecheck have_scipy x coeffs_shape =
     bind_res (convert_vector have_scipy x) (\<lambda>x.
       case x of
         NdArray a \<Rightarrow>
           (if length (nd_shape a) = 1 then
              (if nd_shape a \<noteq> coeffs_shape then Inl RuntimeError else Inr ())
            else Inl RuntimeError)
       | Sparse v \<Rightarrow> (if sv_size v \<noteq> int (hd coeffs_shape) then Inl RuntimeError else Inr ())
       | RddObj \<Rightarrow> Inl RuntimeError
       | _ \<Rightarrow> Inl TypeError)"

definition zeros :: "nat \<Rightarrow> 'v::zero vec_obj" where
  "zeros n = NdArray \<lparr>nd_dtype = Float64, nd_shape = [n], nd_data = replicate n 0\<rparr>"

text \<open>\<open>first\<close> is the features of \<open>data.first()\<close>.\<close>

definition get_initial_weights :: "bool \<Rightarrow> f64 vec_obj option \<Rightarrow> f64 vec_obj res \<Rightarrow> f64 vec_obj res" where
  "get_initial_weights have_scipy initial_weights first =
     (case initial_weights of
        Some w \<Rightarrow> Inr w
      | None \<Rightarrow>
          bind_res first (\<lambda>f. bind_res (convert_vector have_scipy f) (\<lambda>w.
            case w of
              NdArray a \<Rightarrow> (case nd_shape a of [n] \<Rightarrow> Inr (zeros n) | _ \<Rightarrow> Inl TypeError)
            | Sparse v \<Rightarrow> if sv_size v < 0 then Inl ValueError else Inr (zeros (nat (sv_size v)))
            | _ \<Rightarrow> Inr w)))"

text \<open>The answer of the JVM stub: a list of byte arrays, floats, or other objects.\<close>

datatype jvm_value = ByteArray bytes | PyFloat f64 | OtherValue

definition regression_train_wrapper ::
  "bool \<Rightarrow> (bytes list \<Rightarrow> bytes \<Rightarrow> jvm_value list) \<Rightarrow> (f64 \<times> f64 vec_obj) list \<Rightarrow> f64 vec_obj option \<Rightarrow>
   (f64 vec_obj \<times> f64) res" where
  "regression_train_wrapper have_scipy train_func data initial_weights =
     bind_res (get_initial_weights have_scipy initial_weights
         (case data of [] \<Rightarrow> Inl IndexError | (l, f) # _ \<Rightarrow> Inr f)) (\<lambda>weights.
     bind_res (mapM_res (\<lambda>(l, f). serialize_labeled_point have_scipy l f) data) (\<lambda>dataBytes.
     bind_res (serialize_double_vector have_scipy weights) (\<lambda>w.
       case train_func dataBytes w of
         [ByteArray b, PyFloat intercept] \<Rightarrow> map_res (\<lambda>v. (v, intercept)) (deserialize_double_vector b)
       | _ \<Rightarrow> Inl RuntimeError)))"

section \<open>Round trips\<close>

lemma length_le_bytes [simp]: "length (le_bytes n x) = n"
  by (simp add: le_bytes_def)

lemma length_f64_bytes [simp]: "length (f64_bytes w) = 8"
  by (simp add: f64_bytes_def)

lemma f64_value_bytes [simp]: "f64_value (f64_bytes w) = w"
proof -
  have "uint w mod 256 ^ 8 = uint w"
    using uint_lt2p [of w] uint_ge_0 [of w] by (intro mod_pos_pos_trivial) simp_all
  then show ?thesis by (simp add: f64_value_def f64_bytes_def le_bytes_def be_value_be_bytes)
qed

lemma le_int32_bytes:
  "- (2 ^ 31) \<le> x \<Longrightarrow> x < 2 ^ 31 \<Longrightarrow> le_int32 (le_bytes 4 x) = x"
  using be_signed_be_bytes [of 4 x] by (simp add: le_int32_def le_bytes_def)

lemma length_concat_const: "\<forall>x\<in>set xs. length (f x) = w \<Longrightarrow> length (concat (map f xs)) = length xs * w"
  by (induction xs) simp_all

text \<open>Reading back an array written in pieces of \<open>w\<close> bytes.\<close>

lemma take_drop_piece:
  assumes "\<And>x. length (f x) = w" "k < length xs"
  shows "take w (drop (k * w) (concat (map f xs) @ rest)) = f (xs ! k)"
  using assms(2)
proof (induction xs arbitrary: k)
  case (Cons x xs)
  then show ?case using assms(1) [of x] by (cases k) simp_all
qed simp

lemma np_items_written:
  assumes "\<And>x. length (enc x) = w" "\<forall>x\<in>set xs. dec (enc x) = x" "length pre = off" "n = int (length xs)"
  shows "np_items w dec n (pre @ concat (map enc xs) @ rest) off = Inr xs"
proof -
  have "length (concat (map enc xs)) = length xs * w" by (rule length_concat_const) (simp add: assms(1))
  moreover have "map (\<lambda>k. dec (take w (drop (off + k * w) (pre @ concat (map enc xs) @ rest)))) [0..<length xs] = xs"
    using take_drop_piece [of enc w _ xs rest] assms(1-3) by (intro nth_equalityI) simp_all
  ultimately show ?thesis using assms(3,4) by (simp add: np_items_def algebra_simps flip: of_nat_mult of_nat_add)
qed

lemma header_field:
  "length pre = off \<Longrightarrow> - (2 ^ 31) \<le> x \<Longrightarrow> x < 2 ^ 31 \<Longrightarrow>
     le_int32 (take 4 (drop off (pre @ le_bytes 4 x @ rest))) = x"
  by (simp add: le_int32_bytes)

definition int32 :: "int \<Rightarrow> bool" where
  "int32 x \<longleftrightarrow> - (2 ^ 31) \<le> x \<and> x < 2 ^ 31"

lemma dense_roundtrip:
  assumes "nd_shape a = [length (nd_data a)]" "length (nd_data a) < 2 ^ 31"
  shows "deserialize_double_vector ([DENSE_VECTOR_MAGIC] @ le_bytes 4 (int (length (nd_data a))) @
      concat (map f64_bytes (nd_data a))) =
    Inr (NdArray \<lparr>nd_dtype = Float64, nd_shape = [length (nd_data a)], nd_data = nd_data a\<rparr>)"
proof -
  let ?n = "int (length (nd_data a))"
  let ?pre = "[DENSE_VECTOR_MAGIC] @ le_bytes 4 ?n"
  let ?ba = "?pre @ concat (map f64_bytes (nd_data a)) @ []"
  have h: "le_int32 (take 4 (drop 1 ([DENSE_VECTOR_MAGIC] @ le_bytes 4 ?n @ concat (map f64_bytes (nd_data a))))) = ?n"
    by (rule header_field) (use assms(2) in simp_all)
  have len: "length (concat (map f64_bytes (nd_data a))) = length (nd_data a) * 8"
    by (rule length_concat_const) simp
  have "np_items 8 f64_value ?n ?ba 5 = Inr (nd_data a)"
    by (rule np_items_written) simp_all
  then show ?thesis
    using h len by (simp add: deserialize_double_vector_def deserialize_dense_vector_def Let_def)
qed

lemma sparse_bytes_read:
  assumes "length (sv_values v) = length (sv_indices v)" "int32 (sv_size v)" "\<forall>i\<in>set (sv_indices v). int32 i"
    "length (sv_indices v) < 2 ^ 31"
  shows "\<exists>ba. serialize_sparse_vector v = Inr ba \<and>
    deserialize_double_vector ba = map_res Sparse (SparseVector (sv_size v) (Arrays (sv_indices v) (sv_values v)))"
proof -
  let ?n = "int (length (sv_indices v))"
  let ?h = "[SPARSE_VECTOR_MAGIC] @ le_bytes 4 (sv_size v) @ le_bytes 4 ?n"
  let ?I = "concat (map (le_bytes 4) (sv_indices v))" and ?V = "concat (map f64_bytes (sv_values v))"
  let ?ba = "[SPARSE_VECTOR_MAGIC] @ le_bytes 4 (sv_size v) @ le_bytes 4 ?n @ ?I @ ?V"
  have s: "serialize_sparse_vector v = Inr ?ba"
    using assms(1) by (simp add: serialize_sparse_vector_def Let_def)
  have lI: "length ?I = length (sv_indices v) * 4" by (rule length_concat_const) simp
  have lV: "length ?V = length (sv_indices v) * 8"
    using length_concat_const [of "sv_values v" f64_bytes 8] assms(1) by simp
  have h1: "le_int32 (take 4 (drop 1 ?ba)) = sv_size v"
    by (rule header_field) (use assms(2) in \<open>simp_all add: int32_def\<close>)
  have h2: "le_int32 (take 4 (drop 5 (([SPARSE_VECTOR_MAGIC] @ le_bytes 4 (sv_size v)) @ le_bytes 4 ?n @ ?I @ ?V))) = ?n"
    by (rule header_field) (use assms(4) in simp_all)
  have i: "np_items 4 le_int32 ?n (?h @ ?I @ ?V) 9 = Inr (sv_indices v)"
    by (rule np_items_written) (use assms(3) in \<open>simp_all add: int32_def le_int32_bytes\<close>)
  have vv: "np_items 8 f64_value ?n ((?h @ ?I) @ ?V @ []) (9 + 4 * nat ?n) = Inr (sv_values v)"
    by (rule np_items_written) (use lI assms(1) in simp_all)
  have "deserialize_double_vector ?ba = deserialize_sparse_vector ?ba"
    using lI by (simp add: deserialize_double_vector_def DENSE_VECTOR_MAGIC_def SPARSE_VECTOR_MAGIC_def)
  also have "\<dots> = map_res Sparse (SparseVector (sv_size v) (Arrays (sv_indices v) (sv_values v)))"
    using h1 h2 i vv lI lV by (simp add: deserialize_sparse_vector_def Let_def)
  finally show ?thesis using s by blast
qed

section \<open>Properties\<close>

text \<open>
  C25: one-dimensional real arrays and sparse vectors with strictly increasing indices survive their byte
  format: such an array comes back as a float64 array with the same elements, bit for bit, with the byte length
  the format promises, and such a sparse vector as itself.
\<close>

theorem vector_bytes_roundtrip:
  assumes "nd_shape a = [length (nd_data a)]" and "length (nd_data a) < 2 ^ 31" and "nd_dtype a \<noteq> Complex"
    and "length (sv_values v) = length (sv_indices v)" and "strictly_increasing (sv_indices v)"
    and "int32 (sv_size v)" and "\<forall>i\<in>set (sv_indices v). int32 i" and "length (sv_indices v) < 2 ^ 31"
  shows "(\<exists>ba. serialize_double_vector have_scipy (NdArray a) = Inr ba \<and>
      length ba = 5 + 8 * length (nd_data a) \<and>
      deserialize_double_vector ba = Inr (NdArray (a\<lparr>nd_dtype := Float64\<rparr>))) \<and>
    (\<exists>ba. serialize_double_vector have_scipy (Sparse v) = Inr ba \<and>
      deserialize_double_vector ba = Inr (Sparse v))"
proof -
  let ?ba = "[DENSE_VECTOR_MAGIC] @ le_bytes 4 (int (length (nd_data a))) @ concat (map f64_bytes (nd_data a))"
  have "serialize_double_vector have_scipy (NdArray a) = Inr ?ba"
    using assms(1,3) by (simp add: serialize_double_vector_def convert_vector_def serialize_dense_vector_def)
  moreover have "length ?ba = 5 + 8 * length (nd_data a)"
    using length_concat_const [of "nd_data a" f64_bytes 8] by simp
  moreover have "deserialize_double_vector ?ba = Inr (NdArray (a\<lparr>nd_dtype := Float64\<rparr>))"
    using dense_roundtrip [OF assms(1,2)] assms(1) by (cases a) simp
  moreover obtain ba where "serialize_sparse_vector v = Inr ba"
    "deserialize_double_vector ba = map_res Sparse (SparseVector (sv_size v) (Arrays (sv_indices v) (sv_values v)))"
    using sparse_bytes_read [OF assms(4,6-8)] by blast
  ultimately show ?thesis
    using assms(4,5) by (auto simp: serialize_double_vector_def convert_vector_def)
qed

theorem vector_bytes_roundtrip_witness:
  "(\<exists>ba. serialize_double_vector False (NdArray \<lparr>nd_dtype = OtherReal, nd_shape = [2], nd_data = [1, 2]\<rparr>) = Inr ba \<and>
      length ba = 5 + 8 * length [1, 2 :: f64] \<and>
      deserialize_double_vector ba =
        Inr (NdArray (\<lparr>nd_dtype = OtherReal, nd_shape = [2], nd_data = [1, 2]\<rparr>\<lparr>nd_dtype := Float64\<rparr>))) \<and>
    (\<exists>ba. serialize_double_vector False (Sparse \<lparr>sv_size = 4, sv_indices = [1, 3], sv_values = [5, 6]\<rparr>) = Inr ba \<and>
      deserialize_double_vector ba = Inr (Sparse \<lparr>sv_size = 4, sv_indices = [1, 3], sv_values = [5, 6]\<rparr>))"
  using vector_bytes_roundtrip [of "\<lparr>nd_dtype = OtherReal, nd_shape = [2], nd_data = [1, 2]\<rparr>"
      "\<lparr>sv_size = 4, sv_indices = [1, 3], sv_values = [5, 6]\<rparr>" False]
  by (simp add: int32_def)

text \<open>
  A sparse vector built from pairs of which two have the same index is accepted by the
  constructor and serialized, but its bytes are refused when they are read back.
\<close>

theorem duplicate_indices_not_read_back:
  assumes "SparseVector sz (Pairs [(i, x), (i, y)]) = Inr v" and "int32 sz" and "int32 i"
  shows "\<exists>ba. serialize_double_vector have_scipy (Sparse v) = Inr ba \<and>
    deserialize_double_vector ba = Inl TypeError"
proof -
  have v: "sv_size v = sz" "sv_indices v = [i, i]" "length (sv_values v) = 2"
    using assms(1) by (auto simp: Let_def split: if_splits)
  obtain ba where "serialize_sparse_vector v = Inr ba"
    "deserialize_double_vector ba = map_res Sparse (SparseVector (sv_size v) (Arrays (sv_indices v) (sv_values v)))"
    using sparse_bytes_read [of v] v assms(2,3) by auto
  then show ?thesis using v by (simp add: serialize_double_vector_def convert_vector_def)
qed

theorem duplicate_indices_not_read_back_witness:
  "\<exists>ba. serialize_double_vector False (Sparse \<lparr>sv_size = 4, sv_indices = [1, 1], sv_values = [5, 6]\<rparr>) = Inr ba \<and>
    deserialize_double_vector ba = Inl TypeError"
  by (rule duplicate_indices_not_read_back [of 4 1 5 6]) (simp_all add: int32_def)

text \<open>
  A matrix with at least one element survives its byte format; a matrix without elements
  cannot be serialized, because the header array is declared one element too long for its bytes.
\<close>

theorem matrix_bytes_roundtrip:
  assumes "nd_shape m = [r, c]" and "nd_dtype m \<noteq> Complex" and "length (nd_data m) = r * c"
    and "r < 2 ^ 31" and "c < 2 ^ 31"
  shows "if r * c = 0 then serialize_double_matrix m = Inl TypeError
    else \<exists>ba. serialize_double_matrix m = Inr ba \<and>
      deserialize_double_matrix ba = Inr (m\<lparr>nd_dtype := Float64\<rparr>)"
proof (cases "r * c = 0")
  case True
  then show ?thesis using assms(1,2) by (auto simp: serialize_double_matrix_def)
next
  case False
  let ?V = "concat (map f64_bytes (nd_data m))"
  let ?ba = "[DENSE_MATRIX_MAGIC] @ le_bytes 4 (int r) @ le_bytes 4 (int c) @ ?V"
  have lV: "length ?V = (r * c) * 8" using length_concat_const [of "nd_data m" f64_bytes 8] assms(3) by simp
  have s: "serialize_double_matrix m = Inr ?ba"
    using False assms(1,2) by (cases r; cases c) (simp_all add: serialize_double_matrix_def)
  have h1: "le_int32 (take 4 (drop 1 ?ba)) = int r"
    by (rule header_field) (use assms(4) in simp_all)
  have h2: "le_int32 (take 4 (drop 5 (([DENSE_MATRIX_MAGIC] @ le_bytes 4 (int r)) @ le_bytes 4 (int c) @ ?V))) = int c"
    by (rule header_field) (use assms(5) in simp_all)
  have "np_items 8 f64_value (int r * int c)
      (([DENSE_MATRIX_MAGIC] @ le_bytes 4 (int r) @ le_bytes 4 (int c)) @ ?V @ []) 9 = Inr (nd_data m)"
    by (rule np_items_written) (simp_all add: assms(3))
  then have "deserialize_double_matrix ?ba = Inr (m\<lparr>nd_dtype := Float64\<rparr>)"
    using h1 h2 lV assms(1) by (cases m) (simp add: deserialize_double_matrix_def Let_def)
  then show ?thesis using False s by simp
qed

theorem matrix_bytes_roundtrip_witness:
  "(if (2 :: nat) * 1 = 0 then serialize_double_matrix \<lparr>nd_dtype = Float64, nd_shape = [2, 1], nd_data = [7, 8]\<rparr> = Inl TypeError
    else \<exists>ba. serialize_double_matrix \<lparr>nd_dtype = Float64, nd_shape = [2, 1], nd_data = [7, 8]\<rparr> = Inr ba \<and>
      deserialize_double_matrix ba =
        Inr (\<lparr>nd_dtype = Float64, nd_shape = [2, 1], nd_data = [7, 8]\<rparr>\<lparr>nd_dtype := Float64\<rparr>))"
  by (rule matrix_bytes_roundtrip) simp_all

end
