(* ===== verification/Accumulators.thy ===== *)
theory Accumulators
  imports Serializers
begin

text \<open>
  \<open>pyspark/accumulators.py\<close> and \<open>SparkContext.accumulator\<close>: accumulator objects, the registry
  of a process that maps an accumulator's id to its object, how a task rebuilds the driver's
  accumulators, and the server of the driver that applies the updates the tasks report. Objects
  live in a list and are named by their position in it, so that the registry and the program
  can hold the same object.
\<close>

section \<open>Accumulator objects\<close>

text \<open>The methods of an \<open>AccumulatorParam\<close>; a user's own may raise.\<close>

record 'v accum_param =
  zero_method :: "'v \<Rightarrow> 'v res"
  addInPlace :: "'v \<Rightarrow> 'v \<Rightarrow> 'v res"

record 'v accumulator =
  acc_aid :: int
  acc_param :: "'v accum_param"
  acc_value :: 'v
  acc_deserialized :: bool

record 'v acc_state =
  acc_objects :: "'v accumulator list"
  accumulatorRegistry :: "(int, nat) dict"
  next_accum_id :: int

definition initial_accs :: "'v acc_state" where
  "initial_accs = \<lparr>acc_objects = [], accumulatorRegistry = [], next_accum_id = 0\<rparr>"

definition update_object :: "nat \<Rightarrow> ('v accumulator \<Rightarrow> 'v accumulator) \<Rightarrow> 'v acc_state \<Rightarrow> 'v acc_state" where
  "update_object r f st = st\<lparr>acc_objects := (acc_objects st)[r := f (acc_objects st ! r)]\<rparr>"

definition Accumulator :: "int \<Rightarrow> 'v \<Rightarrow> 'v accum_param \<Rightarrow> 'v acc_state \<Rightarrow> nat \<times> 'v acc_state" where
  "Accumulator aid value param st =
     (let r = length (acc_objects st);
          a = \<lparr>acc_aid = aid, acc_param = param, acc_value = value, acc_deserialized = False\<rparr>
      in (r, st\<lparr>acc_objects := acc_objects st @ [a],
               accumulatorRegistry := AList.update aid r (accumulatorRegistry st)\<rparr>))"

definition accumulator_reduce :: "'v accumulator \<Rightarrow> (int \<times> 'v \<times> 'v accum_param) res" where
  "accumulator_reduce a =
     map_res (\<lambda>z. (acc_aid a, z, acc_param a)) (zero_method (acc_param a) (acc_value a))"

definition deserialize_accumulator ::
  "int \<times> 'v \<times> 'v accum_param \<Rightarrow> 'v acc_state \<Rightarrow> nat \<times> 'v acc_state" where
  "deserialize_accumulator = (\<lambda>(aid, zero_value, param) st.
     case Accumulator aid zero_value param st of
       (r, st1) \<Rightarrow>
         let st2 = update_object r (\<lambda>a. a\<lparr>acc_deserialized := True\<rparr>) st1
         in (r, st2\<lparr>accumulatorRegistry := AList.update aid r (accumulatorRegistry st2)\<rparr>))"

definition get_value :: "nat \<Rightarrow> 'v acc_state \<Rightarrow> 'v res" where
  "get_value r st =
     (if acc_deserialized (acc_objects st ! r)
      then Inl (PyException ''Accumulator.value cannot be accessed inside tasks'')
      else Inr (acc_value (acc_objects st ! r)))"

definition set_value :: "nat \<Rightarrow> 'v \<Rightarrow> 'v acc_state \<Rightarrow> unit res \<times> 'v acc_state" where
  "set_value r v st =
     (if acc_deserialized (acc_objects st ! r)
      then (Inl (PyException ''Accumulator.value cannot be accessed inside tasks''), st)
      else (Inr (), update_object r (\<lambda>a. a\<lparr>acc_value := v\<rparr>) st))"

definition acc_add :: "nat \<Rightarrow> 'v \<Rightarrow> 'v acc_state \<Rightarrow> unit res \<times> 'v acc_state" where
  "acc_add r term st =
     (let a = acc_objects st ! r
      in case addInPlace (acc_param a) (acc_value a) term of
           Inl e \<Rightarrow> (Inl e, st)
         | Inr v \<Rightarrow> (Inr (), update_object r (\<lambda>a. a\<lparr>acc_value := v\<rparr>) st))"

text \<open>\<open>+=\<close> adds and returns the object itself.\<close>

definition acc_iadd :: "nat \<Rightarrow> 'v \<Rightarrow> 'v acc_state \<Rightarrow> nat res \<times> 'v acc_state" where
  "acc_iadd r term st = (case acc_add r term st of (x, st') \<Rightarrow> (map_res (\<lambda>_. r) x, st'))"

fun add_all :: "nat \<Rightarrow> 'v list \<Rightarrow> 'v acc_state \<Rightarrow> unit res \<times> 'v acc_state" where
  "add_all r [] st = (Inr (), st)"
| "add_all r (t # ts) st =
     (case acc_iadd r t st of (Inl e, st') \<Rightarrow> (Inl e, st') | (Inr r', st') \<Rightarrow> add_all r' ts st')"

section \<open>The parameters for numbers\<close>

text \<open>
  Python numbers and their addition, which converts to the larger type. Integers have no bound;
  an \<open>int\<close> (rather than a \<open>long\<close>) fits 64 bits, and a \<open>long\<close> of a small value is not told apart
  from the \<open>int\<close>. Floats are real numbers.
\<close>

datatype py_num = PInt int | PFloat real | PComplex complex

fun py_add :: "py_num \<Rightarrow> py_num \<Rightarrow> py_num" where
  "py_add (PInt a) (PInt b) = PInt (a + b)"
| "py_add (PInt a) (PFloat b) = PFloat (of_int a + b)"
| "py_add (PFloat a) (PInt b) = PFloat (a + of_int b)"
| "py_add (PFloat a) (PFloat b) = PFloat (a + b)"
| "py_add (PComplex a) (PComplex b) = PComplex (a + b)"
| "py_add (PComplex a) (PInt b) = PComplex (a + of_int b)"
| "py_add (PComplex a) (PFloat b) = PComplex (a + of_real b)"
| "py_add (PInt a) (PComplex b) = PComplex (of_int a + b)"
| "py_add (PFloat a) (PComplex b) = PComplex (of_real a + b)"

instantiation py_num :: comm_monoid_add
begin

definition zero_py_num :: py_num where
  "zero_py_num = PInt 0"

definition plus_py_num :: "py_num \<Rightarrow> py_num \<Rightarrow> py_num" where
  "plus_py_num = py_add"

instance
proof
  fix a b c :: py_num
  show "a + b + c = a + (b + c)"
    by (cases a; cases b; cases c) (simp_all add: plus_py_num_def)
  show "a + b = b + a"
    by (cases a; cases b) (simp_all add: plus_py_num_def)
  show "0 + a = a"
    by (cases a) (simp_all add: plus_py_num_def zero_py_num_def)
qed

end

definition AddingAccumulatorParam :: "py_num \<Rightarrow> py_num accum_param" where
  "AddingAccumulatorParam zero_value =
     \<lparr>zero_method = (\<lambda>value. Inr zero_value), addInPlace = (\<lambda>value1 value2. Inr (py_add value1 value2))\<rparr>"

definition INT_ACCUMULATOR_PARAM :: "py_num accum_param" where
  "INT_ACCUMULATOR_PARAM = AddingAccumulatorParam (PInt 0)"

definition FLOAT_ACCUMULATOR_PARAM :: "py_num accum_param" where
  "FLOAT_ACCUMULATOR_PARAM = AddingAccumulatorParam (PFloat 0)"

definition COMPLEX_ACCUMULATOR_PARAM :: "py_num accum_param" where
  "COMPLEX_ACCUMULATOR_PARAM = AddingAccumulatorParam (PComplex 0)"

definition is_int :: "int \<Rightarrow> bool" where
  "is_int i \<longleftrightarrow> - (2 ^ 63) \<le> i \<and> i < 2 ^ 63"

fun default_param :: "py_num \<Rightarrow> py_num accum_param res" where
  "default_param (PInt i) =
     (if is_int i then Inr INT_ACCUMULATOR_PARAM
      else Inl (PyException ''No default accumulator param for type''))"
| "default_param (PFloat x) = Inr FLOAT_ACCUMULATOR_PARAM"
| "default_param (PComplex c) = Inr COMPLEX_ACCUMULATOR_PARAM"

definition ctx_accumulator ::
  "py_num \<Rightarrow> py_num accum_param option \<Rightarrow> py_num acc_state \<Rightarrow> nat res \<times> py_num acc_state" where
  "ctx_accumulator value accum_param st =
     (case (case accum_param of None \<Rightarrow> default_param value | Some p \<Rightarrow> Inr p) of
        Inl e \<Rightarrow> (Inl e, st)
      | Inr p \<Rightarrow>
          let st1 = st\<lparr>next_accum_id := next_accum_id st + 1\<rparr>;
              (r, st2) = Accumulator (next_accum_id st1 - 1) value p st1
          in (Inr r, st2))"

section \<open>The update server\<close>

text \<open>\<open>_accumulatorRegistry[aid] += update\<close>\<close>

definition registry_iadd :: "int \<Rightarrow> 'v \<Rightarrow> 'v acc_state \<Rightarrow> unit res \<times> 'v acc_state" where
  "registry_iadd aid update st =
     (case map_of (accumulatorRegistry st) aid of
        None \<Rightarrow> (Inl KeyError, st)
      | Some r \<Rightarrow>
          (case acc_iadd r update st of
             (Inl e, st') \<Rightarrow> (Inl e, st')
           | (Inr r', st') \<Rightarrow>
               (Inr (), st'\<lparr>accumulatorRegistry := AList.update aid r' (accumulatorRegistry st')\<rparr>)))"

fun handle_updates ::
  "(bytes \<Rightarrow> (int \<times> 'v) res) \<Rightarrow> nat \<Rightarrow> bytes \<Rightarrow> 'v acc_state \<Rightarrow> unit res \<times> 'v acc_state" where
  "handle_updates loads 0 rfile st = (Inr (), st)"
| "handle_updates loads (Suc n) rfile st =
     (case framed_read loads rfile of
        Inl e \<Rightarrow> (Inl e, st)
      | Inr ((aid, update), rfile') \<Rightarrow>
          (case registry_iadd aid update st of
             (Inl e, st') \<Rightarrow> (Inl e, st')
           | (Inr _, st') \<Rightarrow> handle_updates loads n rfile' st'))"

text \<open>The handler of one connection: the byte it acknowledges with, or the exception.\<close>

definition handle ::
  "(bytes \<Rightarrow> (int \<times> 'v) res) \<Rightarrow> bytes \<Rightarrow> 'v acc_state \<Rightarrow> bytes res \<times> 'v acc_state" where
  "handle loads rfile st =
     (case read_int rfile of
        Inl e \<Rightarrow> (Inl e, st)
      | Inr (num_updates, rfile') \<Rightarrow>
          (case handle_updates loads (nat num_updates) rfile' st of
             (Inl e, st') \<Rightarrow> (Inl e, st')
           | (Inr _, st') \<Rightarrow> (struct_pack 1 1, st')))"

text \<open>
  What a task reports at its end: every registered accumulator with its value, in the order in
  which Python iterates over the registry.
\<close>

definition task_updates ::
  "((int, nat) dict \<Rightarrow> (int \<times> nat) list) \<Rightarrow> 'v acc_state \<Rightarrow> (int \<times> 'v) list" where
  "task_updates items st =
     map (\<lambda>(aid, r). (aid, acc_value (acc_objects st ! r))) (items (accumulatorRegistry st))"

section \<open>Facts about registries\<close>

text \<open>Every registered id names an object of the process, and no two name the same one.\<close>

definition registry_ok :: "'v acc_state \<Rightarrow> bool" where
  "registry_ok st \<longleftrightarrow>
     distinct (map fst (accumulatorRegistry st)) \<and> distinct (map snd (accumulatorRegistry st)) \<and>
     (\<forall>(aid, r)\<in>set (accumulatorRegistry st). r < length (acc_objects st))"

lemma registry_ok_initial [simp]: "registry_ok initial_accs"
  by (simp add: registry_ok_def initial_accs_def)

lemma registry_bound: "registry_ok st \<Longrightarrow> map_of (accumulatorRegistry st) aid = Some r \<Longrightarrow> r < length (acc_objects st)"
  by (auto simp: registry_ok_def dest!: map_of_SomeD)

lemma registry_inj:
  assumes "registry_ok st" and "map_of (accumulatorRegistry st) a = Some r"
    and "map_of (accumulatorRegistry st) b = Some r"
  shows "a = b"
proof -
  have "inj_on snd (set (accumulatorRegistry st))"
    using assms(1) by (simp add: registry_ok_def distinct_map)
  then show ?thesis
    using assms(2,3) by (auto dest!: map_of_SomeD dest: inj_onD [of _ _ "(a, r)" "(b, r)"])
qed

lemma update_object_simps [simp]:
  "accumulatorRegistry (update_object r f st) = accumulatorRegistry st"
  "next_accum_id (update_object r f st) = next_accum_id st"
  "length (acc_objects (update_object r f st)) = length (acc_objects st)"
  "r < length (acc_objects st) \<Longrightarrow>
     acc_objects (update_object r f st) ! q = (if q = r then f (acc_objects st ! r) else acc_objects st ! q)"
  by (simp_all add: update_object_def)

lemma registry_ok_update [simp]: "registry_ok (update_object r f st) \<longleftrightarrow> registry_ok st"
  by (simp add: registry_ok_def)

lemma update_same_entry: "map_of d k = Some v \<Longrightarrow> AList.update k v d = d"
  by (induction d) auto

lemma keys_ref_update:
  assumes "(a, q) \<in> set (AList.update aid r d)"
  shows "(a, q) = (aid, r) \<or> (a, q) \<in> set d"
  using assms by (induction d) (auto split: if_splits)

lemma distinct_refs_update:
  "distinct (map snd d) \<Longrightarrow> r \<notin> snd ` set d \<Longrightarrow> distinct (map snd (AList.update aid r d))"
proof (induction d)
  case (Cons p d)
  then show ?case by (cases p) (auto dest: keys_ref_update)
qed simp

lemma registry_ok_Accumulator:
  assumes "registry_ok st" and "Accumulator aid v p st = (r, st')"
  shows "registry_ok st' \<and> r < length (acc_objects st') \<and> map_of (accumulatorRegistry st') aid = Some r \<and>
    acc_objects st' ! r = \<lparr>acc_aid = aid, acc_param = p, acc_value = v, acc_deserialized = False\<rparr>"
proof -
  have "length (acc_objects st) \<notin> snd ` set (accumulatorRegistry st)"
    using assms(1) by (auto simp: registry_ok_def)
  then have "distinct (map snd (AList.update aid (length (acc_objects st)) (accumulatorRegistry st)))"
    using assms(1) by (intro distinct_refs_update) (simp_all add: registry_ok_def)
  moreover have "\<forall>(a, q)\<in>set (AList.update aid (length (acc_objects st)) (accumulatorRegistry st)).
      q < Suc (length (acc_objects st))"
  proof clarify
    fix a q assume "(a, q) \<in> set (AList.update aid (length (acc_objects st)) (accumulatorRegistry st))"
    from keys_ref_update [OF this] show "q < Suc (length (acc_objects st))"
      using assms(1) by (auto simp: registry_ok_def dest!: bspec)
  qed
  ultimately show ?thesis
    using assms by (auto simp: Accumulator_def Let_def registry_ok_def update_conv' distinct_update)
qed

section \<open>Addition that is a commutative monoid\<close>

text \<open>
  What \<open>Accumulator\<close> asks of a parameter: its \<open>addInPlace\<close> does not raise and is an associative
  and commutative addition.
\<close>

locale accumulating =
  fixes add_method :: "'v::comm_monoid_add \<Rightarrow> 'v \<Rightarrow> 'v res"
  assumes adds: "add_method a b = Inr (a + b)"
begin

definition lawful :: "'v acc_state \<Rightarrow> nat \<Rightarrow> bool" where
  "lawful st r \<longleftrightarrow> r < length (acc_objects st) \<and> addInPlace (acc_param (acc_objects st ! r)) = add_method"

definition plus_at :: "nat \<Rightarrow> 'v \<Rightarrow> 'v acc_state \<Rightarrow> 'v acc_state" where
  "plus_at r v st = update_object r (\<lambda>a. a\<lparr>acc_value := acc_value a + v\<rparr>) st"

lemma iadd_value: "lawful st r \<Longrightarrow> acc_iadd r u st = (Inr r, plus_at r u st)"
  by (simp add: lawful_def acc_iadd_def acc_add_def Let_def adds plus_at_def update_object_def)

lemma plus_at_simps [simp]:
  "accumulatorRegistry (plus_at r v st) = accumulatorRegistry st"
  "registry_ok (plus_at r v st) \<longleftrightarrow> registry_ok st"
  by (simp_all add: plus_at_def)

lemma lawful_plus_at [simp]: "lawful st r \<Longrightarrow> lawful (plus_at r v st) q \<longleftrightarrow> lawful st q"
  by (simp add: lawful_def plus_at_def)

lemma value_plus_at:
  "lawful st r \<Longrightarrow> acc_value (acc_objects (plus_at r v st) ! q) =
     acc_value (acc_objects st ! q) + (if q = r then v else 0)"
  by (simp add: lawful_def plus_at_def)

lemma add_all_total:
  "lawful st r \<Longrightarrow> \<exists>st'. add_all r ts st = (Inr (), st') \<and> lawful st' r \<and>
     accumulatorRegistry st' = accumulatorRegistry st \<and>
     acc_value (acc_objects st' ! r) = acc_value (acc_objects st ! r) + sum_list ts"
proof (induction ts arbitrary: st)
  case (Cons t ts)
  then have "lawful (plus_at r t st) r" by simp
  from Cons.IH [OF this] show ?case
    using Cons.prems by (auto simp: iadd_value value_plus_at add.assoc)
qed simp

lemma registry_iadd_value:
  "map_of (accumulatorRegistry st) aid = Some r \<Longrightarrow> lawful st r \<Longrightarrow>
     registry_iadd aid u st = (Inr (), plus_at r u st)"
  by (simp add: registry_iadd_def iadd_value update_same_entry)

text \<open>
  The server adds to each accumulator the sum of the updates for its id, and stops at the first
  id it does not know.
\<close>

lemma handle_updates_total:
  assumes "\<forall>(aid, u)\<in>set us. \<exists>r. map_of (accumulatorRegistry st) aid = Some r \<and> lawful st r"
    and "\<forall>u\<in>set us. \<exists>b. framed_write dumps u = Inr b \<and> loads (dumps u) = Inr u \<and> dumps u \<noteq> []"
    and "mapM_res (framed_write dumps) us = Inr bss"
  shows "\<exists>st'. handle_updates loads (length us + n) (concat bss @ rest) st = handle_updates loads n rest st' \<and>
     accumulatorRegistry st' = accumulatorRegistry st \<and> (\<forall>q. lawful st' q = lawful st q) \<and>
     (\<forall>q. acc_deserialized (acc_objects st' ! q) = acc_deserialized (acc_objects st ! q)) \<and>
     (registry_ok st \<longrightarrow> registry_ok st' \<and> (\<forall>aid r. map_of (accumulatorRegistry st) aid = Some r \<longrightarrow>
        acc_value (acc_objects st' ! r) = acc_value (acc_objects st ! r) + sum_list (values_of aid us)))"
  using assms
proof (induction us arbitrary: st bss)
  case (Cons x us)
  obtain aid u where x: "x = (aid, u)" by force
  obtain r where r: "map_of (accumulatorRegistry st) aid = Some r" "lawful st r"
    using Cons.prems(1) x by auto
  obtain b bss' where b: "framed_write dumps x = Inr b" "mapM_res (framed_write dumps) us = Inr bss'"
    "bss = b # bss'"
    using Cons.prems(3) by auto
  let ?st = "plus_at r u st"
  have "\<exists>st'. handle_updates loads (length us + n) (concat bss' @ rest) ?st = handle_updates loads n rest st' \<and>
     accumulatorRegistry st' = accumulatorRegistry ?st \<and> (\<forall>q. lawful st' q = lawful ?st q) \<and>
     (\<forall>q. acc_deserialized (acc_objects st' ! q) = acc_deserialized (acc_objects ?st ! q)) \<and>
     (registry_ok ?st \<longrightarrow> registry_ok st' \<and> (\<forall>aid r. map_of (accumulatorRegistry ?st) aid = Some r \<longrightarrow>
        acc_value (acc_objects st' ! r) = acc_value (acc_objects ?st ! r) + sum_list (values_of aid us)))"
    by (rule Cons.IH) (use Cons.prems b r in auto)
  then obtain st' where st': "handle_updates loads (length us + n) (concat bss' @ rest) ?st = handle_updates loads n rest st'"
    "accumulatorRegistry st' = accumulatorRegistry st" "\<And>q. lawful st' q = lawful st q"
    "\<And>q. acc_deserialized (acc_objects st' ! q) = acc_deserialized (acc_objects ?st ! q)"
    "registry_ok st \<Longrightarrow> registry_ok st'"
    "\<And>aid q. registry_ok st \<Longrightarrow> map_of (accumulatorRegistry st) aid = Some q \<Longrightarrow>
        acc_value (acc_objects st' ! q) = acc_value (acc_objects ?st ! q) + sum_list (values_of aid us)"
    using r(2) by auto
  have "framed_read loads (concat bss @ rest) = Inr (x, concat bss' @ rest)"
    using framed_read_write [of dumps x b loads "concat bss' @ rest"] Cons.prems(2) b by auto
  then have "handle_updates loads (length (x # us) + n) (concat bss @ rest) st = handle_updates loads n rest st'"
    using st'(1) r by (simp add: x registry_iadd_value)
  moreover have "acc_value (acc_objects st' ! q) = acc_value (acc_objects st ! q) + sum_list (values_of a (x # us))"
    if "registry_ok st" "map_of (accumulatorRegistry st) a = Some q" for a q
  proof (cases "a = aid")
    case True
    then have "q = r" using that(2) r(1) by simp
    then show ?thesis using st'(6) [OF that] r(2) True by (simp add: x value_plus_at add.assoc)
  next
    case False
    then have "q \<noteq> r" using registry_inj [OF that(1,2)] r(1) by blast
    then show ?thesis using st'(6) [OF that] r(2) False by (simp add: x value_plus_at)
  qed
  moreover have "acc_deserialized (acc_objects ?st ! q) = acc_deserialized (acc_objects st ! q)" for q
    using r(2) by (simp add: lawful_def plus_at_def)
  ultimately show ?case using st' by auto
qed auto

end

interpretation adding: accumulating "\<lambda>a b :: py_num. Inr (py_add a b)"
  by unfold_locales (simp add: plus_py_num_def)

text \<open>What one task reports for an accumulator of the driver it has added \<open>ts\<close> to.\<close>

definition task_report ::
  "((int, nat) dict \<Rightarrow> (int \<times> nat) list) \<Rightarrow> 'v accumulator \<Rightarrow> 'v list \<Rightarrow> (int \<times> 'v) list res" where
  "task_report items a ts =
     bind_res (accumulator_reduce a) (\<lambda>x.
       case deserialize_accumulator x initial_accs of
         (r, st) \<Rightarrow> (case add_all r ts st of (res, st') \<Rightarrow> map_res (\<lambda>_. task_updates items st') res))"

lemma task_report_value:
  assumes "acc_param a = AddingAccumulatorParam z" and "iter_order items"
  shows "task_report items a ts = Inr [(acc_aid a, z + sum_list ts)]"
proof -
  let ?a = "\<lparr>acc_aid = acc_aid a, acc_param = acc_param a, acc_value = z, acc_deserialized = True\<rparr>"
  let ?st = "\<lparr>acc_objects = [?a], accumulatorRegistry = [(acc_aid a, 0)], next_accum_id = 0\<rparr>"
  have d: "deserialize_accumulator (acc_aid a, z, acc_param a) initial_accs = (0, ?st)"
    by (simp add: deserialize_accumulator_def Accumulator_def initial_accs_def update_object_def Let_def)
  have "adding.lawful ?st 0"
    by (simp add: adding.lawful_def assms(1) AddingAccumulatorParam_def)
  from adding.add_all_total [OF this, of ts] obtain st' where
    st': "add_all 0 ts ?st = (Inr (), st')" "accumulatorRegistry st' = [(acc_aid a, 0)]"
      "acc_value (acc_objects st' ! 0) = z + sum_list ts"
    by auto
  have "mset (items [(acc_aid a, 0)]) = {#(acc_aid a, 0)#}"
    using assms(2) by simp
  then have "items [(acc_aid a, 0)] = [(acc_aid a, 0)]" by simp
  then show ?thesis
    using st' d by (simp add: task_report_def accumulator_reduce_def assms(1) AddingAccumulatorParam_def task_updates_def)
qed

lemma default_param_zero:
  "default_param v = Inr p \<Longrightarrow> \<exists>z. p = AddingAccumulatorParam z \<and> v + z = v"
  by (cases v) (auto simp: INT_ACCUMULATOR_PARAM_def FLOAT_ACCUMULATOR_PARAM_def
      COMPLEX_ACCUMULATOR_PARAM_def plus_py_num_def split: if_splits)

lemma sum_of_reports:
  fixes v :: "'v::comm_monoid_add"
  assumes "v + z = v"
  shows "v + sum_list (map (\<lambda>ts. z + sum_list ts) tss) = v + sum_list (concat tss)"
proof (induction tss)
  case (Cons ts tss)
  have "v + sum_list (map (\<lambda>ts. z + sum_list ts) (ts # tss)) =
      (v + z) + sum_list (map (\<lambda>ts. z + sum_list ts) tss) + sum_list ts"
    by (simp add: ac_simps)
  also have "\<dots> = v + sum_list (concat tss) + sum_list ts"
    by (simp add: assms Cons.IH)
  finally show ?case by (simp add: ac_simps)
qed simp

lemma ctx_accumulator_state:
  assumes "ctx_accumulator v None st0 = (Inr r, st)" and "registry_ok st0"
  shows "\<exists>z aid. registry_ok st \<and> r < length (acc_objects st) \<and> map_of (accumulatorRegistry st) aid = Some r \<and>
    v + z = v \<and> acc_objects st ! r =
      \<lparr>acc_aid = aid, acc_param = AddingAccumulatorParam z, acc_value = v, acc_deserialized = False\<rparr>"
proof -
  obtain p where p: "default_param v = Inr p"
    using assms(1) by (auto simp: ctx_accumulator_def split: sum.splits)
  obtain z where z: "p = AddingAccumulatorParam z" "v + z = v"
    using default_param_zero [OF p] by blast
  let ?st1 = "st0\<lparr>next_accum_id := next_accum_id st0 + 1\<rparr>"
  have "Accumulator (next_accum_id st0) v p ?st1 = (r, st)"
    using assms(1) by (auto simp: ctx_accumulator_def p Let_def split: prod.splits)
  moreover have "registry_ok ?st1" using assms(2) by (simp add: registry_ok_def)
  ultimately show ?thesis using registry_ok_Accumulator [of ?st1 "next_accum_id st0" v p r st] z by blast
qed

lemma handle_counted:
  assumes "n < 2 ^ 31"
  shows "handle loads (be_bytes 4 (int n) @ x) st =
    (case handle_updates loads n x st of (Inl e, st') \<Rightarrow> (Inl e, st') | (Inr _, st') \<Rightarrow> (Inr [1], st'))"
proof -
  have "write_int (int n) = Inr (be_bytes 4 (int n))"
    using assms by (simp add: write_int_range)
  moreover have "struct_pack 1 1 = Inr [1]" by (simp add: struct_pack_def)
  ultimately show ?thesis
    by (simp only: handle_def read_int_write sum.case prod.case nat_int)
qed

section \<open>Properties\<close>

text \<open>
  C7: an accumulator of a number that the driver made holds, once the update server has handled
  what the tasks report, its initial value plus every term that any task added to it, whatever
  the order in which the reports arrive; and the server acknowledges them.
\<close>

theorem task_updates_reach_driver:
  assumes "ctx_accumulator v None st0 = (Inr r, st)" and "registry_ok st0" and "iter_order items"
    and "mapM_res (task_report items (acc_objects st ! r)) tss = Inr reports"
    and "mset us = mset (concat reports)" and "length us < 2 ^ 31"
    and "\<forall>u\<in>set us. loads (dumps u) = Inr u \<and> dumps u \<noteq> [] \<and> length (dumps u) < 2 ^ 31"
  shows "\<exists>b st'. map_res concat (mapM_res (framed_write dumps) us) = Inr b \<and>
    handle loads (be_bytes 4 (int (length us)) @ b) st = (Inr [1], st') \<and>
    get_value r st' = Inr (v + sum_list (concat tss))"
proof -
  from ctx_accumulator_state [OF assms(1,2)] obtain z aid where a:
    "registry_ok st" "r < length (acc_objects st)" "map_of (accumulatorRegistry st) aid = Some r"
    "v + z = v" "acc_objects st ! r =
      \<lparr>acc_aid = aid, acc_param = AddingAccumulatorParam z, acc_value = v, acc_deserialized = False\<rparr>"
    by blast
  have "mapM_res (task_report items (acc_objects st ! r)) tss = Inr (map (\<lambda>ts. [(aid, z + sum_list ts)]) tss)"
    by (rule mapM_res_Inr) (simp add: a(5) task_report_value assms(3))
  then have reports: "concat reports = map (\<lambda>ts. (aid, z + sum_list ts)) tss"
    using assms(4) by (simp add: concat_map_singleton)
  have ids: "\<forall>(i, u)\<in>set us. i = aid"
    using mset_eq_setD [OF assms(5)] by (auto simp: reports)
  have "mset (values_of aid us) = mset (values_of aid (concat reports))"
    by (rule mset_values_of_cong) (rule assms(5))
  moreover have "values_of aid (map (\<lambda>ts. (aid, z + sum_list ts)) tss) = map (\<lambda>ts. z + sum_list ts) tss"
    by (induction tss) simp_all
  ultimately have sum: "sum_list (values_of aid us) = sum_list (map (\<lambda>ts. z + sum_list ts) tss)"
    by (metis reports sum_mset_sum_list)
  have law: "adding.lawful st r"
    using a(2,5) by (simp add: adding.lawful_def AddingAccumulatorParam_def)
  have w: "framed_write dumps u = Inr (be_bytes 4 (int (length (dumps u))) @ dumps u)" if "u \<in> set us" for u
    using assms(7) that by (intro framed_write_Inr) auto
  have "mapM_res (framed_write dumps) us = Inr (map (\<lambda>u. be_bytes 4 (int (length (dumps u))) @ dumps u) us)"
    by (rule mapM_res_Inr) (rule w)
  then obtain bss where bss: "mapM_res (framed_write dumps) us = Inr bss" by blast
  have "\<exists>st'. handle_updates loads (length us + 0) (concat bss @ []) st = handle_updates loads 0 [] st' \<and>
     accumulatorRegistry st' = accumulatorRegistry st \<and> (\<forall>q. adding.lawful st' q = adding.lawful st q) \<and>
     (\<forall>q. acc_deserialized (acc_objects st' ! q) = acc_deserialized (acc_objects st ! q)) \<and>
     (registry_ok st \<longrightarrow> registry_ok st' \<and> (\<forall>aid r. map_of (accumulatorRegistry st) aid = Some r \<longrightarrow>
        acc_value (acc_objects st' ! r) = acc_value (acc_objects st ! r) + sum_list (values_of aid us)))"
    by (rule adding.handle_updates_total [OF _ _ bss]) (use ids a(3) law w assms(7) in auto)
  then obtain st' where st': "handle_updates loads (length us) (concat bss) st = (Inr (), st')"
    "\<not> acc_deserialized (acc_objects st' ! r)"
    "acc_value (acc_objects st' ! r) = v + sum_list (values_of aid us)"
    using a by auto
  have "handle loads (be_bytes 4 (int (length us)) @ concat bss) st = (Inr [1], st')"
    using st'(1) by (simp add: handle_counted [OF assms(6)])
  then show ?thesis
    using st' bss sum_of_reports [OF a(4), of tss] by (simp add: get_value_def sum)
qed

definition sample_dumps :: "int \<times> py_num \<Rightarrow> bytes" where
  "sample_dumps u = (if snd u = PFloat 3 then [1] else if snd u = PInt 0 then [2] else [3])"

definition sample_loads :: "bytes \<Rightarrow> (int \<times> py_num) res" where
  "sample_loads b = Inr (0, if b = [1] then PFloat 3 else if b = [2] then PInt 0 else PInt 4)"

definition sample_driver :: "py_num acc_state" where
  "sample_driver =
     \<lparr>acc_objects = [\<lparr>acc_aid = 0, acc_param = INT_ACCUMULATOR_PARAM, acc_value = PInt 10, acc_deserialized = False\<rparr>],
      accumulatorRegistry = [(0, 0)], next_accum_id = 1\<rparr>"

theorem task_updates_reach_driver_witness:
  "\<exists>b st'. map_res concat (mapM_res (framed_write sample_dumps) [(0, PInt 4), (0, PFloat 3), (0, PInt 0)]) = Inr b \<and>
    handle sample_loads (be_bytes 4 (int (length [(0 :: int, PInt 4), (0, PFloat 3), (0, PInt 0)])) @ b) sample_driver =
      (Inr [1], st') \<and>
    get_value 0 st' = Inr (PInt 10 + sum_list (concat [[PInt 1, PFloat 2], [], [PInt 4]]))"
proof (rule task_updates_reach_driver [where items = "\<lambda>d. d" and ?st0.0 = initial_accs and
      reports = "[[(0, PFloat 3)], [(0, PInt 0)], [(0, PInt 4)]]"])
  show "ctx_accumulator (PInt 10) None initial_accs = (Inr 0, sample_driver)"
    by (simp add: ctx_accumulator_def Accumulator_def initial_accs_def sample_driver_def is_int_def)
  show "mapM_res (task_report (\<lambda>d. d) (acc_objects sample_driver ! 0)) [[PInt 1, PFloat 2], [], [PInt 4]] =
      Inr [[(0, PFloat 3)], [(0, PInt 0)], [(0, PInt 4)]]"
    by (simp add: sample_driver_def task_report_def accumulator_reduce_def INT_ACCUMULATOR_PARAM_def
        AddingAccumulatorParam_def deserialize_accumulator_def Accumulator_def initial_accs_def
        update_object_def acc_iadd_def acc_add_def task_updates_def Let_def)
qed (simp_all add: iter_order_def sample_dumps_def sample_loads_def)

text \<open>
  An update for an id the driver does not know ends the connection with \<open>KeyError\<close> and
  without an acknowledgement; the updates before it have been applied, those after it are lost.
\<close>

theorem unknown_accumulator_stops_handler:
  fixes st :: "py_num acc_state"
  assumes "registry_ok st" and "\<forall>(a, r)\<in>set (accumulatorRegistry st). \<exists>z. acc_param (acc_objects st ! r) = AddingAccumulatorParam z"
    and "fst ` set us \<subseteq> fst ` set (accumulatorRegistry st)" and "aid \<notin> fst ` set (accumulatorRegistry st)"
    and "\<forall>x\<in>set (us @ (aid, u) # vs). loads (dumps x) = Inr x \<and> dumps x \<noteq> [] \<and> length (dumps x) < 2 ^ 31"
    and "length (us @ (aid, u) # vs) < 2 ^ 31"
  shows "\<exists>b st'. map_res concat (mapM_res (framed_write dumps) (us @ (aid, u) # vs)) = Inr b \<and>
    handle loads (be_bytes 4 (int (length (us @ (aid, u) # vs))) @ b) st = (Inl KeyError, st') \<and>
    (\<forall>i r. map_of (accumulatorRegistry st) i = Some r \<longrightarrow>
       acc_value (acc_objects st' ! r) = acc_value (acc_objects st ! r) + sum_list (values_of i us))"
proof -
  let ?f = "\<lambda>x. be_bytes 4 (int (length (dumps x))) @ dumps x"
  have w: "framed_write dumps x = Inr (?f x)" if "x \<in> set (us @ (aid, u) # vs)" for x
    using assms(5) that by (intro framed_write_Inr) blast
  have all: "mapM_res (framed_write dumps) (us @ (aid, u) # vs) = Inr (map ?f (us @ (aid, u) # vs))"
    by (rule mapM_res_Inr) (rule w)
  have us: "mapM_res (framed_write dumps) us = Inr (map ?f us)"
    by (rule mapM_res_Inr) (simp add: w)
  let ?rest = "?f (aid, u) @ concat (map ?f vs)"
  have law: "\<forall>(i, x)\<in>set us. \<exists>r. map_of (accumulatorRegistry st) i = Some r \<and> adding.lawful st r"
  proof clarify
    fix i x assume "(i, x) \<in> set us"
    then have "i \<in> fst ` set (accumulatorRegistry st)" using assms(3) by force
    then obtain r where r: "map_of (accumulatorRegistry st) i = Some r"
      by (metis map_of_eq_None_iff not_None_eq)
    with assms(2) have "\<exists>z. acc_param (acc_objects st ! r) = AddingAccumulatorParam z"
      by (auto dest!: map_of_SomeD)
    then show "\<exists>r. map_of (accumulatorRegistry st) i = Some r \<and> adding.lawful st r"
      using r registry_bound [OF assms(1) r] by (auto simp: adding.lawful_def AddingAccumulatorParam_def)
  qed
  have "\<exists>st'. handle_updates loads (length us + Suc (length vs)) (concat (map ?f us) @ ?rest) st =
        handle_updates loads (Suc (length vs)) ?rest st' \<and>
     accumulatorRegistry st' = accumulatorRegistry st \<and> (\<forall>q. adding.lawful st' q = adding.lawful st q) \<and>
     (\<forall>q. acc_deserialized (acc_objects st' ! q) = acc_deserialized (acc_objects st ! q)) \<and>
     (registry_ok st \<longrightarrow> registry_ok st' \<and> (\<forall>aid r. map_of (accumulatorRegistry st) aid = Some r \<longrightarrow>
        acc_value (acc_objects st' ! r) = acc_value (acc_objects st ! r) + sum_list (values_of aid us)))"
    by (rule adding.handle_updates_total [OF law _ us]) (use w assms(5) in auto)
  then obtain st' where st': "handle_updates loads (length us + Suc (length vs)) (concat (map ?f us) @ ?rest) st =
        handle_updates loads (Suc (length vs)) ?rest st'"
    "accumulatorRegistry st' = accumulatorRegistry st"
    "\<forall>aid r. map_of (accumulatorRegistry st) aid = Some r \<longrightarrow>
        acc_value (acc_objects st' ! r) = acc_value (acc_objects st ! r) + sum_list (values_of aid us)"
    using assms(1) by blast
  have "map_of (accumulatorRegistry st') aid = None"
    using assms(4) st'(2) by (simp add: map_of_eq_None_iff)
  moreover have "framed_read loads ?rest = Inr ((aid, u), concat (map ?f vs))"
    using framed_read_write [of dumps "(aid, u)" "?f (aid, u)" loads] w assms(5) by simp
  ultimately have "handle_updates loads (Suc (length vs)) ?rest st' = (Inl KeyError, st')"
    by (simp add: registry_iadd_def)
  then have "handle_updates loads (length (us @ (aid, u) # vs)) (concat (map ?f (us @ (aid, u) # vs))) st = (Inl KeyError, st')"
    using st'(1) by simp
  then have "handle loads (be_bytes 4 (int (length (us @ (aid, u) # vs))) @ concat (map ?f (us @ (aid, u) # vs))) st =
      (Inl KeyError, st')"
    unfolding handle_counted [OF assms(6)] by simp
  then show ?thesis using all st'(3) by auto
qed

theorem unknown_accumulator_stops_handler_witness:
  "\<exists>b st'. map_res concat (mapM_res (framed_write sample_dumps) ([] @ (1, PInt 4) # [])) = Inr b \<and>
    handle (\<lambda>b. Inr (1, PInt 4)) (be_bytes 4 (int (length ([] @ (1 :: int, PInt 4) # []))) @ b) sample_driver = (Inl KeyError, st') \<and>
    (\<forall>i r. map_of (accumulatorRegistry sample_driver) i = Some r \<longrightarrow>
       acc_value (acc_objects st' ! r) = acc_value (acc_objects sample_driver ! r) + sum_list (values_of i []))"
  by (rule unknown_accumulator_stops_handler)
    (auto simp: registry_ok_def sample_driver_def sample_dumps_def INT_ACCUMULATOR_PARAM_def)

end
