(* ===== verification/Worker.thy ===== *)
theory Worker
  imports Accumulators
begin

text \<open>
  \<open>pyspark/worker.py\<close> with the parts of \<open>pyspark/broadcast.py\<close> and \<open>pyspark/files.py\<close> that run in
  a task: what the worker reads from its socket, how it runs the command, and every byte it
  writes back. Unpickling, the text codec and the traceback printer are arguments. A Python
  generator is the list of what it yields with the exception that ends it, if any.
\<close>

type_synonym 'a gen = "'a list \<times> py_error option"

section \<open>Broadcast variables and files\<close>

record 'b broadcast =
  bc_value :: 'b
  bc_bid :: int
  bc_has_pickle_registry :: bool

definition Broadcast :: "int \<Rightarrow> 'b \<Rightarrow> bool \<Rightarrow> 'b broadcast" where
  "Broadcast bid v pickle_registry =
     \<lparr>bc_value = v, bc_bid = bid, bc_has_pickle_registry = pickle_registry\<rparr>"

text \<open>
  Pickling stores the id alone and notes the object in the registry of the driver; the objects of
  a worker have no registry, and \<open>None.add\<close> raises.
\<close>

definition broadcast_reduce :: "'b broadcast \<Rightarrow> 'b broadcast list \<Rightarrow> (int \<times> 'b broadcast list) res" where
  "broadcast_reduce b pickled =
     (if bc_has_pickle_registry b then Inr (bc_bid b, List.insert b pickled)
      else Inl (PyException ''AttributeError''))"

definition from_id :: "(int, 'b broadcast) dict \<Rightarrow> int \<Rightarrow> 'b broadcast res" where
  "from_id broadcastRegistry bid =
     (case map_of broadcastRegistry bid of
        None \<Rightarrow> Inl (PyException ''Broadcast variable not loaded!'')
      | Some b \<Rightarrow> Inr b)"

text \<open>\<open>os.path.join\<close> of two POSIX paths.\<close>

definition path_join :: "string \<Rightarrow> string \<Rightarrow> string" where
  "path_join a b =
     (if b \<noteq> [] \<and> hd b = CHR ''/'' then b
      else if a = [] \<or> last a = CHR ''/'' then a @ b
      else a @ ''/'' @ b)"

record ('v, 'b) worker_state =
  root_directory :: "string option"
  is_running_on_worker :: bool
  sys_path :: "string list"
  broadcastRegistry :: "(int, 'b broadcast) dict"
  accs :: "'v acc_state"

text \<open>The directory of the added files; in the driver the JVM is asked.\<close>

definition getRootDirectory :: "string \<Rightarrow> ('v, 'b) worker_state \<Rightarrow> string option" where
  "getRootDirectory jvm_root st = (if is_running_on_worker st then root_directory st else Some jvm_root)"

definition initial_worker :: "string list \<Rightarrow> ('v, 'b) worker_state" where
  "initial_worker path =
     \<lparr>root_directory = None, is_running_on_worker = False, sys_path = path,
      broadcastRegistry = [], accs = initial_accs\<rparr>"

section \<open>Writing\<close>

text \<open>Successive writes to a stream: the first that raises leaves what was written before it.\<close>

fun writes :: "bytes res list \<Rightarrow> bytes \<times> py_error option" where
  "writes [] = ([], None)"
| "writes (Inl e # ws) = ([], Some e)"
| "writes (Inr b # ws) = (case writes ws of (out, e) \<Rightarrow> (b @ out, e))"

definition END_OF_DATA_SECTION :: int where "END_OF_DATA_SECTION = - 1"
definition PYTHON_EXCEPTION_THROWN :: int where "PYTHON_EXCEPTION_THROWN = - 2"
definition TIMING_DATA :: int where "TIMING_DATA = - 3"

text \<open>The times are milliseconds.\<close>

definition report_times :: "int \<Rightarrow> int \<Rightarrow> int \<Rightarrow> bytes res list" where
  "report_times boot init finish =
     [write_int TIMING_DATA, write_long boot, write_long init, write_long finish]"

text \<open>\<open>dump_stream\<close> on a generator that may raise: a batch that is being filled is lost.\<close>

fun framed_dump_gen :: "('c \<Rightarrow> bytes) \<Rightarrow> 'c gen \<Rightarrow> bytes \<times> py_error option" where
  "framed_dump_gen dumps (xs, e) =
     (case writes (map (framed_write dumps) xs) of
        (out, Some e') \<Rightarrow> (out, Some e')
      | (out, None) \<Rightarrow> (out, e))"

fun batched_gen :: "int \<Rightarrow> 'c gen \<Rightarrow> 'c list gen" where
  "batched_gen batchSize (xs, None) = (batched batchSize xs, None)"
| "batched_gen batchSize (xs, Some e) =
     (if batchSize = UNLIMITED_BATCH_SIZE then ([], Some e)
      else (filter (\<lambda>b. int (length b) = batchSize) (batched batchSize xs), Some e))"

section \<open>The worker\<close>

record ('v, 'a, 'c) command =
  cmd_func :: "int \<Rightarrow> 'a gen \<Rightarrow> 'v acc_state \<Rightarrow> 'c gen \<times> 'v acc_state"
  cmd_load_stream :: "bytes \<Rightarrow> 'a gen"
  cmd_dump_stream :: "'c gen \<Rightarrow> bytes \<times> py_error option"

text \<open>
  Unpickling the command rebuilds accumulators and looks broadcast variables up, so it reads
  and changes the state of the worker.
\<close>

record ('v, 'b, 'a, 'c) worker_env =
  decode :: "bytes \<Rightarrow> string res"
  load_value :: "bytes \<Rightarrow> 'b res"
  load_command :: "bytes \<Rightarrow> ('v, 'b) worker_state \<Rightarrow> (('v, 'a, 'c) command \<times> ('v, 'b) worker_state) res"
  dump_update :: "int \<times> 'v \<Rightarrow> bytes"
  registry_items :: "(int, nat) dict \<Rightarrow> (int \<times> nat) list"
  format_exc :: "py_error \<Rightarrow> bytes"

fun read_includes ::
  "(bytes \<Rightarrow> string res) \<Rightarrow> string \<Rightarrow> nat \<Rightarrow> bytes \<Rightarrow> string list \<Rightarrow> (string list \<times> bytes) res" where
  "read_includes dec dir 0 s path = Inr (path, s)"
| "read_includes dec dir (Suc n) s path =
     bind_res (utf8_loads dec s) (\<lambda>(filename, s').
       read_includes dec dir n s' (path @ [path_join dir filename]))"

fun read_broadcasts ::
  "(bytes \<Rightarrow> 'b res) \<Rightarrow> nat \<Rightarrow> bytes \<Rightarrow> (int, 'b broadcast) dict \<Rightarrow> ((int, 'b broadcast) dict \<times> bytes) res" where
  "read_broadcasts loads 0 s reg = Inr (reg, s)"
| "read_broadcasts loads (Suc n) s reg =
     bind_res (read_long s) (\<lambda>(bid, s1).
       bind_res (framed_read loads s1) (\<lambda>(v, s2).
         read_broadcasts loads n s2 (AList.update bid (Broadcast bid v False) reg)))"

text \<open>What \<open>main\<close> reads between the split index and the data.\<close>

definition read_setup ::
  "('v, 'b, 'a, 'c) worker_env \<Rightarrow> bytes \<Rightarrow> ('v, 'b) worker_state \<Rightarrow>
     (('v, 'a, 'c) command \<times> ('v, 'b) worker_state \<times> bytes) res" where
  "read_setup env s st =
     bind_res (utf8_loads (decode env) s) (\<lambda>(spark_files_dir, s1).
       let st1 = st\<lparr>root_directory := Some spark_files_dir, is_running_on_worker := True,
                    sys_path := sys_path st @ [spark_files_dir]\<rparr>
       in bind_res (read_int s1) (\<lambda>(num_python_includes, s2).
          bind_res (read_includes (decode env) spark_files_dir (nat num_python_includes) s2 (sys_path st1)) (\<lambda>(path, s3).
          bind_res (read_int s3) (\<lambda>(num_broadcast_variables, s4).
          bind_res (read_broadcasts (load_value env) (nat num_broadcast_variables) s4 (broadcastRegistry st1)) (\<lambda>(reg, s5).
          let st2 = st1\<lparr>sys_path := path, broadcastRegistry := reg\<rparr>
          in map_res (\<lambda>((cmd, st3), s6). (cmd, st3, s6))
               (framed_read (\<lambda>b. load_command env b st2) s5))))))"

text \<open>
  The \<open>except Exception\<close> clause; \<open>SystemExit\<close> is not an \<open>Exception\<close> and leaves \<open>main\<close> as it is.
\<close>

fun worker_failed :: "('v, 'b, 'a, 'c) worker_env \<Rightarrow> bytes \<Rightarrow> py_error \<Rightarrow> unit res \<times> bytes" where
  "worker_failed env out (SystemExit c) = (Inl (SystemExit c), out)"
| "worker_failed env out e =
     (case writes [write_int PYTHON_EXCEPTION_THROWN, write_with_length (format_exc env e)] of
        (b, Some e') \<Rightarrow> (Inl e', out @ b)
      | (b, None) \<Rightarrow> (Inl (SystemExit (- 1)), out @ b))"

definition worker_epilogue ::
  "('v, 'b, 'a, 'c) worker_env \<Rightarrow> int \<times> int \<times> int \<Rightarrow> 'v acc_state \<Rightarrow> bytes res list" where
  "worker_epilogue env = (\<lambda>(boot, init, finish) st.
     report_times boot init finish @
     [write_int END_OF_DATA_SECTION, write_int (int (length (accumulatorRegistry st)))] @
     map (framed_write (dump_update env)) (task_updates (registry_items env) st))"

definition worker_main ::
  "('v, 'b, 'a, 'c) worker_env \<Rightarrow> int \<times> int \<times> int \<Rightarrow> bytes \<Rightarrow> ('v, 'b) worker_state \<Rightarrow> unit res \<times> bytes" where
  "worker_main env clock infile st =
     (case read_int infile of
        Inl e \<Rightarrow> worker_failed env [] e
      | Inr (split_index, s1) \<Rightarrow>
          if split_index = - 1 then (Inr (), [])
          else
            (case read_setup env s1 st of
               Inl e \<Rightarrow> worker_failed env [] e
             | Inr (cmd, st1, s2) \<Rightarrow>
                 (case cmd_func cmd split_index (cmd_load_stream cmd s2) (accs st1) of
                    (it, accs') \<Rightarrow>
                      (case cmd_dump_stream cmd it of
                         (out, Some e) \<Rightarrow> worker_failed env out e
                       | (out, None) \<Rightarrow>
                           (case writes (worker_epilogue env clock accs') of
                              (b, Some e) \<Rightarrow> (Inl e, out @ b)
                            | (b, None) \<Rightarrow> (Inr (), out @ b))))))"

section \<open>The other end of the socket\<close>

text \<open>
  The format a reader of the worker's output relies on: data frames, each preceded by its
  length, up to a negative number that names the section that follows.
\<close>

datatype reply =
    Reply "bytes list" "int \<times> int \<times> int" "bytes list"
  | Raised "bytes list" bytes
  | Broken "bytes list"

definition read_frame :: "bytes \<Rightarrow> (bytes \<times> bytes) res" where
  "read_frame s = bind_res (read_int s) (\<lambda>(n, s').
     if 0 \<le> n \<and> nat n \<le> length s' then Inr (take (nat n) s', drop (nat n) s') else Inl EOFError)"

fun read_frames :: "nat \<Rightarrow> bytes \<Rightarrow> (bytes list \<times> bytes) res" where
  "read_frames 0 s = Inr ([], s)"
| "read_frames (Suc n) s =
     bind_res (read_frame s) (\<lambda>(f, s'). map_res (\<lambda>(fs, s''). (f # fs, s'')) (read_frames n s'))"

lemma read_frame_length: "read_frame s = Inr (f, s') \<Longrightarrow> length s' < length s"
  by (auto simp: read_frame_def dest!: read_int_length split: if_splits)

function data_frames :: "bytes \<Rightarrow> bytes list \<times> bytes" where
  "data_frames s =
     (case read_frame s of
        Inl e \<Rightarrow> ([], s)
      | Inr (f, s') \<Rightarrow> (case data_frames s' of (fs, r) \<Rightarrow> (f # fs, r)))"
  by pat_completeness auto
termination
  by (relation "measure length") (auto dest: read_frame_length)

declare data_frames.simps [simp del]

definition read_timed :: "bytes \<Rightarrow> ((int \<times> int \<times> int) \<times> bytes list) res" where
  "read_timed s =
     bind_res (read_long s) (\<lambda>(boot, s1).
     bind_res (read_long s1) (\<lambda>(init, s2).
     bind_res (read_long s2) (\<lambda>(finish, s3).
     bind_res (read_int s3) (\<lambda>(m, s4).
     bind_res (read_int s4) (\<lambda>(n, s5).
       if m = END_OF_DATA_SECTION
       then map_res (\<lambda>(us, _). ((boot, init, finish), us)) (read_frames (nat n) s5)
       else Inl ValueError)))))"

definition read_reply :: "bytes \<Rightarrow> reply" where
  "read_reply s =
     (case data_frames s of
        (fs, r) \<Rightarrow>
          (case read_int r of
             Inl e \<Rightarrow> Broken fs
           | Inr (m, r') \<Rightarrow>
               if m = TIMING_DATA
               then (case read_timed r' of Inl e \<Rightarrow> Broken fs | Inr (t, us) \<Rightarrow> Reply fs t us)
               else if m = PYTHON_EXCEPTION_THROWN
               then (case read_frame r' of Inl e \<Rightarrow> Broken fs | Inr (tb, _) \<Rightarrow> Raised fs tb)
               else Broken fs))"

lemma read_int_be [simp]: "- (2 ^ 31) \<le> x \<Longrightarrow> x < 2 ^ 31 \<Longrightarrow> read_int (be_bytes 4 x @ rest) = Inr (x, rest)"
  by (rule read_int_write) (simp add: write_int_range)

lemma read_long_be [simp]: "- (2 ^ 63) \<le> x \<Longrightarrow> x < 2 ^ 63 \<Longrightarrow> read_long (be_bytes 8 x @ rest) = Inr (x, rest)"
  by (rule read_long_write) (simp add: write_long_def struct_pack_def)

lemma write_int_be: "- (2 ^ 31) \<le> x \<Longrightarrow> x < 2 ^ 31 \<Longrightarrow> write_int x = Inr (be_bytes 4 x)"
  by (simp add: write_int_range)

lemma write_long_be: "- (2 ^ 63) \<le> x \<Longrightarrow> x < 2 ^ 63 \<Longrightarrow> write_long x = Inr (be_bytes 8 x)"
  by (simp add: write_long_def struct_pack_def)

lemma read_frame_frame [simp]:
  "length b < 2 ^ 31 \<Longrightarrow> read_frame (frame_bytes b @ rest) = Inr (b, rest)"
  by (simp add: read_frame_def frame_bytes_def)

lemma read_frames_frames:
  "\<forall>b\<in>set bs. length b < 2 ^ 31 \<Longrightarrow>
     read_frames (length bs) (concat (map frame_bytes bs) @ rest) = Inr (bs, rest)"
  by (induction bs) simp_all

lemma data_frames_frames:
  assumes "\<forall>b\<in>set bs. length b < 2 ^ 31" and "\<exists>e. read_frame rest = Inl e"
  shows "data_frames (concat (map frame_bytes bs) @ rest) = (bs, rest)"
  using assms(1)
proof (induction bs)
  case Nil
  show ?case using assms(2) by (subst data_frames.simps) auto
next
  case (Cons b bs)
  then show ?case by (subst data_frames.simps) simp
qed

lemma read_frame_negative:
  "- (2 ^ 31) \<le> m \<Longrightarrow> m < 0 \<Longrightarrow> read_frame (be_bytes 4 m @ rest) = Inl EOFError"
  by (simp add: read_frame_def)

lemma writes_append:
  "writes (map Inr bs @ ws) = (case writes ws of (out, e) \<Rightarrow> (concat bs @ out, e))"
  by (induction bs) (simp_all split: prod.splits)

lemma writes_map_Inr: "(\<And>x. x \<in> set xs \<Longrightarrow> f x = Inr (g x)) \<Longrightarrow> writes (map f xs) = (concat (map g xs), None)"
proof -
  assume "\<And>x. x \<in> set xs \<Longrightarrow> f x = Inr (g x)"
  then have e: "map f xs = map Inr (map g xs) @ []" by simp
  show ?thesis unfolding e writes_append by simp
qed

lemma framed_write_frame:
  "length (dumps x) < 2 ^ 31 \<Longrightarrow> framed_write dumps x = Inr (frame_bytes (dumps x))"
  by (simp add: framed_write_Inr frame_bytes_def)

lemma framed_dump_gen_frames:
  "\<forall>x\<in>set xs. length (dumps x) < 2 ^ 31 \<Longrightarrow>
     framed_dump_gen dumps (xs, e) = (concat (map frame_bytes (map dumps xs)), e)"
  using writes_map_Inr [of xs "framed_write dumps" "\<lambda>x. frame_bytes (dumps x)"]
  by (simp add: framed_write_frame comp_def)

lemma concat_Inr_writes: "writes (Inr b # ws) = (b @ fst (writes ws), snd (writes ws))"
  by (simp split: prod.splits)

section \<open>What the driver's side sends\<close>

text \<open>The setup as the reads of \<open>main\<close> expect it, with texts and values as the codecs encode them.\<close>

definition setup_bytes :: "bytes \<Rightarrow> bytes list \<Rightarrow> (int \<times> bytes) list \<Rightarrow> bytes \<Rightarrow> bytes" where
  "setup_bytes dir incs bcs cmd =
     frame_bytes dir @
     be_bytes 4 (int (length incs)) @ concat (map frame_bytes incs) @
     be_bytes 4 (int (length bcs)) @ concat (map (\<lambda>(bid, v). be_bytes 8 bid @ frame_bytes v) bcs) @
     frame_bytes cmd"

lemma read_includes_frames:
  assumes "list_all2 (\<lambda>b n. length b < 2 ^ 31 \<and> dec b = Inr n) incs names"
  shows "read_includes dec dir (length incs) (concat (map frame_bytes incs) @ rest) path =
    Inr (path @ map (path_join dir) names, rest)"
  using assms
  by (induction incs names arbitrary: path rule: list_all2_induct) (simp_all add: utf8_loads_frame)

definition load_broadcasts ::
  "(int \<times> 'b) list \<Rightarrow> (int, 'b broadcast) dict \<Rightarrow> (int, 'b broadcast) dict" where
  "load_broadcasts = fold (\<lambda>(bid, v). AList.update bid (Broadcast bid v False))"

lemma read_broadcasts_frames:
  assumes "list_all2 (\<lambda>(bid, b) (bid', v). bid' = bid \<and> - (2 ^ 63) \<le> bid \<and> bid < 2 ^ 63 \<and>
      b \<noteq> [] \<and> length b < 2 ^ 31 \<and> loads b = Inr v) bcs bvs"
  shows "read_broadcasts loads (length bcs)
      (concat (map (\<lambda>(bid, v). be_bytes 8 bid @ frame_bytes v) bcs) @ rest) reg =
    Inr (load_broadcasts bvs reg, rest)"
  using assms
proof (induction bcs bvs arbitrary: reg rule: list_all2_induct)
  case Nil
  then show ?case by (simp add: load_broadcasts_def)
next
  case (Cons x xs y ys)
  then show ?case
    by (cases x; cases y) (simp add: framed_read_frame_bytes load_broadcasts_def)
qed

text \<open>An environment to run: a command that passes its input on and adds 5 to an accumulator.\<close>

definition counting_command :: "(py_num, bytes, bytes) command" where
  "counting_command =
     \<lparr>cmd_func = (\<lambda>i it a. (it, snd (acc_add 0 (PInt 5) a))),
      cmd_load_stream = framed_load_stream noop_loads, cmd_dump_stream = framed_dump_gen noop_dumps\<rparr>"

definition failing_command :: "(py_num, bytes, bytes) command" where
  "failing_command = counting_command\<lparr>cmd_func := (\<lambda>i it a. (([[7, 8]], Some ZeroDivisionError), a))\<rparr>"

definition example_env :: "(py_num, bytes, bytes, bytes) worker_env" where
  "example_env =
     \<lparr>decode = (\<lambda>b. Inr (map (\<lambda>w. if w = 47 then CHR ''/'' else CHR ''a'') b)),
      load_value = (\<lambda>b. Inr b),
      load_command = (\<lambda>b st. Inr (if b = [1] then counting_command else failing_command,
        st\<lparr>accs := snd (deserialize_accumulator (0, PInt 0, INT_ACCUMULATOR_PARAM) (accs st))\<rparr>)),
      dump_update = (\<lambda>u. [9]), registry_items = (\<lambda>d. d), format_exc = (\<lambda>e. [84])\<rparr>"

definition task_accs :: "py_num \<Rightarrow> py_num acc_state" where
  "task_accs v =
     \<lparr>acc_objects = [\<lparr>acc_aid = 0, acc_param = INT_ACCUMULATOR_PARAM, acc_value = v, acc_deserialized = True\<rparr>],
      accumulatorRegistry = [(0, 0)], next_accum_id = 0\<rparr>"

definition task_state :: "string list \<Rightarrow> (int, bytes broadcast) dict \<Rightarrow> (py_num, bytes) worker_state" where
  "task_state path reg =
     \<lparr>root_directory = Some ''/a'', is_running_on_worker = True, sys_path = path,
      broadcastRegistry = reg, accs = task_accs (PInt 0)\<rparr>"

lemma example_accs: "snd (deserialize_accumulator (0, PInt 0, INT_ACCUMULATOR_PARAM) initial_accs) = task_accs (PInt 0)"
  by (simp add: deserialize_accumulator_def Accumulator_def initial_accs_def update_object_def Let_def task_accs_def)

lemma example_load:
  "load_command example_env b (initial_worker p\<lparr>root_directory := Some ''/a'', is_running_on_worker := True,
      sys_path := path, broadcastRegistry := reg\<rparr>) =
    Inr (if b = [1] then counting_command else failing_command, task_state path reg)"
  by (simp add: example_env_def initial_worker_def example_accs task_state_def)

lemma example_setup:
  "read_setup example_env (setup_bytes [47, 97] [] [] [b] @ data) (initial_worker []) =
    Inr (if b = 1 then counting_command else failing_command, task_state [''/a''] [], data)"
proof -
  have "load_command example_env [b] (initial_worker []\<lparr>root_directory := Some ''/a'', is_running_on_worker := True,
      sys_path := [''/a''], broadcastRegistry := []\<rparr>) =
    Inr (if b = 1 then counting_command else failing_command, task_state [''/a''] [])"
    by (simp add: example_load)
  then show ?thesis
    by (simp add: read_setup_def setup_bytes_def utf8_loads_frame framed_read_frame_bytes Let_def
        example_env_def initial_worker_def)
qed

text \<open>
  The output of a task whose function and serializer end normally: the frames of the data, then
  the times, then the accumulators.
\<close>

lemma worker_main_reply:
  assumes "read_int infile = Inr (split, s1)" and "split \<noteq> - 1" and "read_setup env s1 st = Inr (cmd, st1, s2)"
    and "cmd_func cmd split (cmd_load_stream cmd s2) (accs st1) = (it, acc')"
    and "cmd_dump_stream cmd it = (concat (map frame_bytes fs), None)"
    and "\<forall>f\<in>set fs. length f < 2 ^ 31"
    and "iter_order (registry_items env)" and "length (accumulatorRegistry acc') < 2 ^ 31"
    and "\<forall>u\<in>set (task_updates (registry_items env) acc'). length (dump_update env u) < 2 ^ 31"
    and "\<forall>t\<in>{boot, init, finish}. - (2 ^ 63) \<le> t \<and> t < 2 ^ 63"
  shows "\<exists>out. worker_main env (boot, init, finish) infile st = (Inr (), out) \<and>
    read_reply out = Reply fs (boot, init, finish)
      (map (dump_update env) (task_updates (registry_items env) acc'))"
proof -
  let ?us = "task_updates (registry_items env) acc'"
  let ?fs = "map (dump_update env) ?us"
  have len: "length (accumulatorRegistry acc') = length ?us"
    using assms(7) mset_eq_length [of "registry_items env (accumulatorRegistry acc')" "accumulatorRegistry acc'"]
    by (simp add: task_updates_def)
  let ?tail = "be_bytes 4 TIMING_DATA @ be_bytes 8 boot @ be_bytes 8 init @ be_bytes 8 finish @
    be_bytes 4 END_OF_DATA_SECTION @ be_bytes 4 (int (length ?us)) @ concat (map frame_bytes ?fs)"
  have "writes (map (framed_write (dump_update env)) ?us) = (concat (map frame_bytes ?fs), None)"
    using writes_map_Inr [of ?us "framed_write (dump_update env)" "\<lambda>u. frame_bytes (dump_update env u)"] assms(9)
    by (simp add: framed_write_frame comp_def)
  moreover have "write_int TIMING_DATA = Inr (be_bytes 4 TIMING_DATA)"
    "write_int END_OF_DATA_SECTION = Inr (be_bytes 4 END_OF_DATA_SECTION)"
    "write_int (int (length (accumulatorRegistry acc'))) = Inr (be_bytes 4 (int (length ?us)))"
    using assms(8) by (simp_all add: write_int_range TIMING_DATA_def END_OF_DATA_SECTION_def len)
  moreover have "write_long t = Inr (be_bytes 8 t)" if "t \<in> {boot, init, finish}" for t
    by (rule write_long_be) (use assms(10) that in blast)+
  ultimately have "writes (worker_epilogue env (boot, init, finish) acc') = (?tail, None)"
    by (simp add: worker_epilogue_def report_times_def)
  then have main: "worker_main env (boot, init, finish) infile st =
      (Inr (), concat (map frame_bytes fs) @ ?tail)"
    using assms(1-5) by (simp add: worker_main_def)
  have "data_frames (concat (map frame_bytes fs) @ ?tail) = (fs, ?tail)"
    by (rule data_frames_frames) (use assms(6) in \<open>auto simp: read_frame_negative TIMING_DATA_def\<close>)
  moreover have "read_frames (length ?fs) (concat (map frame_bytes ?fs) @ []) = Inr (?fs, [])"
    by (rule read_frames_frames) (use assms(9) in simp)
  ultimately have "read_reply (concat (map frame_bytes fs) @ ?tail) = Reply fs (boot, init, finish) ?fs"
    using assms(8,10) by (simp add: read_reply_def read_timed_def TIMING_DATA_def END_OF_DATA_SECTION_def len)
  with main show ?thesis by blast
qed

text \<open>The output of a task whose function or serializer raises after some frames of data.\<close>

lemma worker_main_raises:
  assumes "read_int infile = Inr (split, s1)" and "split \<noteq> - 1" and "read_setup env s1 st = Inr (cmd, st1, s2)"
    and "cmd_func cmd split (cmd_load_stream cmd s2) (accs st1) = (it, acc')"
    and "cmd_dump_stream cmd it = (concat (map frame_bytes fs), Some e)"
    and "\<forall>f\<in>set fs. length f < 2 ^ 31" and "length (format_exc env e) < 2 ^ 31"
  shows "\<exists>r out. worker_main env clock infile st = (Inl r, out) \<and>
    (case e of SystemExit c \<Rightarrow> r = SystemExit c \<and> out = concat (map frame_bytes fs) \<and> read_reply out = Broken fs
     | _ \<Rightarrow> r = SystemExit (- 1) \<and> read_reply out = Raised fs (format_exc env e))"
proof -
  let ?out = "concat (map frame_bytes fs)"
  let ?tail = "be_bytes 4 PYTHON_EXCEPTION_THROWN @ frame_bytes (format_exc env e)"
  have m: "worker_main env clock infile st = worker_failed env ?out e"
    using assms(1-5) by (simp add: worker_main_def)
  have w: "writes [write_int PYTHON_EXCEPTION_THROWN, write_with_length (format_exc env e)] = (?tail, None)"
    using assms(7) by (simp add: write_with_length_def write_int_be PYTHON_EXCEPTION_THROWN_def frame_bytes_def)
  have d: "data_frames (?out @ ?tail) = (fs, ?tail)"
    by (rule data_frames_frames) (use assms(6) in \<open>auto simp: read_frame_negative PYTHON_EXCEPTION_THROWN_def\<close>)
  have raised: "read_reply (?out @ ?tail) = Raised fs (format_exc env e)"
    using d read_frame_frame [of "format_exc env e" "[]"] assms(7)
    by (simp add: read_reply_def PYTHON_EXCEPTION_THROWN_def TIMING_DATA_def)
  have r0: "read_int [] = Inl EOFError" by (simp add: read_int_def read_num_def stream_read_def)
  have "data_frames (?out @ []) = (fs, [])"
    by (rule data_frames_frames) (use assms(6) in \<open>auto simp: read_frame_def r0\<close>)
  then have broken: "read_reply ?out = Broken fs"
    by (simp add: read_reply_def r0)
  show ?thesis
    using m w raised broken by (cases e) simp_all
qed

lemma read_setup_bytes:
  assumes "length dir < 2 ^ 31" and "decode env dir = Inr d"
    and "length incs < 2 ^ 31" and "list_all2 (\<lambda>b n. length b < 2 ^ 31 \<and> decode env b = Inr n) incs names"
    and "length bcs < 2 ^ 31" and "list_all2 (\<lambda>(bid, b) (bid', v). bid' = bid \<and> - (2 ^ 63) \<le> bid \<and> bid < 2 ^ 63 \<and>
        b \<noteq> [] \<and> length b < 2 ^ 31 \<and> load_value env b = Inr v) bcs bvs"
    and "cmdb \<noteq> []" and "length cmdb < 2 ^ 31"
    and "load_command env cmdb (st\<lparr>root_directory := Some d, is_running_on_worker := True,
        sys_path := sys_path st @ d # map (path_join d) names,
        broadcastRegistry := load_broadcasts bvs (broadcastRegistry st)\<rparr>) = Inr (cmd, st')"
  shows "read_setup env (setup_bytes dir incs bcs cmdb @ data) st = Inr (cmd, st', data)"
  using assms
  by (simp add: read_setup_def setup_bytes_def utf8_loads_frame read_includes_frames
      read_broadcasts_frames framed_read_frame_bytes Let_def)

section \<open>Properties\<close>

text \<open>
  C27: the worker reads back exactly the setup that was sent: the directory of the added files
  joins the module path, followed by the included archives inside it, every broadcast variable
  is registered under its id when the command is unpickled, and the data is left for the
  command's deserializer.
\<close>

theorem worker_reads_its_setup:
  assumes "length dir < 2 ^ 31" and "decode env dir = Inr d"
    and "length incs < 2 ^ 31" and "list_all2 (\<lambda>b n. length b < 2 ^ 31 \<and> decode env b = Inr n) incs names"
    and "length bcs < 2 ^ 31" and "list_all2 (\<lambda>(bid, b) (bid', v). bid' = bid \<and> - (2 ^ 63) \<le> bid \<and> bid < 2 ^ 63 \<and>
        b \<noteq> [] \<and> length b < 2 ^ 31 \<and> load_value env b = Inr v) bcs bvs"
    and "cmdb \<noteq> []" and "length cmdb < 2 ^ 31"
    and "load_command env cmdb (st\<lparr>root_directory := Some d, is_running_on_worker := True,
        sys_path := sys_path st @ d # map (path_join d) names,
        broadcastRegistry := load_broadcasts bvs (broadcastRegistry st)\<rparr>) = Inr (cmd, st')"
  shows "read_setup env (setup_bytes dir incs bcs cmdb @ data) st = Inr (cmd, st', data)"
  by (rule read_setup_bytes [OF assms])

theorem worker_reads_its_setup_witness:
  "read_setup example_env (setup_bytes [47, 97] [[97]] [(3, [5, 6])] [1] @ [0, 0]) (initial_worker [''lib'']) =
    Inr (counting_command, task_state [''lib'', ''/a'', ''/a/a''] [(3, Broadcast 3 [5, 6] False)], [0, 0])"
  by (rule worker_reads_its_setup [where d = "''/a''" and names = "[''a'']" and bvs = "[(3, [5, 6])]"])
    (simp_all add: example_load path_join_def load_broadcasts_def initial_worker_def [of "[''lib'']"],
     simp_all add: example_env_def example_accs task_state_def)

text \<open>
  C8: a task that ends normally writes its results, its times and the values of its accumulators
  in the format the reader relies on.
\<close>

theorem worker_reply_complete:
  assumes "read_int infile = Inr (split, s1)" and "split \<noteq> - 1" and "read_setup env s1 st = Inr (cmd, st1, s2)"
    and "cmd_func cmd split (cmd_load_stream cmd s2) (accs st1) = ((ys, None), acc')"
    and "cmd_dump_stream cmd = framed_dump_gen dumps"
    and "\<forall>y\<in>set ys. length (dumps y) < 2 ^ 31"
    and "iter_order (registry_items env)" and "length (accumulatorRegistry acc') < 2 ^ 31"
    and "\<forall>u\<in>set (task_updates (registry_items env) acc'). length (dump_update env u) < 2 ^ 31"
    and "\<forall>t\<in>{boot, init, finish}. - (2 ^ 63) \<le> t \<and> t < 2 ^ 63"
  shows "\<exists>out. worker_main env (boot, init, finish) infile st = (Inr (), out) \<and>
    read_reply out = Reply (map dumps ys) (boot, init, finish)
      (map (dump_update env) (task_updates (registry_items env) acc'))"
proof (rule worker_main_reply [OF assms(1-4)])
  show "cmd_dump_stream cmd (ys, None) = (concat (map frame_bytes (map dumps ys)), None)"
    using framed_dump_gen_frames [OF assms(6), of None] assms(5) by simp
qed (use assms(6-) in auto)

theorem worker_reply_complete_witness:
  "\<exists>out. worker_main example_env (10, 20, 30)
      (be_bytes 4 2 @ setup_bytes [47, 97] [] [] [1] @ frame_bytes [7, 8]) (initial_worker []) = (Inr (), out) \<and>
    read_reply out = Reply (map noop_dumps [[7, 8]]) (10, 20, 30)
      (map (dump_update example_env) (task_updates (registry_items example_env) (task_accs (PInt 5))))"
proof (rule worker_reply_complete [OF _ _ example_setup [of 1 "frame_bytes [7, 8]"]])
  have "framed_load_stream noop_loads (frame_bytes [7, 8] @ []) = ([[7, 8]], None)"
    by (simp add: framed_load_stream_Inr framed_read_frame_bytes noop_loads_def del: append_Nil2)
  then show "cmd_func (if (1 :: byte) = 1 then counting_command else failing_command) 2
      (cmd_load_stream (if (1 :: byte) = 1 then counting_command else failing_command) (frame_bytes [7, 8]))
      (accs (task_state [''/a''] [])) = (([[7, 8]], None), task_accs (PInt 5))"
    by (simp add: counting_command_def task_state_def task_accs_def acc_add_def update_object_def
        INT_ACCUMULATOR_PARAM_def AddingAccumulatorParam_def)
qed (simp_all add: counting_command_def noop_dumps_def example_env_def iter_order_def task_accs_def task_updates_def)

end
