(* ===== verification/Daemon.thy ===== *)
theory Daemon
  imports Prelude
begin

text \<open>
  \<open>pyspark/daemon.py\<close>: the manager process, its pool of workers, and the child that a worker forks
  for each client. Each event is one step of one process between two points at which another
  process or a signal can be observed; a run is a list of events.
\<close>

section \<open>Processes\<close>

text \<open>
  Where a pool worker is: starting up (its signal handlers are not installed), at the outer loop
  test, at the inner loop test, about to call \<open>accept\<close>, blocked in it, with a client before the
  fork, after the fork with its copy of the socket still open, gone normally, gone because an
  exception left \<open>worker\<close>, or killed by a signal.
\<close>

datatype worker_pc =
    WStart
  | WOuter
  | WInner
  | WCall
  | WBlocked
  | WGot nat
  | WParent nat
  | WDone
  | WCrashed
  | WKilled

text \<open>
  A signal that arrives between the decision to call \<open>accept\<close> and the call itself is noted by the
  interpreter, but its Python handler does not run before the call returns.
\<close>

record pool_worker =
  wk_pc :: worker_pc
  wk_tripped :: bool

text \<open>The child of a worker: with the worker's SIGHUP handler still, serving, ended, or killed.\<close>

datatype task_pc = TLeaving | TServing | TEnded int | TKilled

record task =
  tk_client :: nat
  tk_parent :: nat
  tk_pc :: task_pc
  tk_reaped :: bool

datatype manager_pc = Launching | Reading | MExited bool | MKilled

record daemon =
  exit_flag :: bool
  manager :: manager_pc
  pool :: "pool_worker list"
  tasks :: "task list"
  backlog :: "nat list"

definition initial_daemon :: daemon where
  "initial_daemon = \<lparr>exit_flag = False, manager = Launching, pool = [], tasks = [], backlog = []\<rparr>"

text \<open>The code of a \<open>SystemExit\<close>.\<close>

datatype exit_code = CodeInt int | CodeOther

fun compute_real_exit_code :: "exit_code \<Rightarrow> int" where
  "compute_real_exit_code (CodeInt n) = n"
| "compute_real_exit_code CodeOther = 1"

section \<open>Signals\<close>

text \<open>
  SIGHUP at a worker: killed while it has no handler; otherwise \<open>handle_sighup\<close> asserts that the
  exit flag is set. In \<open>accept\<close> the call is interrupted with EINTR and the inner loop goes on.
\<close>

definition hup_worker :: "bool \<Rightarrow> pool_worker \<Rightarrow> pool_worker" where
  "hup_worker flag w =
     (case wk_pc w of
        WStart \<Rightarrow> w\<lparr>wk_pc := WKilled\<rparr>
      | WCall \<Rightarrow> w\<lparr>wk_tripped := True\<rparr>
      | WBlocked \<Rightarrow> w\<lparr>wk_pc := (if flag then WInner else WCrashed)\<rparr>
      | WDone \<Rightarrow> w
      | WCrashed \<Rightarrow> w
      | WKilled \<Rightarrow> w
      | _ \<Rightarrow> if flag then w else w\<lparr>wk_pc := WCrashed\<rparr>)"

text \<open>At a child: the inherited handler, then the default action.\<close>

definition hup_task :: "bool \<Rightarrow> task \<Rightarrow> task" where
  "hup_task flag t =
     (case tk_pc t of
        TLeaving \<Rightarrow> if flag then t else t\<lparr>tk_pc := TEnded 1\<rparr>
      | TServing \<Rightarrow> t\<lparr>tk_pc := TKilled\<rparr>
      | _ \<Rightarrow> t)"

definition hup_group :: "daemon \<Rightarrow> daemon" where
  "hup_group d = d\<lparr>pool := map (hup_worker (exit_flag d)) (pool d), tasks := map (hup_task (exit_flag d)) (tasks d)\<rparr>"

text \<open>SIGCHLD at a worker: its handler reaps the child, and a blocked \<open>accept\<close> is interrupted.\<close>

definition chld_worker :: "pool_worker \<Rightarrow> pool_worker" where
  "chld_worker w = (if wk_pc w = WBlocked then w\<lparr>wk_pc := WInner\<rparr> else w)"

section \<open>The manager\<close>

text \<open>The \<open>finally\<close> clause of \<open>manager\<close>: the flag is set before the process group is signalled.\<close>

definition manager_finally :: "bool \<Rightarrow> daemon \<Rightarrow> daemon" where
  "manager_finally raised d = hup_group (d\<lparr>exit_flag := True, manager := MExited raised\<rparr>)"

datatype manager_event =
    LaunchWorker
  | InitDone
  | ReadStdin bool
  | ReadFails
  | SigTerm
  | SigChld nat
  | LeaveLoop

text \<open>
  \<open>ReadStdin True\<close> is the read that returns the empty string, \<open>ReadFails\<close> one that raises anything
  but EINTR. \<open>SigChld i\<close> is the handler when
  \<open>waitpid\<close> returns worker \<open>i\<close>, which has exited.
\<close>

fun manager_step :: "nat \<Rightarrow> manager_event \<Rightarrow> daemon \<Rightarrow> daemon option" where
  "manager_step POOLSIZE LaunchWorker d =
     (if manager d = Launching \<and> length (pool d) < POOLSIZE
      then Some (d\<lparr>pool := pool d @ [\<lparr>wk_pc = WStart, wk_tripped = False\<rparr>]\<rparr>) else None)"
| "manager_step POOLSIZE InitDone d =
     (if manager d = Launching \<and> \<not> length (pool d) < POOLSIZE then Some (d\<lparr>manager := Reading\<rparr>) else None)"
| "manager_step POOLSIZE (ReadStdin eof) d =
     (if manager d = Reading \<and> \<not> exit_flag d
      then Some (if eof then d\<lparr>exit_flag := True\<rparr> else d) else None)"
| "manager_step POOLSIZE ReadFails d =
     (if manager d = Reading \<and> \<not> exit_flag d
      then Some (manager_finally True (d\<lparr>exit_flag := True\<rparr>)) else None)"
| "manager_step POOLSIZE SigTerm d =
     (case manager d of
        Launching \<Rightarrow> Some (d\<lparr>manager := MKilled\<rparr>)
      | Reading \<Rightarrow> Some (d\<lparr>exit_flag := True\<rparr>)
      | _ \<Rightarrow> None)"
| "manager_step POOLSIZE (SigChld i) d =
     (if manager d = Reading \<and> i < length (pool d) \<and> wk_pc (pool d ! i) \<in> {WDone, WCrashed, WKilled}
      then Some (if wk_pc (pool d ! i) \<noteq> WDone \<and> \<not> exit_flag d then manager_finally True d else d)
      else None)"
| "manager_step POOLSIZE LeaveLoop d =
     (if manager d = Reading \<and> exit_flag d then Some (manager_finally False d) else None)"

section \<open>The workers\<close>

definition set_pc :: "nat \<Rightarrow> worker_pc \<Rightarrow> daemon \<Rightarrow> daemon" where
  "set_pc i pc d = d\<lparr>pool := (pool d)[i := (pool d ! i)\<lparr>wk_pc := pc\<rparr>]\<rparr>"

text \<open>
  One step of worker \<open>i\<close>. \<open>accept\<close> returns a client of the backlog, or fails with an error other
  than EINTR, which leaves \<open>worker\<close>; a signal noted before the call is handled when it returns.
\<close>

datatype worker_event = Go | AcceptFails

definition worker_step :: "nat \<Rightarrow> worker_event \<Rightarrow> daemon \<Rightarrow> daemon option" where
  "worker_step i ev d =
     (if \<not> i < length (pool d) then None
      else case wk_pc (pool d ! i) of
        WStart \<Rightarrow> Some (set_pc i WOuter d)
      | WOuter \<Rightarrow> Some (set_pc i (if exit_flag d then WDone else WInner) d)
      | WInner \<Rightarrow> Some (set_pc i (if exit_flag d then WOuter else WCall) d)
      | WCall \<Rightarrow> Some (set_pc i WBlocked d)
      | WBlocked \<Rightarrow>
          if ev = AcceptFails then Some (set_pc i WCrashed d)
          else (case backlog d of
                  [] \<Rightarrow> None
                | c # cs \<Rightarrow>
                    let d' = d\<lparr>backlog := cs, pool := (pool d)[i := (pool d ! i)\<lparr>wk_tripped := False\<rparr>]\<rparr>
                    in Some (set_pc i (if wk_tripped (pool d ! i) \<and> \<not> exit_flag d then WCrashed else WGot c) d'))
      | WGot c \<Rightarrow>
          Some (set_pc i (WParent c) (d\<lparr>tasks := tasks d @ [\<lparr>tk_client = c, tk_parent = i, tk_pc = TLeaving, tk_reaped = False\<rparr>]\<rparr>))
      | WParent c \<Rightarrow> Some (set_pc i WOuter d)
      | WDone \<Rightarrow> None
      | WCrashed \<Rightarrow> None
      | WKilled \<Rightarrow> None)"

text \<open>
  One step of a child: it leaves the pool, it ends with the code \<open>worker_main\<close> exited with, or it
  is gone and its parent receives SIGCHLD.
\<close>

definition task_step :: "nat \<Rightarrow> exit_code \<Rightarrow> daemon \<Rightarrow> daemon option" where
  "task_step j code d =
     (if \<not> j < length (tasks d) then None
      else let t = tasks d ! j; p = tk_parent t
      in case tk_pc t of
           TLeaving \<Rightarrow> Some (d\<lparr>tasks := (tasks d)[j := t\<lparr>tk_pc := TServing\<rparr>]\<rparr>)
         | TServing \<Rightarrow> Some (d\<lparr>tasks := (tasks d)[j := t\<lparr>tk_pc := TEnded (compute_real_exit_code code)\<rparr>]\<rparr>)
         | _ \<Rightarrow>
             if tk_reaped t then None
             else Some (d\<lparr>tasks := (tasks d)[j := t\<lparr>tk_reaped := True\<rparr>],
                          pool := (pool d)[p := chld_worker (pool d ! p)]\<rparr>))"

section \<open>Runs\<close>

text \<open>\<open>OutsideHup\<close> is a SIGHUP to the process group from outside, which a manager in its loop ignores.\<close>

datatype event =
    Connect nat
  | Mgr manager_event
  | Wk nat worker_event
  | Tk nat exit_code
  | OutsideHup

fun daemon_step :: "nat \<Rightarrow> event \<Rightarrow> daemon \<Rightarrow> daemon option" where
  "daemon_step POOLSIZE (Connect c) d = Some (d\<lparr>backlog := backlog d @ [c]\<rparr>)"
| "daemon_step POOLSIZE (Mgr e) d = manager_step POOLSIZE e d"
| "daemon_step POOLSIZE (Wk i e) d = worker_step i e d"
| "daemon_step POOLSIZE (Tk j code) d = task_step j code d"
| "daemon_step POOLSIZE OutsideHup d =
     Some (hup_group (if manager d = Launching then d\<lparr>manager := MKilled\<rparr> else d))"

inductive run :: "nat \<Rightarrow> daemon \<Rightarrow> event list \<Rightarrow> daemon \<Rightarrow> bool" for n where
  run_Nil: "run n d [] d"
| run_snoc: "run n d evs d' \<Longrightarrow> daemon_step n ev d' = Some d'' \<Longrightarrow> run n d (evs @ [ev]) d''"

inductive_cases run_NilE: "run n d [] d'"

section \<open>What a run keeps\<close>

lemma run_induct_from [consumes 1, case_names Nil snoc]:
  assumes "run n d evs d'" and "P [] d"
    and "\<And>evs ev d1 d2. run n d evs d1 \<Longrightarrow> P evs d1 \<Longrightarrow> daemon_step n ev d1 = Some d2 \<Longrightarrow> P (evs @ [ev]) d2"
  shows "P evs d'"
  using assms by (induction rule: run.induct) auto

lemma run_append: "run n d' evs' d'' \<Longrightarrow> run n d evs d' \<Longrightarrow> run n d (evs @ evs') d''"
proof (induction rule: run.induct)
  case (run_snoc d' evs' d2 ev d3)
  then show ?case using run.run_snoc [of n d "evs @ evs'" d2 ev d3] by simp
qed simp

text \<open>The client a worker holds and has not handed to a child yet.\<close>

fun held :: "worker_pc \<Rightarrow> nat multiset" where
  "held (WGot c) = {#c#}"
| "held _ = {#}"

definition clients :: "daemon \<Rightarrow> nat multiset" where
  "clients d = mset (backlog d) + sum_list (map (held \<circ> wk_pc) (pool d)) + mset (map tk_client (tasks d))"

fun connected :: "event \<Rightarrow> nat multiset" where
  "connected (Connect c) = {#c#}"
| "connected _ = {#}"

fun internal :: "event \<Rightarrow> bool" where
  "internal (Wk i ev) \<longleftrightarrow> ev \<noteq> AcceptFails"
| "internal OutsideHup \<longleftrightarrow> False"
| "internal _ \<longleftrightarrow> True"

definition worker_ok :: "bool \<Rightarrow> pool_worker \<Rightarrow> bool" where
  "worker_ok flag w \<longleftrightarrow> wk_pc w \<noteq> WCrashed \<and> (wk_tripped w \<or> wk_pc w = WDone \<or> wk_pc w = WKilled \<longrightarrow> flag)"

definition daemon_ok :: "nat \<Rightarrow> daemon \<Rightarrow> bool" where
  "daemon_ok n d \<longleftrightarrow> length (pool d) \<le> n \<and> (\<forall>w\<in>set (pool d). worker_ok (exit_flag d) w) \<and>
     (\<forall>r. manager d = MExited r \<longrightarrow> exit_flag d)"

lemma sum_held_update:
  "i < length ws \<Longrightarrow>
     sum_list (map (held \<circ> wk_pc) (ws[i := w])) + held (wk_pc (ws ! i)) =
     sum_list (map (held \<circ> wk_pc) ws) + held (wk_pc w)"
  by (subst (3) id_take_nth_drop [of i ws]) (simp_all add: upd_conv_take_nth_drop)

lemma worker_ok_hup: "worker_ok True w \<Longrightarrow> worker_ok True (hup_worker True w)"
  by (auto simp: worker_ok_def hup_worker_def split: worker_pc.splits)

lemma held_hup: "wk_pc w \<noteq> WCrashed \<Longrightarrow> held (wk_pc (hup_worker True w)) = held (wk_pc w)"
  by (auto simp: hup_worker_def split: worker_pc.splits)

lemma tk_client_hup [simp]: "tk_client (hup_task flag t) = tk_client t"
  by (auto simp: hup_task_def split: task_pc.splits)

lemma worker_ok_mono: "worker_ok flag w \<Longrightarrow> worker_ok True w"
  by (auto simp: worker_ok_def)

lemma finally_ok:
  assumes "daemon_ok n d"
  shows "daemon_ok n (manager_finally r d) \<and> clients (manager_finally r d) = clients d"
proof -
  have ok: "\<forall>w\<in>set (pool d). worker_ok True w"
    using assms by (auto simp: daemon_ok_def dest: worker_ok_mono)
  have "map (\<lambda>w. held (wk_pc (hup_worker True w))) (pool d) = map (\<lambda>w. held (wk_pc w)) (pool d)"
    using ok by (auto simp: held_hup worker_ok_def)
  then have "(\<Sum>w\<leftarrow>pool d. held (wk_pc (hup_worker True w))) = (\<Sum>w\<leftarrow>pool d. held (wk_pc w))"
    by (rule arg_cong)
  then show ?thesis
    using assms ok
    by (auto simp: manager_finally_def hup_group_def daemon_ok_def clients_def worker_ok_hup comp_def)
qed

lemma finally_flag [simp]: "exit_flag (manager_finally r d) = True" "backlog (manager_finally r d) = backlog d"
  by (simp_all add: manager_finally_def hup_group_def)

lemma manager_step_ok:
  assumes "daemon_ok n d" and "manager_step n ev d = Some d'"
  shows "daemon_ok n d' \<and> clients d' = clients d"
proof -
  have fl: "daemon_ok n (d\<lparr>exit_flag := True\<rparr>)" "clients (d\<lparr>exit_flag := True\<rparr>) = clients d"
    using assms(1) by (auto simp: daemon_ok_def clients_def dest: worker_ok_mono)
  show ?thesis
  proof (cases ev)
    case LaunchWorker
    then show ?thesis using assms by (auto simp: daemon_ok_def clients_def worker_ok_def split: if_splits)
  next
    case InitDone
    then show ?thesis using assms by (auto simp: daemon_ok_def clients_def split: if_splits)
  next
    case (ReadStdin eof)
    then show ?thesis using assms fl by (auto split: if_splits)
  next
    case ReadFails
    then show ?thesis using assms finally_ok [OF fl(1)] fl by (auto split: if_splits)
  next
    case SigTerm
    then show ?thesis using assms fl
      by (auto simp: daemon_ok_def clients_def split: manager_pc.splits)
  next
    case (SigChld i)
    then show ?thesis using assms finally_ok [OF assms(1)] by (auto split: if_splits)
  next
    case LeaveLoop
    then show ?thesis using assms finally_ok [OF assms(1)] by (auto split: if_splits)
  qed
qed

lemma set_pc_ok:
  assumes "daemon_ok n d" and "i < length (pool d)"
    and "worker_ok (exit_flag d) (pool d ! i) \<Longrightarrow> worker_ok (exit_flag d) ((pool d ! i)\<lparr>wk_pc := pc\<rparr>)"
  shows "daemon_ok n (set_pc i pc d) \<and>
    clients (set_pc i pc d) + held (wk_pc (pool d ! i)) = clients d + held pc"
proof -
  have "\<forall>w\<in>set ((pool d)[i := (pool d ! i)\<lparr>wk_pc := pc\<rparr>]). worker_ok (exit_flag d) w"
    using assms by (auto simp: daemon_ok_def dest: set_update_subset_insert [THEN subsetD])
  then show ?thesis
    using assms sum_held_update [OF assms(2), of "(pool d ! i)\<lparr>wk_pc := pc\<rparr>"]
    by (auto simp: set_pc_def daemon_ok_def clients_def ac_simps)
qed

lemma worker_step_ok:
  assumes "daemon_ok n d" and "ev \<noteq> AcceptFails" and "worker_step i ev d = Some d'"
  shows "daemon_ok n d' \<and> clients d' = clients d"
proof -
  have i: "i < length (pool d)"
    using assms(3) by (auto simp: worker_step_def split: if_splits)
  let ?w = "pool d ! i"
  note step = set_pc_ok [OF assms(1) i]
  show ?thesis
  proof (cases "wk_pc ?w")
    case WBlocked
    then obtain c cs where b: "backlog d = c # cs"
      using assms by (auto simp: worker_step_def split: if_splits list.splits)
    let ?d = "d\<lparr>backlog := cs, pool := (pool d)[i := ?w\<lparr>wk_tripped := False\<rparr>]\<rparr>"
    have w: "worker_ok (exit_flag d) ?w"
      using assms(1) i by (auto simp: daemon_ok_def)
    then have d': "d' = set_pc i (WGot c) ?d"
      using assms i WBlocked b by (auto simp: worker_step_def worker_ok_def Let_def split: if_splits)
    have "\<forall>v\<in>set (pool ?d). worker_ok (exit_flag d) v"
      using assms(1) w by (auto simp: daemon_ok_def worker_ok_def dest!: set_update_subset_insert [THEN subsetD])
    then have ok: "daemon_ok n ?d" using assms(1) by (auto simp: daemon_ok_def)
    have "add_mset c (clients ?d) = clients d"
      using sum_held_update [OF i, of "?w\<lparr>wk_tripped := False\<rparr>"] by (simp add: clients_def b)
    moreover have "daemon_ok n d' \<and> clients d' + held (wk_pc (pool ?d ! i)) = clients ?d + held (WGot c)"
      unfolding d' by (rule set_pc_ok [OF ok]) (use i w WBlocked in \<open>auto simp: worker_ok_def\<close>)
    ultimately show ?thesis using i WBlocked by simp
  next
    case (WGot c)
    let ?d = "d\<lparr>tasks := tasks d @ [\<lparr>tk_client = c, tk_parent = i, tk_pc = TLeaving, tk_reaped = False\<rparr>]\<rparr>"
    have d': "d' = set_pc i (WParent c) ?d"
      using assms(3) i WGot by (simp add: worker_step_def)
    have "daemon_ok n ?d" using assms(1) by (simp add: daemon_ok_def)
    then have "daemon_ok n d' \<and> clients d' + held (wk_pc (pool ?d ! i)) = clients ?d + held (WParent c)"
      unfolding d' by (rule set_pc_ok) (use i WGot in \<open>auto simp: worker_ok_def\<close>)
    then show ?thesis using WGot by (simp add: clients_def)
  next
    case WOuter
    then show ?thesis using assms(3) i step [of WDone] step [of WInner]
      by (auto simp: worker_step_def worker_ok_def split: if_splits)
  next
    case WInner
    then show ?thesis using assms(3) i step [of WCall] step [of WOuter]
      by (auto simp: worker_step_def worker_ok_def split: if_splits)
  qed (use assms(3) i step [of WOuter] step [of WBlocked] in
      \<open>auto simp: worker_step_def worker_ok_def split: if_splits\<close>)
qed

lemma task_step_ok:
  assumes "daemon_ok n d" and "task_step j code d = Some d'"
  shows "daemon_ok n d' \<and> clients d' = clients d"
proof -
  have j: "j < length (tasks d)"
    using assms(2) by (auto simp: task_step_def split: if_splits)
  have cl: "image_mset tk_client (mset ((tasks d)[j := t])) = image_mset tk_client (mset (tasks d))"
    if "tk_client t = tk_client (tasks d ! j)" for t
  proof -
    have "map tk_client ((tasks d)[j := t]) = map tk_client (tasks d)"
      using that j by (simp add: map_update list_update_same_conv)
    then have "mset (map tk_client ((tasks d)[j := t])) = mset (map tk_client (tasks d))" by simp
    then show ?thesis by (simp only: mset_map)
  qed
  let ?p = "tk_parent (tasks d ! j)"
  have "sum_list (map (held \<circ> wk_pc) ((pool d)[?p := chld_worker (pool d ! ?p)])) = sum_list (map (held \<circ> wk_pc) (pool d))"
  proof (cases "?p < length (pool d)")
    case True
    then show ?thesis
      using sum_held_update [of ?p "pool d" "chld_worker (pool d ! ?p)"] by (auto simp: chld_worker_def split: if_splits)
  qed (simp add: list_update_beyond)
  moreover have "\<forall>w\<in>set ((pool d)[?p := chld_worker (pool d ! ?p)]). worker_ok (exit_flag d) w"
  proof (cases "?p < length (pool d)")
    case True
    then have "worker_ok (exit_flag d) (pool d ! ?p)" using assms(1) by (simp add: daemon_ok_def)
    then have "worker_ok (exit_flag d) (chld_worker (pool d ! ?p))" by (auto simp: worker_ok_def chld_worker_def)
    then show ?thesis using assms(1)
      by (auto simp: daemon_ok_def dest!: set_update_subset_insert [THEN subsetD])
  qed (use assms(1) in \<open>simp add: daemon_ok_def list_update_beyond\<close>)
  ultimately show ?thesis
    using assms j
    by (auto simp: task_step_def daemon_ok_def clients_def cl Let_def split: task_pc.splits if_splits)
qed

lemma daemon_step_ok:
  assumes "daemon_ok n d" and "internal ev" and "daemon_step n ev d = Some d'"
  shows "daemon_ok n d' \<and> clients d' = clients d + connected ev"
proof (cases ev)
  case (Connect c)
  then show ?thesis using assms by (auto simp: daemon_ok_def clients_def)
next
  case (Mgr e)
  then show ?thesis using assms manager_step_ok [OF assms(1)] by auto
next
  case (Wk i e)
  then show ?thesis using assms worker_step_ok [OF assms(1)] by auto
next
  case (Tk j code)
  then show ?thesis using assms task_step_ok [OF assms(1)] by auto
qed (use assms in simp)

section \<open>Shutting down\<close>

text \<open>How many steps a worker can still take once the flag is set, and how many clients it takes.\<close>

fun rank :: "worker_pc \<Rightarrow> nat" where
  "rank WStart = 2"
| "rank WOuter = 1"
| "rank WInner = 2"
| "rank WCall = 5"
| "rank WBlocked = 4"
| "rank (WGot c) = 3"
| "rank (WParent c) = 2"
| "rank WDone = 0"
| "rank WCrashed = 0"
| "rank WKilled = 0"

definition may_serve :: "worker_pc \<Rightarrow> nat" where
  "may_serve pc = (if 3 \<le> rank pc then 1 else 0)"

definition children :: "nat \<Rightarrow> daemon \<Rightarrow> nat" where
  "children i d = length (filter (\<lambda>t. tk_parent t = i) (tasks d))"

fun steps_of :: "nat \<Rightarrow> event \<Rightarrow> nat" where
  "steps_of i (Wk j ev) = (if j = i then 1 else 0)"
| "steps_of i _ = 0"

lemma rank_hup: "rank (wk_pc (hup_worker True w)) \<le> rank (wk_pc w)"
  by (auto simp: hup_worker_def split: worker_pc.splits)

lemma rank_chld: "rank (wk_pc (chld_worker w)) \<le> rank (wk_pc w)"
  by (simp add: chld_worker_def)

lemma may_serve_mono: "rank pc \<le> rank pc' \<Longrightarrow> may_serve pc \<le> may_serve pc'"
  by (simp add: may_serve_def)

lemma parent_hup: "(\<lambda>t. tk_parent t = i) \<circ> hup_task flag = (\<lambda>t. tk_parent t = i)"
  by (rule ext) (auto simp: hup_task_def split: task_pc.splits)

lemma filter_task_update:
  assumes "j < length ts" and "tk_parent t = tk_parent (ts ! j)"
  shows "length (filter (\<lambda>t. tk_parent t = i) (ts[j := t])) = length (filter (\<lambda>t. tk_parent t = i) ts)"
proof -
  have "length (filter (\<lambda>t. tk_parent t = i) ts) =
      length (filter (\<lambda>t. tk_parent t = i) (take j ts @ ts ! j # drop (Suc j) ts))"
    using id_take_nth_drop [OF assms(1)] by simp
  then show ?thesis using assms by (simp add: upd_conv_take_nth_drop)
qed

lemma nth_chld: "i < length ws \<Longrightarrow> ws[p := chld_worker (ws ! p)] ! i = (if p = i then chld_worker (ws ! i) else ws ! i)"
  by (cases "p = i") simp_all

definition shrinks :: "nat \<Rightarrow> nat \<Rightarrow> daemon \<Rightarrow> daemon \<Rightarrow> bool" where
  "shrinks i k d d' \<longleftrightarrow> exit_flag d' \<and> length (pool d) \<le> length (pool d') \<and>
     k + rank (wk_pc (pool d' ! i)) \<le> rank (wk_pc (pool d ! i)) \<and>
     children i d' + may_serve (wk_pc (pool d' ! i)) \<le> children i d + may_serve (wk_pc (pool d ! i))"

lemma hup_shrinks:
  assumes "exit_flag d" and "i < length (pool d)"
  shows "shrinks i 0 d (hup_group (d\<lparr>manager := m\<rparr>))"
  using assms rank_hup [of "pool d ! i"] may_serve_mono [OF rank_hup [of "pool d ! i"]]
  by (simp add: shrinks_def hup_group_def children_def filter_map parent_hup)

lemma finally_shrinks:
  assumes "exit_flag d" and "i < length (pool d)"
  shows "shrinks i 0 d (manager_finally r d)"
proof -
  have "d\<lparr>exit_flag := True, manager := MExited r\<rparr> = d\<lparr>manager := MExited r\<rparr>"
    using assms(1) by (cases d) simp
  then show ?thesis
    using hup_shrinks [OF assms, of "MExited r"] by (simp add: manager_finally_def)
qed

lemma manager_step_shrinks:
  assumes "exit_flag d" and "i < length (pool d)" and "manager_step n ev d = Some d'"
  shows "shrinks i 0 d d'"
  using assms finally_shrinks [OF assms(1,2)]
  by (cases ev) (auto simp: shrinks_def children_def nth_append split: if_splits manager_pc.splits)

lemma worker_step_shrinks:
  assumes "exit_flag d" and "i < length (pool d)" and "worker_step j ev d = Some d'"
  shows "shrinks i (if j = i then 1 else 0) d d'"
  using assms
  by (cases "wk_pc (pool d ! j)")
    (auto simp: worker_step_def shrinks_def set_pc_def children_def may_serve_def nth_list_update Let_def
      split: if_splits list.splits)

lemma task_step_shrinks:
  assumes "exit_flag d" and "i < length (pool d)" and "task_step j code d = Some d'"
  shows "shrinks i 0 d d'"
proof -
  have j: "j < length (tasks d)"
    using assms(3) by (auto simp: task_step_def split: if_splits)
  have "wk_pc (pool d' ! i) = wk_pc (pool d ! i) \<or> wk_pc (pool d' ! i) = wk_pc (chld_worker (pool d ! i))"
    using assms j by (auto simp: task_step_def Let_def nth_chld split: task_pc.splits if_splits)
  then have "rank (wk_pc (pool d' ! i)) \<le> rank (wk_pc (pool d ! i))"
    using rank_chld [of "pool d ! i"] by auto
  moreover have "children i d' = children i d"
    using assms(3) j by (auto simp: task_step_def children_def Let_def filter_task_update split: task_pc.splits if_splits)
  ultimately show ?thesis
    using assms j may_serve_mono
    by (auto simp: shrinks_def task_step_def Let_def split: task_pc.splits if_splits)
qed

lemma daemon_step_shrinks:
  assumes "exit_flag d" and "i < length (pool d)" and "daemon_step n ev d = Some d'"
  shows "shrinks i (steps_of i ev) d d'"
proof (cases ev)
  case (Connect c)
  then show ?thesis using assms by (auto simp: shrinks_def children_def)
next
  case (Mgr e)
  then show ?thesis using assms manager_step_shrinks [OF assms(1,2)] by simp
next
  case (Wk j e)
  then show ?thesis using assms worker_step_shrinks [OF assms(1,2)] by simp
next
  case (Tk j code)
  then show ?thesis using assms task_step_shrinks [OF assms(1,2)] by simp
next
  case OutsideHup
  then show ?thesis using assms hup_shrinks [OF assms(1,2), of MKilled] hup_shrinks [OF assms(1,2), of "manager d"]
    by (auto split: if_splits)
qed

text \<open>A worker that nothing but a new client can wake.\<close>

definition stuck :: "nat \<Rightarrow> daemon \<Rightarrow> bool" where
  "stuck i d \<longleftrightarrow> i < length (pool d) \<and> wk_pc (pool d ! i) = WBlocked \<and> backlog d = [] \<and> exit_flag d \<and>
     (\<exists>r. manager d = MExited r) \<and> (\<forall>t\<in>set (tasks d). tk_parent t = i \<longrightarrow> tk_reaped t)"

fun no_wakeup :: "event \<Rightarrow> bool" where
  "no_wakeup (Connect c) \<longleftrightarrow> False"
| "no_wakeup ev \<longleftrightarrow> internal ev"

lemma stuck_worker_step:
  assumes "stuck i d" and "ev \<noteq> AcceptFails" and "worker_step j ev d = Some d'"
  shows "stuck i d'"
proof -
  have "j \<noteq> i"
    using assms by (auto simp: stuck_def worker_step_def)
  then show ?thesis
    using assms
    by (cases "wk_pc (pool d ! j)")
      (auto simp: worker_step_def stuck_def set_pc_def split: if_splits list.splits)
qed

lemma stuck_task_step:
  assumes "stuck i d" and "task_step j code d = Some d'"
  shows "stuck i d'"
proof -
  have j: "j < length (tasks d)"
    using assms(2) by (auto simp: task_step_def split: if_splits)
  have keep: "\<forall>u\<in>set ((tasks d)[j := t]). tk_parent u = i \<longrightarrow> tk_reaped u"
    if "tk_parent t = tk_parent (tasks d ! j)" "tk_reaped (tasks d ! j) \<longrightarrow> tk_reaped t" for t
    using assms(1) j that by (auto simp: stuck_def dest!: set_update_subset_insert [THEN subsetD])
  have np: "\<not> tk_reaped (tasks d ! j) \<Longrightarrow> tk_parent (tasks d ! j) \<noteq> i"
    using assms(1) j by (auto simp: stuck_def)
  let ?p = "tk_parent (tasks d ! j)"
  have reap: "\<not> tk_reaped (tasks d ! j) \<and> d' = d\<lparr>tasks := (tasks d)[j := (tasks d ! j)\<lparr>tk_reaped := True\<rparr>],
      pool := (pool d)[?p := chld_worker (pool d ! ?p)]\<rparr>"
    if "tk_pc (tasks d ! j) \<noteq> TLeaving" "tk_pc (tasks d ! j) \<noteq> TServing"
    using assms(2) j that by (cases "tk_pc (tasks d ! j)") (simp_all add: task_step_def Let_def split: if_splits)
  have "\<exists>t ws. d' = d\<lparr>tasks := (tasks d)[j := t], pool := ws\<rparr> \<and> tk_parent t = tk_parent (tasks d ! j) \<and>
      (tk_reaped (tasks d ! j) \<longrightarrow> tk_reaped t) \<and> ws ! i = pool d ! i \<and> length ws = length (pool d)"
  proof (cases "tk_pc (tasks d ! j) = TLeaving \<or> tk_pc (tasks d ! j) = TServing")
    case True
    then obtain pc where "d' = d\<lparr>tasks := (tasks d)[j := (tasks d ! j)\<lparr>tk_pc := pc\<rparr>]\<rparr>"
      using assms(2) j by (auto simp: task_step_def)
    then have "d' = d\<lparr>tasks := (tasks d)[j := (tasks d ! j)\<lparr>tk_pc := pc\<rparr>], pool := pool d\<rparr>" by simp
    then show ?thesis
      by (intro exI [of _ "(tasks d ! j)\<lparr>tk_pc := pc\<rparr>"] exI [of _ "pool d"]) simp
  next
    case False
    then have r: "\<not> tk_reaped (tasks d ! j)" and
      d': "d' = d\<lparr>tasks := (tasks d)[j := (tasks d ! j)\<lparr>tk_reaped := True\<rparr>],
        pool := (pool d)[?p := chld_worker (pool d ! ?p)]\<rparr>"
      using reap by blast+
    have "(pool d)[?p := chld_worker (pool d ! ?p)] ! i = pool d ! i"
      using np [OF r] by simp
    then show ?thesis unfolding d'
      by (intro exI [of _ "(tasks d ! j)\<lparr>tk_reaped := True\<rparr>"]
          exI [of _ "(pool d)[?p := chld_worker (pool d ! ?p)]"]) simp
  qed
  then obtain t ws where d': "d' = d\<lparr>tasks := (tasks d)[j := t], pool := ws\<rparr>"
    and t: "tk_parent t = tk_parent (tasks d ! j)" "tk_reaped (tasks d ! j) \<longrightarrow> tk_reaped t"
    and ws: "ws ! i = pool d ! i" "length ws = length (pool d)"
    by (elim exE conjE) (rule that)
  have "i < length (pool d) \<and> wk_pc (pool d ! i) = WBlocked \<and> backlog d = [] \<and> exit_flag d \<and> (\<exists>r. manager d = MExited r)"
    using assms(1) unfolding stuck_def by blast
  then show ?thesis
    unfolding stuck_def d' using keep [OF t] ws by simp
qed

lemma stuck_step:
  assumes "stuck i d" and "no_wakeup ev" and "daemon_step n ev d = Some d'"
  shows "stuck i d'"
proof (cases ev)
  case (Mgr e)
  then show ?thesis using assms by (cases e) (auto simp: stuck_def split: if_splits)
next
  case (Wk j e)
  then show ?thesis using assms stuck_worker_step [OF assms(1)] by auto
next
  case (Tk j code)
  then show ?thesis using assms stuck_task_step [OF assms(1)] by auto
qed (use assms in auto)

section \<open>Properties\<close>

text \<open>
  C9: in every run without outside interference the assertions of the signal handlers hold, so
  that no worker crashes; the pool has at most \<open>POOLSIZE\<close> workers, which leave it only after the
  exit flag is set; and every client that connected is in exactly one place: waiting to be
  accepted, held by one worker, or given to one child.
\<close>

theorem pool_serves_each_client_once:
  assumes "run n initial_daemon evs d" and "\<forall>ev\<in>set evs. internal ev"
  shows "length (pool d) \<le> n \<and> (\<forall>w\<in>set (pool d). wk_pc w \<noteq> WCrashed) \<and>
    ((\<exists>w\<in>set (pool d). wk_pc w = WDone) \<or> (\<exists>r. manager d = MExited r) \<longrightarrow> exit_flag d) \<and>
    clients d = sum_list (map connected evs)"
proof -
  have "daemon_ok n d \<and> clients d = sum_list (map connected evs)"
    using assms
  proof (induction rule: run_induct_from)
    case Nil
    show ?case by (simp add: initial_daemon_def daemon_ok_def clients_def)
  next
    case (snoc evs ev d1 d2)
    then have "daemon_ok n d1 \<and> clients d1 = sum_list (map connected evs)" "internal ev" by simp_all
    then show ?case using daemon_step_ok [of n d1 ev d2] snoc by simp
  qed
  then show ?thesis by (auto simp: daemon_ok_def worker_ok_def)
qed

definition one_client :: "event list" where
  "one_client = [Mgr LaunchWorker, Wk 0 Go, Wk 0 Go, Wk 0 Go, Wk 0 Go, Connect 7, Mgr InitDone, Wk 0 Go, Wk 0 Go]"

lemma run_Cons: "daemon_step n ev d = Some d' \<Longrightarrow> run n d' evs d'' \<Longrightarrow> run n d (ev # evs) d''"
  using run_append [of n d' evs d'' d "[ev]"] run_snoc [OF run_Nil, of n ev d d'] by simp

lemma one_client_run:
  "run 1 initial_daemon one_client
    \<lparr>exit_flag = False, manager = Reading, pool = [\<lparr>wk_pc = WParent 7, wk_tripped = False\<rparr>],
     tasks = [\<lparr>tk_client = 7, tk_parent = 0, tk_pc = TLeaving, tk_reaped = False\<rparr>], backlog = []\<rparr>"
  unfolding one_client_def
  by (rule run_Cons, simp add: initial_daemon_def worker_step_def set_pc_def)+
    (simp add: run_Nil)

theorem pool_serves_each_client_once_witness:
  "length [\<lparr>wk_pc = WParent 7, wk_tripped = False\<rparr>] \<le> 1 \<and>
   clients \<lparr>exit_flag = False, manager = Reading, pool = [\<lparr>wk_pc = WParent 7, wk_tripped = False\<rparr>],
     tasks = [\<lparr>tk_client = 7, tk_parent = 0, tk_pc = TLeaving, tk_reaped = False\<rparr>], backlog = []\<rparr> = {#7#}"
  using pool_serves_each_client_once [OF one_client_run] by (simp add: one_client_def)

text \<open>
  C29: once the exit flag is set it stays set; every worker then takes at most five more steps and
  forks at most one more child, and as long as it has not left and is not inside \<open>accept\<close> its next
  step is possible.
\<close>

theorem shutdown_is_bounded:
  assumes "run n d evs d'" and "exit_flag d" and "i < length (pool d)"
  shows "exit_flag d' \<and> sum_list (map (steps_of i) evs) \<le> 5 \<and> children i d' \<le> children i d + 1 \<and>
    (wk_pc (pool d' ! i) \<in> {WBlocked, WDone, WCrashed, WKilled} \<or> (\<exists>d''. daemon_step n (Wk i Go) d' = Some d''))"
proof -
  have inv: "exit_flag d' \<and> i < length (pool d') \<and>
      sum_list (map (steps_of i) evs) + rank (wk_pc (pool d' ! i)) \<le> rank (wk_pc (pool d ! i)) \<and>
      children i d' + may_serve (wk_pc (pool d' ! i)) \<le> children i d + may_serve (wk_pc (pool d ! i))"
    using assms(1)
  proof (induction rule: run_induct_from)
    case Nil
    show ?case using assms by simp
  next
    case (snoc evs ev d1 d2)
    then show ?case using daemon_step_shrinks [of d1 i n ev d2] by (auto simp: shrinks_def)
  qed
  have "rank (wk_pc (pool d ! i)) \<le> 5"
    by (cases "wk_pc (pool d ! i)") simp_all
  moreover have "may_serve (wk_pc (pool d ! i)) \<le> 1"
    by (simp add: may_serve_def)
  moreover have "wk_pc (pool d' ! i) \<in> {WBlocked, WDone, WCrashed, WKilled} \<or> (\<exists>d''. daemon_step n (Wk i Go) d' = Some d'')"
    using inv by (cases "wk_pc (pool d' ! i)") (simp_all add: worker_step_def)
  moreover have "sum_list (map (steps_of i) evs) \<le> 5" "children i d' \<le> children i d + 1"
    using inv calculation(1,2) by linarith+
  ultimately show ?thesis using inv by blast
qed

definition stopping_daemon :: daemon where
  "stopping_daemon = \<lparr>exit_flag = True, manager = Reading, pool = [\<lparr>wk_pc = WCall, wk_tripped = False\<rparr>],
     tasks = [], backlog = []\<rparr>"

theorem shutdown_is_bounded_witness:
  "sum_list (map (steps_of 0) [Mgr LeaveLoop, Wk 0 Go]) \<le> 5"
proof -
  have "run 1 stopping_daemon [Mgr LeaveLoop, Wk 0 Go]
      (stopping_daemon\<lparr>manager := MExited False, pool := [\<lparr>wk_pc = WBlocked, wk_tripped = True\<rparr>]\<rparr>)"
    by (rule run_Cons, simp add: stopping_daemon_def manager_finally_def hup_group_def hup_worker_def
        worker_step_def set_pc_def)+ (simp add: stopping_daemon_def run_Nil)
  from shutdown_is_bounded [OF this, of 0] show ?thesis by (simp add: stopping_daemon_def)
qed

definition missed_shutdown :: "event list" where
  "missed_shutdown = [Mgr LaunchWorker, Wk 0 Go, Mgr InitDone, Wk 0 Go, Wk 0 Go,
     Mgr (ReadStdin True), Mgr LeaveLoop, Wk 0 Go]"

definition missed_daemon :: daemon where
  "missed_daemon = \<lparr>exit_flag = True, manager = MExited False,
     pool = [\<lparr>wk_pc = WBlocked, wk_tripped = True\<rparr>], tasks = [], backlog = []\<rparr>"

text \<open>
  The shutdown can miss a worker: when its SIGHUP arrives after the worker has tested the
  exit flag and before it is inside \<open>accept\<close>, the worker stays in \<open>accept\<close> whatever happens after
  the manager has gone, as long as no client connects.
\<close>

theorem shutdown_can_miss_worker:
  assumes "run 1 missed_daemon evs d" and "\<forall>ev\<in>set evs. no_wakeup ev"
  shows "run 1 initial_daemon (missed_shutdown @ evs) d \<and> exit_flag d \<and> wk_pc (pool d ! 0) = WBlocked"
proof -
  have "run 1 initial_daemon missed_shutdown missed_daemon"
    unfolding missed_shutdown_def
    by (rule run_Cons, simp add: initial_daemon_def worker_step_def set_pc_def manager_finally_def
        hup_group_def hup_worker_def)+ (simp add: missed_daemon_def run_Nil)
  then have "run 1 initial_daemon (missed_shutdown @ evs) d" using assms(1) by (rule run_append [rotated])
  moreover have "stuck 0 d"
    using assms
  proof (induction rule: run_induct_from)
    case Nil
    show ?case by (auto simp: stuck_def missed_daemon_def)
  next
    case (snoc evs ev d1 d2)
    then show ?case using stuck_step [of 0 d1 ev 1 d2] by simp
  qed
  ultimately show ?thesis by (simp add: stuck_def)
qed

theorem shutdown_can_miss_worker_witness:
  "run 1 initial_daemon (missed_shutdown @ []) missed_daemon \<and> exit_flag missed_daemon \<and>
    wk_pc (pool missed_daemon ! 0) = WBlocked"
  by (rule shutdown_can_miss_worker [OF run_Nil]) simp

end
