(* ===== verification/StreamReaders.thy ===== *)
theory StreamReaders
  imports Worker
begin

text \<open>
  Streams of objects as the serializers of \<open>pyspark/serializers.py\<close> read them: one generator per
  serializer, which takes from the shared stream only when it is asked for its next object. That
  laziness decides what the deserializers of pairs read when they are nested.
\<close>

section \<open>Values and codecs\<close>

text \<open>
  Objects, as far as the serializers look into them. The functions \<open>dumps\<close> and \<open>loads\<close> of the classes
  derived from \<open>FramedSerializer\<close> and the text codec are arguments.
\<close>

datatype 'a pv = Obj 'a | ListOf "'a pv list" | PairOf "'a pv" "'a pv"

record 'a codec =
  cd_dumps :: "serializer \<Rightarrow> 'a pv \<Rightarrow> bytes"
  cd_loads :: "serializer \<Rightarrow> bytes \<Rightarrow> 'a pv res"
  cd_decode :: "bytes \<Rightarrow> 'a pv res"

fun iterate :: "'a pv \<Rightarrow> 'a pv list res" where
  "iterate (ListOf xs) = Inr xs"
| "iterate (PairOf a b) = Inr [a, b]"
| "iterate (Obj a) = Inl TypeError"

section \<open>Writing\<close>

text \<open>
  \<open>dump_stream\<close>. The text deserializer does not override it, and those of pairs have no \<open>dumps\<close>.
\<close>

fun ser_dump :: "'a codec \<Rightarrow> serializer \<Rightarrow> 'a pv gen \<Rightarrow> bytes \<times> py_error option" where
  "ser_dump c (BatchedSer s n) it = ser_dump c s (map_prod (map ListOf) id (batched_gen n it))"
| "ser_dump c UTF8Deser it = ([], Some NotImplementedError)"
| "ser_dump c (CartesianDeser k v) it = ([], if fst it = [] then snd it else Some NotImplementedError)"
| "ser_dump c (PairDeser k v) it = ([], if fst it = [] then snd it else Some NotImplementedError)"
| "ser_dump c s it = framed_dump_gen (cd_dumps c s) it"

section \<open>Reading\<close>

text \<open>
  A generator at rest: \<open>GRead\<close> reads one object from the stream, \<open>GChain\<close> is \<open>chain.from_iterable\<close>
  with what is left of the current batch, and \<open>GPairs\<close> the loop of the deserializers of pairs with
  the pairs still to be yielded. Its first argument tells \<open>product\<close> from \<open>izip\<close>, the next two
  whether the components come in batches.
\<close>

datatype 'a generator =
    GRead serializer
  | GChain "'a generator" "'a pv list"
  | GPairs bool bool bool "'a generator" "'a generator" "'a pv list"

fun is_batched :: "serializer \<Rightarrow> bool" where
  "is_batched (BatchedSer s n) = True"
| "is_batched s = False"

text \<open>\<open>load_stream\<close>, and the components of pairs by \<open>_load_stream_without_unbatching\<close>.\<close>

fun load_gen :: "serializer \<Rightarrow> 'a generator" where
  "load_gen (BatchedSer s n) = GChain (load_gen s) []"
| "load_gen (CartesianDeser k v) = GPairs True (is_batched k) (is_batched v)
     (case k of BatchedSer k' _ \<Rightarrow> load_gen k' | _ \<Rightarrow> load_gen k)
     (case v of BatchedSer v' _ \<Rightarrow> load_gen v' | _ \<Rightarrow> load_gen v) []"
| "load_gen (PairDeser k v) = GPairs False (is_batched k) (is_batched v)
     (case k of BatchedSer k' _ \<Rightarrow> load_gen k' | _ \<Rightarrow> load_gen k)
     (case v of BatchedSer v' _ \<Rightarrow> load_gen v' | _ \<Rightarrow> load_gen v) []"
| "load_gen s = GRead s"

text \<open>
  One object; the end of the stream is \<open>EOFError\<close>. The text deserializer ends on a short length too.
\<close>

definition read_object :: "'a codec \<Rightarrow> serializer \<Rightarrow> bytes \<Rightarrow> ('a pv \<times> bytes) res" where
  "read_object c ser s =
     (if ser = UTF8Deser then (case utf8_loads (cd_decode c) s of Inl StructError \<Rightarrow> Inl EOFError | r \<Rightarrow> r)
      else framed_read (cd_loads c ser) s)"

definition pairings :: "bool \<Rightarrow> bool \<Rightarrow> bool \<Rightarrow> 'a pv \<Rightarrow> 'a pv \<Rightarrow> 'a pv list res" where
  "pairings crossed kb vb k v =
     bind_res (if kb then iterate k else Inr [k]) (\<lambda>ks.
     map_res (\<lambda>vs. map (\<lambda>(a, b). PairOf a b) (if crossed then List.product ks vs else zip ks vs))
       (if vb then iterate v else Inr [v]))"

text \<open>
  \<open>next\<close>: the object, the generator afterwards, and the rest of the stream; \<open>EOFError\<close> stands for
  \<open>StopIteration\<close>. \<open>izip\<close> asks for the key first. An empty batch makes the generator go on.
\<close>

partial_function (option) pull :: "'a codec \<Rightarrow> 'a generator \<Rightarrow> bytes \<Rightarrow> ('a pv \<times> 'a generator \<times> bytes) res option" where
  "pull c g s =
     (case g of
        GRead ser \<Rightarrow> Some (map_res (\<lambda>(x, s'). (x, GRead ser, s')) (read_object c ser s))
      | GChain b (x # xs) \<Rightarrow> Some (Inr (x, GChain b xs, s))
      | GChain b [] \<Rightarrow>
          Option.bind (pull c b s) (\<lambda>r. case r of
             Inl e \<Rightarrow> Some (Inl e)
           | Inr (x, b', s') \<Rightarrow>
               (case iterate x of Inl e \<Rightarrow> Some (Inl e) | Inr xs \<Rightarrow> pull c (GChain b' xs) s'))
      | GPairs crossed kb vb k v (x # xs) \<Rightarrow> Some (Inr (x, GPairs crossed kb vb k v xs, s))
      | GPairs crossed kb vb k v [] \<Rightarrow>
          Option.bind (pull c k s) (\<lambda>r. case r of
             Inl e \<Rightarrow> Some (Inl e)
           | Inr (x, k', s1) \<Rightarrow>
               Option.bind (pull c v s1) (\<lambda>q. case q of
                  Inl e \<Rightarrow> Some (Inl e)
                | Inr (y, v', s2) \<Rightarrow>
                    (case pairings crossed kb vb x y of
                       Inl e \<Rightarrow> Some (Inl e)
                     | Inr xs \<Rightarrow> pull c (GPairs crossed kb vb k' v' xs) s2))))"

partial_function (option) drain :: "'a codec \<Rightarrow> 'a generator \<Rightarrow> bytes \<Rightarrow> 'a pv gen option" where
  "drain c g s =
     Option.bind (pull c g s) (\<lambda>r. case r of
        Inl e \<Rightarrow> Some ([], stop_iteration e)
      | Inr (x, g', s') \<Rightarrow> Option.bind (drain c g' s') (\<lambda>(xs, e). Some (x # xs, e)))"

definition ser_load :: "'a codec \<Rightarrow> serializer \<Rightarrow> bytes \<Rightarrow> 'a pv gen option" where
  "ser_load c ser s = drain c (load_gen ser) s"

lemma pull_simps [simp]:
  "pull c (GRead ser) s = Some (map_res (\<lambda>(x, s'). (x, GRead ser, s')) (read_object c ser s))"
  "pull c (GChain b (x # xs)) s = Some (Inr (x, GChain b xs, s))"
  "pull c (GPairs crossed kb vb k v (x # xs)) s = Some (Inr (x, GPairs crossed kb vb k v xs, s))"
  by (simp_all add: pull.simps)

lemma pull_chain:
  "pull c b s = Some (Inr (x, b', s')) \<Longrightarrow> iterate x = Inr xs \<Longrightarrow>
     pull c (GChain b []) s = pull c (GChain b' xs) s'"
  "pull c b s = Some (Inl e) \<Longrightarrow> pull c (GChain b []) s = Some (Inl e)"
  by (subst pull.simps, simp)+

lemma pull_pairs:
  "pull c k s = Some (Inr (x, k', s1)) \<Longrightarrow> pull c v s1 = Some (Inr (y, v', s2)) \<Longrightarrow> pairings crossed kb vb x y = Inr xs \<Longrightarrow>
     pull c (GPairs crossed kb vb k v []) s = pull c (GPairs crossed kb vb k' v' xs) s2"
  "pull c k s = Some (Inl e) \<Longrightarrow> pull c (GPairs crossed kb vb k v []) s = Some (Inl e)"
  "pull c k s = Some (Inr (x, k', s1)) \<Longrightarrow> pull c v s1 = Some (Inl e) \<Longrightarrow>
     pull c (GPairs crossed kb vb k v []) s = Some (Inl e)"
  by (subst pull.simps, simp)+

lemma drain_pull:
  "pull c g s = Some (Inr (x, g', s')) \<Longrightarrow> drain c g s = map_option (\<lambda>(xs, e). (x # xs, e)) (drain c g' s')"
  by (subst drain.simps) (cases "drain c g' s'"; simp split: prod.split)

lemma drain_stop: "pull c g s = Some (Inl e) \<Longrightarrow> drain c g s = Some ([], stop_iteration e)"
  by (subst drain.simps) simp

lemma drain_same: "pull c g s = pull c g' s' \<Longrightarrow> drain c g s = drain c g' s'"
  by (subst (1 2) drain.simps) simp

text \<open>Objects that come before whatever the rest of a stream gives.\<close>

definition before :: "'a list \<Rightarrow> 'a gen option \<Rightarrow> 'a gen option" where
  "before xs r = map_option (\<lambda>(ys, e). (xs @ ys, e)) r"

lemma before_simps [simp]:
  "before [] r = r" "before xs (before ys r) = before (xs @ ys) r" "before xs (Some (ys, e)) = Some (xs @ ys, e)"
  by (cases r; force simp: before_def)+

lemma drain_Cons: "pull c g s = Some (Inr (x, g', s')) \<Longrightarrow> drain c g s = before [x] (drain c g' s')"
  by (simp add: drain_pull before_def)

section \<open>What is written is read back\<close>

text \<open>A frame that the class \<open>ser\<close> reads as the object \<open>v\<close>.\<close>

definition holds :: "'a codec \<Rightarrow> serializer \<Rightarrow> bytes \<Rightarrow> 'a pv \<Rightarrow> bool" where
  "holds c ser b v \<longleftrightarrow> ser \<noteq> UTF8Deser \<and> b \<noteq> [] \<and> length b < 2 ^ 31 \<and> cd_loads c ser b = Inr v"

lemma pull_frame:
  "holds c ser b v \<Longrightarrow> pull c (GRead ser) (frame_bytes b @ rest) = Some (Inr (v, GRead ser, rest))"
  by (simp add: read_object_def holds_def framed_read_frame_bytes)

lemma drain_frames:
  "list_all2 (holds c ser) bs vs \<Longrightarrow>
     drain c (GRead ser) (concat (map frame_bytes bs) @ rest) = before vs (drain c (GRead ser) rest)"
  by (induction bs vs rule: list_all2_induct) (simp_all add: drain_Cons [OF pull_frame])

lemma drain_pending: "drain c (GChain g xs) s = before xs (drain c (GChain g []) s)"
  by (induction xs) (simp_all add: drain_Cons)

lemma drain_batches:
  "list_all2 (holds c ser) bs (map ListOf xss) \<Longrightarrow>
     drain c (GChain (GRead ser) []) (concat (map frame_bytes bs) @ rest) =
       before (concat xss) (drain c (GChain (GRead ser) []) rest)"
proof (induction xss arbitrary: bs)
  case (Cons xs xss)
  obtain b bs' where bs: "bs = b # bs'" "holds c ser b (ListOf xs)" "list_all2 (holds c ser) bs' (map ListOf xss)"
    using Cons.prems by (auto simp: list_all2_Cons2)
  let ?s = "concat (map frame_bytes bs') @ rest"
  have "pull c (GChain (GRead ser) []) (frame_bytes b @ ?s) = pull c (GChain (GRead ser) xs) ?s"
    by (rule pull_chain(1) [OF pull_frame [OF bs(2)]]) simp
  then have "drain c (GChain (GRead ser) []) (frame_bytes b @ ?s) = before xs (drain c (GChain (GRead ser) []) ?s)"
    by (metis drain_same drain_pending)
  then show ?case using Cons.IH [OF bs(3)] by (simp add: bs(1))
qed simp

lemma drain_pending_pairs:
  "drain c (GPairs crossed kb vb k v xs) s = before xs (drain c (GPairs crossed kb vb k v []) s)"
  by (induction xs) (simp_all add: drain_Cons)

text \<open>Pairs of frames in turn, for components that read one object each.\<close>

lemma drain_pair_frames:
  "list_all2 (\<lambda>(a, b) zs. \<exists>x y. holds c ks a x \<and> holds c vs b y \<and> pairings crossed kb vb x y = Inr zs) kvs zss \<Longrightarrow>
     drain c (GPairs crossed kb vb (GRead ks) (GRead vs) []) (concat (map (\<lambda>(a, b). frame_bytes a @ frame_bytes b) kvs) @ rest) =
       before (concat zss) (drain c (GPairs crossed kb vb (GRead ks) (GRead vs) []) rest)"
proof (induction kvs zss rule: list_all2_induct)
  case (Cons kv kvs zs zss)
  obtain a b x y where kv: "kv = (a, b)" "holds c ks a x" "holds c vs b y" "pairings crossed kb vb x y = Inr zs"
    using Cons.hyps(1) by (cases kv) auto
  let ?g = "GPairs crossed kb vb (GRead ks) (GRead vs)"
  let ?s = "concat (map (\<lambda>(a, b). frame_bytes a @ frame_bytes b) kvs) @ rest"
  have "pull c (?g []) (frame_bytes a @ frame_bytes b @ ?s) = pull c (?g zs) ?s"
    by (rule pull_pairs(1) [OF pull_frame [OF kv(2)] pull_frame [OF kv(3)] kv(4)])
  then have "drain c (?g []) (frame_bytes a @ frame_bytes b @ ?s) = before zs (drain c (?g []) ?s)"
    by (metis drain_same drain_pending_pairs)
  then show ?case using Cons.IH by (simp add: kv(1))
qed simp

text \<open>Every generator ends at once on an empty stream.\<close>

lemma pull_load_gen_empty: "pull c (load_gen ser) [] = Some (Inl EOFError)"
proof (induction ser rule: load_gen.induct)
  case (1 s n)
  then show ?case by (simp add: pull_chain(2))
next
  case (2 k v)
  then show ?case by (cases k) (simp_all add: pull_pairs(2))
next
  case (3 k v)
  then show ?case by (cases k) (simp_all add: pull_pairs(2))
qed (simp_all add: read_object_def utf8_loads_def read_int_def read_num_def stream_read_def)

lemma ser_load_empty: "ser_load c ser [] = Some ([], None)"
  by (simp add: ser_load_def drain_stop [OF pull_load_gen_empty])

text \<open>The batch sizes play no part in reading.\<close>

lemma is_batched_erase [simp]: "is_batched (erase_batch_size s) = is_batched s"
  by (cases s) simp_all

lemma load_gen_erase: "load_gen (erase_batch_size s) = load_gen s"
proof (induction s rule: load_gen.induct)
  case (2 k v)
  then show ?case by (cases k; cases v) auto
next
  case (3 k v)
  then show ?case by (cases k; cases v) auto
qed simp_all

lemma ser_load_equal: "ser_op_eq a b \<Longrightarrow> ser_load c a = ser_load c b"
  by (metis ext ser_load_def load_gen_erase ser_op_eq_iff_erase)

text \<open>
  The frames that \<open>dump_stream\<close> writes of a list of objects, and when they can be written: the
  framed serializer inside reads back what it writes, and no frame is empty or too long.
\<close>

fun written :: "serializer \<Rightarrow> 'a pv list \<Rightarrow> serializer \<times> 'a pv list" where
  "written (BatchedSer s n) xs = (s, map ListOf (batched n xs))"
| "written s xs = (s, xs)"

definition frames_written :: "'a codec \<Rightarrow> serializer \<Rightarrow> 'a pv list \<Rightarrow> bytes list" where
  "frames_written c ser xs = (case written ser xs of (s, vs) \<Rightarrow> map (cd_dumps c s) vs)"

definition writable :: "'a codec \<Rightarrow> serializer \<Rightarrow> 'a pv list \<Rightarrow> bool" where
  "writable c ser xs \<longleftrightarrow>
     (case written ser xs of
        (s, vs) \<Rightarrow> s \<in> {PickleSer, CloudPickleSer, MarshalSer, NoOpSer} \<and> (\<forall>v\<in>set vs. holds c s (cd_dumps c s v) v))"

lemma frames_written_short: "writable c ser xs \<Longrightarrow> f \<in> set (frames_written c ser xs) \<Longrightarrow> length f < 2 ^ 31"
  by (auto simp: writable_def frames_written_def holds_def split: prod.splits)

lemma dump_framed:
  assumes "s \<in> {PickleSer, CloudPickleSer, MarshalSer, NoOpSer}" and "\<forall>v\<in>set vs. holds c s (cd_dumps c s v) v"
  shows "ser_dump c s (vs, None) = (concat (map frame_bytes (map (cd_dumps c s) vs)), None)"
proof -
  have "ser_dump c s (vs, None) = framed_dump_gen (cd_dumps c s) (vs, None)" using assms(1) by auto
  then show ?thesis
    using framed_dump_gen_frames [of vs "cd_dumps c s" None] assms(2) by (simp add: holds_def)
qed

lemma dump_written:
  assumes "writable c ser xs"
  shows "ser_dump c ser (xs, None) = (concat (map frame_bytes (frames_written c ser xs)), None)"
proof (cases "\<exists>s n. ser = BatchedSer s n")
  case True
  then obtain s n where [simp]: "ser = BatchedSer s n" by blast
  show ?thesis using dump_framed [of s "map ListOf (batched n xs)" c] assms by (simp add: writable_def frames_written_def)
next
  case False
  then have "written ser xs = (ser, xs)" by (cases ser) auto
  then show ?thesis using dump_framed [of ser xs c] assms by (simp add: writable_def frames_written_def)
qed

lemma list_all2_dumps: "\<forall>v\<in>set vs. holds c s (cd_dumps c s v) v \<Longrightarrow> list_all2 (holds c s) (map (cd_dumps c s) vs) vs"
  by (auto simp: list_all2_conv_all_nth)

lemma drain_written:
  fixes c :: "'a codec"
  assumes "writable c ser xs"
  shows "drain c (load_gen ser) (concat (map frame_bytes (frames_written c ser xs)) @ rest) =
    before xs (drain c (load_gen ser) rest)"
proof (cases "\<exists>s n. ser = BatchedSer s n")
  case True
  then obtain s n where [simp]: "ser = BatchedSer s n" by blast
  have s: "s \<in> {PickleSer, CloudPickleSer, MarshalSer, NoOpSer}"
    and h: "\<forall>v\<in>set (map ListOf (batched n xs)). holds c s (cd_dumps c s v) v"
    using assms by (simp_all add: writable_def)
  have "load_gen ser = (GChain (GRead s) [] :: 'a generator)" using s by auto
  then show ?thesis
    using drain_batches [OF list_all2_dumps [OF h], of rest] by (simp add: frames_written_def)
next
  case False
  then have w: "written ser xs = (ser, xs)" by (cases ser) auto
  have s: "ser \<in> {PickleSer, CloudPickleSer, MarshalSer, NoOpSer}"
    and h: "\<forall>v\<in>set xs. holds c ser (cd_dumps c ser v) v"
    using assms by (simp_all add: writable_def w)
  have "load_gen ser = (GRead ser :: 'a generator)" using s by auto
  then show ?thesis
    using drain_frames [OF list_all2_dumps [OF h], of rest] by (simp add: frames_written_def w)
qed

section \<open>What is written before an exception\<close>

text \<open>
  The frames of a stream that ends with an exception after the objects \<open>xs\<close>: those of the whole batches among them, or of
  all of them without batches. A batch size below 1 stands for one batch without bound, which is never whole.
\<close>

fun complete_frames :: "'a codec \<Rightarrow> serializer \<Rightarrow> 'a pv list \<Rightarrow> bytes list" where
  "complete_frames c (BatchedSer s n) xs =
     map (\<lambda>k. cd_dumps c s (ListOf (take (nat n) (drop (k * nat n) xs)))) [0..<length xs div nat n]"
| "complete_frames c s xs = map (cd_dumps c s) xs"

lemma batched_loop_whole:
  "0 < n \<Longrightarrow> cnt = int (length items) \<Longrightarrow> length items < n \<Longrightarrow>
     filter (\<lambda>b. length b = n) (batched_loop (int n) items cnt xs) =
       map (\<lambda>k. take n (drop (k * n) (items @ xs))) [0..<length (items @ xs) div n]"
proof (induction xs arbitrary: items cnt)
  case (Cons x xs)
  show ?case
  proof (cases "cnt + 1 = int n")
    case True
    then have l: "length (items @ [x]) = n" using Cons.prems by simp
    have "length (items @ x # xs) = n + length xs" using l by simp
    moreover have "(n + length xs) div n = Suc (length xs div n)" using Cons.prems(1) by simp
    ultimately have d: "length (items @ x # xs) div n = Suc (length xs div n)" by (simp only:)
    have "take n (drop (Suc k * n) (items @ x # xs)) = take n (drop (k * n) xs)" for k
    proof -
      have "drop n ((items @ [x]) @ xs) = xs" by (simp only: l [symmetric] append_eq_conv_conj [THEN iffD1, OF refl, THEN conjunct2, symmetric])
      then have "drop (k * n + n) (items @ x # xs) = drop (k * n) xs" by (metis append.assoc append_Cons append_Nil drop_drop)
      then show ?thesis by (simp add: add.commute)
    qed
    moreover have "take n (items @ x # xs) = items @ [x]"
      using take_append [of n "items @ [x]" xs] l by simp
    ultimately have "map (\<lambda>k. take n (drop (k * n) (items @ x # xs))) [0..<length (items @ x # xs) div n] =
        (items @ [x]) # map (\<lambda>k. take n (drop (k * n) xs)) [0..<length xs div n]"
      unfolding d map_upt_Suc by (simp only: mult_0 drop_0)
    then show ?thesis
      using Cons.IH [of 0 "[]"] Cons.prems(1) True l by simp
  next
    case False
    then have "length (items @ [x]) < n" using Cons.prems by simp
    then show ?thesis using Cons.IH [of "cnt + 1" "items @ [x]"] Cons.prems False by simp
  qed
qed simp

lemma whole_batches:
  "fst (batched_gen n (xs, Some e)) = map (\<lambda>k. take (nat n) (drop (k * nat n) xs)) [0..<length xs div nat n]"
proof (cases "0 < n")
  case True
  then obtain m where "n = int m" "0 < m" by (metis pos_int_cases)
  then show ?thesis
    using batched_loop_whole [of m 0 "[]" xs] by (simp add: batched_def UNLIMITED_BATCH_SIZE_def)
next
  case False
  have "[] \<notin> set (batched_loop n items c xs)" for items c
    by (induction xs arbitrary: items c) auto
  then have "filter (\<lambda>b. int (length b) = n) (batched n xs) = []" if "n \<noteq> UNLIMITED_BATCH_SIZE"
    using False that by (auto simp: filter_empty_conv batched_def)
  then show ?thesis using False by simp
qed

lemma dump_until_exception:
  assumes "ser = s \<or> ser = BatchedSer s n" and "s \<in> {PickleSer, CloudPickleSer, MarshalSer, NoOpSer}"
    and "\<forall>f\<in>set (complete_frames c ser xs). length f < 2 ^ 31"
  shows "ser_dump c ser (xs, Some e) = (concat (map frame_bytes (complete_frames c ser xs)), Some e)"
proof (cases "ser = s")
  case True
  then have "complete_frames c ser xs = map (cd_dumps c s) xs" "ser_dump c ser (xs, Some e) = framed_dump_gen (cd_dumps c s) (xs, Some e)"
    using assms(2) by auto
  then show ?thesis using framed_dump_gen_frames [of xs "cd_dumps c s" "Some e"] assms(3) by simp
next
  case False
  then have ser: "ser = BatchedSer s n" using assms(1) by blast
  let ?bs = "map (\<lambda>k. ListOf (take (nat n) (drop (k * nat n) xs))) [0..<length xs div nat n]"
  obtain bs e' where b: "batched_gen n (xs, Some e) = (bs, e')" by force
  then have "e' = Some e" "map ListOf bs = ?bs"
    using whole_batches [of n xs e] by (auto split: if_splits)
  then have "ser_dump c ser (xs, Some e) = framed_dump_gen (cd_dumps c s) (?bs, Some e)"
    using b assms(2) by (auto simp: ser simp del: batched_gen.simps)
  then show ?thesis
    using framed_dump_gen_frames [of ?bs "cd_dumps c s" "Some e"] assms(3) by (simp add: ser comp_def)
qed

section \<open>Properties\<close>

text \<open>
  A codec that is a table of byte strings and values.
\<close>

definition table_codec :: "(bytes \<times> 'a pv) list \<Rightarrow> 'a codec" where
  "table_codec t =
     \<lparr>cd_dumps = (\<lambda>s v. case map_of (map (\<lambda>(b, w). (w, b)) t) v of None \<Rightarrow> [] | Some b \<Rightarrow> b),
      cd_loads = (\<lambda>s b. case map_of t b of None \<Rightarrow> Inl PicklingError | Some v \<Rightarrow> Inr v),
      cd_decode = (\<lambda>b. Inl ValueError)\<rparr>"

text \<open>
  C35: the cartesian product of a cartesian product loses elements. For one partition of each of three
  batched RDDs the stream has one frame of keys, one of values and one of the third RDD; the outer
  deserializer asks the inner one for a single pair before it reads the third frame, and its next
  request for a frame meets the end of the stream. Only the first pair is combined.
\<close>

theorem chained_cartesian_keeps_one_pair:
  assumes "holds c s b1 (ListOf ks)" and "holds c s b2 (ListOf vs)" and "holds c s b3 (ListOf ws)"
    and "ks \<noteq> []" and "vs \<noteq> []" and "load_gen s = (GRead s :: 'a generator)"
  shows "ser_load c (CartesianDeser (CartesianDeser (BatchedSer s n) (BatchedSer s m)) (BatchedSer s l))
      (frame_bytes b1 @ frame_bytes b2 @ frame_bytes b3) =
    Some (map (PairOf (PairOf (hd ks) (hd (vs :: 'a pv list)))) ws, None)"
proof -
  define pairs where "pairs = map (\<lambda>(a, b). PairOf a b) (List.product ks vs)"
  obtain k ks' v vs' where kv: "ks = k # ks'" "vs = v # vs'" using assms(4,5) by (auto simp: neq_Nil_conv)
  then obtain rest where pairs: "pairs = PairOf k v # rest" by (simp add: pairs_def)
  let ?inner = "GPairs True True True (GRead s) (GRead s)"
  let ?outer = "\<lambda>p. GPairs True False True (?inner p) (GRead s)"
  let ?zs = "map (PairOf (PairOf k v)) ws"
  have "pull c (?inner []) (frame_bytes b1 @ frame_bytes b2 @ frame_bytes b3) = pull c (?inner pairs) (frame_bytes b3)"
    by (rule pull_pairs(1) [OF pull_frame [OF assms(1)] pull_frame [OF assms(2)]]) (simp add: pairings_def pairs_def)
  then have i: "pull c (?inner []) (frame_bytes b1 @ frame_bytes b2 @ frame_bytes b3) =
      Some (Inr (PairOf k v, ?inner rest, frame_bytes b3))"
    by (simp add: pairs)
  have "pull c (?outer [] []) (frame_bytes b1 @ frame_bytes b2 @ frame_bytes b3) = pull c (?outer rest ?zs) []"
    by (rule pull_pairs(1) [OF i pull_frame [OF assms(3), of "[]", simplified append_Nil2]]) (simp add: pairings_def comp_def)
  then have "drain c (?outer [] []) (frame_bytes b1 @ frame_bytes b2 @ frame_bytes b3) = before ?zs (drain c (?outer rest []) [])"
    by (metis drain_same drain_pending_pairs)
  moreover have "pull c (?outer rest []) [] = Some (Inl EOFError)"
  proof (cases rest)
    case Nil
    then show ?thesis by (simp add: pull_pairs(2) read_object_def utf8_loads_def read_int_def read_num_def stream_read_def)
  next
    case (Cons p ps)
    then show ?thesis
      by (simp add: pull_pairs(3) [of _ _ _ p] read_object_def utf8_loads_def read_int_def read_num_def stream_read_def)
  qed
  ultimately show ?thesis
    using assms(6) kv by (simp add: ser_load_def drain_stop)
qed

theorem chained_cartesian_keeps_one_pair_witness:
  "ser_load (table_codec [([1], ListOf [Obj 1, Obj 2]), ([2], ListOf [Obj 3]), ([3], ListOf [Obj 4, Obj (5 :: nat)])])
      (CartesianDeser (CartesianDeser (BatchedSer PickleSer 10) (BatchedSer PickleSer 10)) (BatchedSer PickleSer 10))
      (frame_bytes [1] @ frame_bytes [2] @ frame_bytes [3]) =
    Some ([PairOf (PairOf (Obj 1) (Obj 3)) (Obj 4), PairOf (PairOf (Obj 1) (Obj 3)) (Obj 5)], None)"
proof -
  let ?c = "table_codec [([1], ListOf [Obj 1, Obj 2]), ([2], ListOf [Obj 3]), ([3], ListOf [Obj 4, Obj (5 :: nat)])]"
  have "holds ?c PickleSer [1] (ListOf [Obj 1, Obj 2])" "holds ?c PickleSer [2] (ListOf [Obj 3])"
    "holds ?c PickleSer [3] (ListOf [Obj 4, Obj 5])"
    by (simp_all add: holds_def table_codec_def)
  from chained_cartesian_keeps_one_pair [OF this, of 10 10 10] show ?thesis by simp
qed

text \<open>
  C28: when the command raises after some results, the worker writes those of them that fill whole batches of its
  serializer, or all of them when it does not batch, and reports neither times nor accumulators. For \<open>SystemExit\<close>, which
  \<open>sys.exit\<close> raises in the user's code, the output just stops there and the worker exits with that status; for any other
  exception the traceback follows and the worker exits with status -1.
\<close>

theorem worker_reply_on_exception:
  assumes "read_int infile = Inr (split, s1)" and "split \<noteq> - 1" and "read_setup env s1 st = Inr (cmd, st1, s2)"
    and "cmd_func cmd split (cmd_load_stream cmd s2) (accs st1) = ((ys, Some e), acc')"
    and "cmd_dump_stream cmd = ser_dump c ser"
    and "ser = s \<or> ser = BatchedSer s n" and "s \<in> {PickleSer, CloudPickleSer, MarshalSer, NoOpSer}"
    and "\<forall>f\<in>set (complete_frames c ser ys). length f < 2 ^ 31" and "length (format_exc env e) < 2 ^ 31"
  shows "\<exists>r out. worker_main env clock infile st = (Inl r, out) \<and>
    (case e of SystemExit k \<Rightarrow> r = SystemExit k \<and> out = concat (map frame_bytes (complete_frames c ser ys)) \<and>
         read_reply out = Broken (complete_frames c ser ys)
     | _ \<Rightarrow> r = SystemExit (- 1) \<and> read_reply out = Raised (complete_frames c ser ys) (format_exc env e))"
  by (rule worker_main_raises [OF assms(1-4) _ assms(8,9)])
    (simp only: assms(5) dump_until_exception [OF assms(6-8)])

text \<open>A command that raises after three results, with batches of two.\<close>

definition three_codec :: "nat codec" where
  "three_codec = table_codec [([1], ListOf [Obj 7, Obj 8]), ([2], ListOf [Obj 9])]"

definition three_command :: "(py_num, nat pv, nat pv) command" where
  "three_command =
     \<lparr>cmd_func = (\<lambda>i it a. (([Obj 7, Obj 8, Obj 9], Some ZeroDivisionError), a)),
      cmd_load_stream = (\<lambda>b. ([], None)), cmd_dump_stream = ser_dump three_codec (BatchedSer PickleSer 2)\<rparr>"

definition three_env :: "(py_num, bytes, nat pv, nat pv) worker_env" where
  "three_env =
     \<lparr>decode = (\<lambda>b. Inr ''/a''), load_value = (\<lambda>b. Inr b), load_command = (\<lambda>b st. Inr (three_command, st)),
      dump_update = (\<lambda>u. [9]), registry_items = (\<lambda>d. d), format_exc = (\<lambda>e. [84])\<rparr>"

theorem worker_reply_on_exception_witness:
  "\<exists>r out. worker_main three_env (10, 20, 30) (be_bytes 4 2 @ setup_bytes [47, 97] [] [] [2] @ []) (initial_worker []) = (Inl r, out) \<and>
    r = SystemExit (- 1) \<and> read_reply out = Raised [[1]] [84]"
proof -
  let ?i = "initial_worker [] :: (py_num, bytes) worker_state"
  let ?st = "?i\<lparr>root_directory := Some ''/a'', is_running_on_worker := True,
        sys_path := sys_path ?i @ [''/a''],
        broadcastRegistry := load_broadcasts [] (broadcastRegistry ?i)\<rparr>"
  have rd: "read_setup three_env (setup_bytes [47, 97] [] [] [2] @ []) (initial_worker []) = Inr (three_command, ?st, [])"
    using read_setup_bytes [of "[47, 97]" three_env "''/a''" "[]" "[]" "[]" "[]" "[2]" ?i three_command ?st "[]"]
    by (simp add: three_env_def)
  have frames: "complete_frames three_codec (BatchedSer PickleSer 2) [Obj 7, Obj 8, Obj 9] = [[1]]"
  proof -
    have "length [Obj 7, Obj 8, Obj (9 :: nat)] div nat 2 = 1" by simp
    then have "[0..<length [Obj 7, Obj 8, Obj (9 :: nat)] div nat 2] = [0]" by (simp only:) simp
    then show ?thesis by (simp add: three_codec_def table_codec_def)
  qed
  have "\<exists>r out. worker_main three_env (10, 20, 30) (be_bytes 4 2 @ setup_bytes [47, 97] [] [] [2] @ []) (initial_worker []) = (Inl r, out) \<and>
    (case ZeroDivisionError of SystemExit k \<Rightarrow> r = SystemExit k \<and>
         out = concat (map frame_bytes (complete_frames three_codec (BatchedSer PickleSer 2) [Obj 7, Obj 8, Obj 9])) \<and>
         read_reply out = Broken (complete_frames three_codec (BatchedSer PickleSer 2) [Obj 7, Obj 8, Obj 9])
     | _ \<Rightarrow> r = SystemExit (- 1) \<and>
         read_reply out = Raised (complete_frames three_codec (BatchedSer PickleSer 2) [Obj 7, Obj 8, Obj 9])
           (format_exc three_env ZeroDivisionError))"
    by (rule worker_reply_on_exception [where split = 2, OF _ _ rd, where s = PickleSer and n = 2])
      (simp_all add: frames three_command_def three_env_def del: complete_frames.simps)
  then show ?thesis by (simp add: frames three_env_def del: complete_frames.simps)
qed

end
