(* ===== verification/Context.thy ===== *)
theory Context
  imports StreamReaders
begin

text \<open>
  \<open>pyspark/conf.py\<close> and \<open>pyspark/context.py\<close>: the configuration object, the construction and the
  stopping of a \<open>SparkContext\<close> with the class attribute that allows one at a time, the files
  added to it, and how \<open>parallelize\<close> writes a collection to a file in batches and what the slices are
  read back as. The JVM's configuration and context, and its method that reads the file, are arguments.
\<close>

section \<open>The JVM\<close>

record 'j jvm =
  j_new_conf :: "bool \<Rightarrow> 'j"
  j_set :: "string \<Rightarrow> string \<Rightarrow> 'j \<Rightarrow> 'j"
  j_setMaster :: "string \<Rightarrow> 'j \<Rightarrow> 'j"
  j_setAppName :: "string \<Rightarrow> 'j \<Rightarrow> 'j"
  j_setSparkHome :: "string \<Rightarrow> 'j \<Rightarrow> 'j"
  j_setExecutorEnv :: "string \<Rightarrow> string \<Rightarrow> 'j \<Rightarrow> 'j"
  j_contains :: "'j \<Rightarrow> string \<Rightarrow> bool"
  j_get :: "'j \<Rightarrow> string \<Rightarrow> string"
  j_get_default :: "'j \<Rightarrow> string \<Rightarrow> string \<Rightarrow> string"
  j_getAll :: "'j \<Rightarrow> (string \<times> string) list"
  j_context :: "'j \<Rightarrow> unit res"
  j_root_directory :: string

section \<open>\<open>SparkConf\<close>\<close>

text \<open>The setters change the JVM's object and return the Python object, so that calls chain.\<close>

definition SparkConf :: "'j jvm \<Rightarrow> bool \<Rightarrow> 'j option \<Rightarrow> 'j" where
  "SparkConf jvm loadDefaults jconf = (case jconf of Some j \<Rightarrow> j | None \<Rightarrow> j_new_conf jvm loadDefaults)"

definition conf_set :: "'j jvm \<Rightarrow> string \<Rightarrow> string \<Rightarrow> 'j \<Rightarrow> 'j" where
  "conf_set jvm key value conf = j_set jvm key value conf"

definition conf_setMaster :: "'j jvm \<Rightarrow> string \<Rightarrow> 'j \<Rightarrow> 'j" where
  "conf_setMaster jvm value conf = j_setMaster jvm value conf"

definition conf_setAppName :: "'j jvm \<Rightarrow> string \<Rightarrow> 'j \<Rightarrow> 'j" where
  "conf_setAppName jvm value conf = j_setAppName jvm value conf"

definition conf_setSparkHome :: "'j jvm \<Rightarrow> string \<Rightarrow> 'j \<Rightarrow> 'j" where
  "conf_setSparkHome jvm value conf = j_setSparkHome jvm value conf"

text \<open>The value is passed on even when it is missing; Python's \<open>None\<close> is \<open>None\<close> here too.\<close>

definition conf_setExecutorEnv ::
  "'j jvm \<Rightarrow> (string \<times> string) option \<Rightarrow> (string \<times> string) list option \<Rightarrow> 'j \<Rightarrow> 'j res" where
  "conf_setExecutorEnv jvm kv pairs conf =
     (case (kv, pairs) of
        (Some (k, v), None) \<Rightarrow> Inr (j_setExecutorEnv jvm k v conf)
      | (None, Some ps) \<Rightarrow> Inr (fold (\<lambda>(k, v). j_setExecutorEnv jvm k v) ps conf)
      | _ \<Rightarrow> Inl (PyException ''Either pass one key-value pair or a list of pairs''))"

definition conf_setAll :: "'j jvm \<Rightarrow> (string \<times> string) list \<Rightarrow> 'j \<Rightarrow> 'j" where
  "conf_setAll jvm pairs conf = fold (\<lambda>(k, v). j_set jvm k v) pairs conf"

definition conf_get :: "'j jvm \<Rightarrow> string \<Rightarrow> string option \<Rightarrow> 'j \<Rightarrow> string option" where
  "conf_get jvm key defaultValue conf =
     (case defaultValue of
        None \<Rightarrow> if \<not> j_contains jvm conf key then None else Some (j_get jvm conf key)
      | Some d \<Rightarrow> Some (j_get_default jvm conf key d))"

definition conf_getAll :: "'j jvm \<Rightarrow> 'j \<Rightarrow> (string \<times> string) list" where
  "conf_getAll jvm conf = map (\<lambda>elem. (fst elem, snd elem)) (j_getAll jvm conf)"

definition conf_contains :: "'j jvm \<Rightarrow> string \<Rightarrow> 'j \<Rightarrow> bool" where
  "conf_contains jvm key conf = j_contains jvm conf key"

section \<open>Paths and strings\<close>

definition py_startswith :: "string \<Rightarrow> string \<Rightarrow> bool" where
  "py_startswith s p \<longleftrightarrow> take (length p) s = p"

definition py_endswith :: "string \<Rightarrow> string \<Rightarrow> bool" where
  "py_endswith s p \<longleftrightarrow> length p \<le> length s \<and> drop (length s - length p) s = p"

text \<open>\<open>os.path.split\<close>: the name after the last slash, and what is before it without its final slashes.\<close>

definition path_split :: "string \<Rightarrow> string \<times> string" where
  "path_split p =
     (let tail = rev (takeWhile (\<lambda>c. c \<noteq> CHR ''/'') (rev p));
          head = rev (dropWhile (\<lambda>c. c \<noteq> CHR ''/'') (rev p));
          stripped = rev (dropWhile (\<lambda>c. c = CHR ''/'') (rev head))
      in (if stripped = [] then head else stripped, tail))"

section \<open>\<open>SparkContext\<close> objects\<close>

text \<open>
  An object whose constructor raised has no \<open>_jsc\<close>, and no \<open>master\<close> and \<open>appName\<close> when it raised before
  the configuration was read back; \<open>sc_live\<close> says that \<open>_jsc\<close> is set to a JVM
  context and \<open>sc_server\<close> that \<open>_accumulatorServer\<close> is set.
\<close>

record ctx_obj =
  sc_constructed :: bool
  sc_live :: bool
  sc_server :: bool
  sc_conf :: nat
  sc_batchSize :: int
  sc_unbatched :: serializer
  sc_serializer :: serializer
  sc_master :: "string option"
  sc_appName :: "string option"
  sc_sparkHome :: "string option"
  sc_environment :: "(string, string) dict"
  sc_python_includes :: "string list"

text \<open>
  The class attributes, the objects and configurations that exist, the module path of the
  interpreter, and the files each JVM context was given.
\<close>

record 'j ctx_state =
  gateway :: bool
  active_spark_context :: "nat option"
  contexts :: "ctx_obj list"
  confs :: "'j list"
  interpreter_path :: "string list"
  added_files :: "(nat \<times> string) list"

definition initial_ctx :: "'j ctx_state" where
  "initial_ctx = \<lparr>gateway = False, active_spark_context = None, contexts = [], confs = [],
     interpreter_path = [], added_files = []\<rparr>"

definition blank_ctx :: ctx_obj where
  "blank_ctx = \<lparr>sc_constructed = False, sc_live = False, sc_server = False, sc_conf = 0, sc_batchSize = 0,
     sc_unbatched = PickleSer, sc_serializer = PickleSer, sc_master = None, sc_appName = None, sc_sparkHome = None,
     sc_environment = [], sc_python_includes = []\<rparr>"

definition ensure_initialized :: "nat option \<Rightarrow> 'j ctx_state \<Rightarrow> unit res \<times> 'j ctx_state" where
  "ensure_initialized instance_opt st =
     (let st1 = st\<lparr>gateway := True\<rparr>
      in case instance_opt of
           None \<Rightarrow> (Inr (), st1)
         | Some i \<Rightarrow>
             (case active_spark_context st1 of
                Some j \<Rightarrow>
                  if j \<noteq> i then
                    (Inl (if sc_master (contexts st1 ! j) = None then PyException ''AttributeError'' else ValueError), st1)
                  else (Inr (), st1\<lparr>active_spark_context := Some i\<rparr>)
              | None \<Rightarrow> (Inr (), st1\<lparr>active_spark_context := Some i\<rparr>)))"

record ctx_args =
  arg_master :: "string option"
  arg_appName :: "string option"
  arg_sparkHome :: "string option"
  arg_pyFiles :: "string list"
  arg_environment :: "(string, string) dict"
  arg_batchSize :: int
  arg_serializer :: serializer
  arg_conf :: "nat option"

definition update_ctx :: "nat \<Rightarrow> (ctx_obj \<Rightarrow> ctx_obj) \<Rightarrow> 'j ctx_state \<Rightarrow> 'j ctx_state" where
  "update_ctx i f st = st\<lparr>contexts := (contexts st)[i := f (contexts st ! i)]\<rparr>"

text \<open>An argument counts as given when it is neither \<open>None\<close> nor empty.\<close>

definition given :: "string option \<Rightarrow> bool" where
  "given s \<longleftrightarrow> s \<noteq> None \<and> s \<noteq> Some []"

definition configure :: "'j jvm \<Rightarrow> ctx_args \<Rightarrow> 'j \<Rightarrow> 'j" where
  "configure jvm args c0 =
     (let c1 = (if given (arg_master args) then conf_setMaster jvm (the (arg_master args)) c0 else c0);
          c2 = (if given (arg_appName args) then conf_setAppName jvm (the (arg_appName args)) c1 else c1);
          c3 = (if given (arg_sparkHome args) then conf_setSparkHome jvm (the (arg_sparkHome args)) c2 else c2)
      in fold (\<lambda>(k, v). j_setExecutorEnv jvm k v) (arg_environment args) c3)"

text \<open>The variables for the workers: those given, and those the configuration has for executors.\<close>

definition worker_environment :: "'j jvm \<Rightarrow> 'j \<Rightarrow> (string, string) dict \<Rightarrow> (string, string) dict" where
  "worker_environment jvm conf env0 =
     fold (\<lambda>(k, v) env. if py_startswith k ''spark.executorEnv.''
             then AList.update (drop (length ''spark.executorEnv.'') k) v env else env)
       (conf_getAll jvm conf) env0"

definition addFile :: "nat \<Rightarrow> string \<Rightarrow> 'j ctx_state \<Rightarrow> 'j ctx_state" where
  "addFile i path st = st\<lparr>added_files := added_files st @ [(i, path)]\<rparr>"

definition clearFiles :: "nat \<Rightarrow> 'j ctx_state \<Rightarrow> 'j ctx_state" where
  "clearFiles i st = st\<lparr>added_files := filter (\<lambda>(j, p). j \<noteq> i) (added_files st)\<rparr>"

definition addPyFile :: "'j jvm \<Rightarrow> nat \<Rightarrow> string \<Rightarrow> 'j ctx_state \<Rightarrow> 'j ctx_state" where
  "addPyFile jvm i path st =
     (let st1 = addFile i path st; (dirname, filename) = path_split path
      in if py_endswith filename ''.zip'' \<or> py_endswith filename ''.ZIP'' \<or> py_endswith filename ''.egg''
         then update_ctx i (\<lambda>c. c\<lparr>sc_python_includes := sc_python_includes c @ [filename]\<rparr>)
                (st1\<lparr>interpreter_path := interpreter_path st1 @ [path_join (j_root_directory jvm) filename]\<rparr>)
         else st1)"

text \<open>The files that were submitted with the application have been added to the context already.\<close>

definition submitted_file :: "nat \<Rightarrow> string \<Rightarrow> 'j ctx_state \<Rightarrow> 'j ctx_state" where
  "submitted_file i path st =
     (if path = [] then st
      else (let (dirname, filename) = path_split path;
                st1 = update_ctx i (\<lambda>c. c\<lparr>sc_python_includes := sc_python_includes c @ [filename]\<rparr>) st;
                p1 = interpreter_path st1 @ [path]
            in st1\<lparr>interpreter_path := (if dirname \<notin> set p1 then p1 @ [dirname] else p1)\<rparr>))"

definition context_serializer :: "serializer \<Rightarrow> int \<Rightarrow> serializer" where
  "context_serializer unbatched batchSize =
     (if batchSize = 1 then unbatched else BatchedSer unbatched batchSize)"

text \<open>The part of the constructor after the check for a running context.\<close>

definition construct :: "'j jvm \<Rightarrow> ctx_args \<Rightarrow> nat \<Rightarrow> 'j ctx_state \<Rightarrow> unit res \<times> 'j ctx_state" where
  "construct jvm args i st0 =
     (let (r, st1) = (case arg_conf args of
              Some r \<Rightarrow> (r, st0)
            | None \<Rightarrow> (length (confs st0), st0\<lparr>confs := confs st0 @ [SparkConf jvm True None]\<rparr>));
          conf = configure jvm args (confs st1 ! r);
          st2 = st1\<lparr>confs := (confs st1)[r := conf]\<rparr>
      in if \<not> conf_contains jvm ''spark.master'' conf
         then (Inl (PyException ''A master URL must be set in your configuration''), st2)
         else if \<not> conf_contains jvm ''spark.app.name'' conf
         then (Inl (PyException ''An application name must be set in your configuration''), st2)
         else (case j_context jvm conf of
             Inl e \<Rightarrow> (Inl e, update_ctx i (\<lambda>c. c\<lparr>sc_master := Some (j_get jvm conf ''spark.master''),
                 sc_appName := Some (j_get jvm conf ''spark.app.name'')\<rparr>) st2)
           | Inr _ \<Rightarrow>
               let obj = \<lparr>sc_constructed = True, sc_live = True, sc_server = True, sc_conf = r,
                     sc_batchSize = arg_batchSize args, sc_unbatched = arg_serializer args,
                     sc_serializer = context_serializer (arg_serializer args) (arg_batchSize args),
                     sc_master = Some (j_get jvm conf ''spark.master''), sc_appName = Some (j_get jvm conf ''spark.app.name''),
                     sc_sparkHome = conf_get jvm ''spark.home'' None conf,
                     sc_environment = worker_environment jvm conf (arg_environment args),
                     sc_python_includes = []\<rparr>;
                   st3 = update_ctx i (\<lambda>_. obj) st2;
                   st4 = st3\<lparr>interpreter_path := interpreter_path st3 @ [j_root_directory jvm]\<rparr>;
                   st5 = fold (addPyFile jvm i) (arg_pyFiles args) st4;
                   files = the (conf_get jvm ''spark.submit.pyFiles'' (Some []) conf)
               in (Inr (), fold (submitted_file i) (py_split (CHR '','') files) st5)))"

definition SparkContext :: "'j jvm \<Rightarrow> ctx_args \<Rightarrow> 'j ctx_state \<Rightarrow> nat res \<times> 'j ctx_state" where
  "SparkContext jvm args st =
     (let i = length (contexts st);
          st0 = st\<lparr>contexts := contexts st @ [blank_ctx]\<rparr>
      in case ensure_initialized (Some i) st0 of
           (Inl e, st1) \<Rightarrow> (Inl e, st1)
         | (Inr _, st1) \<Rightarrow> (case construct jvm args i st1 of (r, st2) \<Rightarrow> (map_res (\<lambda>_. i) r, st2)))"

text \<open>\<open>stop\<close>, which \<open>__del__\<close> calls too.\<close>

definition ctx_stop :: "nat \<Rightarrow> 'j ctx_state \<Rightarrow> unit res \<times> 'j ctx_state" where
  "ctx_stop i st =
     (if \<not> sc_constructed (contexts st ! i) then (Inl (PyException ''AttributeError''), st)
      else (Inr (), (update_ctx i (\<lambda>c. c\<lparr>sc_live := False, sc_server := False\<rparr>) st)\<lparr>active_spark_context := None\<rparr>))"

section \<open>Collections and files\<close>

text \<open>\<open>numSlices or self.defaultParallelism\<close>\<close>

definition py_or :: "int option \<Rightarrow> int \<Rightarrow> int" where
  "py_or x d = (case x of None \<Rightarrow> d | Some n \<Rightarrow> if n = 0 then d else n)"

text \<open>The serializer that \<open>parallelize\<close> writes the collection with.\<close>

definition slice_serializer :: "ctx_obj \<Rightarrow> nat \<Rightarrow> int \<Rightarrow> serializer res" where
  "slice_serializer sc len numSlices =
     (if numSlices = 0 then Inl ZeroDivisionError
      else let batchSize = min (int len div numSlices) (sc_batchSize sc)
           in Inr (if batchSize > 1 then BatchedSer (sc_unbatched sc) batchSize else sc_unbatched sc))"

text \<open>
  The bytes of the temporary file are what the JVM's \<open>PythonRDD.readRDDFromFile\<close> is called on; its
  answer is an RDD of byte arrays, the list of them for each slice.
\<close>

definition parallelize ::
  "'a codec \<Rightarrow> (bytes \<Rightarrow> int \<Rightarrow> bytes list list res) \<Rightarrow> int \<Rightarrow> ctx_obj \<Rightarrow> 'a pv list \<Rightarrow> int option \<Rightarrow>
     (serializer \<times> bytes list list) res" where
  "parallelize c readRDDFromFile defaultParallelism sc xs numSlices =
     (let n = py_or numSlices defaultParallelism
      in bind_res (slice_serializer sc (length xs) n) (\<lambda>ser.
           case ser_dump c ser (xs, None) of
             (tempFile, Some e) \<Rightarrow> Inl e
           | (tempFile, None) \<Rightarrow> map_res (\<lambda>jrdd. (ser, jrdd)) (readRDDFromFile tempFile n)))"

definition textFile_partitions :: "int \<Rightarrow> int option \<Rightarrow> int" where
  "textFile_partitions defaultParallelism minPartitions = py_or minPartitions (min defaultParallelism 2)"

text \<open>\<open>broadcast\<close>: the JVM's id for the pickled bytes, and the Python object with the driver's registry.\<close>

definition ctx_broadcast :: "(bytes \<Rightarrow> 'w \<Rightarrow> int \<times> 'w) \<Rightarrow> ('b \<Rightarrow> bytes res) \<Rightarrow> 'b \<Rightarrow> 'w \<Rightarrow> ('b broadcast \<times> 'w) res" where
  "ctx_broadcast jbroadcast dumps value w =
     bind_res (dumps value) (\<lambda>pickled.
       let (bid, w') = jbroadcast pickled w in Inr (Broadcast bid value True, w'))"

section \<open>Programs that make and stop contexts\<close>

datatype ctx_op = New ctx_args | Stop nat

fun ctx_step :: "'j jvm \<Rightarrow> ctx_op \<Rightarrow> 'j ctx_state \<Rightarrow> 'j ctx_state" where
  "ctx_step jvm (New args) st = snd (SparkContext jvm args st)"
| "ctx_step jvm (Stop i) st = (if i < length (contexts st) then snd (ctx_stop i st) else st)"

text \<open>Every program, and those that stop only contexts that are running.\<close>

inductive reaches :: "'j jvm \<Rightarrow> bool \<Rightarrow> 'j ctx_state \<Rightarrow> 'j ctx_state \<Rightarrow> bool" for jvm disciplined st where
  reaches_refl: "reaches jvm disciplined st st"
| reaches_step: "reaches jvm disciplined st st1 \<Longrightarrow>
    (\<forall>i. disciplined \<and> ev = Stop i \<longrightarrow> i < length (contexts st1) \<and> sc_live (contexts st1 ! i)) \<Longrightarrow>
    reaches jvm disciplined st (ctx_step jvm ev st1)"

definition live :: "'j ctx_state \<Rightarrow> nat list" where
  "live st = filter (\<lambda>i. sc_live (contexts st ! i)) [0 ..< length (contexts st)]"

text \<open>What the operations of a context leave alone.\<close>

definition same_life :: "'j ctx_state \<Rightarrow> 'j ctx_state \<Rightarrow> bool" where
  "same_life st st' \<longleftrightarrow> active_spark_context st' = active_spark_context st \<and>
     map (\<lambda>c. (sc_constructed c, sc_live c)) (contexts st') = map (\<lambda>c. (sc_constructed c, sc_live c)) (contexts st)"

lemma same_life_refl [simp]: "same_life st st"
  by (simp add: same_life_def)

lemma same_life_trans: "same_life st st1 \<Longrightarrow> same_life st1 st2 \<Longrightarrow> same_life st st2"
  by (simp add: same_life_def)

lemma same_life_update:
  "(\<And>c. sc_constructed (f c) = sc_constructed c \<and> sc_live (f c) = sc_live c) \<Longrightarrow> same_life st (update_ctx i f st)"
  by (simp add: same_life_def update_ctx_def map_update)
    (metis (mono_tags, lifting) list_update_beyond list_update_id map_update not_le_imp_less nth_map)

lemma same_life_addPyFile: "same_life st (addPyFile jvm i path st)"
  unfolding addPyFile_def Let_def
  by (auto split: prod.splits simp: same_life_def addFile_def
      intro!: same_life_trans [OF _ same_life_update, unfolded same_life_def, simplified])

lemma same_life_submitted: "same_life st (submitted_file i path st)"
proof (cases "path = []")
  case False
  obtain d f where p: "path_split path = (d, f)" by force
  have "same_life st (update_ctx i (\<lambda>c. c\<lparr>sc_python_includes := sc_python_includes c @ [f]\<rparr>) st)"
    by (rule same_life_update) simp
  then show ?thesis
    using False by (simp add: submitted_file_def p same_life_def Let_def)
qed (simp add: submitted_file_def)

lemma same_life_fold: "(\<And>x st. same_life st (g x st)) \<Longrightarrow> same_life st (fold g xs st)"
  by (induction xs arbitrary: st) (auto intro: same_life_trans)

lemma construct_life:
  assumes "construct jvm args i st = (r, st')"
  shows "active_spark_context st' = active_spark_context st \<and>
    (case r of Inl e \<Rightarrow> map (\<lambda>c. (sc_constructed c, sc_live c)) (contexts st') =
         map (\<lambda>c. (sc_constructed c, sc_live c)) (contexts st)
     | Inr _ \<Rightarrow> map (\<lambda>c. (sc_constructed c, sc_live c)) (contexts st') =
         (map (\<lambda>c. (sc_constructed c, sc_live c)) (contexts st))[i := (True, True)])"
proof -
  obtain q st1 where q: "(case arg_conf args of Some r \<Rightarrow> (r, st)
      | None \<Rightarrow> (length (confs st), st\<lparr>confs := confs st @ [SparkConf jvm True None]\<rparr>)) = (q, st1)"
    by force
  have st1: "active_spark_context st1 = active_spark_context st" "contexts st1 = contexts st"
    using q by (auto split: option.splits)
  let ?conf = "configure jvm args (confs st1 ! q)"
  let ?st2 = "st1\<lparr>confs := (confs st1)[q := ?conf]\<rparr>"
  show ?thesis
  proof (cases "conf_contains jvm ''spark.master'' ?conf \<and> conf_contains jvm ''spark.app.name'' ?conf \<and>
      (\<exists>x. j_context jvm ?conf = Inr x)")
    case False
    have "same_life ?st2 (update_ctx i (\<lambda>c. c\<lparr>sc_master := m, sc_appName := a\<rparr>) ?st2)" for m a
      by (rule same_life_update) simp
    then show ?thesis using False assms st1
      by (auto simp: construct_def q Let_def same_life_def split: if_splits sum.splits)
  next
    case True
    then obtain obj st3 where c: "r = Inr ()" "sc_constructed obj" "sc_live obj" "same_life st3 st'"
      "active_spark_context st3 = active_spark_context ?st2"
      "contexts st3 = contexts (update_ctx i (\<lambda>_. obj) ?st2)"
    proof -
      let ?obj = "\<lparr>sc_constructed = True, sc_live = True, sc_server = True, sc_conf = q,
                     sc_batchSize = arg_batchSize args, sc_unbatched = arg_serializer args,
                     sc_serializer = context_serializer (arg_serializer args) (arg_batchSize args),
                     sc_master = Some (j_get jvm ?conf ''spark.master''), sc_appName = Some (j_get jvm ?conf ''spark.app.name''),
                     sc_sparkHome = conf_get jvm ''spark.home'' None ?conf,
                     sc_environment = worker_environment jvm ?conf (arg_environment args),
                     sc_python_includes = []\<rparr>"
      let ?st3 = "update_ctx i (\<lambda>_. ?obj) ?st2"
      let ?st4 = "?st3\<lparr>interpreter_path := interpreter_path ?st3 @ [j_root_directory jvm]\<rparr>"
      let ?st5 = "fold (addPyFile jvm i) (arg_pyFiles args) ?st4"
      have "same_life ?st4 ?st5" by (rule same_life_fold) (rule same_life_addPyFile)
      moreover have "same_life ?st5 (fold (submitted_file i) ws ?st5)" for ws
        by (rule same_life_fold) (rule same_life_submitted)
      ultimately have "same_life ?st4 (fold (submitted_file i) ws ?st5)" for ws
        by (rule same_life_trans)
      moreover from True have "\<exists>ws. (r, st') = (Inr (), fold (submitted_file i) ws ?st5)"
        using assms by (auto simp: construct_def q Let_def)
      ultimately have "r = Inr ()" "same_life ?st4 st'" by auto
      then show thesis by (intro that [of ?obj ?st4]) (simp_all add: update_ctx_def)
    qed
    then show ?thesis
      using st1 by (auto simp: same_life_def update_ctx_def map_update)
  qed
qed

lemma SparkContext_life:
  assumes "SparkContext jvm args st = (r, st')"
  shows "case active_spark_context st of
      Some j \<Rightarrow> j \<noteq> length (contexts st) \<longrightarrow> active_spark_context st' = Some j \<and> contexts st' = contexts st @ [blank_ctx] \<and>
          r = Inl (if sc_master (contexts st' ! j) = None then PyException ''AttributeError'' else ValueError)
    | None \<Rightarrow> active_spark_context st' = Some (length (contexts st)) \<and>
        map (\<lambda>c. (sc_constructed c, sc_live c)) (contexts st') =
          map (\<lambda>c. (sc_constructed c, sc_live c)) (contexts st) @ [case r of Inl _ \<Rightarrow> (False, False) | Inr _ \<Rightarrow> (True, True)]"
proof (cases "active_spark_context st")
  case (Some j)
  then show ?thesis
    using assms by (auto simp: SparkContext_def ensure_initialized_def Let_def)
next
  case None
  let ?i = "length (contexts st)"
  let ?st1 = "st\<lparr>contexts := contexts st @ [blank_ctx], gateway := True, active_spark_context := Some ?i\<rparr>"
  obtain r' st2 where c: "construct jvm args ?i ?st1 = (r', st2)" by force
  have "r = map_res (\<lambda>_. ?i) r'" "st' = st2"
    using assms None c by (auto simp: SparkContext_def ensure_initialized_def Let_def)
  then show ?thesis
    using construct_life [OF c] None
    by (cases r') (simp_all add: blank_ctx_def list_update_append)
qed

text \<open>Every object whose constructor ended has the names of its configuration.\<close>

definition named :: "'j ctx_state \<Rightarrow> bool" where
  "named st \<longleftrightarrow> (\<forall>c\<in>set (contexts st). sc_constructed c \<longrightarrow> sc_master c \<noteq> None)"

lemma named_fields [simp]:
  "named (st\<lparr>interpreter_path := p\<rparr>) = named st" "named (st\<lparr>confs := cs\<rparr>) = named st"
  "named (st\<lparr>added_files := fs\<rparr>) = named st" "named (st\<lparr>active_spark_context := a\<rparr>) = named st"
  by (simp_all add: named_def)

lemma named_update:
  assumes "named st" and "\<And>c. (sc_constructed c \<longrightarrow> sc_master c \<noteq> None) \<Longrightarrow> sc_constructed (f c) \<longrightarrow> sc_master (f c) \<noteq> None"
  shows "named (update_ctx i f st)"
proof (cases "i < length (contexts st)")
  case True
  then have "sc_constructed (contexts st ! i) \<longrightarrow> sc_master (contexts st ! i) \<noteq> None" using assms(1) by (simp add: named_def)
  then have "sc_constructed (f (contexts st ! i)) \<longrightarrow> sc_master (f (contexts st ! i)) \<noteq> None" by (rule assms(2))
  then show ?thesis
    using assms(1) by (auto simp: named_def update_ctx_def dest!: set_update_subset_insert [THEN subsetD])
qed (use assms(1) in \<open>simp add: named_def update_ctx_def list_update_beyond\<close>)

lemma named_addPyFile: "named st \<Longrightarrow> named (addPyFile jvm i path st)"
  by (auto simp: addPyFile_def Let_def addFile_def split: prod.split intro!: named_update)

lemma named_submitted: "named st \<Longrightarrow> named (submitted_file i path st)"
proof -
  assume n: "named st"
  have "named (update_ctx i (\<lambda>c. c\<lparr>sc_python_includes := sc_python_includes c @ [f]\<rparr>) st)" for f
    by (rule named_update [OF n]) simp
  then show ?thesis using n by (simp add: submitted_file_def Let_def named_def split: prod.split)
qed

lemma named_fold: "(\<And>x st. named st \<Longrightarrow> named (g x st)) \<Longrightarrow> named st \<Longrightarrow> named (fold g xs st)"
  by (induction xs arbitrary: st) auto

lemma named_construct: "named st \<Longrightarrow> named (snd (construct jvm args i st))"
proof -
  assume n: "named st"
  show ?thesis
    using n unfolding construct_def Let_def
    by (cases "arg_conf args")
      (auto split: sum.split intro!: named_fold named_addPyFile named_submitted named_update)
qed

lemma named_SparkContext: "named st \<Longrightarrow> named (snd (SparkContext jvm args st))"
proof -
  assume n: "named st"
  let ?st0 = "st\<lparr>contexts := contexts st @ [blank_ctx]\<rparr>"
  obtain r st1 where e: "ensure_initialized (Some (length (contexts st))) ?st0 = (r, st1)" by force
  have "contexts st1 = contexts st @ [blank_ctx]"
    using e by (auto simp: ensure_initialized_def Let_def split: option.splits if_splits)
  then have "named st1" using n by (simp add: named_def blank_ctx_def)
  then have "named (snd (construct jvm args (length (contexts st)) st1))" by (rule named_construct)
  then show ?thesis using e \<open>named st1\<close>
    by (cases r) (auto simp: SparkContext_def Let_def split: prod.split)
qed

lemma named_stop: "named st \<Longrightarrow> named (snd (ctx_stop i st))"
  by (auto simp: ctx_stop_def intro!: named_update)

lemma named_step: "named st \<Longrightarrow> named (ctx_step jvm ev st)"
  by (cases ev) (simp_all add: named_SparkContext named_stop)

definition one_live :: "'j ctx_state \<Rightarrow> bool" where
  "one_live st \<longleftrightarrow> (\<forall>j. active_spark_context st = Some j \<longrightarrow> j < length (contexts st)) \<and>
     (\<forall>i < length (contexts st). sc_live (contexts st ! i) \<longrightarrow>
        sc_constructed (contexts st ! i) \<and> active_spark_context st = Some i)"

lemma life_nth:
  assumes "map (\<lambda>c. (sc_constructed c, sc_live c)) cs = map (\<lambda>c. (sc_constructed c, sc_live c)) cs0 @ [p]"
  shows "length cs = Suc (length cs0) \<and> (\<forall>i < length cs0. sc_constructed (cs ! i) = sc_constructed (cs0 ! i) \<and>
      sc_live (cs ! i) = sc_live (cs0 ! i)) \<and> (sc_constructed (cs ! length cs0), sc_live (cs ! length cs0)) = p"
proof -
  have l: "length cs = Suc (length cs0)"
    using arg_cong [OF assms, of length] by simp
  have "(sc_constructed (cs ! i), sc_live (cs ! i)) =
      (map (\<lambda>c. (sc_constructed c, sc_live c)) cs0 @ [p]) ! i" if "i < Suc (length cs0)" for i
    using that l assms by (metis (no_types, lifting) nth_map)
  note nth = this
  have "sc_constructed (cs ! i) = sc_constructed (cs0 ! i) \<and> sc_live (cs ! i) = sc_live (cs0 ! i)" if "i < length cs0" for i
    using nth [of i] that by (simp add: nth_append)
  moreover have "(sc_constructed (cs ! length cs0), sc_live (cs ! length cs0)) = p"
    using nth [of "length cs0"] by (simp add: nth_append)
  ultimately show ?thesis using l by blast
qed

lemma one_live_New: "one_live st \<Longrightarrow> one_live (snd (SparkContext jvm args st))"
proof -
  assume inv: "one_live st"
  obtain r st' where c: "SparkContext jvm args st = (r, st')" by force
  show ?thesis
  proof (cases "active_spark_context st")
    case (Some j)
    then have "active_spark_context st' = Some j" "contexts st' = contexts st @ [blank_ctx]"
      using SparkContext_life [OF c] inv by (auto simp: one_live_def)
    then show ?thesis
      using inv Some by (auto simp: c one_live_def nth_append blank_ctx_def less_Suc_eq)
  next
    case None
    then have "active_spark_context st' = Some (length (contexts st))" and
      m: "map (\<lambda>c. (sc_constructed c, sc_live c)) (contexts st') =
        map (\<lambda>c. (sc_constructed c, sc_live c)) (contexts st) @ [case r of Inl _ \<Rightarrow> (False, False) | Inr _ \<Rightarrow> (True, True)]"
      using SparkContext_life [OF c] by simp_all
    with life_nth [OF m] inv None show ?thesis
      by (auto simp: c one_live_def less_Suc_eq split: sum.splits)
  qed
qed

lemma one_live_only:
  "one_live st \<Longrightarrow> j < length (contexts st) \<Longrightarrow> sc_live (contexts st ! j) \<Longrightarrow>
     sc_constructed (contexts st ! j) \<and> active_spark_context st = Some j"
  unfolding one_live_def by blast

lemma one_live_Stop:
  assumes "one_live st" and "i < length (contexts st)" and "sc_live (contexts st ! i)"
  shows "one_live (snd (ctx_stop i st))"
proof -
  have i: "sc_constructed (contexts st ! i)" "active_spark_context st = Some i"
    using one_live_only [OF assms] by blast+
  have "j = i" if "j < length (contexts st)" "sc_live (contexts st ! j)" for j
    using one_live_only [OF assms(1) that] i(2) by simp
  then have off: "\<not> sc_live (contexts (snd (ctx_stop i st)) ! j)" if "j < length (contexts st)" for j
    using that assms(2) i(1) by (cases "j = i") (auto simp: ctx_stop_def update_ctx_def)
  moreover have "length (contexts (snd (ctx_stop i st))) = length (contexts st)"
    "active_spark_context (snd (ctx_stop i st)) = None"
    by (simp_all add: ctx_stop_def i(1) update_ctx_def)
  ultimately show ?thesis unfolding one_live_def by simp
qed

lemma live_at_most_one:
  assumes "\<forall>i. i \<in> set (live st) \<longrightarrow> active_spark_context st = Some i"
  shows "length (live st) \<le> 1"
proof -
  have "distinct (live st)" by (simp add: live_def)
  moreover have "set (live st) \<subseteq> {the (active_spark_context st)}" using assms by auto
  ultimately show ?thesis
    by (metis card.empty card_insert_disjoint card_mono distinct_card empty_iff finite.emptyI finite_insert One_nat_def)
qed

text \<open>No context was ever constructed, and the class attribute names one of the failed objects.\<close>

definition jammed :: "'j ctx_state \<Rightarrow> bool" where
  "jammed st \<longleftrightarrow> (\<exists>j < length (contexts st). active_spark_context st = Some j) \<and>
     (\<forall>i < length (contexts st). \<not> sc_constructed (contexts st ! i) \<and> \<not> sc_live (contexts st ! i))"

lemma jammed_New:
  assumes "jammed st"
  shows "fst (SparkContext jvm args st) \<in> {Inl ValueError, Inl (PyException ''AttributeError'')} \<and> jammed (snd (SparkContext jvm args st))"
proof -
  obtain r st' where c: "SparkContext jvm args st = (r, st')" by force
  obtain j where j: "j < length (contexts st)" "active_spark_context st = Some j"
    using assms by (auto simp: jammed_def)
  then have e: "r \<in> {Inl ValueError, Inl (PyException ''AttributeError'')}" "active_spark_context st' = Some j" "contexts st' = contexts st @ [blank_ctx]"
    using SparkContext_life [OF c] by auto
  have "\<not> sc_constructed (contexts st' ! i) \<and> \<not> sc_live (contexts st' ! i)" if "i < length (contexts st')" for i
  proof (cases "i < length (contexts st)")
    case True
    then show ?thesis using assms by (simp add: e jammed_def nth_append)
  next
    case False
    then have "i = length (contexts st)" using that by (simp add: e)
    then show ?thesis by (simp add: e blank_ctx_def)
  qed
  moreover have "j < length (contexts st') \<and> active_spark_context st' = Some j" using j e by simp
  ultimately have "jammed st'" unfolding jammed_def by blast
  then show ?thesis using e(1) by (simp add: c)
qed

lemma jammed_step: "jammed st \<Longrightarrow> jammed (ctx_step jvm ev st)"
  by (cases ev) (simp_all add: jammed_New, simp add: jammed_def ctx_stop_def)

lemma live_of_life:
  assumes "map (\<lambda>c. (sc_constructed c, sc_live c)) (contexts st) = ps"
  shows "live st = filter (\<lambda>i. snd (ps ! i)) [0 ..< length ps]"
proof -
  have l: "length (contexts st) = length ps" using arg_cong [OF assms, of length] by simp
  have "snd (ps ! i) = sc_live (contexts st ! i)" if "i < length ps" for i
    unfolding assms [symmetric] using that l by simp
  then show ?thesis unfolding live_def l by (intro filter_cong) simp_all
qed

lemma stop_life:
  assumes "i < length (contexts st)" and "fst (map (\<lambda>c. (sc_constructed c, sc_live c)) (contexts st) ! i)"
  shows "active_spark_context (snd (ctx_stop i st)) = None \<and>
    map (\<lambda>c. (sc_constructed c, sc_live c)) (contexts (snd (ctx_stop i st))) =
      (map (\<lambda>c. (sc_constructed c, sc_live c)) (contexts st))[i := (True, False)]"
  using assms by (simp add: ctx_stop_def update_ctx_def map_update)

text \<open>
  How the JVM spreads \<open>m\<close> frames over \<open>n\<close> slices: slice \<open>i\<close> gets the frames from \<open>i * m / n\<close> up to
  \<open>(i + 1) * m / n\<close>.
\<close>

definition even_slices :: "int \<Rightarrow> 'f list \<Rightarrow> 'f list list" where
  "even_slices n fs =
     (let m = length fs; k = nat n
      in map (\<lambda>i. take ((i + 1) * m div k - i * m div k) (drop (i * m div k) fs)) [0 ..< k])"

lemma concat_slices:
  assumes "\<And>i. f i \<le> f (Suc i)"
  shows "concat (map (\<lambda>i. take (f (Suc i) - f i) (drop (f i) fs)) [0 ..< k]) = take (f k - f 0) (drop (f 0) fs)"
proof (induction k)
  case (Suc k)
  have m: "f 0 \<le> f k" by (induction k) (auto intro: order_trans assms)
  have "concat (map (\<lambda>i. take (f (Suc i) - f i) (drop (f i) fs)) [0 ..< Suc k]) =
      take (f k - f 0) (drop (f 0) fs) @ take (f (Suc k) - f k) (drop (f k) fs)"
    using Suc.IH by simp
  also have "drop (f k) fs = drop (f k - f 0) (drop (f 0) fs)" using m by simp
  also have "take (f k - f 0) (drop (f 0) fs) @ take (f (Suc k) - f k) (drop (f k - f 0) (drop (f 0) fs)) =
      take ((f k - f 0) + (f (Suc k) - f k)) (drop (f 0) fs)"
    by (simp add: take_add)
  finally show ?case using m assms [of k] by simp
qed simp

lemma even_slices_parts:
  assumes "0 < n"
  shows "concat (even_slices n fs) = fs \<and> length (even_slices n fs) = nat n \<and>
    (nat n \<le> length fs \<longrightarrow> [] \<notin> set (even_slices n fs))"
proof -
  let ?k = "nat n" and ?m = "length fs"
  let ?f = "\<lambda>i. i * ?m div ?k"
  have k: "0 < ?k" using assms by simp
  have mono: "?f i \<le> ?f (Suc i)" for i by (rule div_le_mono) simp
  have "even_slices n fs = map (\<lambda>i. take (?f (Suc i) - ?f i) (drop (?f i) fs)) [0 ..< ?k]"
    by (simp add: even_slices_def Let_def)
  moreover have "concat (map (\<lambda>i. take (?f (Suc i) - ?f i) (drop (?f i) fs)) [0 ..< ?k]) = fs"
    using concat_slices [of ?f, OF mono, of fs ?k] k by simp
  moreover have "take (?f (Suc i) - ?f i) (drop (?f i) fs) \<noteq> []" if "i < ?k" "?k \<le> ?m" for i
  proof -
    have "?f i + 1 = (i * ?m + ?k) div ?k" using k by simp
    also have "\<dots> \<le> ?f (Suc i)" by (rule div_le_mono) (use that in simp)
    finally have step: "?f i < ?f (Suc i)" by simp
    have "0 < ?m" using that(2) k by linarith
    then have "i * ?m < ?m * ?k" using that by simp
    then have "?f i < ?m" by (rule less_mult_imp_div_less)
    then show ?thesis using step by simp
  qed
  ultimately show ?thesis by auto
qed

lemma concat_concats: "concat (map concat xss) = concat (concat xss)"
  by (induction xss) simp_all

lemma length_concat_bound:
  "\<forall>x\<in>set xs. int (length x) \<le> b \<Longrightarrow> int (length (concat xs)) \<le> b * int (length xs)"
  by (induction xs) (auto simp: algebra_simps)

lemma many_batches:
  assumes "0 < b" and "b * n \<le> int (length c)"
  shows "n \<le> int (length (batched b c))"
proof -
  have "\<forall>x\<in>set (batched b c). int (length x) \<le> b"
    using batched_sizes [OF assms(1)] by blast
  from length_concat_bound [OF this] have "int (length c) \<le> b * int (length (batched b c))" by simp
  then have "b * n \<le> b * int (length (batched b c))" using assms(2) by linarith
  then show ?thesis using assms(1) by simp
qed

section \<open>What the slices are read back as\<close>

text \<open>
  What is relied on of \<open>PythonRDD.readRDDFromFile\<close>: of a file of frames every slice gets a part of
  them, in order, and at least one when there are enough.
\<close>

definition reads_frames :: "(bytes \<Rightarrow> int \<Rightarrow> bytes list list res) \<Rightarrow> bool" where
  "reads_frames readRDDFromFile \<longleftrightarrow>
     (\<forall>fs n. 0 < n \<longrightarrow> (\<forall>f\<in>set fs. length f < 2 ^ 31) \<longrightarrow>
        (\<exists>jrdd. readRDDFromFile (concat (map frame_bytes fs)) n = Inr jrdd \<and> concat jrdd = fs \<and> length jrdd = nat n \<and>
           (nat n \<le> length fs \<longrightarrow> [] \<notin> set jrdd)))"

text \<open>
  What is relied on of the context's serializer: it is a framed one, and reads back what it writes for
  every element of the collection and for every list of successive elements.
\<close>

definition pickles :: "'a codec \<Rightarrow> serializer \<Rightarrow> 'a pv list \<Rightarrow> bool" where
  "pickles c s xs \<longleftrightarrow> s \<in> {PickleSer, CloudPickleSer, MarshalSer, NoOpSer} \<and>
     (\<forall>x\<in>set xs. holds c s (cd_dumps c s x) x) \<and>
     (\<forall>us ys vs. xs = us @ ys @ vs \<longrightarrow> ys \<noteq> [] \<longrightarrow> holds c s (cd_dumps c s (ListOf ys)) (ListOf ys))"

text \<open>The byte arrays of a slice go to a worker as a stream of frames, which the deserializer of the RDD reads.\<close>

definition slice_objects :: "'a codec \<Rightarrow> serializer \<Rightarrow> bytes list \<Rightarrow> 'a pv gen option" where
  "slice_objects c ser frames = ser_load c ser (concat (map frame_bytes frames))"

lemma batch_is_piece:
  assumes "b \<in> set (batched n xs)" shows "\<exists>us vs. xs = us @ b @ vs"
proof -
  obtain ps qs where "batched n xs = ps @ b # qs" using split_list [OF assms] by blast
  then have "xs = concat ps @ b @ concat qs" using concat_batched [of n xs] by simp
  then show ?thesis by blast
qed

lemma split_by_map:
  "concat parts = map f vs \<Longrightarrow> \<exists>vparts. parts = map (map f) vparts \<and> concat vparts = vs"
proof (induction parts arbitrary: vs)
  case (Cons p parts)
  then obtain us ws where "vs = us @ ws" "p = map f us" "concat parts = map f ws"
    by (auto simp: append_eq_map_conv)
  moreover obtain vparts where "parts = map (map f) vparts" "concat vparts = ws"
    using Cons.IH [OF \<open>concat parts = map f ws\<close>] by blast
  ultimately show ?case by (intro exI [of _ "us # vparts"]) simp
qed simp

lemma pickles_holds:
  assumes "pickles c s xs" "ser = (if b > 1 then BatchedSer s b else s)" "written ser xs = (s', vs)"
  shows "s' = s \<and> (\<forall>v\<in>set vs. holds c s (cd_dumps c s v) v)"
proof (cases "b > 1")
  case True
  have "holds c s (cd_dumps c s (ListOf ys)) (ListOf ys)" if ys: "ys \<in> set (batched b xs)" for ys
  proof -
    have "ys \<noteq> []" using batched_sizes [OF _ ys] True by simp
    then show ?thesis using batch_is_piece [OF ys] assms(1) by (auto simp: pickles_def)
  qed
  then show ?thesis using True assms by auto
next
  case False
  then have "written ser xs = (s, xs)" using assms by (auto simp: pickles_def)
  then show ?thesis using assms by (simp add: pickles_def)
qed

lemma slice_objects_back:
  assumes s: "s \<in> {PickleSer, CloudPickleSer, MarshalSer, NoOpSer}"
    and ser: "ser = (if b > 1 then BatchedSer s b else s)" and w: "written ser xs = (s, vs)"
    and h: "\<forall>v\<in>set vs. holds c s (cd_dumps c s v) v"
    and parts: "concat jrdd = map (cd_dumps c s) vs"
  shows "\<exists>slices. concat slices = xs \<and> length slices = length jrdd \<and>
    map (slice_objects c ser) jrdd = map (\<lambda>sl. Some (sl, None)) slices \<and> ([] \<notin> set jrdd \<longrightarrow> [] \<notin> set slices)"
proof -
  obtain vparts where v: "jrdd = map (map (cd_dumps c s)) vparts" "concat vparts = vs"
    using split_by_map [OF parts] by blast
  have hp: "\<forall>v\<in>set p. holds c s (cd_dumps c s v) v" if "p \<in> set vparts" for p
    using h that v(2) by auto
  show ?thesis
  proof (cases "b > 1")
    case True
    then have "vs = map ListOf (batched b xs)" using ser w by simp
    then obtain bparts where bp: "vparts = map (map ListOf) bparts" "concat bparts = batched b xs"
      using split_by_map [of vparts ListOf] v(2) by metis
    have ne: "[] \<notin> set (batched b xs)" using batched_sizes [of b] True by fastforce
    have read: "slice_objects c ser (map (cd_dumps c s) (map ListOf p)) = Some (concat p, None)" if "p \<in> set bparts" for p
    proof -
      have "list_all2 (holds c s) (map (cd_dumps c s) (map ListOf p)) (map ListOf p)"
        by (rule list_all2_dumps, rule hp) (use that bp(1) in simp)
      moreover have "load_gen ser = (GChain (GRead s) [] :: 'a generator)" using True s ser by auto
      ultimately show ?thesis
        using drain_batches [of c s "map (cd_dumps c s) (map ListOf p)" p "[]"] ser_load_empty [of c ser]
        by (simp add: slice_objects_def ser_load_def)
    qed
    have "concat (map concat bparts) = xs" using bp(2) concat_batched [of b xs] by (simp add: concat_concats)
    moreover have "map (slice_objects c ser) jrdd = map (\<lambda>sl. Some (sl, None)) (map concat bparts)"
      using read by (simp add: v(1) bp(1))
    moreover have ne': "concat p \<noteq> []" if "p \<in> set bparts" "p \<noteq> []" for p
    proof -
      obtain x p' where "p = x # p'" using \<open>p \<noteq> []\<close> by (cases p) auto
      moreover have "x \<in> set (concat bparts)" using that(1) calculation by force
      ultimately show ?thesis using ne bp(2) by auto
    qed
    moreover have "[] \<notin> set (map concat bparts)" if "[] \<notin> set jrdd"
    proof
      assume "[] \<in> set (map concat bparts)"
      then obtain p where p: "p \<in> set bparts" "concat p = []" by auto
      have "p \<noteq> []" using that p(1) by (force simp: v(1) bp(1))
      then show False using ne' p by blast
    qed
    moreover have "length (map concat bparts) = length jrdd" by (simp add: v(1) bp(1))
    ultimately show ?thesis by blast
  next
    case False
    then have vx: "vs = xs" "ser = s" using ser w s by auto
    have "slice_objects c ser (map (cd_dumps c s) p) = Some (p, None)" if "p \<in> set vparts" for p
    proof -
      have "load_gen ser = (GRead s :: 'a generator)" using vx(2) s by auto
      then show ?thesis
        using drain_frames [OF list_all2_dumps [OF hp [OF that]], of "[]"] ser_load_empty [of c ser]
        by (simp add: slice_objects_def ser_load_def)
    qed
    then show ?thesis using v vx by (intro exI [of _ vparts]) auto
  qed
qed

text \<open>The objects of the slices, when they are opaque to the serializers, as the programs use them.\<close>

fun opaque :: "'a pv \<Rightarrow> 'a res" where
  "opaque (Obj x) = Inr x"
| "opaque v = Inl TypeError"

fun read_slices :: "'a codec \<Rightarrow> serializer \<Rightarrow> bytes list list \<Rightarrow> 'a list list res option" where
  "read_slices c ser [] = Some (Inr [])"
| "read_slices c ser (p # ps) =
     (case slice_objects c ser p of
        None \<Rightarrow> None
      | Some (vs, Some e) \<Rightarrow> Some (Inl e)
      | Some (vs, None) \<Rightarrow>
          (case mapM_res opaque vs of
             Inl e \<Rightarrow> Some (Inl e)
           | Inr xs \<Rightarrow> map_option (map_res (\<lambda>xss. xs # xss)) (read_slices c ser ps)))"

lemma mapM_opaque: "mapM_res opaque (map Obj xs) = Inr xs"
  by (induction xs) simp_all

lemma read_slices_back:
  "map (slice_objects c ser) jrdd = map (\<lambda>sl. Some (map Obj sl, None)) slices \<Longrightarrow>
     read_slices c ser jrdd = Some (Inr slices)"
proof (induction jrdd arbitrary: slices)
  case (Cons p ps)
  then obtain sl sls where "slices = sl # sls" by (cases slices) auto
  then show ?case using Cons by (simp add: mapM_opaque)
qed simp

lemma parallelize_parts:
  assumes n: "0 < py_or numSlices defaultParallelism" and jvm: "reads_frames readRDDFromFile"
    and codec: "pickles c (sc_unbatched sc) xs"
  shows "\<exists>ser jrdd slices. parallelize c readRDDFromFile defaultParallelism sc xs numSlices = Inr (ser, jrdd) \<and>
    map (slice_objects c ser) jrdd = map (\<lambda>sl. Some (sl, None)) slices \<and>
    concat slices = xs \<and> length slices = nat (py_or numSlices defaultParallelism) \<and>
    (nat (py_or numSlices defaultParallelism) \<le> length xs \<longrightarrow> [] \<notin> set slices) \<and>
    (ser = sc_unbatched sc \<or> (\<exists>b. ser = BatchedSer (sc_unbatched sc) b \<and> 1 < b \<and> b \<le> sc_batchSize sc))"
proof -
  let ?n = "py_or numSlices defaultParallelism" and ?s = "sc_unbatched sc"
  let ?b = "min (int (length xs) div ?n) (sc_batchSize sc)"
  let ?ser = "if ?b > 1 then BatchedSer ?s ?b else ?s"
  have s: "?s \<in> {PickleSer, CloudPickleSer, MarshalSer, NoOpSer}" using codec by (simp add: pickles_def)
  obtain s' vs where w0: "written ?ser xs = (s', vs)" by force
  have w: "written ?ser xs = (?s, vs)" and h: "\<forall>v\<in>set vs. holds c ?s (cd_dumps c ?s v) v"
    using pickles_holds [OF codec refl w0] w0 by simp_all
  have wr: "writable c ?ser xs" and fw: "frames_written c ?ser xs = map (cd_dumps c ?s) vs"
    unfolding writable_def frames_written_def w using s h by simp_all
  have short: "\<forall>f\<in>set (map (cd_dumps c ?s) vs). length f < 2 ^ 31" using h by (simp add: holds_def)
  from jvm n short obtain jrdd where jrdd: "readRDDFromFile (concat (map frame_bytes (map (cd_dumps c ?s) vs))) ?n = Inr jrdd"
      "concat jrdd = map (cd_dumps c ?s) vs" "length jrdd = nat ?n" "nat ?n \<le> length vs \<longrightarrow> [] \<notin> set jrdd"
    unfolding reads_frames_def by (metis length_map)
  have par: "parallelize c readRDDFromFile defaultParallelism sc xs numSlices = Inr (?ser, jrdd)"
    using n jrdd(1) dump_written [OF wr] unfolding fw by (simp add: parallelize_def slice_serializer_def Let_def)
  have "?b * ?n \<le> int (length xs)" if "0 < ?b"
  proof -
    have "?b * ?n \<le> (int (length xs) div ?n) * ?n" using n by (intro mult_right_mono) simp_all
    also have "\<dots> \<le> int (length xs)" using n by (simp add: minus_mod_eq_div_mult [symmetric])
    finally show ?thesis .
  qed
  then have "nat ?n \<le> length vs" if "nat ?n \<le> length xs"
    using w that s many_batches [of ?b ?n xs] by (cases "?b > 1") auto
  then show ?thesis
    using slice_objects_back [OF s refl w h jrdd(2)] jrdd(3,4) par by fastforce
qed

lemma parallelize_elements:
  assumes "0 < py_or numSlices defaultParallelism" and "reads_frames readRDDFromFile"
    and "pickles c (sc_unbatched sc) (map Obj ys)"
  shows "\<exists>ser jrdd slices. parallelize c readRDDFromFile defaultParallelism sc (map Obj ys) numSlices = Inr (ser, jrdd) \<and>
    read_slices c ser jrdd = Some (Inr slices) \<and> concat slices = ys"
proof -
  obtain ser jrdd slices where p: "parallelize c readRDDFromFile defaultParallelism sc (map Obj ys) numSlices = Inr (ser, jrdd)"
      "map (slice_objects c ser) jrdd = map (\<lambda>sl. Some (sl, None)) slices" "concat slices = map Obj ys"
    using parallelize_parts [OF assms] by blast
  obtain yss where y: "slices = map (map Obj) yss" "concat yss = ys" using split_by_map [OF p(3)] by blast
  have "read_slices c ser jrdd = Some (Inr yss)" by (rule read_slices_back) (use p(2) y(1) in simp)
  then show ?thesis using p(1) y(2) by blast
qed

text \<open>A JVM that reads the frames of the file and spreads them evenly.\<close>

definition even_read :: "bytes \<Rightarrow> int \<Rightarrow> bytes list list res" where
  "even_read s n = Inr (even_slices n (fst (data_frames s)))"

lemma even_read_reads: "reads_frames even_read"
  unfolding reads_frames_def
proof (intro allI impI)
  fix fs n assume a: "0 < (n :: int)" "\<forall>f\<in>set fs. length (f :: bytes) < 2 ^ 31"
  have "data_frames (concat (map frame_bytes fs) @ []) = (fs, [])"
    by (rule data_frames_frames) (use a(2) in \<open>auto simp: read_frame_def read_int_def read_num_def stream_read_def\<close>)
  then show "\<exists>jrdd. even_read (concat (map frame_bytes fs)) n = Inr jrdd \<and> concat jrdd = fs \<and> length jrdd = nat n \<and>
      (nat n \<le> length fs \<longrightarrow> [] \<notin> set jrdd)"
    using even_slices_parts [OF a(1), of fs] by (simp add: even_read_def)
qed

text \<open>
  A codec for opaque objects that a number stands for: the number is written as that many ones and a
  zero, after a mark for an object or a list of them.
\<close>

definition unary_bytes :: "nat \<Rightarrow> bytes" where
  "unary_bytes n = replicate n 1 @ [0]"

fun unary_decode :: "nat \<Rightarrow> bytes \<Rightarrow> nat list" where
  "unary_decode n [] = []"
| "unary_decode n (b # bs) = (if b = 0 then n # unary_decode 0 bs else unary_decode (n + 1) bs)"

definition number_of :: "('a \<Rightarrow> nat) \<Rightarrow> 'a pv \<Rightarrow> nat" where
  "number_of enc v = (case v of Obj x \<Rightarrow> enc x | _ \<Rightarrow> 0)"

definition unary_codec :: "('a \<Rightarrow> nat) \<Rightarrow> (nat \<Rightarrow> 'a) \<Rightarrow> 'a codec" where
  "unary_codec enc dec =
     \<lparr>cd_dumps = (\<lambda>s v. case v of
        ListOf vs \<Rightarrow> 1 # concat (map (\<lambda>v. unary_bytes (number_of enc v)) vs)
      | v \<Rightarrow> 0 # unary_bytes (number_of enc v)),
      cd_loads = (\<lambda>s b. case b of
        [] \<Rightarrow> Inl PicklingError
      | m # bs \<Rightarrow> Inr (if m = 1 then ListOf (map (\<lambda>n. Obj (dec n)) (unary_decode 0 bs)) else Obj (dec (hd (unary_decode 0 bs))))),
      cd_decode = (\<lambda>b. Inl ValueError)\<rparr>"

lemma unary_decode_bytes: "unary_decode k (unary_bytes n @ bs) = (k + n) # unary_decode 0 bs"
  by (induction n arbitrary: k) (simp_all add: unary_bytes_def)

lemma unary_decode_concat: "unary_decode 0 (concat (map (\<lambda>v. unary_bytes (f v)) vs)) = map f vs"
  by (induction vs) (simp_all add: unary_decode_bytes)

lemma unary_codec_pickles:
  assumes "\<forall>x\<in>set xs. dec (enc x) = x \<and> enc x < B" and "length xs * B + 2 < 2 ^ 31" and "xs \<noteq> []"
  shows "pickles (unary_codec enc dec) PickleSer (map Obj xs)"
proof -
  let ?c = "unary_codec enc dec"
  have len: "length (concat (map (\<lambda>v. unary_bytes (number_of enc v)) (map Obj ys))) \<le> length ys * B" if "set ys \<subseteq> set xs" for ys
    using that assms(1) by (induction ys) (auto simp: unary_bytes_def number_of_def Suc_le_eq intro!: add_mono)
  have one: "holds ?c PickleSer (cd_dumps ?c PickleSer (Obj x)) (Obj x)" if x: "x \<in> set xs" for x
  proof -
    have "enc x < B" "dec (enc x) = x" using assms(1) x by auto
    moreover have "B \<le> length xs * B" using assms(3) by (cases xs) auto
    ultimately have "enc x + 2 < 2 ^ 31" "dec (enc x) = x" using assms(2) by linarith+
    then show ?thesis
      using unary_decode_bytes [of 0 "enc x" "[]"]
      by (simp add: holds_def unary_codec_def number_of_def unary_bytes_def)
  qed
  have list: "holds ?c PickleSer (cd_dumps ?c PickleSer (ListOf (map Obj ys))) (ListOf (map Obj ys))"
    if ys: "set ys \<subseteq> set xs" "length ys \<le> length xs" for ys
  proof -
    have "length ys * B \<le> length xs * B" using ys(2) by (rule mult_le_mono1)
    then have "length (concat (map (\<lambda>v. unary_bytes (number_of enc v)) (map Obj ys))) + 1 < 2 ^ 31"
      using len [OF ys(1)] assms(2) by linarith
    then have "length (cd_dumps ?c PickleSer (ListOf (map Obj ys))) < 2 ^ 31" by (simp add: unary_codec_def)
    moreover have "map (\<lambda>n. Obj (dec n)) (map (number_of enc) (map Obj ys)) = map Obj ys"
      using ys(1) assms(1) by (auto simp: number_of_def)
    ultimately show ?thesis
      using unary_decode_concat [of "number_of enc" "map Obj ys"]
      by (simp add: holds_def unary_codec_def del: map_map)
  qed
  have "holds ?c PickleSer (cd_dumps ?c PickleSer (ListOf ys)) (ListOf ys)" if eq: "map Obj xs = us @ ys @ vs" for us ys vs
  proof -
    obtain us' zs where "xs = us' @ zs" "ys @ vs = map Obj zs"
      using eq by (auto simp: map_eq_append_conv)
    moreover then obtain ys' vs' where "zs = ys' @ vs'" "ys = map Obj ys'"
      by (auto simp: append_eq_map_conv)
    ultimately have "xs = us' @ ys' @ vs'" "ys = map Obj ys'" by simp_all
    then show ?thesis using list [of ys'] by auto
  qed
  then show ?thesis using one by (auto simp: pickles_def)
qed

section \<open>Properties\<close>

text \<open>
  C10: in a program that stops only running contexts, at most one context is running at any time;
  it is the one the class attribute names, and while it runs every further constructor raises
  \<open>ValueError\<close>.
\<close>

theorem one_running_context:
  assumes "reaches jvm True initial_ctx st"
  shows "length (live st) \<le> 1 \<and> (\<forall>i. i \<in> set (live st) \<longrightarrow> active_spark_context st = Some i) \<and>
    (live st \<noteq> [] \<longrightarrow> fst (SparkContext jvm args st) = Inl ValueError)"
proof -
  have inv: "one_live st" and named: "named st"
    using assms
  proof (induction rule: reaches.induct)
    case reaches_refl
    show "one_live initial_ctx" "named initial_ctx" by (simp_all add: one_live_def named_def initial_ctx_def)
  next
    case (reaches_step st1 ev)
    then show "one_live (ctx_step jvm ev st1)"
      by (cases ev) (simp_all add: one_live_New one_live_Stop)
    show "named (ctx_step jvm ev st1)" by (rule named_step [OF reaches_step.IH(2)])
  qed
  have a: "\<forall>i. i \<in> set (live st) \<longrightarrow> active_spark_context st = Some i"
  proof (intro allI impI)
    fix i assume "i \<in> set (live st)"
    then have "i < length (contexts st)" "sc_live (contexts st ! i)" by (simp_all add: live_def)
    then show "active_spark_context st = Some i" using one_live_only [OF inv] by blast
  qed
  have "fst (SparkContext jvm args st) = Inl ValueError" if "live st \<noteq> []"
  proof -
    obtain i where i: "i \<in> set (live st)" using \<open>live st \<noteq> []\<close> by (cases "live st") auto
    then have act: "active_spark_context st = Some i" using a by blast
    have l: "i < length (contexts st)" "sc_live (contexts st ! i)" using i by (auto simp: live_def)
    then have "sc_master (contexts st ! i) \<noteq> None"
      using one_live_only [OF inv] named by (simp add: named_def)
    then show ?thesis
      using act l SparkContext_life [of jvm args st] by (cases "SparkContext jvm args st") (auto simp: nth_append)
  qed
  then show ?thesis using a live_at_most_one [OF a] by blast
qed

text \<open>A JVM whose configuration is an association list.\<close>

definition dict_jvm :: "(string, string) dict jvm" where
  "dict_jvm =
     \<lparr>j_new_conf = (\<lambda>_. []), j_set = AList.update, j_setMaster = AList.update ''spark.master'',
      j_setAppName = AList.update ''spark.app.name'', j_setSparkHome = AList.update ''spark.home'',
      j_setExecutorEnv = (\<lambda>k. AList.update (''spark.executorEnv.'' @ k)),
      j_contains = (\<lambda>d k. map_of d k \<noteq> None), j_get = (\<lambda>d k. the (map_of d k)),
      j_get_default = (\<lambda>d k v. case map_of d k of None \<Rightarrow> v | Some x \<Rightarrow> x),
      j_getAll = (\<lambda>d. d), j_context = (\<lambda>_. Inr ()), j_root_directory = ''/r''\<rparr>"

definition local_args :: "string option \<Rightarrow> ctx_args" where
  "local_args master =
     \<lparr>arg_master = master, arg_appName = Some ''a'', arg_sparkHome = None, arg_pyFiles = [''lib.zip''],
      arg_environment = [], arg_batchSize = 1024, arg_serializer = PickleSer, arg_conf = None\<rparr>"

definition one_context :: "(string, string) dict ctx_state" where
  "one_context = snd (SparkContext dict_jvm (local_args (Some ''local'')) initial_ctx)"

lemma local_ok: "active_spark_context st = None \<Longrightarrow>
    fst (SparkContext dict_jvm (local_args (Some ''local'')) st) = Inr (length (contexts st))"
  by (auto simp: SparkContext_def ensure_initialized_def construct_def local_args_def dict_jvm_def
      configure_def given_def conf_contains_def conf_setMaster_def conf_setAppName_def SparkConf_def Let_def)

lemma one_context_live: "live one_context = [0]"
  using SparkContext_life [of dict_jvm "local_args (Some ''local'')" initial_ctx "Inr 0" one_context]
    local_ok [of initial_ctx] life_nth [of "contexts one_context" "[]" "(True, True)"]
  by (cases "SparkContext dict_jvm (local_args (Some ''local'')) initial_ctx")
    (simp add: initial_ctx_def one_context_def live_def)

theorem one_running_context_witness:
  "live one_context = [0] \<and>
    fst (SparkContext dict_jvm (local_args None) one_context) = Inl ValueError"
proof -
  have "reaches dict_jvm True initial_ctx (ctx_step dict_jvm (New (local_args (Some ''local''))) initial_ctx)"
    by (rule reaches_step [OF reaches_refl]) simp
  then have "reaches dict_jvm True initial_ctx one_context" by (simp add: one_context_def)
  from one_running_context [OF this, of "local_args None"] show ?thesis by (simp add: one_context_live)
qed

text \<open>
  When the first constructor raises, because the configuration names no master or no
  application or the JVM refuses it, then no context can ever be made in the process: every later
  constructor raises, whatever is stopped in between: \<open>ValueError\<close>, or \<open>AttributeError\<close> because the failed
  object has no \<open>master\<close> to put into the message.
\<close>

theorem failed_constructor_is_final:
  assumes "SparkContext jvm args initial_ctx = (Inl e, st)" and "reaches jvm False st st'"
  shows "fst (SparkContext jvm args' st') \<in> {Inl ValueError, Inl (PyException ''AttributeError'')} \<and> live st' = []"
proof -
  have m: "map (\<lambda>c. (sc_constructed c, sc_live c)) (contexts st) =
      map (\<lambda>c. (sc_constructed c, sc_live c)) [] @ [(False, False)]" "active_spark_context st = Some 0"
    using SparkContext_life [OF assms(1)] by (simp_all add: initial_ctx_def)
  have "jammed st"
    using life_nth [OF m(1)] m(2) by (simp add: jammed_def)
  from assms(2) this have "jammed st'"
  proof (induction rule: reaches.induct)
    case (reaches_step st1 ev)
    then show ?case by (simp add: jammed_step)
  qed
  then show ?thesis
    using jammed_New [of st' jvm args'] by (simp add: jammed_def live_def filter_empty_conv)
qed

theorem failed_constructor_is_final_witness:
  "fst (SparkContext dict_jvm (local_args (Some ''local''))
      (snd (SparkContext dict_jvm (local_args None) initial_ctx))) \<in> {Inl ValueError, Inl (PyException ''AttributeError'')}"
proof -
  have "SparkContext dict_jvm (local_args None) initial_ctx =
      (Inl (PyException ''A master URL must be set in your configuration''),
       snd (SparkContext dict_jvm (local_args None) initial_ctx))"
    by (simp add: SparkContext_def ensure_initialized_def construct_def local_args_def dict_jvm_def initial_ctx_def
        configure_def given_def conf_contains_def conf_setAppName_def SparkConf_def Let_def)
  from failed_constructor_is_final [OF this reaches_refl] show ?thesis by blast
qed

text \<open>
  Stopping a context a second time, as its finalizer does when the object is collected, clears
  the class attribute although another context is running, and a second context can then be
  started beside it.
\<close>

theorem stale_stop_admits_second:
  assumes "\<forall>st. active_spark_context st = None \<longrightarrow> fst (SparkContext jvm args st) = Inr (length (contexts st))"
  shows "live (fold (ctx_step jvm) [New args, Stop 0, New args, Stop 0, New args] initial_ctx) = [1, 2]"
proof -
  let ?L = "\<lambda>st. map (\<lambda>c. (sc_constructed c, sc_live c)) (contexts st)"
  have new: "?L (ctx_step jvm (New args) st) = ?L st @ [(True, True)]" if "active_spark_context st = None" for st :: "'a ctx_state"
  proof -
    obtain r st' where c: "SparkContext jvm args st = (r, st')" by force
    then have "r = Inr (length (contexts st))" using assms that by (metis fst_conv)
    then show ?thesis using SparkContext_life [OF c] that by (simp add: c)
  qed
  have stop: "active_spark_context (ctx_step jvm (Stop 0) st) = None \<and> ?L (ctx_step jvm (Stop 0) st) = (?L st)[0 := (True, False)]"
    if "?L st = (True, b) # ps" for st :: "'a ctx_state" and b ps
  proof -
    have l: "0 < length (contexts st)" using that by (cases "contexts st") auto
    then have "fst (?L st ! 0)" by (simp only: that) simp
    from stop_life [OF l this] show ?thesis using l by simp
  qed
  define s1 where "s1 = ctx_step jvm (New args) initial_ctx"
  define s2 where "s2 = ctx_step jvm (Stop 0) s1"
  define s3 where "s3 = ctx_step jvm (New args) s2"
  define s4 where "s4 = ctx_step jvm (Stop 0) s3"
  define s5 where "s5 = ctx_step jvm (New args) s4"
  have 1: "?L s1 = [(True, True)]" unfolding s1_def by (subst new) (simp_all add: initial_ctx_def)
  have 2: "active_spark_context s2 = None" "?L s2 = [(True, False)]" unfolding s2_def using stop [OF 1] 1 by simp_all
  have 3: "?L s3 = [(True, False), (True, True)]" unfolding s3_def using new [OF 2(1)] 2(2) by simp
  have 4: "active_spark_context s4 = None" "?L s4 = [(True, False), (True, True)]"
    unfolding s4_def using stop [OF 3] 3 by simp_all
  have 5: "?L s5 = [(True, False), (True, True), (True, True)]" unfolding s5_def using new [OF 4(1)] 4(2) by simp
  have "live s5 = [1, 2]" unfolding live_of_life [OF 5] by (simp add: upt_rec)
  then show ?thesis by (simp add: s5_def s4_def s3_def s2_def s1_def)
qed

theorem stale_stop_admits_second_witness:
  "live (fold (ctx_step dict_jvm) [New (local_args (Some ''local'')), Stop 0, New (local_args (Some ''local'')), Stop 0,
      New (local_args (Some ''local''))] initial_ctx) = [1, 2]"
  by (rule stale_stop_admits_second) (simp add: local_ok)

text \<open>
  C15: \<open>parallelize\<close> writes the collection to a file and the slices that the JVM makes of the file are
  read back by the RDD's deserializer as the collection, in order and in as many slices as asked for;
  it is written in batches no longer than the batch size of the context; and when there are at least
  as many elements as slices, every slice gets some.
\<close>

theorem parallelize_distributes:
  assumes "0 < py_or numSlices defaultParallelism" and "reads_frames readRDDFromFile"
    and "pickles c (sc_unbatched sc) xs"
  shows "\<exists>ser jrdd slices. parallelize c readRDDFromFile defaultParallelism sc xs numSlices = Inr (ser, jrdd) \<and>
    map (\<lambda>frames. ser_load c ser (concat (map frame_bytes frames))) jrdd = map (\<lambda>sl. Some (sl, None)) slices \<and>
    concat slices = xs \<and> length slices = nat (py_or numSlices defaultParallelism) \<and>
    (nat (py_or numSlices defaultParallelism) \<le> length xs \<longrightarrow> [] \<notin> set slices) \<and>
    (ser = sc_unbatched sc \<or> (\<exists>b. ser = BatchedSer (sc_unbatched sc) b \<and> 1 < b \<and> b \<le> sc_batchSize sc))"
  using parallelize_parts [OF assms] by (simp add: slice_objects_def [abs_def])

theorem parallelize_distributes_witness:
  "\<exists>ser jrdd slices. parallelize (unary_codec id id) even_read 2 (blank_ctx\<lparr>sc_batchSize := 1024\<rparr>) (map Obj [1, 2, 3, 4, 5]) None =
      Inr (ser, jrdd) \<and>
    map (\<lambda>frames. ser_load (unary_codec id id) ser (concat (map frame_bytes frames))) jrdd = map (\<lambda>sl. Some (sl, None)) slices \<and>
    concat slices = map Obj [1, 2, 3, 4, 5] \<and> length slices = 2 \<and> [] \<notin> set slices"
proof -
  have "pickles (unary_codec id id) (sc_unbatched (blank_ctx\<lparr>sc_batchSize := 1024\<rparr>)) (map Obj [1, 2, 3, 4, 5])"
    using unary_codec_pickles [of "[1, 2, 3, 4, 5]" id id 10] by (simp add: blank_ctx_def)
  then have "\<exists>ser jrdd slices. parallelize (unary_codec id id) even_read 2 (blank_ctx\<lparr>sc_batchSize := 1024\<rparr>) (map Obj [1, 2, 3, 4, 5]) None =
      Inr (ser, jrdd) \<and>
    map (\<lambda>frames. ser_load (unary_codec id id) ser (concat (map frame_bytes frames))) jrdd = map (\<lambda>sl. Some (sl, None)) slices \<and>
    concat slices = map Obj [1, 2, 3, 4, 5] \<and> length slices = nat (py_or None 2) \<and>
    (nat (py_or None 2) \<le> length (map Obj [1, 2, 3, 4, 5 :: nat]) \<longrightarrow> [] \<notin> set slices) \<and>
    (ser = sc_unbatched (blank_ctx\<lparr>sc_batchSize := 1024\<rparr>) \<or>
      (\<exists>b. ser = BatchedSer (sc_unbatched (blank_ctx\<lparr>sc_batchSize := 1024\<rparr>)) b \<and> 1 < b \<and>
        b \<le> sc_batchSize (blank_ctx\<lparr>sc_batchSize := 1024\<rparr>)))"
    by (intro parallelize_distributes even_read_reads) (simp_all add: py_or_def)
  then show ?thesis by (auto simp: py_or_def)
qed
end
