(* ===== verification/MLModels.thy ===== *)
theory MLModels
  imports MLCommon StatCounters
begin

text \<open>
  \<open>pyspark/mllib/regression.py\<close>, \<open>classification.py\<close>, \<open>clustering.py\<close> and \<open>recommendation.py\<close>, with
  \<open>_dot\<close> and \<open>_squared_distance\<close> of \<open>_common.py\<close>: labeled points, what the trained models predict,
  and how a training call checks what the JVM returns. Predictions compute on real numbers; the
  training itself runs in the JVM and is an argument.
\<close>

section \<open>Vectors of every supported type\<close>

definition LabeledPoint :: "bool \<Rightarrow> 'l \<Rightarrow> 'v vec_obj \<Rightarrow> ('l \<times> 'v vec_obj) res" where
  "LabeledPoint have_scipy label features =
     (case features of
        NdArray a \<Rightarrow> Inr (label, features)
      | Sparse v \<Rightarrow> Inr (label, features)
      | SciPy cols n is' xs \<Rightarrow> if have_scipy then Inr (label, features) else Inl TypeError
      | PyList xs \<Rightarrow> Inr (label, NdArray \<lparr>nd_dtype = Float64, nd_shape = [length xs], nd_data = xs\<rparr>)
      | _ \<Rightarrow> Inl TypeError)"

text \<open>NumPy's dot product of a vector with a vector, or with each column of a matrix.\<close>

definition np_dot1 :: "real list \<Rightarrow> real list \<Rightarrow> real res" where
  "np_dot1 xs ys = (if length xs = length ys then Inr (\<Sum>k<length xs. xs ! k * ys ! k) else Inl ValueError)"

fun np_dot :: "real list \<Rightarrow> real np_array \<Rightarrow> dot_result res" where
  "np_dot xs (Vec ys) = map_res Scalar (np_dot1 xs ys)"
| "np_dot xs (Mat columns) = map_res Vector (mapM_res (np_dot1 xs) columns)"
| "np_dot xs (HigherDim n) = Inl NotImplementedError"

text \<open>
  \<open>_dot\<close>. The transposed SciPy column is a row, and row 0 of its product with the target is taken;
  repeated entries of the column add up. Vectors with other than one dimension are not modelled:
  the callers reject them first, but for the naive Bayes model, which does not check.
\<close>

definition scipy_dot1 :: "int \<Rightarrow> int list \<Rightarrow> real list \<Rightarrow> real list \<Rightarrow> real res" where
  "scipy_dot1 n is' xs ys =
     (if int (length ys) = n then Inr (\<Sum>(i, x)\<leftarrow>zip is' xs. x * ys ! nat i) else Inl ValueError)"

fun mllib_dot :: "real vec_obj \<Rightarrow> real np_array \<Rightarrow> dot_result res" where
  "mllib_dot (NdArray a) target =
     (if length (nd_shape a) = 1 then np_dot (nd_data a) target else Inl NotImplementedError)"
| "mllib_dot (Sparse v) target = sv_dot v (Inl target)"
| "mllib_dot (PyList xs) target = np_dot xs target"
| "mllib_dot (SciPy cols n is' xs) (Vec ys) = map_res Scalar (scipy_dot1 n is' xs ys)"
| "mllib_dot (SciPy cols n is' xs) (Mat columns) = map_res Vector (mapM_res (scipy_dot1 n is' xs) columns)"
| "mllib_dot _ _ = Inl (PyException ''AttributeError'')"

definition mllib_squared_distance :: "bool \<Rightarrow> real vec_obj \<Rightarrow> real vec_obj \<Rightarrow> real res" where
  "mllib_squared_distance have_scipy v1 v2 =
     bind_res (convert_vector have_scipy v1) (\<lambda>v1.
     bind_res (convert_vector have_scipy v2) (\<lambda>v2.
       let dense = (\<lambda>a. if length (nd_shape a) = 1 then Vec (nd_data a) else HigherDim (length (nd_shape a)))
       in case (v1, v2) of
         (NdArray a, NdArray b) \<Rightarrow>
           if nd_shape a \<noteq> nd_shape b then Inl ValueError
           else (let diff = map (\<lambda>(x, y). x - y) (zip (nd_data a) (nd_data b)) in np_dot1 diff diff)
       | (NdArray a, Sparse w) \<Rightarrow> squared_distance w (Inl (dense a))
       | (Sparse v, NdArray b) \<Rightarrow> squared_distance v (Inl (dense b))
       | (Sparse v, Sparse w) \<Rightarrow> squared_distance v (Inr w)
       | _ \<Rightarrow> Inl TypeError))"

section \<open>Linear models\<close>

record linear_model =
  lm_coeff :: "real list"
  lm_intercept :: real

definition LinearModel :: "real list \<Rightarrow> real \<Rightarrow> linear_model" where
  "LinearModel weights intercept = \<lparr>lm_coeff = weights, lm_intercept = intercept\<rparr>"

definition margin :: "bool \<Rightarrow> linear_model \<Rightarrow> real vec_obj \<Rightarrow> real res" where
  "margin have_scipy m x =
     bind_res (linear_predictor_typecheck have_scipy x [length (lm_coeff m)]) (\<lambda>_.
     bind_res (mllib_dot x (Vec (lm_coeff m))) (\<lambda>d.
       case d of Scalar s \<Rightarrow> Inr (s + lm_intercept m) | Vector vs \<Rightarrow> Inl TypeError))"

definition linear_regression_predict :: "bool \<Rightarrow> linear_model \<Rightarrow> real vec_obj \<Rightarrow> real res" where
  "linear_regression_predict have_scipy m x = margin have_scipy m x"

text \<open>\<open>math.exp\<close> raises when the result does not fit a float.\<close>

definition math_exp :: "real \<Rightarrow> real res" where
  "math_exp x = (if exp x < 2 ^ 1024 then Inr (exp x) else Inl (PyException ''OverflowError''))"

definition logistic_regression_predict :: "bool \<Rightarrow> linear_model \<Rightarrow> real vec_obj \<Rightarrow> int res" where
  "logistic_regression_predict have_scipy m x =
     bind_res (margin have_scipy m x) (\<lambda>mg.
     bind_res (math_exp (- mg)) (\<lambda>e.
       let prob = 1 / (1 + e) in Inr (if prob > 0.5 then 1 else 0)))"

definition svm_predict :: "bool \<Rightarrow> linear_model \<Rightarrow> real vec_obj \<Rightarrow> int res" where
  "svm_predict have_scipy m x =
     bind_res (margin have_scipy m x) (\<lambda>mg. Inr (if mg \<ge> 0 then 1 else 0))"

section \<open>Naive Bayes\<close>

text \<open>The rows of \<open>theta\<close> are the columns of its transpose.\<close>

record nb_model =
  nb_labels :: "real list"
  nb_pi :: "real list"
  nb_theta :: "real list list"

text \<open>\<open>numpy.argmax\<close> returns the first position of the maximum.\<close>

fun argmax_loop :: "real list \<Rightarrow> nat \<Rightarrow> nat \<Rightarrow> real \<Rightarrow> nat" where
  "argmax_loop [] i best v = best"
| "argmax_loop (x # xs) i best v = (if x > v then argmax_loop xs (i + 1) i x else argmax_loop xs (i + 1) best v)"

definition argmax :: "real list \<Rightarrow> nat res" where
  "argmax xs = (case xs of [] \<Rightarrow> Inl ValueError | x # rest \<Rightarrow> Inr (argmax_loop rest 1 0 x))"

text \<open>The sum of two arrays of the same length; one of length 1 is stretched.\<close>

definition np_add :: "real list \<Rightarrow> real list \<Rightarrow> real list res" where
  "np_add xs ys =
     (if length xs = length ys then Inr (map (\<lambda>(x, y). x + y) (zip xs ys))
      else if length xs = 1 then Inr (map (\<lambda>y. hd xs + y) ys)
      else if length ys = 1 then Inr (map (\<lambda>x. x + hd ys) xs)
      else Inl ValueError)"

definition naive_bayes_predict :: "nb_model \<Rightarrow> real vec_obj \<Rightarrow> real res" where
  "naive_bayes_predict m x =
     bind_res (mllib_dot x (Mat (nb_theta m))) (\<lambda>d.
       case d of
         Scalar s \<Rightarrow> Inl TypeError
       | Vector vs \<Rightarrow>
           bind_res (np_add (nb_pi m) vs) (\<lambda>scores.
           bind_res (argmax scores) (\<lambda>k. py_index (nb_labels m) (int k))))"

section \<open>K-means\<close>

fun nearest_loop :: "bool \<Rightarrow> real vec_obj \<Rightarrow> real vec_obj list \<Rightarrow> nat \<Rightarrow> nat \<Rightarrow> py_float \<Rightarrow> nat res" where
  "nearest_loop have_scipy x [] i best best_distance = Inr best"
| "nearest_loop have_scipy x (c # cs) i best best_distance =
     bind_res (mllib_squared_distance have_scipy x c) (\<lambda>distance.
       if Fin distance < best_distance then nearest_loop have_scipy x cs (i + 1) i (Fin distance)
       else nearest_loop have_scipy x cs (i + 1) best best_distance)"

definition kmeans_predict :: "bool \<Rightarrow> real vec_obj list \<Rightarrow> real vec_obj \<Rightarrow> nat res" where
  "kmeans_predict have_scipy centers x = nearest_loop have_scipy x centers 0 0 PosInf"

text \<open>
  \<open>KMeans.train\<close> after the JVM has answered; the rows of the matrix are the centers. The message
  for an answer of the wrong type joins a string and a type, which raises \<open>TypeError\<close>.
\<close>

definition matrix_rows :: "'v nd_array \<Rightarrow> 'v vec_obj list" where
  "matrix_rows m =
     (case nd_shape m of
        [rows, cols] \<Rightarrow> map (\<lambda>i. NdArray \<lparr>nd_dtype = nd_dtype m, nd_shape = [cols],
            nd_data = take cols (drop (i * cols) (nd_data m))\<rparr>) [0 ..< rows]
      | _ \<Rightarrow> [])"

definition kmeans_train ::
  "bool \<Rightarrow> (bytes list \<Rightarrow> int \<Rightarrow> int \<Rightarrow> int \<Rightarrow> string \<Rightarrow> jvm_value list) \<Rightarrow> f64 vec_obj list \<Rightarrow>
     int \<Rightarrow> int \<Rightarrow> int \<Rightarrow> string \<Rightarrow> f64 vec_obj list res" where
  "kmeans_train have_scipy trainKMeansModel data k maxIterations runs initializationMode =
     bind_res (mapM_res (serialize_double_vector have_scipy) data) (\<lambda>dataBytes.
       case trainKMeansModel dataBytes k maxIterations runs initializationMode of
         [ByteArray b] \<Rightarrow> map_res matrix_rows (deserialize_double_matrix b)
       | [_] \<Rightarrow> Inl TypeError
       | _ \<Rightarrow> Inl RuntimeError)"

section \<open>Training\<close>

text \<open>
  The stubs of the JVM take the parameters that each class passes on, the data, and the initial
  weights; the model is built from the coefficients and the intercept.
\<close>

type_synonym 'p stub = "'p \<Rightarrow> bytes list \<Rightarrow> bytes \<Rightarrow> jvm_value list"

definition LinearRegressionWithSGD_train ::
  "bool \<Rightarrow> (int \<times> f64 \<times> f64) stub \<Rightarrow> (f64 \<times> f64 vec_obj) list \<Rightarrow> int \<Rightarrow> f64 \<Rightarrow> f64 \<Rightarrow> f64 vec_obj option \<Rightarrow>
     (f64 vec_obj \<times> f64) res" where
  "LinearRegressionWithSGD_train have_scipy jvm data iterations step miniBatchFraction initialWeights =
     regression_train_wrapper have_scipy (\<lambda>d i. jvm (iterations, step, miniBatchFraction) d i) data initialWeights"

definition LassoWithSGD_train ::
  "bool \<Rightarrow> (int \<times> f64 \<times> f64 \<times> f64) stub \<Rightarrow> (f64 \<times> f64 vec_obj) list \<Rightarrow> int \<Rightarrow> f64 \<Rightarrow> f64 \<Rightarrow> f64 \<Rightarrow>
     f64 vec_obj option \<Rightarrow> (f64 vec_obj \<times> f64) res" where
  "LassoWithSGD_train have_scipy jvm data iterations step regParam miniBatchFraction initialWeights =
     regression_train_wrapper have_scipy (\<lambda>d i. jvm (iterations, step, regParam, miniBatchFraction) d i) data initialWeights"

definition RidgeRegressionWithSGD_train ::
  "bool \<Rightarrow> (int \<times> f64 \<times> f64 \<times> f64) stub \<Rightarrow> (f64 \<times> f64 vec_obj) list \<Rightarrow> int \<Rightarrow> f64 \<Rightarrow> f64 \<Rightarrow> f64 \<Rightarrow>
     f64 vec_obj option \<Rightarrow> (f64 vec_obj \<times> f64) res" where
  "RidgeRegressionWithSGD_train have_scipy jvm data iterations step regParam miniBatchFraction initialWeights =
     regression_train_wrapper have_scipy (\<lambda>d i. jvm (iterations, step, regParam, miniBatchFraction) d i) data initialWeights"

definition LogisticRegressionWithSGD_train ::
  "bool \<Rightarrow> (int \<times> f64 \<times> f64) stub \<Rightarrow> (f64 \<times> f64 vec_obj) list \<Rightarrow> int \<Rightarrow> f64 \<Rightarrow> f64 \<Rightarrow> f64 vec_obj option \<Rightarrow>
     (f64 vec_obj \<times> f64) res" where
  "LogisticRegressionWithSGD_train have_scipy jvm data iterations step miniBatchFraction initialWeights =
     regression_train_wrapper have_scipy (\<lambda>d i. jvm (iterations, step, miniBatchFraction) d i) data initialWeights"

definition SVMWithSGD_train ::
  "bool \<Rightarrow> (int \<times> f64 \<times> f64 \<times> f64) stub \<Rightarrow> (f64 \<times> f64 vec_obj) list \<Rightarrow> int \<Rightarrow> f64 \<Rightarrow> f64 \<Rightarrow> f64 \<Rightarrow>
     f64 vec_obj option \<Rightarrow> (f64 vec_obj \<times> f64) res" where
  "SVMWithSGD_train have_scipy jvm data iterations step regParam miniBatchFraction initialWeights =
     regression_train_wrapper have_scipy (\<lambda>d i. jvm (iterations, step, regParam, miniBatchFraction) d i) data initialWeights"

text \<open>\<open>ans[i]\<close>, which the vector and matrix readers require to be a bytearray.\<close>

definition answer_bytes :: "jvm_value list \<Rightarrow> nat \<Rightarrow> bytes res" where
  "answer_bytes ans i =
     bind_res (py_index ans (int i)) (\<lambda>v. case v of ByteArray b \<Rightarrow> Inr b | _ \<Rightarrow> Inl TypeError)"

definition NaiveBayes_train ::
  "bool \<Rightarrow> f64 stub \<Rightarrow> (f64 \<times> f64 vec_obj) list \<Rightarrow> f64 \<Rightarrow> (f64 vec_obj \<times> f64 vec_obj \<times> f64 nd_array) res" where
  "NaiveBayes_train have_scipy jvm data lambda' =
     bind_res (mapM_res (\<lambda>(l, f). serialize_labeled_point have_scipy l f) data) (\<lambda>dataBytes.
       let ans = jvm lambda' dataBytes [] in
       bind_res (bind_res (answer_bytes ans 0) deserialize_double_vector) (\<lambda>labels.
       bind_res (bind_res (answer_bytes ans 1) deserialize_double_vector) (\<lambda>pi'.
       bind_res (bind_res (answer_bytes ans 2) deserialize_double_matrix) (\<lambda>theta.
         Inr (labels, pi', theta)))))"

text \<open>
  The ratings and pairs that \<open>ALS\<close> and its model send to the JVM, and the stream of ratings that
  comes back.
\<close>

definition ALS_train ::
  "(bytes list \<Rightarrow> int \<Rightarrow> int \<Rightarrow> f64 \<Rightarrow> int \<Rightarrow> 'm) \<Rightarrow> (int \<times> int \<times> f64) list \<Rightarrow> int \<Rightarrow> int \<Rightarrow> f64 \<Rightarrow> int \<Rightarrow> 'm" where
  "ALS_train trainALSModel ratings rank iterations lambda' blocks =
     trainALSModel (map serialize_rating ratings) rank iterations lambda' blocks"

definition ALS_trainImplicit ::
  "(bytes list \<Rightarrow> int \<Rightarrow> int \<Rightarrow> f64 \<Rightarrow> int \<Rightarrow> f64 \<Rightarrow> 'm) \<Rightarrow> (int \<times> int \<times> f64) list \<Rightarrow>
     int \<Rightarrow> int \<Rightarrow> f64 \<Rightarrow> int \<Rightarrow> f64 \<Rightarrow> 'm" where
  "ALS_trainImplicit trainImplicitALSModel ratings rank iterations lambda' blocks alpha =
     trainImplicitALSModel (map serialize_rating ratings) rank iterations lambda' blocks alpha"

definition ALS_predictAll ::
  "(f64 \<Rightarrow> int res) \<Rightarrow> (bytes list \<Rightarrow> bytes) \<Rightarrow> (int \<times> int) list \<Rightarrow> (int \<times> int \<times> f64) list \<times> py_error option" where
  "ALS_predictAll f64_int predict usersProducts =
     rating_load_stream f64_int (predict (map serialize_tuple usersProducts))"

section \<open>The dense vector an object stands for\<close>

definition sparse_represents :: "real sparse_vector \<Rightarrow> real list \<Rightarrow> bool" where
  "sparse_represents v xs \<longleftrightarrow> well_formed v \<and> sv_size v = int (length xs) \<and>
     (\<forall>k\<in>{0..<length xs}. entry_at (sv_entries v) (int k) = xs ! k)"

fun represents :: "bool \<Rightarrow> real vec_obj \<Rightarrow> real list \<Rightarrow> bool" where
  "represents have_scipy (NdArray a) xs \<longleftrightarrow> nd_shape a = [length xs] \<and> nd_data a = xs"
| "represents have_scipy (PyList ys) xs \<longleftrightarrow> ys = xs"
| "represents have_scipy (Sparse v) xs \<longleftrightarrow> sparse_represents v xs"
| "represents have_scipy (SciPy cols n is' ys) xs \<longleftrightarrow>
     have_scipy \<and> cols = 1 \<and> sparse_represents \<lparr>sv_size = n, sv_indices = is', sv_values = ys\<rparr> xs"
| "represents have_scipy _ xs \<longleftrightarrow> False"

definition inner :: "real list \<Rightarrow> real list \<Rightarrow> real" where
  "inner xs ys = (\<Sum>k<length xs. xs ! k * ys ! k)"

definition distance2 :: "real list \<Rightarrow> real list \<Rightarrow> real" where
  "distance2 xs ys = (\<Sum>k<length xs. (xs ! k - ys ! k)\<^sup>2)"

lemma sum_int_positions: "(\<Sum>k\<in>{0..<int n}. f k) = (\<Sum>k<n. f (int k))" for f :: "int \<Rightarrow> real"
proof -
  have "{0..<int n} = int ` {..<n}" by (auto simp: image_iff) (metis lessThan_iff nat_0_le nat_less_iff)
  then show ?thesis by (simp add: sum.reindex)
qed

lemma sparse_sum_inner:
  assumes "sparse_represents v xs"
  shows "(\<Sum>k\<in>{0..<sv_size v}. entry_at (sv_entries v) k * ys ! nat k) = inner xs ys"
proof -
  have "(\<Sum>k<length xs. entry_at (sv_entries v) (int k) * ys ! k) = inner xs ys"
    unfolding inner_def using assms by (intro sum.cong) (auto simp: sparse_represents_def)
  then show ?thesis using assms by (simp add: sparse_represents_def sum_int_positions)
qed

lemma dot_vec_represents:
  assumes "sparse_represents v xs" and "length ys = length xs"
  shows "dot_vec v ys = Inr (inner xs ys)"
  using dot_vec_sum [of v ys] sparse_sum_inner [OF assms(1), of ys] assms by (simp add: sparse_represents_def)

lemma scipy_dot1_represents:
  assumes "represents h (SciPy cols n is' zs) xs" and "length ys = length xs"
  shows "scipy_dot1 n is' zs ys = Inr (inner xs ys)"
proof -
  let ?v = "\<lparr>sv_size = n, sv_indices = is', sv_values = zs\<rparr>"
  have v: "sparse_represents ?v xs" using assms(1) by simp
  then have wf: "well_formed ?v" unfolding sparse_represents_def by blast
  have "(\<Sum>(i, x)\<leftarrow>sv_entries ?v. x * ys ! nat i) = inner xs ys"
    using sum_entries_dense [OF wf, of "\<lambda>k. ys ! nat k"] sparse_sum_inner [OF v, of ys] by (simp only:)
  then show ?thesis using assms by (simp add: scipy_dot1_def sv_entries_def sparse_represents_def)
qed

lemma np_dot1_inner: "length ys = length xs \<Longrightarrow> np_dot1 xs ys = Inr (inner xs ys)"
  by (simp add: np_dot1_def inner_def)

lemma mllib_dot_represents:
  assumes "represents h x xs" and "length ys = length xs"
  shows "mllib_dot x (Vec ys) = Inr (Scalar (inner xs ys))"
  using assms dot_vec_represents [of _ xs ys] scipy_dot1_represents [of h _ _ _ _ xs ys]
  by (cases x) (simp_all add: np_dot1_inner)

lemma mllib_dot_mat_represents:
  assumes "represents h x xs" and "\<forall>ys\<in>set yss. length ys = length xs"
  shows "mllib_dot x (Mat yss) = Inr (Vector (map (inner xs) yss))"
proof -
  have *: "mapM_res (f :: real list \<Rightarrow> real res) yss = Inr (map (inner xs) yss)"
    if "\<And>ys. length ys = length xs \<Longrightarrow> f ys = Inr (inner xs ys)" for f
    using that assms(2) by (intro mapM_res_Inr) auto
  show ?thesis
    using assms(1) * [OF dot_vec_represents [of _ xs]] * [OF scipy_dot1_represents [of h _ _ _ _ xs]]
      * [OF np_dot1_inner [of _ xs]]
    by (cases x) simp_all
qed

lemma convert_represents:
  assumes "represents h x xs"
  obtains a where "convert_vector h x = Inr (NdArray a)" "nd_shape a = [length xs]" "nd_data a = xs"
  | v where "convert_vector h x = Inr (Sparse v)" "sparse_represents v xs"
  using assms
  by (cases x) (auto simp: convert_vector_def sparse_represents_def well_formed_def strictly_increasing_iff)

lemma typecheck_represents:
  "represents h x xs \<Longrightarrow> linear_predictor_typecheck h x [length xs] = Inr ()"
  by (erule convert_represents) (auto simp: linear_predictor_typecheck_def sparse_represents_def)

lemma margin_represents:
  assumes "represents h x xs" and "length xs = length (lm_coeff m)"
  shows "margin h m x = Inr (inner xs (lm_coeff m) + lm_intercept m)"
  using typecheck_represents [OF assms(1)] mllib_dot_represents [OF assms(1), of "lm_coeff m"] assms(2)
  by (simp add: margin_def)

text \<open>The distances, by the cases of the two conversions.\<close>

lemma distance2_commute: "length xs = length ys \<Longrightarrow> distance2 xs ys = distance2 ys xs"
  by (simp add: distance2_def power2_commute)

lemma sparse_dense_distance:
  assumes "sparse_represents v xs" and "length ys = length xs"
  shows "squared_distance v (Inl (Vec ys)) = Inr (distance2 xs ys)"
proof -
  have "(\<Sum>k<length ys. (entry_at (sv_entries v) (int k) - ys ! k)\<^sup>2) = distance2 xs ys"
    unfolding distance2_def using assms by (intro sum.cong) (auto simp: sparse_represents_def)
  then show ?thesis
    using dense_distance_dense [of v ys] assms by (simp add: sparse_represents_def)
qed

lemma sparse_sparse_distance:
  assumes v: "sparse_represents v xs" and w: "sparse_represents w ys" and "length ys = length xs"
  shows "squared_distance v (Inr w) = Inr (distance2 xs ys)"
proof -
  have "(\<Sum>k<length xs. (entry_at (sv_entries v) (int k) - entry_at (sv_entries w) (int k))\<^sup>2) = distance2 xs ys"
    unfolding distance2_def using assms by (intro sum.cong) (auto simp: sparse_represents_def)
  then show ?thesis
    using sparse_distance_dense [of v w] assms by (simp add: sparse_represents_def sum_int_positions)
qed

lemma np_dot1_diff:
  assumes "length ys = length xs"
  shows "np_dot1 (map (\<lambda>(x, y). x - y) (zip xs ys)) (map (\<lambda>(x, y). x - y) (zip xs ys)) = Inr (distance2 xs ys)"
  using assms by (simp add: np_dot1_def distance2_def power2_eq_square)

lemma distance_represents:
  assumes "represents h x xs" and "represents h y ys" and len: "length ys = length xs"
  shows "mllib_squared_distance h x y = Inr (distance2 xs ys)"
proof (rule convert_represents [OF assms(1)])
  fix a assume a: "convert_vector h x = Inr (NdArray a)" "nd_shape a = [length xs]" "nd_data a = xs"
  show ?thesis
  proof (rule convert_represents [OF assms(2)])
    fix b assume "convert_vector h y = Inr (NdArray b)" "nd_shape b = [length ys]" "nd_data b = ys"
    then show ?thesis using a len by (simp add: mllib_squared_distance_def np_dot1_diff)
  next
    fix w assume "convert_vector h y = Inr (Sparse w)" "sparse_represents w ys"
    then show ?thesis
      using a len sparse_dense_distance [of w ys xs] distance2_commute [of ys xs]
      by (simp add: mllib_squared_distance_def del: squared_distance.simps)
  qed
next
  fix v assume v: "convert_vector h x = Inr (Sparse v)" "sparse_represents v xs"
  show ?thesis
  proof (rule convert_represents [OF assms(2)])
    fix b assume "convert_vector h y = Inr (NdArray b)" "nd_shape b = [length ys]" "nd_data b = ys"
    then show ?thesis
      using v len sparse_dense_distance [of v xs ys]
      by (simp add: mllib_squared_distance_def del: squared_distance.simps)
  next
    fix w assume "convert_vector h y = Inr (Sparse w)" "sparse_represents w ys"
    then show ?thesis
      using v len sparse_sparse_distance [of v xs w ys]
      by (simp add: mllib_squared_distance_def del: squared_distance.simps)
  qed
qed

section \<open>Searching for the best position\<close>

text \<open>\<open>k\<close> is the first position at which \<open>f\<close> is largest among the positions below \<open>n\<close>.\<close>

definition first_best :: "(nat \<Rightarrow> real) \<Rightarrow> nat \<Rightarrow> nat \<Rightarrow> bool" where
  "first_best f n k \<longleftrightarrow> k < n \<and> (\<forall>j<n. f j \<le> f k) \<and> (\<forall>j<k. f j < f k)"

lemma first_best_1: "first_best f 1 0"
  by (simp add: first_best_def)

lemma first_best_Suc:
  "first_best f n k \<Longrightarrow> first_best f (Suc n) (if f n > f k then n else k)"
  by (auto simp: first_best_def less_Suc_eq)

lemma first_best_cong: "(\<And>j. j < n \<Longrightarrow> f j = g j) \<Longrightarrow> first_best f n k \<Longrightarrow> first_best g n k"
  by (auto simp: first_best_def)

lemma argmax_loop_first_best:
  "first_best f i best \<Longrightarrow> v = f best \<Longrightarrow> \<forall>j<length xs. xs ! j = f (i + j) \<Longrightarrow>
     first_best f (i + length xs) (argmax_loop xs i best v)"
proof (induction xs arbitrary: i best v)
  case (Cons x xs)
  have x: "x = f i" using Cons.prems(3) by (metis add_0_right length_greater_0_conv list.discI nth_Cons_0)
  have xs: "\<forall>j<length xs. xs ! j = f (i + 1 + j)" using Cons.prems(3) by auto
  have "first_best f (i + 1) (if x > v then i else best)"
    using first_best_Suc [OF Cons.prems(1)] Cons.prems(2) x by simp
  then show ?case
    using Cons.IH [of "i + 1" "if x > v then i else best" "if x > v then x else v"] Cons.prems(2) x xs
    by (simp split: if_splits)
qed simp

lemma argmax_first_best:
  assumes "xs \<noteq> []"
  shows "\<exists>k. argmax xs = Inr k \<and> first_best (\<lambda>j. xs ! j) (length xs) k"
proof -
  obtain x rest where xs: "xs = x # rest" using assms by (cases xs) auto
  show ?thesis
    using argmax_loop_first_best [OF first_best_1, of x "\<lambda>j. xs ! j" rest] by (simp add: argmax_def xs)
qed

lemma nearest_loop_first_best:
  assumes "\<forall>j<length cs. mllib_squared_distance h x (cs ! j) = Inr (d (i + j))"
    and "first_best (\<lambda>j. - d j) i best"
  shows "\<exists>k. nearest_loop h x cs i best (Fin (d best)) = Inr k \<and> first_best (\<lambda>j. - d j) (i + length cs) k"
  using assms
proof (induction cs arbitrary: i best)
  case (Cons c cs)
  have c: "mllib_squared_distance h x c = Inr (d i)" using Cons.prems(1) by force
  have cs: "\<forall>j<length cs. mllib_squared_distance h x (cs ! j) = Inr (d (i + 1 + j))"
    using Cons.prems(1) by auto
  show ?case
    using Cons.IH [OF cs, of "if d i < d best then i else best"] first_best_Suc [OF Cons.prems(2)]
    by (simp add: c less_py_float_def split: if_splits)
qed simp

section \<open>Properties\<close>

text \<open>
  C32: the linear models compute the inner product with the coefficients plus the intercept, whether
  the features come as an array, a list, a sparse vector or a SciPy column; the SVM answers 1 from a
  margin of zero on, logistic regression above zero, and logistic regression raises OverflowError
  where the exponential of the negated margin does not fit a float.
\<close>

theorem linear_predictions:
  assumes "represents h x xs" and "length xs = length (lm_coeff m)"
  defines "mg \<equiv> inner xs (lm_coeff m) + lm_intercept m"
  shows "linear_regression_predict h m x = Inr mg \<and>
    svm_predict h m x = Inr (if mg \<ge> 0 then 1 else 0) \<and>
    logistic_regression_predict h m x =
      (if exp (- mg) < 2 ^ 1024 then Inr (if mg > 0 then 1 else 0) else Inl (PyException ''OverflowError''))"
proof -
  have mg: "margin h m x = Inr mg" unfolding mg_def by (rule margin_represents [OF assms(1,2)])
  have "1 / (1 + exp (- mg)) > 1 / 2 \<longleftrightarrow> mg > 0"
  proof -
    have "1 / (1 + exp (- mg)) > 1 / 2 \<longleftrightarrow> exp (- mg) < 1"
      using exp_gt_zero [of "- mg"] by (simp add: field_simps add_pos_pos)
    then show ?thesis by simp
  qed
  then show ?thesis
    by (simp add: linear_regression_predict_def svm_predict_def logistic_regression_predict_def mg math_exp_def Let_def)
qed

definition example_sparse :: "real vec_obj" where
  "example_sparse = Sparse \<lparr>sv_size = 3, sv_indices = [1], sv_values = [2]\<rparr>"

lemma example_sparse_represents: "represents h example_sparse [0, 2, 0]"
proof -
  have "[0, 2, 0 :: real] ! k = 0" if "k < 3" "k \<noteq> 1" for k
    using that by (auto simp: less_Suc_eq numeral_3_eq_3)
  then show ?thesis
    by (simp add: example_sparse_def sparse_represents_def well_formed_def sv_entries_def numeral_3_eq_3)
qed

theorem linear_predictions_witness:
  "linear_regression_predict False (LinearModel [5, 3, 1] 1) example_sparse = Inr 7 \<and>
    logistic_regression_predict False (LinearModel [5, 3, 1] 1) example_sparse = Inr 1"
proof -
  have "inner [0, 2, 0] [5, 3, 1] + 1 = (7 :: real)" by (simp add: inner_def)
  moreover have "exp (- 7) < (2 ^ 1024 :: real)"
    by (rule less_le_trans [of _ 1]) simp_all
  ultimately show ?thesis
    using linear_predictions [OF example_sparse_represents, of "LinearModel [5, 3, 1] 1" False]
    by (simp add: LinearModel_def)
qed

text \<open>
  K-means assigns a point to the first of the nearest centers, for every mix of dense, list,
  sparse and SciPy representations of the point and of the centers.
\<close>

theorem kmeans_predict_nearest:
  assumes "represents h x xs" and "centers \<noteq> []" and "length dense = length centers"
    and "\<forall>j<length centers. represents h (centers ! j) (dense ! j) \<and> length (dense ! j) = length xs"
  shows "\<exists>k. kmeans_predict h centers x = Inr k \<and>
    first_best (\<lambda>j. - distance2 xs (dense ! j)) (length centers) k"
proof -
  let ?d = "\<lambda>j. distance2 xs (dense ! j)"
  obtain c cs where cs: "centers = c # cs" using assms(2) by (cases centers) auto
  have d: "mllib_squared_distance h x (centers ! j) = Inr (?d j)" if "j < length centers" for j
    using assms(4) that by (intro distance_represents [OF assms(1)]) auto
  have "kmeans_predict h centers x = nearest_loop h x cs 1 0 (Fin (?d 0))"
    using d [of 0] by (simp add: kmeans_predict_def cs less_py_float_def)
  moreover have "mllib_squared_distance h x (cs ! j) = Inr (?d (1 + j))" if "j < length cs" for j
    using d [of "Suc j"] that by (simp add: cs)
  then have "\<exists>k. nearest_loop h x cs 1 0 (Fin (?d 0)) = Inr k \<and> first_best (\<lambda>j. - ?d j) (1 + length cs) k"
    by (intro nearest_loop_first_best) (simp_all add: first_best_def)
  ultimately show ?thesis by (simp add: cs)
qed

theorem kmeans_predict_nearest_witness:
  "\<exists>k. kmeans_predict False [PyList [9, 9, 9], PyList [0, 1, 0], example_sparse] example_sparse = Inr k \<and>
    first_best (\<lambda>j. - distance2 [0, 2, 0] ([[9, 9, 9], [0, 1, 0], [0, 2, 0]] ! j)) 3 k"
proof -
  have *: "(\<forall>j<Suc (Suc (Suc 0)). P j) \<longleftrightarrow> P 0 \<and> P 1 \<and> P 2" for P
    by (auto simp: less_Suc_eq numeral_2_eq_2)
  show ?thesis
    using kmeans_predict_nearest [OF example_sparse_represents,
        of "[PyList [9, 9, 9], PyList [0, 1, 0], example_sparse]" "[[9, 9, 9], [0, 1, 0], [0, 2, 0]]"]
    by (simp add: * example_sparse_represents numeral_3_eq_3)
qed

text \<open>
  Naive Bayes returns the label of the first class with the largest sum of the prior and the
  inner product of the features with the row of the class.
\<close>

theorem naive_bayes_predicts_best_class:
  assumes "represents h x xs" and "nb_theta m \<noteq> []" and "\<forall>row\<in>set (nb_theta m). length row = length xs"
    and "length (nb_pi m) = length (nb_theta m)" and "length (nb_labels m) = length (nb_theta m)"
  shows "\<exists>k. naive_bayes_predict m x = Inr (nb_labels m ! k) \<and>
    first_best (\<lambda>j. nb_pi m ! j + inner xs (nb_theta m ! j)) (length (nb_theta m)) k"
proof -
  let ?scores = "map (\<lambda>(p, s). p + s) (zip (nb_pi m) (map (inner xs) (nb_theta m)))"
  have s: "np_add (nb_pi m) (map (inner xs) (nb_theta m)) = Inr ?scores"
    using assms(4) by (simp add: np_add_def)
  have len: "length ?scores = length (nb_theta m)" using assms(4) by simp
  then have "?scores \<noteq> []" using assms(2) by force
  then obtain k where k: "argmax ?scores = Inr k" "first_best (\<lambda>j. ?scores ! j) (length ?scores) k"
    using argmax_first_best by blast
  have "?scores ! j = nb_pi m ! j + inner xs (nb_theta m ! j)" if "j < length (nb_theta m)" for j
    using assms(4) that by simp
  then have "first_best (\<lambda>j. nb_pi m ! j + inner xs (nb_theta m ! j)) (length (nb_theta m)) k"
    using first_best_cong [OF _ k(2) [unfolded len]] by simp
  moreover have "k < length (nb_labels m)" using k(2) len assms(5) by (simp add: first_best_def)
  then have "naive_bayes_predict m x = Inr (nb_labels m ! k)"
    using mllib_dot_mat_represents [OF assms(1,3)] s k(1)
    by (simp add: naive_bayes_predict_def py_index_of_nat)
  ultimately show ?thesis by blast
qed

theorem naive_bayes_predicts_best_class_witness:
  "\<exists>k. naive_bayes_predict \<lparr>nb_labels = [10, 20], nb_pi = [1, 2], nb_theta = [[1, 0, 0], [0, 1, 0]]\<rparr> example_sparse
      = Inr ([10, 20] ! k) \<and>
    first_best (\<lambda>j. [1, 2] ! j + inner [0, 2, 0] ([[1, 0, 0], [0, 1, 0]] ! j)) 2 k"
  using naive_bayes_predicts_best_class [OF example_sparse_represents,
      of "\<lparr>nb_labels = [10, 20], nb_pi = [1, 2], nb_theta = [[1, 0, 0], [0, 1, 0]]\<rparr>"]
  by (simp add: numeral_2_eq_2)

end
