(* ===== verification/LibSVM.thy ===== *)
theory LibSVM
  imports Rdd MLModels
begin

text \<open>
  \<open>pyspark/mllib/util.py\<close>: labeled points as lines of text in the LIBSVM format. Indices are printed
  and parsed as the decimal numbers they are; Python's conversions between floats and strings are
  arguments (\<open>parse_float\<close> and \<open>float_str\<close>). A line is a Unicode string whose characters are below 256.
\<close>

section \<open>Parsing a line\<close>

definition uni_space :: "char \<Rightarrow> bool" where
  "uni_space c \<longleftrightarrow> c \<in> {CHR 0x09, CHR 0x0A, CHR 0x0B, CHR 0x0C, CHR 0x0D, CHR 0x1C, CHR 0x1D, CHR 0x1E,
     CHR 0x1F, CHR '' '', CHR 0x85, CHR 0xA0}"

text \<open>\<open>line.split(None)\<close>; the first argument is the word read so far.\<close>

fun py_words :: "string \<Rightarrow> string \<Rightarrow> string list" where
  "py_words w [] = (if w = [] then [] else [w])"
| "py_words w (c # s) =
     (if uni_space c then (if w = [] then py_words [] s else w # py_words [] s) else py_words (w @ [c]) s)"

text \<open>\<open>int(index)\<close> of a string without spaces.\<close>

definition py_int :: "string \<Rightarrow> int res" where
  "py_int s =
     (let neg = (case s of c # r \<Rightarrow> c = CHR ''-'' | [] \<Rightarrow> False);
          ds = (case s of c # r \<Rightarrow> if c \<in> {CHR ''-'', CHR ''+''} then r else s | [] \<Rightarrow> s)
      in if ds = [] \<or> \<not> list_all is_digit ds then Inl ValueError
         else Inr (if neg then - int (digits_value ds) else int (digits_value ds)))"

text \<open>With white space around the number, which \<open>int\<close> ignores.\<close>

definition int_of_text :: "string \<Rightarrow> int res" where
  "int_of_text x = py_int (rev (dropWhile uni_space (rev (dropWhile uni_space x))))"

text \<open>Storing a number in an \<open>int32\<close> array.\<close>

definition int32_item :: "int \<Rightarrow> int res" where
  "int32_item k = (if k < - (2 ^ 63) \<or> 2 ^ 63 \<le> k then Inl (PyException ''OverflowError'') else Inr (signed_take_bit 31 k))"

definition parse_item :: "(string \<Rightarrow> real res) \<Rightarrow> string \<Rightarrow> (int \<times> real) res" where
  "parse_item parse_float item =
     (case py_split (CHR '':'') item of
        [index, value] \<Rightarrow>
          bind_res (py_int index) (\<lambda>i.
          bind_res (int32_item (i - 1)) (\<lambda>k.
          bind_res (parse_float value) (\<lambda>v. Inr (k, v))))
      | _ \<Rightarrow> Inl ValueError)"

definition parse_libsvm_line :: "(string \<Rightarrow> real res) \<Rightarrow> bool \<Rightarrow> string \<Rightarrow> (real \<times> int list \<times> real list) res" where
  "parse_libsvm_line parse_float multiclass line =
     (case py_words [] line of
        [] \<Rightarrow> Inl IndexError
      | item # items \<Rightarrow>
          bind_res (parse_float item) (\<lambda>label.
          let label = (if multiclass then label else if label > 0.5 then 1 else 0) in
          bind_res (mapM_res (parse_item parse_float) items) (\<lambda>kvs.
            Inr (label, map fst kvs, map snd kvs))))"

section \<open>Printing a point\<close>

text \<open>
  \<open>row_str a i\<close> is what \<open>str\<close> prints of row \<open>i\<close> of an array with several dimensions. In the last case
  the message itself cannot be formatted, which is a \<open>TypeError\<close> as well.
\<close>

definition convert_labeled_point_to_libsvm ::
  "bool \<Rightarrow> (real \<Rightarrow> string) \<Rightarrow> (real nd_array \<Rightarrow> nat \<Rightarrow> string) \<Rightarrow> real \<times> real vec_obj \<Rightarrow> string res" where
  "convert_labeled_point_to_libsvm have_scipy float_str row_str p =
     bind_res (convert_vector have_scipy (snd p)) (\<lambda>v.
       bind_res
         (case v of
            NdArray a \<Rightarrow>
              (case nd_shape a of
                 [] \<Rightarrow> Inl TypeError
               | [n] \<Rightarrow> Inr (map (\<lambda>i. int_str (int i + 1) @ '':'' @ float_str (nd_data a ! i)) [0..<n])
               | n # _ \<Rightarrow> Inr (map (\<lambda>i. int_str (int i + 1) @ '':'' @ row_str a i) [0..<n]))
          | Sparse s \<Rightarrow>
              mapM_res (\<lambda>i. map_res (\<lambda>x. int_str (sv_indices s ! i + 1) @ '':'' @ float_str x) (py_index (sv_values s) (int i)))
                [0..<length (sv_indices s)]
          | _ \<Rightarrow> Inl TypeError)
         (\<lambda>items. Inr (py_join '' '' (float_str (fst p) # items))))"

section \<open>Files\<close>

text \<open>
  \<open>saveAsLibSVMFile\<close> as the lines of its part files. \<open>loadLibSVMFile\<close> on the lines that
  \<open>textFile\<close> reads: the contents of the RDD it returns, or the exception that evaluating it raises.
\<close>

definition saveAsLibSVMFile ::
  "bool \<Rightarrow> (real \<Rightarrow> string) \<Rightarrow> (real nd_array \<Rightarrow> nat \<Rightarrow> string) \<Rightarrow> (real \<times> real vec_obj) partitions \<Rightarrow> string partitions res" where
  "saveAsLibSVMFile have_scipy float_str row_str data =
     mapM_res (mapM_res (convert_labeled_point_to_libsvm have_scipy float_str row_str)) data"

definition number_of_features ::
  "(string \<Rightarrow> real res) \<Rightarrow> string partitions \<Rightarrow> bool \<Rightarrow> int \<Rightarrow> int res" where
  "number_of_features parse_float lines multiclass numFeatures =
     (if numFeatures \<le> 0 then
        bind_res (mapM_res (mapM_res (parse_libsvm_line parse_float multiclass)) lines) (\<lambda>parsed.
          map_res (\<lambda>n. n + 1) (rdd_reduce (\<lambda>_. False) (\<lambda>a b. Inr (max a b))
            (rdd_map (\<lambda>(l, is', vs). if is' = [] then 0 else last is') parsed)))
      else Inr numFeatures)"

definition loadLibSVMFile ::
  "bool \<Rightarrow> (string \<Rightarrow> real res) \<Rightarrow> string partitions \<Rightarrow> bool \<Rightarrow> int \<Rightarrow> (real \<times> real vec_obj) partitions res" where
  "loadLibSVMFile have_scipy parse_float lines multiclass numFeatures =
     bind_res (number_of_features parse_float lines multiclass numFeatures) (\<lambda>n.
       mapM_res (mapM_res (\<lambda>line.
         bind_res (parse_libsvm_line parse_float multiclass line) (\<lambda>(l, is', vs).
         bind_res (SparseVector n (Arrays is' vs)) (\<lambda>v. LabeledPoint have_scipy l (Sparse v))))) lines)"

section \<open>A line and what it is parsed into\<close>

definition plain_word :: "string \<Rightarrow> bool" where
  "plain_word w \<longleftrightarrow> w \<noteq> [] \<and> (\<forall>c\<in>set w. \<not> uni_space c)"

lemma py_words_plain: "\<forall>c\<in>set w. \<not> uni_space c \<Longrightarrow> py_words acc (w @ s) = py_words (acc @ w) s"
  by (induction w arbitrary: acc) auto

lemma py_words_join: "\<forall>w\<in>set ws. plain_word w \<Longrightarrow> py_words [] (py_join '' '' ws) = ws"
proof (induction "'' ''" ws rule: py_join.induct)
  case (2 w)
  then show ?case using py_words_plain [of w "[]" "[]"] by (simp add: plain_word_def)
next
  case (3 w v vs)
  then show ?case using py_words_plain [of w "[]"] by (simp add: plain_word_def uni_space_def)
qed simp

lemma digit_char: "is_digit c \<Longrightarrow> \<not> uni_space c \<and> c \<noteq> CHR '':'' \<and> c \<noteq> CHR ''-'' \<and> c \<noteq> CHR ''+''"
  by (auto simp: is_digit_def uni_space_def)

lemma nat_str_cons: obtains c s where "nat_str n = c # s" "is_digit c" "list_all is_digit (c # s)"
  using nat_str_digits [of n] nat_str_not_Nil [of n] by (cases "nat_str n") (auto simp: list_all_iff)

lemma py_int_nat_str [simp]: "py_int (nat_str n) = Inr (int n)"
  by (rule nat_str_cons [of n])
    (use digit_char digits_value_nat_str [of n] in \<open>auto simp: py_int_def\<close>)

lemma int32_item_id: "0 \<le> k \<Longrightarrow> k < 2 ^ 31 \<Longrightarrow> int32_item k = Inr k"
  by (auto simp: int32_item_def signed_take_bit_int_eq_self)

text \<open>Python's conversions of floats: what is printed is a word without a colon, and parsing it gives \<open>rnd x\<close>.\<close>

definition float_printing :: "(string \<Rightarrow> real res) \<Rightarrow> (real \<Rightarrow> string) \<Rightarrow> (real \<Rightarrow> real) \<Rightarrow> bool" where
  "float_printing parse_float float_str rnd \<longleftrightarrow>
     (\<forall>x. plain_word (float_str x) \<and> CHR '':'' \<notin> set (float_str x) \<and> parse_float (float_str x) = Inr (rnd x))"

lemma parse_item_printed:
  assumes "float_printing parse_float float_str rnd" and "0 \<le> k" "k < 2 ^ 31"
  shows "parse_item parse_float (int_str (k + 1) @ '':'' @ float_str x) = Inr (k, rnd x)"
proof -
  have s: "int_str (k + 1) = nat_str (nat (k + 1))" using assms(2) by (simp add: int_str_def)
  have "CHR '':'' \<notin> set (nat_str (nat (k + 1)))" using nat_str_digits digit_char by blast
  then have "py_split (CHR '':'') (int_str (k + 1) @ '':'' @ float_str x) = [nat_str (nat (k + 1)), float_str x]"
    using assms(1) by (simp add: s py_split_append py_split_plain float_printing_def)
  then show ?thesis using assms int32_item_id [of k] by (simp add: parse_item_def float_printing_def)
qed

lemma printed_item_plain:
  assumes "float_printing parse_float float_str rnd" and "0 \<le> k"
  shows "plain_word (int_str (k + 1) @ '':'' @ float_str x)"
proof -
  have "\<not> uni_space (CHR '':'')" by (simp add: uni_space_def)
  moreover have "\<forall>c\<in>set (nat_str (nat (k + 1))). \<not> uni_space c" using nat_str_digits digit_char by blast
  moreover have "\<forall>c\<in>set (float_str x). \<not> uni_space c"
    using assms(1) by (simp add: float_printing_def plain_word_def)
  ultimately show ?thesis using assms(2) by (simp add: plain_word_def int_str_def ball_Un)
qed

text \<open>The entries a point is printed with.\<close>

definition printed_entries :: "bool \<Rightarrow> real vec_obj \<Rightarrow> (int \<times> real) list res" where
  "printed_entries have_scipy features =
     bind_res (convert_vector have_scipy features) (\<lambda>v.
       case v of
         NdArray a \<Rightarrow> if nd_shape a = [length (nd_data a)] then Inr (zip [0..int (length (nd_data a)) - 1] (nd_data a)) else Inl TypeError
       | Sparse s \<Rightarrow> if length (sv_values s) = length (sv_indices s) then Inr (sv_entries s) else Inl TypeError
       | _ \<Rightarrow> Inl TypeError)"

definition printable :: "bool \<Rightarrow> real vec_obj \<Rightarrow> (int \<times> real) list \<Rightarrow> bool" where
  "printable have_scipy features es \<longleftrightarrow> printed_entries have_scipy features = Inr es \<and>
     sorted_wrt (<) (map fst es) \<and> (\<forall>e\<in>set es. 0 \<le> fst e \<and> fst e < 2 ^ 31)"

definition printed_item :: "(real \<Rightarrow> string) \<Rightarrow> int \<times> real \<Rightarrow> string" where
  "printed_item float_str e = int_str (fst e + 1) @ '':'' @ float_str (snd e)"

lemma printed_line:
  assumes "printed_entries h features = Inr es"
  shows "convert_labeled_point_to_libsvm h float_str row_str (label, features) =
    Inr (py_join '' '' (float_str label # map (printed_item float_str) es))"
proof -
  obtain v where v: "convert_vector h features = Inr v" using assms by (auto simp: printed_entries_def)
  show ?thesis
  proof (cases v)
    case (NdArray a)
    then have a: "nd_shape a = [length (nd_data a)]" and es: "es = zip [0..int (length (nd_data a)) - 1] (nd_data a)"
      using assms v by (auto simp: printed_entries_def split: if_splits)
    have "map (\<lambda>i. int_str (int i + 1) @ '':'' @ float_str (nd_data a ! i)) [0..<length (nd_data a)] =
        map (printed_item float_str) es"
      by (rule nth_equalityI) (simp_all add: es printed_item_def)
    then show ?thesis using v NdArray a by (simp add: convert_labeled_point_to_libsvm_def)
  next
    case (Sparse s)
    then have s: "length (sv_values s) = length (sv_indices s)" and es: "es = sv_entries s"
      using assms v by (auto simp: printed_entries_def split: if_splits)
    have "mapM_res (\<lambda>i. map_res (\<lambda>x. int_str (sv_indices s ! i + 1) @ '':'' @ float_str x) (py_index (sv_values s) (int i)))
        [0..<length (sv_indices s)] = Inr (map (\<lambda>i. printed_item float_str (sv_entries s ! i)) [0..<length (sv_indices s)])"
      by (rule mapM_res_Inr) (simp add: py_index_of_nat s printed_item_def sv_entries_def)
    also have "map (\<lambda>i. printed_item float_str (sv_entries s ! i)) [0..<length (sv_indices s)] = map (printed_item float_str) es"
      by (rule nth_equalityI) (simp_all add: es sv_entries_def s)
    finally show ?thesis using v Sparse by (simp add: convert_labeled_point_to_libsvm_def)
  qed (use assms v in \<open>simp_all add: printed_entries_def\<close>)
qed

text \<open>A label is kept for several classes, and otherwise made 0 or 1.\<close>

definition loaded_label :: "bool \<Rightarrow> real \<Rightarrow> real" where
  "loaded_label multiclass l = (if multiclass then l else if l > 0.5 then 1 else 0)"

lemma parse_printed_line:
  assumes p: "float_printing parse_float float_str rnd" and es: "\<forall>e\<in>set es. 0 \<le> fst e \<and> fst e < 2 ^ 31"
  shows "parse_libsvm_line parse_float multiclass (py_join '' '' (float_str label # map (printed_item float_str) es)) =
    Inr (loaded_label multiclass (rnd label), map fst es, map (rnd \<circ> snd) es)"
proof -
  have "\<forall>w\<in>set (float_str label # map (printed_item float_str) es). plain_word w"
    using p es printed_item_plain [OF p] by (auto simp: float_printing_def printed_item_def)
  then have "py_words [] (py_join '' '' (float_str label # map (printed_item float_str) es)) =
      float_str label # map (printed_item float_str) es"
    by (rule py_words_join)
  moreover have "mapM_res (parse_item parse_float) (map (printed_item float_str) es) = Inr (map (\<lambda>e. (fst e, rnd (snd e))) es)"
    using es parse_item_printed [OF p] by (induction es) (simp_all add: printed_item_def)
  ultimately show ?thesis
    using p by (simp add: parse_libsvm_line_def float_printing_def loaded_label_def comp_def)
qed

section \<open>Saving and loading\<close>

text \<open>The dimension of the loaded vectors: what was asked for, or one more than the largest index.\<close>

definition dimension :: "int \<Rightarrow> int list list \<Rightarrow> int" where
  "dimension numFeatures iss =
     (if numFeatures > 0 then numFeatures else Max (insert 0 (set (concat iss))) + 1)"

definition last_or_0 :: "int list \<Rightarrow> int" where
  "last_or_0 is' = (if is' = [] then 0 else last is')"

lemma last_or_0_max: "sorted_wrt (<) is' \<Longrightarrow> i \<in> set is' \<Longrightarrow> i \<le> last_or_0 is'"
  unfolding last_or_0_def by (induction is') (auto, metis last_in_set less_imp_le)

lemma last_or_0_in: "last_or_0 is' \<in> insert 0 (set is')"
  by (simp add: last_or_0_def)

lemma py_reduce_max:
  fixes xs :: "int list"
  assumes "xs \<noteq> []" shows "py_reduce (\<lambda>a b. Inr (max a b)) xs = Inr (Max (set xs))"
proof -
  obtain y ys where xs: "xs = y # ys" using assms by (cases xs) auto
  have "foldl max y ys = Max (set (y # ys))" by (subst Max.set_eq_fold) (simp add: foldl_conv_fold max.commute)
  then show ?thesis by (simp add: py_reduce_def xs)
qed

lemma Max_of_lasts:
  assumes "iss \<noteq> []" and "\<forall>is'\<in>set iss. sorted_wrt (<) is' \<and> (\<forall>i\<in>set is'. 0 \<le> i)"
  shows "Max (set (map last_or_0 iss)) = Max (insert 0 (set (concat iss)))"
proof (rule antisym)
  let ?L = "set (map last_or_0 iss)" and ?I = "insert 0 (set (concat iss))"
  have fin: "finite ?L" "finite ?I" "?L \<noteq> {}" using assms(1) by simp_all
  have "?L \<subseteq> ?I" using last_or_0_in by auto
  then show "Max ?L \<le> Max ?I" using fin by (intro Max_mono) simp_all
  have "i \<le> Max ?L" if i: "i \<in> ?I" for i
  proof -
    obtain is' where is': "is' \<in> set iss" "i \<le> last_or_0 is'"
    proof (cases "i \<in> set (concat iss)")
      case True
      then show thesis using that assms(2) last_or_0_max by auto
    next
      case False
      then have "i = 0" using i by simp
      moreover have "0 \<le> last_or_0 (hd iss)" using last_or_0_in [of "hd iss"] assms by auto
      ultimately show thesis using that [of "hd iss"] assms(1) by simp
    qed
    then have "last_or_0 is' \<in> ?L" by simp
    then show ?thesis using Max_ge [OF fin(1)] is'(2) by (meson order.trans)
  qed
  then show "Max ?I \<le> Max ?L" using fin(2) by simp
qed

lemma save_printed:
  assumes "\<forall>p\<in>set (concat data). printed_entries h (snd p) = Inr (entries p)"
  shows "saveAsLibSVMFile h float_str row_str data =
    Inr (map (map (\<lambda>p. py_join '' '' (float_str (fst p) # map (printed_item float_str) (entries p)))) data)"
  unfolding saveAsLibSVMFile_def
  by (rule mapM_parts) (metis assms printed_line prod.collapse)

lemma number_of_features_max:
  assumes parse: "\<forall>line\<in>set (concat lines). parse_libsvm_line parse_float multiclass line = Inr (lab line, idx line, vals line)"
    and ok: "\<forall>line\<in>set (concat lines). sorted_wrt (<) (idx line) \<and> (\<forall>i\<in>set (idx line). 0 \<le> i)"
    and ne: "numFeatures > 0 \<or> concat lines \<noteq> []"
  shows "number_of_features parse_float lines multiclass numFeatures = Inr (dimension numFeatures (map idx (concat lines)))"
proof (cases "numFeatures > 0")
  case False
  have "mapM_res (mapM_res (parse_libsvm_line parse_float multiclass)) lines =
      Inr (map (map (\<lambda>line. (lab line, idx line, vals line))) lines)"
    by (rule mapM_parts) (rule parse)
  moreover have "py_reduce (\<lambda>a b. Inr (max a b)) (collect (map (map (last_or_0 \<circ> idx)) lines)) =
      Inr (Max (set (map last_or_0 (map idx (concat lines)))))"
    unfolding collect_map unfolding collect_def map_map by (rule py_reduce_max) (use ne False in simp)
  moreover have "Max (set (map last_or_0 (map idx (concat lines)))) = Max (insert 0 (set (concat (map idx (concat lines)))))"
    by (rule Max_of_lasts) (use ne ok False in auto)
  ultimately show ?thesis
    using False max_op.rdd_reduce_collect [of "map (map (last_or_0 \<circ> idx)) lines"]
    by (simp add: number_of_features_def dimension_def comp_def last_or_0_def [symmetric] del: collect_map)
qed (simp add: number_of_features_def dimension_def)

lemma load_lines:
  assumes parse: "\<forall>line\<in>set (concat lines). parse_libsvm_line parse_float multiclass line = Inr (lab line, idx line, vals line)"
    and ok: "\<forall>line\<in>set (concat lines). sorted_wrt (<) (idx line) \<and> (\<forall>i\<in>set (idx line). 0 \<le> i) \<and>
      length (vals line) = length (idx line)"
    and ne: "numFeatures > 0 \<or> concat lines \<noteq> []"
  shows "loadLibSVMFile h parse_float lines multiclass numFeatures =
    Inr (map (map (\<lambda>line. (lab line, Sparse \<lparr>sv_size = dimension numFeatures (map idx (concat lines)),
      sv_indices = idx line, sv_values = vals line\<rparr>))) lines)"
proof -
  have n: "number_of_features parse_float lines multiclass numFeatures = Inr (dimension numFeatures (map idx (concat lines)))"
    by (rule number_of_features_max [OF parse _ ne]) (use ok in blast)
  show ?thesis
    unfolding loadLibSVMFile_def n bind_res.simps
  proof (rule mapM_parts, rule ballI)
    fix line assume line: "line \<in> set (concat lines)"
    show "bind_res (parse_libsvm_line parse_float multiclass line) (\<lambda>(l, is', vs).
        bind_res (SparseVector (dimension numFeatures (map idx (concat lines))) (Arrays is' vs))
          (\<lambda>v. LabeledPoint h l (Sparse v))) =
      Inr (lab line, Sparse \<lparr>sv_size = dimension numFeatures (map idx (concat lines)),
        sv_indices = idx line, sv_values = vals line\<rparr>)"
      using bspec [OF parse line] bspec [OF ok line]
      by (simp add: strictly_increasing_iff LabeledPoint_def)
  qed
qed

text \<open>What \<open>loadLibSVMFile\<close> makes of a printed point with the entries \<open>es\<close>.\<close>

definition loaded_point :: "(real \<Rightarrow> real) \<Rightarrow> bool \<Rightarrow> int \<Rightarrow> real \<Rightarrow> (int \<times> real) list \<Rightarrow> real \<times> real vec_obj" where
  "loaded_point rnd multiclass n label es =
     (loaded_label multiclass (rnd label),
      Sparse \<lparr>sv_size = n, sv_indices = map fst es, sv_values = map (rnd \<circ> snd) es\<rparr>)"

lemma load_printed:
  assumes p: "float_printing parse_float float_str rnd"
    and ok: "\<forall>p\<in>set ps. printable h (snd p) (entries p)"
    and ne: "numFeatures > 0 \<or> ps \<noteq> []"
    and lines: "concat lines = map (\<lambda>p. py_join '' '' (float_str (fst p) # map (printed_item float_str) (entries p))) ps"
  shows "\<exists>loaded. loadLibSVMFile h parse_float lines multiclass numFeatures = Inr loaded \<and>
    collect loaded = map (\<lambda>p. loaded_point rnd multiclass (dimension numFeatures (map (map fst \<circ> entries) ps))
      (fst p) (entries p)) ps"
proof -
  let ?print = "\<lambda>p. py_join '' '' (float_str (fst p) # map (printed_item float_str) (entries p))"
  define parsed where "parsed = (\<lambda>line. projr (parse_libsvm_line parse_float multiclass line))"
  define lab idx vals where "lab = fst \<circ> parsed" and "idx = fst \<circ> snd \<circ> parsed" and "vals = snd \<circ> snd \<circ> parsed"
  note defs = lab_def idx_def vals_def
  have parsed: "parse_libsvm_line parse_float multiclass (?print p) =
      Inr (loaded_label multiclass (rnd (fst p)), map fst (entries p), map (rnd \<circ> snd) (entries p))"
    if "p \<in> set ps" for p
    using parse_printed_line [OF p, of "entries p" multiclass "fst p"] ok that by (simp add: printable_def)
  then have comps: "lab (?print p) = loaded_label multiclass (rnd (fst p))" "idx (?print p) = map fst (entries p)"
      "vals (?print p) = map (rnd \<circ> snd) (entries p)" if "p \<in> set ps" for p
    using that by (simp_all add: defs parsed_def)
  have set_lines: "set (concat lines) = ?print ` set ps" unfolding lines by simp
  have "loadLibSVMFile h parse_float lines multiclass numFeatures =
    Inr (map (map (\<lambda>line. (lab line, Sparse \<lparr>sv_size = dimension numFeatures (map idx (concat lines)),
      sv_indices = idx line, sv_values = vals line\<rparr>))) lines)"
  proof (rule load_lines)
    show "\<forall>line\<in>set (concat lines). parse_libsvm_line parse_float multiclass line = Inr (lab line, idx line, vals line)"
      unfolding set_lines using parsed comps by simp
    show "\<forall>line\<in>set (concat lines). sorted_wrt (<) (idx line) \<and> (\<forall>i\<in>set (idx line). 0 \<le> i) \<and>
        length (vals line) = length (idx line)"
      unfolding set_lines using comps ok by (simp add: printable_def)
    show "numFeatures > 0 \<or> concat lines \<noteq> []" using ne unfolding lines by simp
  qed
  moreover have "map idx (concat lines) = map (map fst \<circ> entries) ps"
    unfolding lines using comps(2) by simp
  moreover have "collect (map (map g) lines) = map (g \<circ> ?print) ps" for g :: "string \<Rightarrow> real \<times> real vec_obj"
    unfolding collect_map unfolding collect_def lines map_map ..
  ultimately show ?thesis
    using comps by (auto simp: loaded_point_def)
qed

section \<open>Properties\<close>

text \<open>
  C26: loading the lines that \<open>saveAsLibSVMFile\<close> wrote, however the file system splits them into
  partitions, gives back every point in order: its label, its indices, and its values as Python
  prints and parses them; the dimension is the one asked for or one more than the largest index.
\<close>

theorem libsvm_roundtrip:
  assumes p: "float_printing parse_float float_str rnd"
    and ok: "\<forall>p\<in>set (collect data). printable h (snd p) (entries p)"
    and ne: "numFeatures > 0 \<or> collect data \<noteq> []"
  shows "\<exists>lines. saveAsLibSVMFile h float_str row_str data = Inr lines \<and>
    (\<forall>lines'. collect lines' = collect lines \<longrightarrow>
      (\<exists>loaded. loadLibSVMFile h parse_float lines' multiclass numFeatures = Inr loaded \<and>
        collect loaded = map (\<lambda>p. loaded_point rnd multiclass
          (dimension numFeatures (map (map fst \<circ> entries) (collect data))) (fst p) (entries p)) (collect data)))"
proof -
  have "saveAsLibSVMFile h float_str row_str data = Inr (map (map
      (\<lambda>p. py_join '' '' (float_str (fst p) # map (printed_item float_str) (entries p)))) data)"
    by (rule save_printed) (use ok in \<open>simp add: printable_def collect_def\<close>)
  then show ?thesis
    using load_printed [OF p ok ne] by (auto simp: collect_def map_concat)
qed

text \<open>Printing a number as its integer part meets the laws.\<close>

definition floor_str :: "real \<Rightarrow> string" where
  "floor_str x = int_str \<lfloor>x\<rfloor>"

definition parse_floor :: "string \<Rightarrow> real res" where
  "parse_floor s = map_res of_int (py_int s)"

lemma py_int_int_str: "py_int (int_str i) = Inr i"
proof -
  have "py_int (CHR ''-'' # nat_str n) = Inr (- int n)" for n
    using nat_str_digits [of n] by (simp add: py_int_def list_all_iff)
  then show ?thesis by (simp add: int_str_def)
qed

lemma floor_printing: "float_printing parse_floor floor_str (\<lambda>x. of_int \<lfloor>x\<rfloor>)"
proof -
  have "plain_word (int_str i) \<and> CHR '':'' \<notin> set (int_str i)" for i
  proof -
    have "\<forall>c\<in>set (nat_str n). \<not> uni_space c \<and> c \<noteq> CHR '':''" for n
      using nat_str_digits digit_char by blast
    moreover have "\<not> uni_space (CHR ''-'')" by (simp add: uni_space_def)
    ultimately show ?thesis by (auto simp: plain_word_def int_str_def)
  qed
  then show ?thesis by (simp add: float_printing_def floor_str_def parse_floor_def py_int_int_str)
qed

definition example_points :: "(real \<times> real vec_obj) partitions" where
  "example_points = [[(1, PyList [2, 3])], [(7, Sparse \<lparr>sv_size = 5, sv_indices = [4], sv_values = [9]\<rparr>)]]"

definition example_entries :: "real \<times> real vec_obj \<Rightarrow> (int \<times> real) list" where
  "example_entries p = projr (printed_entries False (snd p))"

lemma example_entries_eqs:
  "printed_entries False (PyList [2, 3]) = Inr [(0, 2), (1, 3)]"
  "printed_entries False (Sparse \<lparr>sv_size = 5, sv_indices = [4], sv_values = [9]\<rparr>) = Inr [(4, 9)]"
proof -
  have "[0..1 :: int] = [0, 1]" by (simp add: upto_rec1)
  then show "printed_entries False (PyList [2, 3]) = Inr [(0, 2), (1, 3)]"
    by (simp add: printed_entries_def convert_vector_def)
qed (simp add: printed_entries_def convert_vector_def sv_entries_def)

theorem libsvm_roundtrip_witness:
  "\<exists>lines. saveAsLibSVMFile False floor_str (\<lambda>a i. []) example_points = Inr lines \<and>
    (\<exists>loaded. loadLibSVMFile False parse_floor lines True (- 1) = Inr loaded \<and>
      collect loaded =
        [(1, Sparse \<lparr>sv_size = 5, sv_indices = [0, 1], sv_values = [2, 3]\<rparr>),
         (7, Sparse \<lparr>sv_size = 5, sv_indices = [4], sv_values = [9]\<rparr>)])"
proof -
  note e = example_entries_def example_entries_eqs example_points_def collect_def
  have d: "dimension (- 1) (map (map fst \<circ> example_entries) (collect example_points)) = 5"
    by (simp add: e dimension_def)
  have "\<forall>p\<in>set (collect example_points). printable False (snd p) (example_entries p)"
    by (simp add: e printable_def)
  then show ?thesis
    using libsvm_roundtrip [OF floor_printing, of example_points False example_entries "- 1" "\<lambda>a i. []" True]
    unfolding d by (auto simp: e loaded_point_def loaded_label_def)
qed

end
