(* ===== verification/Actions.thy ===== *)
theory Actions
  imports Joins Context
begin

text \<open>
  More operations of \<open>pyspark/rdd.py\<close>: the call site that an action reports, the operations that pair
  two RDDs whose elements travel in batches, the dictionaries that are merged in the driver, and
  the pipe through an external process.
\<close>

section \<open>Call sites\<close>

record call_frame =
  cf_file :: string
  cf_line :: int
  cf_fun :: string
  cf_what :: string

record callsite =
  cs_function :: string
  cs_file :: string
  cs_linenum :: int

definition extract_concise_traceback :: "call_frame list \<Rightarrow> callsite option" where
  "extract_concise_traceback tb =
     (if tb = [] then None
      else
        (let sparkpath = fst (path_split (cf_file (last tb)));
             i = length (takeWhile (\<lambda>f. \<not> py_startswith (cf_file f) sparkpath) tb);
             first_spark_frame = (if i = length tb then length tb - 1 else i)
         in if first_spark_frame = 0 then
              Some \<lparr>cs_function = cf_fun (tb ! 0), cs_file = cf_file (tb ! 0), cs_linenum = cf_line (tb ! 0)\<rparr>
            else
              Some \<lparr>cs_function = cf_fun (tb ! first_spark_frame), cs_file = cf_file (tb ! (first_spark_frame - 1)),
                cs_linenum = cf_line (tb ! (first_spark_frame - 1))\<rparr>))"

text \<open>
  \<open>_JavaStackTrace\<close>: the depth is the global \<open>_spark_stack_depth\<close>; the calls are the arguments of
  \<open>setCallSite\<close>, in order.
\<close>

record stack_state =
  ss_depth :: int
  ss_calls :: "string option list"

definition java_stack_trace :: "callsite option \<Rightarrow> string" where
  "java_stack_trace tb =
     (case tb of
        Some c \<Rightarrow> cs_function c @ '' at '' @ cs_file c @ '':'' @ int_str (cs_linenum c)
      | None \<Rightarrow> ''Error! Could not extract traceback info'')"

definition stack_enter :: "string \<Rightarrow> stack_state \<Rightarrow> stack_state" where
  "stack_enter t st =
     st\<lparr>ss_calls := (if ss_depth st = 0 then ss_calls st @ [Some t] else ss_calls st),
        ss_depth := ss_depth st + 1\<rparr>"

definition stack_exit :: "stack_state \<Rightarrow> stack_state" where
  "stack_exit st =
     st\<lparr>ss_depth := ss_depth st - 1,
        ss_calls := (if ss_depth st - 1 = 0 then ss_calls st @ [None] else ss_calls st)\<rparr>"

text \<open>An action, in whose \<open>with\<close> block further actions run; the block is left in any case.\<close>

datatype action = Action string "action list"

primrec run_action :: "action \<Rightarrow> stack_state \<Rightarrow> stack_state" and run_actions :: "action list \<Rightarrow> stack_state \<Rightarrow> stack_state" where
  "run_action (Action t inner) = (\<lambda>st. stack_exit (run_actions inner (stack_enter t st)))"
| "run_actions [] = (\<lambda>st. st)"
| "run_actions (a # as) = (\<lambda>st. run_actions as (run_action a st))"

section \<open>\<open>cartesian\<close> and \<open>zip\<close>\<close>

text \<open>
  For the JVM an element is a whole batch, so these RDDs are partitions of batches. \<open>jcartesian\<close> and
  \<open>jzip\<close> are the JVM's operations; the deserializers take the pairs of batches apart.
\<close>

type_synonym 'a batches = "'a list partitions"

definition elements :: "'a batches \<Rightarrow> 'a partitions" where
  "elements p = map concat p"

definition rdd_cartesian ::
  "('a batches \<Rightarrow> 'b batches \<Rightarrow> ('a list \<times> 'b list) partitions) \<Rightarrow> 'a batches \<Rightarrow> 'b batches \<Rightarrow> ('a \<times> 'b) partitions" where
  "rdd_cartesian jcartesian self other =
     map (\<lambda>pairs. concat (map (\<lambda>(keys, vals). List.product keys vals) pairs)) (jcartesian self other)"

definition rdd_zip ::
  "('a batches \<Rightarrow> 'b batches \<Rightarrow> ('a list \<times> 'b list) partitions res) \<Rightarrow> 'a batches \<Rightarrow> 'b batches \<Rightarrow> ('a \<times> 'b) partitions res" where
  "rdd_zip jzip self other =
     map_res (map (\<lambda>pairs. concat (map (\<lambda>(keys, vals). zip keys vals) pairs))) (jzip self other)"

section \<open>Results as dictionaries\<close>

definition collectAsMap :: "('k \<times> 'v) partitions \<Rightarrow> ('k, 'v) dict" where
  "collectAsMap parts = fold (\<lambda>(k, v) d. AList.update k v d) (collect parts) []"

definition reducePartition :: "('v \<Rightarrow> 'v \<Rightarrow> 'v) \<Rightarrow> ('k \<times> 'v) list \<Rightarrow> ('k, 'v) dict" where
  "reducePartition func it = fold (upsert (\<lambda>v. v) func) it []"

definition mergeMaps ::
  "(('k, 'v) dict \<Rightarrow> ('k \<times> 'v) list) \<Rightarrow> ('v \<Rightarrow> 'v \<Rightarrow> 'v) \<Rightarrow> ('k, 'v) dict \<Rightarrow> ('k, 'v) dict \<Rightarrow> ('k, 'v) dict" where
  "mergeMaps iteritems func m1 m2 = fold (upsert (\<lambda>v. v) func) (iteritems m2) m1"

definition reduceByKeyLocally ::
  "(('k, 'v) dict \<Rightarrow> ('k \<times> 'v) list) \<Rightarrow> ('v \<Rightarrow> 'v \<Rightarrow> 'v) \<Rightarrow> ('k \<times> 'v) partitions \<Rightarrow> ('k, 'v) dict res" where
  "reduceByKeyLocally iteritems func parts =
     rdd_reduce (\<lambda>_. False) (\<lambda>m1 m2. Inr (mergeMaps iteritems func m1 m2))
       (mapPartitions (\<lambda>it. [reducePartition func it]) parts)"

section \<open>\<open>pipe\<close>, \<open>foreach\<close> and text files\<close>

definition newline :: char where "newline = CHR 0x0A"

definition rstrip_newlines :: "string \<Rightarrow> string" where
  "rstrip_newlines s = rev (dropWhile (\<lambda>c. c = newline) (rev s))"

text \<open>\<open>iter(pipe.stdout.readline, '')\<close>: the lines with their newlines; the first argument is the line so far.\<close>

fun readlines :: "string \<Rightarrow> string \<Rightarrow> string list" where
  "readlines l [] = (if l = [] then [] else [l])"
| "readlines l (c # s) = (if c = newline then (l @ [c]) # readlines [] s else readlines (l @ [c]) s)"

text \<open>\<open>command\<close> is what the external process makes of its input.\<close>

definition pipe_func :: "(string \<Rightarrow> string) \<Rightarrow> ('a \<Rightarrow> string) \<Rightarrow> 'a list \<Rightarrow> string list" where
  "pipe_func command str it =
     map rstrip_newlines (readlines [] (command (concat (map (\<lambda>obj. rstrip_newlines (str obj) @ [newline]) it))))"

definition rdd_pipe :: "(string \<Rightarrow> string) \<Rightarrow> ('a \<Rightarrow> string) \<Rightarrow> 'a partitions \<Rightarrow> string partitions" where
  "rdd_pipe command str parts = mapPartitions (pipe_func command str) parts"

text \<open>What \<open>foreach\<close> does to the state of a worker that runs the partitions one after the other.\<close>

definition processPartition :: "('a \<Rightarrow> 's \<Rightarrow> 's) \<Rightarrow> 'a list \<Rightarrow> 's \<Rightarrow> 's" where
  "processPartition f it s = fold f it s"

definition foreach :: "('a \<Rightarrow> 's \<Rightarrow> 's) \<Rightarrow> 'a partitions \<Rightarrow> 's \<Rightarrow> 's" where
  "foreach f parts s = fold (processPartition f) parts s"

text \<open>The lines \<open>saveAsTextFile\<close> writes: a string as it is, anything else through \<open>unicode\<close>.\<close>

datatype 'a text_item = Text string | Object 'a

definition save_func :: "('a \<Rightarrow> string) \<Rightarrow> (string \<Rightarrow> bytes res) \<Rightarrow> 'a text_item list \<Rightarrow> bytes list res" where
  "save_func unicode encode it = mapM_res (\<lambda>x. encode (case x of Text s \<Rightarrow> s | Object a \<Rightarrow> unicode a)) it"

definition saveAsTextFile ::
  "('a \<Rightarrow> string) \<Rightarrow> (string \<Rightarrow> bytes res) \<Rightarrow> 'a text_item partitions \<Rightarrow> bytes partitions res" where
  "saveAsTextFile unicode encode parts = mapM_res (save_func unicode encode) parts"

section \<open>The join methods\<close>

definition join_method where
  "join_method env u self other numPartitions = python_join env u self other numPartitions"

definition leftOuterJoin where
  "leftOuterJoin env u self other numPartitions = python_left_outer_join env u self other numPartitions"

definition rightOuterJoin where
  "rightOuterJoin env u self other numPartitions = python_right_outer_join env u self other numPartitions"

definition cogroup where
  "cogroup env u self other numPartitions = python_cogroup env u self other numPartitions"

definition groupWith where
  "groupWith env u self other = cogroup env u self other None"

section \<open>Lemmas\<close>

text \<open>Nested actions leave no trace at a depth above zero.\<close>

lemma run_actions_nested:
  "0 < ss_depth st \<Longrightarrow> run_action a st = st"
  "0 < ss_depth st \<Longrightarrow> run_actions as st = st"
proof (induction a and as arbitrary: st and st rule: run_action.induct run_actions.induct)
  case (Action t inner)
  then show ?case by (simp add: stack_enter_def stack_exit_def)
qed simp_all

lemma run_top_action:
  "ss_depth st = 0 \<Longrightarrow> run_action (Action t inner) st = st\<lparr>ss_calls := ss_calls st @ [Some t, None]\<rparr>"
  by (simp add: stack_enter_def stack_exit_def run_actions_nested)

lemma run_top_actions:
  "ss_depth st = 0 \<Longrightarrow>
     run_actions as st = st\<lparr>ss_calls := ss_calls st @ concat (map (\<lambda>a. case a of Action t inner \<Rightarrow> [Some t, None]) as)\<rparr>"
proof (induction as arbitrary: st)
  case (Cons a as)
  then show ?case by (cases a) (simp add: run_top_action del: run_action.simps)
qed simp

text \<open>Pairs of batches.\<close>

lemma mset_product: "mset (List.product xs ys) = (\<Sum>x\<in>#mset xs. image_mset (Pair x) (mset ys))"
  by (induction xs) simp_all

lemma mset_product_append: "mset (List.product (xs @ xs') ys) = mset (List.product xs ys) + mset (List.product xs' ys)"
  by (simp add: mset_product)

lemma mset_product_concat_right:
  "mset (List.product ks (concat vss)) = (\<Sum>vs\<in>#mset vss. mset (List.product ks vs))"
  by (induction vss) (simp_all add: mset_product sum_mset.distrib)

lemma mset_product_concat:
  "mset (List.product (concat kss) (concat vss)) =
     (\<Sum>(ks, vs)\<in>#mset (List.product kss vss). mset (List.product ks vs))"
  by (induction kss)
    (simp_all add: mset_product_append mset_product_concat_right image_mset.compositionality comp_def sum_mset.distrib)

lemma mset_concat_map: "mset (concat (map f xs)) = (\<Sum>x\<in>#mset xs. mset (f x))"
  by (induction xs) simp_all

lemma concat_map_concat: "concat (map (\<lambda>xs. concat (map f xs)) xss) = concat (map f (concat xss))"
  by (induction xss) simp_all

lemma collect_elements: "collect (elements p) = concat (collect p)"
  by (induction p) (simp_all add: collect_def elements_def)

text \<open>Zipping lists of batches of different sizes.\<close>

definition zip_batches :: "'a list list \<Rightarrow> 'b list list \<Rightarrow> ('a \<times> 'b) list" where
  "zip_batches P Q = concat (map (\<lambda>(ks, vs). zip ks vs) (zip P Q))"

lemma zip_batches_Cons [simp]: "zip_batches (x # P) (y # Q) = zip x y @ zip_batches P Q"
  by (simp add: zip_batches_def)

lemma zip_batches_Nil [simp]: "zip_batches [] Q = []" "zip_batches P [] = []"
  by (simp_all add: zip_batches_def)

lemma zip_batches_aligned:
  "map length P = map length Q \<Longrightarrow> zip_batches P Q = zip (concat P) (concat Q)"
  by (simp add: zip_batches_def zip_concat_aligned)

lemma zip_batches_le:
  "length P = length Q \<Longrightarrow> length (zip_batches P Q) \<le> length (concat P) \<and> length (zip_batches P Q) \<le> length (concat Q)"
  by (induction P Q rule: list_induct2) auto

lemma zip_batches_full:
  "length P = length Q \<Longrightarrow> length (zip_batches P Q) = length (concat P) \<Longrightarrow>
     length (zip_batches P Q) = length (concat Q) \<Longrightarrow> map length P = map length Q"
proof (induction P Q rule: list_induct2)
  case (Cons x P y Q)
  have "length (zip_batches P Q) \<le> length (concat P)" "length (zip_batches P Q) \<le> length (concat Q)"
    using zip_batches_le [OF Cons.hyps] by auto
  then have "length (zip_batches P Q) = length (concat P)" "length (zip_batches P Q) = length (concat Q)"
      "length x = length y"
    using Cons.prems by (auto simp: min_def split: if_splits)
  then show ?case using Cons.IH by simp
qed simp

lemma collect_zip:
  assumes "map length p = map length q"
  shows "collect (map (\<lambda>pairs. concat (map (\<lambda>(keys, vals). zip keys vals) pairs)) (map (\<lambda>(a, b). zip a b) (zip p q))) =
    zip_batches (collect p) (collect q)"
proof -
  have "length p = length q" using assms by (rule map_eq_imp_length_eq)
  then show ?thesis using assms
    by (induction p q rule: list_induct2) (simp_all add: collect_def zip_batches_def zip_append)
qed

text \<open>Dictionaries of reduced values.\<close>

definition reduces :: "('v \<Rightarrow> 'v \<Rightarrow> 'v) \<Rightarrow> ('k \<times> 'v) list \<Rightarrow> ('k, 'v) dict \<Rightarrow> bool" where
  "reduces func kvs d \<longleftrightarrow> distinct (map fst d) \<and>
     (\<forall>k. map_of d k = (case values_of k kvs of [] \<Rightarrow> None | v # vs \<Rightarrow> Some (foldl func v vs)))"

lemma reduces_reducePartition: "reduces func it (reducePartition func it)"
  by (simp add: reduces_def reducePartition_def map_of_fold_upsert)

lemma foldl_assoc:
  "(\<And>x y z. func (func x y) z = func x (func y z)) \<Longrightarrow> foldl func (func a b) xs = func a (foldl func b xs)"
  by (induction xs arbitrary: b) simp_all

lemma reduces_mergeMaps:
  assumes ord: "iter_order iteritems" and assoc: "\<And>x y z. func (func x y) z = func x (func y z)"
    and r: "reduces func xs m1" "reduces func ys m2"
  shows "reduces func (xs @ ys) (mergeMaps iteritems func m1 m2)"
proof -
  have d2: "distinct (map fst m2)" using r(2) by (simp add: reduces_def)
  have vals: "values_of k (iteritems m2) = (case map_of m2 k of None \<Rightarrow> [] | Some c \<Rightarrow> [c])" for k
    by (simp add: values_of_iter_order [OF ord d2] values_of_distinct_keys [OF d2])
  have "map_of (mergeMaps iteritems func m1 m2) k =
      (case values_of k (xs @ ys) of [] \<Rightarrow> None | v # vs \<Rightarrow> Some (foldl func v vs))" for k
    using r by (auto simp: mergeMaps_def map_of_fold_upsert_gen vals reduces_def foldl_assoc [of func, OF assoc, symmetric]
        split: list.splits)
  moreover have "distinct (map fst (mergeMaps iteritems func m1 m2))"
    using r(1) by (simp add: mergeMaps_def reduces_def)
  ultimately show ?thesis by (simp add: reduces_def)
qed

lemma reduces_foldl:
  assumes "iter_order iteritems" and "\<And>x y z. func (func x y) z = func x (func y z)"
  shows "reduces func xs d \<Longrightarrow>
    reduces func (xs @ concat parts) (foldl (mergeMaps iteritems func) d (map (reducePartition func) parts))"
proof (induction parts arbitrary: xs d)
  case (Cons p parts)
  from Cons.IH [OF reduces_mergeMaps [OF assms Cons.prems reduces_reducePartition]] show ?case by simp
qed simp

lemma map_of_dict: "map_of (fold (\<lambda>(k, v) d. AList.update k v d) kvs d) = map_of d ++ map_of (rev kvs)"
proof (induction kvs arbitrary: d)
  case (Cons kv kvs)
  then show ?case by (cases kv) (simp add: update_conv' map_add_def fun_eq_iff split: option.splits)
qed simp

text \<open>Lines.\<close>

definition unlines :: "string list \<Rightarrow> string" where
  "unlines ls = concat (map (\<lambda>l. l @ [newline]) ls)"

lemma readlines_line: "newline \<notin> set l \<Longrightarrow> readlines a (l @ newline # s) = (a @ l @ [newline]) # readlines [] s"
  by (induction l arbitrary: a) auto

lemma readlines_unlines:
  "\<forall>l\<in>set ls. newline \<notin> set l \<Longrightarrow> readlines [] (unlines ls) = map (\<lambda>l. l @ [newline]) ls"
proof (induction ls)
  case (Cons l ls)
  then show ?case using readlines_line [of l "[]" "unlines ls"] by (simp add: unlines_def)
qed (simp add: unlines_def)

lemma rstrip_newlines_id: "newline \<notin> set l \<Longrightarrow> rstrip_newlines l = l"
  by (cases l rule: rev_cases) (auto simp: rstrip_newlines_def)

lemma rstrip_newlines_line: "newline \<notin> set l \<Longrightarrow> rstrip_newlines (l @ [newline]) = l"
  using rstrip_newlines_id [of l] by (simp add: rstrip_newlines_def)

section \<open>Properties\<close>

text \<open>
  C33: \<open>cartesian\<close> gives every pair of elements, as often as it occurs, however the elements of
  both RDDs are batched, if the JVM's cartesian product does so for its own objects.
\<close>

theorem cartesian_is_product:
  assumes "mset (collect (jcartesian self other)) = mset (List.product (collect self) (collect other))"
  shows "mset (collect (rdd_cartesian jcartesian self other)) =
    mset (List.product (collect (elements self)) (collect (elements other)))"
proof -
  let ?f = "\<lambda>(ks, vs). List.product ks vs"
  have "collect (rdd_cartesian jcartesian self other) = concat (map ?f (collect (jcartesian self other)))"
    by (simp add: collect_def rdd_cartesian_def concat_map_concat)
  then have "mset (collect (rdd_cartesian jcartesian self other)) =
      (\<Sum>kv\<in>#mset (collect (jcartesian self other)). mset (?f kv))"
    by (simp add: mset_concat_map)
  also have "\<dots> = (\<Sum>(ks, vs)\<in>#mset (List.product (collect self) (collect other)). mset (List.product ks vs))"
    unfolding assms by (simp add: case_prod_unfold)
  finally show ?thesis by (simp add: mset_product_concat collect_elements)
qed

theorem cartesian_is_product_witness:
  "mset (collect (rdd_cartesian (\<lambda>p q. [List.product (collect p) (collect q)]) [[[1, 2], [3 :: nat]]] [[[True]], [[False]]])) =
    mset (List.product [1, 2, 3] [True, False])"
  using cartesian_is_product [of "\<lambda>p q. [List.product (collect p) (collect q)]" "[[[1, 2], [3 :: nat]]]" "[[[True]], [[False]]]"]
  by (simp add: collect_def elements_def)

text \<open>
  C34: \<open>zip\<close> of two RDDs of the same length pairs their elements in order when both are batched
  alike; when they are batched differently, in as many batches, elements are lost without an error.
\<close>

theorem zip_needs_equal_batches:
  assumes jzip: "jzip self other = Inr (map (\<lambda>(a, b). zip a b) (zip self other))"
    and batches: "map length self = map length other"
    and same: "length (collect (elements self)) = length (collect (elements other))"
  shows "\<exists>pairs. rdd_zip jzip self other = Inr pairs \<and>
    (if map length (collect self) = map length (collect other)
     then collect pairs = zip (collect (elements self)) (collect (elements other))
     else length (collect pairs) < length (collect (elements self)))"
proof -
  let ?P = "collect self" and ?Q = "collect other"
  obtain pairs where p: "rdd_zip jzip self other = Inr pairs" "collect pairs = zip_batches ?P ?Q"
    using collect_zip [OF batches] by (simp add: rdd_zip_def jzip)
  have len: "length ?P = length ?Q"
    using arg_cong [OF batches, of sum_list] by (simp add: collect_def length_concat)
  show ?thesis
  proof (cases "map length ?P = map length ?Q")
    case True
    then show ?thesis using p zip_batches_aligned [OF True] by (auto simp: collect_elements)
  next
    case False
    then have "length (zip_batches ?P ?Q) < length (concat ?P)"
      using zip_batches_le [OF len] zip_batches_full [OF len] same by (auto simp: collect_elements le_less)
    then show ?thesis using p False by (auto simp: collect_elements)
  qed
qed

theorem zip_needs_equal_batches_witness:
  "\<exists>pairs. rdd_zip (\<lambda>p q. Inr (map (\<lambda>(a, b). zip a b) (zip p q))) [[[1, 2, 3], [4 :: nat]]] [[[1, 2], [3, 4 :: nat]]] = Inr pairs \<and>
    length (collect pairs) < 4"
  using zip_needs_equal_batches [of "\<lambda>p q. Inr (map (\<lambda>(a, b). zip a b) (zip p q))" "[[[1, 2, 3], [4 :: nat]]]" "[[[1, 2], [3, 4 :: nat]]]"]
  by (simp add: collect_def elements_def eval_nat_numeral)

text \<open>
  \<open>reduceByKeyLocally\<close> with an associative function returns a dictionary that maps every key to
  its values reduced in the order of the RDD; the function need not be commutative.
\<close>

theorem reduceByKeyLocally_reduces_in_order:
  assumes "iter_order iteritems" and "\<And>x y z. func (func x y) z = func x (func y z)" and "parts \<noteq> []"
  shows "\<exists>m. reduceByKeyLocally iteritems func parts = Inr m \<and> distinct (map fst m) \<and>
    (\<forall>k. map_of m k = (case values_of k (collect parts) of [] \<Rightarrow> None | v # vs \<Rightarrow> Some (foldl func v vs)))"
proof -
  obtain p ps where parts: "parts = p # ps" using assms(3) by (cases parts) auto
  have "reduceByKeyLocally iteritems func parts =
      py_reduce (\<lambda>a b. Inr (mergeMaps iteritems func a b)) (map (reducePartition func) parts)"
    using rdd_reduce_singletons [of "map (reducePartition func) parts" "\<lambda>_. False"]
    by (simp add: reduceByKeyLocally_def comp_def)
  then have "reduceByKeyLocally iteritems func parts =
      Inr (foldl (mergeMaps iteritems func) (reducePartition func p) (map (reducePartition func) ps))"
    by (simp add: parts py_reduce_def)
  moreover have "reduces func (collect parts) (foldl (mergeMaps iteritems func) (reducePartition func p) (map (reducePartition func) ps))"
    using reduces_foldl [where iteritems = iteritems and func = func and xs = p and d = "reducePartition func p" and parts = ps]
      assms(1,2) reduces_reducePartition [of func p] by (simp add: collect_def parts)
  ultimately show ?thesis by (simp add: reduces_def)
qed

theorem reduceByKeyLocally_reduces_in_order_witness:
  "\<exists>m. reduceByKeyLocally (\<lambda>d. d) (@) [[(True, ''a''), (False, ''b'')], [], [(True, ''c'')]] = Inr m \<and>
    map_of m True = Some ''ac'' \<and> map_of m False = Some ''b''"
  using reduceByKeyLocally_reduces_in_order [where iteritems = "\<lambda>d. d" and func = "(@)" and parts = "[[(True, ''a''), (False, ''b'')], [], [(True, ''c'')]]"]
  by (auto simp: iter_order_def collect_def)

text \<open>
  The dictionary of \<open>collectAsMap\<close> maps a key to its last value in the order of the RDD.
\<close>

theorem collectAsMap_keeps_last:
  "map_of (collectAsMap parts) = map_of (rev (collect parts))"
  by (simp add: collectAsMap_def map_of_dict)

text \<open>
  Piping through a process that works line by line applies it to the string of every element,
  in order and in the same partitions, provided no string and no output line contains a newline.
\<close>

theorem pipe_works_by_lines:
  assumes "\<And>ls. \<forall>l\<in>set ls. newline \<notin> set l \<Longrightarrow> command (unlines ls) = unlines (map g ls)"
    and "\<And>l. newline \<notin> set l \<Longrightarrow> newline \<notin> set (g l)"
    and "\<forall>x\<in>set (collect parts). newline \<notin> set (str x)"
  shows "rdd_pipe command str parts = map (map (\<lambda>x. g (str x))) parts"
proof -
  have "pipe_func command str it = map (\<lambda>x. g (str x)) it" if "\<forall>x\<in>set it. newline \<notin> set (str x)" for it
  proof -
    have "concat (map (\<lambda>obj. rstrip_newlines (str obj) @ [newline]) it) = unlines (map str it)"
      using that by (simp add: unlines_def rstrip_newlines_id comp_def cong: map_cong)
    then have "pipe_func command str it = map rstrip_newlines (readlines [] (unlines (map (g \<circ> str) it)))"
      using that assms(1) [of "map str it"] by (simp add: pipe_func_def comp_def)
    also have "readlines [] (unlines (map (g \<circ> str) it)) = map (\<lambda>l. l @ [newline]) (map (g \<circ> str) it)"
      using that assms(2) by (intro readlines_unlines) auto
    finally show ?thesis using that assms(2) by (simp add: rstrip_newlines_line)
  qed
  then show ?thesis using assms(3) by (simp add: rdd_pipe_def collect_def)
qed

theorem pipe_works_by_lines_witness:
  "rdd_pipe (\<lambda>s. s) (\<lambda>s. s) [[''1'', ''2''], [], [[], ''3'']] = [[''1'', ''2''], [], [[], ''3'']]"
proof -
  have "rdd_pipe (\<lambda>s. s) (\<lambda>s. s) [[''1'', ''2''], [], [[], ''3'']] = map (map (\<lambda>x. x)) [[''1'', ''2''], [], [[], ''3'']]"
    by (rule pipe_works_by_lines [where command = "\<lambda>s. s" and g = "\<lambda>l. l" and str = "\<lambda>s. s"]) (simp_all add: collect_def newline_def)
  then show ?thesis by simp
qed

text \<open>
  The JVM is told the call site of every outermost action and that it has ended, and of no
  nested action; the depth returns to where it was.
\<close>

theorem call_sites_of_outermost_actions:
  assumes "ss_depth st = 0"
  shows "ss_depth (run_actions as st) = 0 \<and>
    ss_calls (run_actions as st) = ss_calls st @ concat (map (\<lambda>a. case a of Action t inner \<Rightarrow> [Some t, None]) as)"
  by (simp add: run_top_actions [OF assms] assms)

theorem call_sites_of_outermost_actions_witness:
  "ss_calls (run_actions [Action ''collect at a.py:1'' [Action ''first at rdd.py:2'' []], Action ''count at a.py:3'' []]
      \<lparr>ss_depth = 0, ss_calls = []\<rparr>) =
    [Some ''collect at a.py:1'', None, Some ''count at a.py:3'', None]"
  using call_sites_of_outermost_actions [of "\<lparr>ss_depth = 0, ss_calls = []\<rparr>"
      "[Action ''collect at a.py:1'' [Action ''first at rdd.py:2'' []], Action ''count at a.py:3'' []]"]
  by simp

text \<open>
  When user code calls into the library, the call site is the library function it called, at
  the file and line of the innermost frame of user code.
\<close>

theorem callsite_is_last_user_frame:
  assumes "user \<noteq> []" and "lib \<noteq> []" and "sparkpath = fst (path_split (cf_file (last lib)))"
    and "\<forall>f\<in>set user. \<not> py_startswith (cf_file f) sparkpath" and "py_startswith (cf_file (hd lib)) sparkpath"
  shows "extract_concise_traceback (user @ lib) =
    Some \<lparr>cs_function = cf_fun (hd lib), cs_file = cf_file (last user), cs_linenum = cf_line (last user)\<rparr>"
proof -
  obtain us u where user: "user = us @ [u]" using assms(1) by (cases user rule: rev_cases) auto
  obtain f fs where lib: "lib = f # fs" using assms(2) by (cases lib) auto
  have path: "sparkpath = fst (path_split (cf_file (last (user @ lib))))" using assms(2,3) by simp
  have "takeWhile (\<lambda>f. \<not> py_startswith (cf_file f) sparkpath) (user @ lib) = user"
    using assms(4,5) by (simp add: lib)
  then have "length (takeWhile (\<lambda>f. \<not> py_startswith (cf_file f) sparkpath) (user @ lib)) = length user" by simp
  then show ?thesis
    unfolding extract_concise_traceback_def path [symmetric] Let_def by (simp add: user lib nth_append)
qed

theorem callsite_is_last_user_frame_witness:
  "extract_concise_traceback
      ([\<lparr>cf_file = ''/home/u/job.py'', cf_line = 12, cf_fun = ''main'', cf_what = ''rdd.count()''\<rparr>] @
       [\<lparr>cf_file = ''/spark/rdd.py'', cf_line = 640, cf_fun = ''count'', cf_what = ''sum''\<rparr>,
        \<lparr>cf_file = ''/spark/rdd.py'', cf_line = 54, cf_fun = ''_extract_concise_traceback'', cf_what = ''tb''\<rparr>]) =
    Some \<lparr>cs_function = ''count'', cs_file = ''/home/u/job.py'', cs_linenum = 12\<rparr>"
proof -
  have path: "fst (path_split ''/spark/rdd.py'') = ''/spark''" by code_simp
  have starts: "\<not> py_startswith ''/home/u/job.py'' ''/spark''" "py_startswith ''/spark/rdd.py'' ''/spark''"
    by code_simp+
  show ?thesis
    by (subst callsite_is_last_user_frame [where sparkpath = "''/spark''"]) (simp_all add: path starts)
qed

end
