(* ===== verification/CloudPickle.thy ===== *)
theory CloudPickle
  imports Prelude
begin

text \<open>
  \<open>pyspark/cloudpickle.py\<close>: how a function reaches the workers. The scan of its bytecode for global
  names, the data it is taken apart into, the decision between a reference and a copy, the pickle
  operations that \<open>save_function_tuple\<close> writes, and the machine that runs them on the other side
  with \<open>_make_skel_func\<close> and \<open>_fill_function\<close>. Values other than functions, tuples and dictionaries
  are atoms. No Django settings module is loaded.
\<close>

section \<open>Code objects\<close>

type_synonym code_bytes = "8 word list"

datatype 'a py_const = CodeConst "'a py_code" | OtherConst 'a
  and 'a py_code =
    Code (co_code: code_bytes) (co_consts: "'a py_const list") (co_names: "string list") (co_filename: string)

text \<open>The opcodes of CPython 2.7.\<close>

definition STORE_GLOBAL :: "8 word" where "STORE_GLOBAL = 97"
definition DELETE_GLOBAL :: "8 word" where "DELETE_GLOBAL = 98"
definition LOAD_GLOBAL :: "8 word" where "LOAD_GLOBAL = 116"
definition HAVE_ARGUMENT :: "8 word" where "HAVE_ARGUMENT = 90"
definition EXTENDED_ARG :: "8 word" where "EXTENDED_ARG = 145"

definition GLOBAL_OPS :: "8 word list" where
  "GLOBAL_OPS = [STORE_GLOBAL, DELETE_GLOBAL, LOAD_GLOBAL]"

text \<open>The loop of \<open>extract_code_globals\<close>; the bytes are what is left from position \<open>i\<close> on.\<close>

fun scan_globals :: "string list \<Rightarrow> nat \<Rightarrow> code_bytes \<Rightarrow> string list \<Rightarrow> string list res" where
  "scan_globals names extended_arg [] out_names = Inr out_names"
| "scan_globals names extended_arg (op # code) out_names =
     (if op < HAVE_ARGUMENT then scan_globals names extended_arg code out_names
      else
        (case code of
           lo # hi # code' \<Rightarrow>
             let oparg = unat lo + unat hi * 256 + extended_arg;
                 ext = (if op = EXTENDED_ARG then oparg * 65536 else 0)
             in if op \<in> set GLOBAL_OPS then
                  bind_res (py_index names (int oparg)) (\<lambda>name. scan_globals names ext code' (List.insert name out_names))
                else scan_globals names ext code' out_names
         | _ \<Rightarrow> Inl IndexError))"

definition extract_code_globals :: "'a py_code \<Rightarrow> string list res" where
  "extract_code_globals co = scan_globals (co_names co) 0 (co_code co) []"

section \<open>Functions\<close>

text \<open>
  A function is an address, the index into the list of all functions; \<open>fn_globals\<close> is the identity
  of its dictionary of globals, an index as well. A cell of the closure is empty or has contents.
  \<open>fn_module\<close> is what \<open>pickle.whichmodule\<close> finds.
\<close>

datatype 'a val = Atom 'a | Fun nat | Tup "'a val list" | Dct "string list" "'a val list"

record 'a py_function =
  fn_name :: string
  fn_module :: string
  fn_code :: "'a py_code"
  fn_globals :: nat
  fn_defaults :: "'a val"
  fn_closure :: "'a val option list option"
  fn_keys :: "string list"
  fn_attrs :: "'a val list"

text \<open>
  The driver: its functions, its dictionaries of globals, the functions bound in the modules of
  \<open>sys.modules\<close>, and \<open>___pyc_forcedImports__\<close> of the main module, if it is there.
\<close>

record 'a py_world =
  w_functions :: "'a py_function list"
  w_globals :: "(string \<times> 'a val) list list"
  w_modules :: "(string \<times> (string \<times> nat) list) list"
  w_forced :: "string list option"

definition islambda :: "'a py_function \<Rightarrow> bool" where
  "islambda f \<longleftrightarrow> fn_name f = ''<lambda>''"

fun nested_globals :: "'a py_const list \<Rightarrow> string list \<Rightarrow> string list res" where
  "nested_globals [] refs = Inr refs"
| "nested_globals (OtherConst c # cs) refs = nested_globals cs refs"
| "nested_globals (CodeConst co # cs) refs =
     (if co_names co = [] then nested_globals cs refs
      else bind_res (extract_code_globals co) (\<lambda>names. nested_globals cs (List.union refs names)))"

definition func_global_refs :: "'a py_code \<Rightarrow> string list res" where
  "func_global_refs code = bind_res (extract_code_globals code) (nested_globals (co_consts code))"

definition get_contents :: "'a val option \<Rightarrow> 'a val res" where
  "get_contents cell = (case cell of Some v \<Rightarrow> Inr v | None \<Rightarrow> Inl PicklingError)"

text \<open>
  \<open>extract_func_data\<close>: the names and values of the globals, and the contents of the closure. The
  code, the defaults and the dictionary of the function are passed on as they are, and the
  base dictionary is the one kept for the identity of its globals.
\<close>

definition extract_func_data :: "'a py_world \<Rightarrow> 'a py_function \<Rightarrow> (string list \<times> 'a val list \<times> 'a val list) res" where
  "extract_func_data w f =
     bind_res (func_global_refs (fn_code f)) (\<lambda>refs.
     bind_res (case fn_closure f of None \<Rightarrow> Inr [] | Some cells \<Rightarrow> mapM_res get_contents cells) (\<lambda>closure.
       let gs = w_globals w ! fn_globals f;
           vars = filter (\<lambda>x. map_of gs x \<noteq> None) refs
       in Inr (vars, map (\<lambda>x. the (map_of gs x)) vars, closure)))"

section \<open>The pickle\<close>

datatype callable = MakeSkel | FillFunction | RestoreAttr | ModulesToMain

datatype 'a lval =
    LAtom 'a
  | LFun nat
  | LTup "'a lval list"
  | LDct "string list" "'a lval list"
  | LGlobal string string
  | LCode "'a py_code"
  | LInt nat
  | LBase nat
  | LNames "string list"
  | LCall callable
  | LNone

datatype 'a pk_op = Push "'a lval" | Mark | Tuple | Dict "string list" | Reduce | PopMark | Put | Get nat

text \<open>The state of the pickler: the memo, in order, and whether the forced imports were written.\<close>

record pickler =
  pk_memo :: "nat list"
  pk_savedForceImports :: bool

definition memo_index :: "nat list \<Rightarrow> nat \<Rightarrow> nat" where
  "memo_index m a = length (takeWhile (\<lambda>x. x \<noteq> a) m)"

text \<open>The module of a function; the main module, or none, counts as None.\<close>

definition the_module :: "'a py_world \<Rightarrow> 'a py_function \<Rightarrow> string option" where
  "the_module w f =
     (if map_of (w_modules w) (fn_module f) = None \<or> fn_module f = ''__main__'' then None else Some (fn_module f))"

definition bound_in :: "'a py_world \<Rightarrow> string \<Rightarrow> string \<Rightarrow> nat option" where
  "bound_in w modname name = (case map_of (w_modules w) modname of None \<Rightarrow> None | Some d \<Rightarrow> map_of d name)"

definition by_reference :: "'a py_world \<Rightarrow> nat \<Rightarrow> bool" where
  "by_reference w a =
     (let f = w_functions w ! a in
      \<not> islambda f \<and> co_filename (fn_code f) \<noteq> ''<stdin>'' \<and>
      (case the_module w f of None \<Rightarrow> False | Some modname \<Rightarrow> bound_in w modname (fn_name f) = Some a))"

text \<open>The imports that a copied function is preceded by, and the new value of \<open>savedForceImports\<close>.\<close>

definition forced_imports :: "'a py_world \<Rightarrow> bool \<Rightarrow> 'a py_function \<Rightarrow> string list \<times> bool" where
  "forced_imports w saved f =
     (if islambda f \<or> co_filename (fn_code f) = ''<stdin>'' \<or> the_module w f = None then
        (if the_module w f = None \<and> \<not> saved then ((case w_forced w of None \<Rightarrow> [] | Some ms \<Rightarrow> ms), True) else ([], saved))
      else ([the (the_module w f)], saved))"

definition import_ops :: "string list \<Rightarrow> 'a pk_op list" where
  "import_ops mods =
     (if mods = [] then []
      else [Mark, Push (LCall ModulesToMain), Mark, Push (LNames mods), Tuple, Reduce, PopMark])"

definition skel_ops :: "'a py_function \<Rightarrow> nat \<Rightarrow> 'a pk_op list" where
  "skel_ops f n =
     [Push (LCall FillFunction), Mark, Push (LCall MakeSkel), Mark, Push (LCode (fn_code f)), Push (LInt n),
      Push (LBase (fn_globals f)), Tuple, Reduce, Put]"

text \<open>
  \<open>save\<close>; the number bounds the nesting of functions, which stands for the recursion limit.
\<close>

function save :: "'a py_world \<Rightarrow> nat \<Rightarrow> pickler \<Rightarrow> 'a val \<Rightarrow> ('a pk_op list \<times> pickler) res"
  and save_all :: "'a py_world \<Rightarrow> nat \<Rightarrow> pickler \<Rightarrow> 'a val list \<Rightarrow> ('a pk_op list \<times> pickler) res" where
  "save w n st (Atom a) = Inr ([Push (LAtom a)], st)"
| "save w n st (Tup vs) = map_res (\<lambda>(ops, st'). (Mark # ops @ [Tuple], st')) (save_all w n st vs)"
| "save w n st (Dct ks vs) = map_res (\<lambda>(ops, st'). (Mark # ops @ [Dict ks], st')) (save_all w n st vs)"
| "save w n st (Fun a) =
     (if a \<in> set (pk_memo st) then Inr ([Get (memo_index (pk_memo st) a)], st)
      else
        (case n of
           0 \<Rightarrow> Inl RuntimeError
         | Suc n' \<Rightarrow>
             let f = w_functions w ! a in
             if by_reference w a then
               (if fn_keys f = [] then
                  Inr ([Push (LGlobal (fn_module f) (fn_name f)), Put], st\<lparr>pk_memo := pk_memo st @ [a]\<rparr>)
                else
                  map_res (\<lambda>(ops, st').
                      ([Push (LCall RestoreAttr), Mark, Push (LGlobal (fn_module f) (fn_name f)), Put] @ ops @ [Tuple, Reduce], st'))
                    (save_all w n' (st\<lparr>pk_memo := pk_memo st @ [a]\<rparr>) [Dct (fn_keys f) (fn_attrs f)]))
             else
               (case forced_imports w (pk_savedForceImports st) f of (mods, saved) \<Rightarrow>
                  bind_res (extract_func_data w f) (\<lambda>(vars, gvals, closure).
                    map_res (\<lambda>(ops, st'). (import_ops mods @ skel_ops f (length closure) @ ops @ [Tuple, Reduce], st'))
                      (save_all w n' \<lparr>pk_memo = pk_memo st @ [a], pk_savedForceImports = saved\<rparr>
                        [Dct vars gvals, fn_defaults f, Tup closure, Dct (fn_keys f) (fn_attrs f)])))))"
| "save_all w n st [] = Inr ([], st)"
| "save_all w n st (v # vs) =
     bind_res (save w n st v) (\<lambda>(ops, st').
     bind_res (save_all w n st' vs) (\<lambda>(ops', st''). Inr (ops @ ops', st'')))"
  by pat_completeness auto
termination
  by (relation "inv_image (less_than <*lex*> less_than) (\<lambda>p. case p of
        Inl (w, n, st, v) \<Rightarrow> (n, 2 * size v) | Inr (w, n, st, vs) \<Rightarrow> (n, 2 * size_list size vs + 1))") auto

section \<open>Unpickling\<close>

text \<open>
  The functions that were rebuilt, the base dictionaries they use as globals, and what was
  imported into the main module. The memo, the stack and the marks are those of the pickle machine.
\<close>

record 'a lfun =
  lf_code :: "'a py_code"
  lf_base :: nat
  lf_defaults :: "'a lval"
  lf_closure :: "'a lval list"
  lf_dict :: "'a lval"

datatype 'a item = IMark | IVal "'a lval"

record 'a unpickler =
  up_stack :: "'a item list"
  up_memo :: "'a lval list"
  up_heap :: "'a lfun list"
  up_dicts :: "nat \<Rightarrow> string \<Rightarrow> 'a lval option"
  up_main :: "string list"
  up_attrs :: "('a lval \<times> 'a lval) list"

definition make_skel_func :: "'a py_code \<Rightarrow> nat \<Rightarrow> nat \<Rightarrow> 'a unpickler \<Rightarrow> 'a lval \<times> 'a unpickler" where
  "make_skel_func code num_closures base u =
     (LFun (length (up_heap u)),
      u\<lparr>up_heap := up_heap u @ [\<lparr>lf_code = code, lf_base = base, lf_defaults = LNone,
            lf_closure = replicate num_closures LNone, lf_dict = LDct [] []\<rparr>],
        up_dicts := (up_dicts u)(base := (up_dicts u base)(''__builtins__'' \<mapsto> LGlobal ''__builtin__'' ''__builtins__''))\<rparr>)"

definition fill_function ::
  "nat \<Rightarrow> string list \<Rightarrow> 'a lval list \<Rightarrow> 'a lval \<Rightarrow> 'a lval list \<Rightarrow> 'a lval \<Rightarrow> 'a unpickler \<Rightarrow> ('a lval \<times> 'a unpickler) res" where
  "fill_function i vars gvals defaults closure dict u =
     (let f = up_heap u ! i;
          g = lf_base f;
          u1 = u\<lparr>up_dicts := (up_dicts u)(g := up_dicts u g ++ map_of (zip vars gvals))\<rparr>
      in if length closure \<noteq> length (lf_closure f) then Inl (PyException ''UnpicklingError'')
         else Inr (LFun i, u1\<lparr>up_heap := (up_heap u1)[i := f\<lparr>lf_defaults := defaults, lf_dict := dict, lf_closure := closure\<rparr>]\<rparr>))"

fun reduce_call :: "callable \<Rightarrow> 'a lval list \<Rightarrow> 'a unpickler \<Rightarrow> ('a lval \<times> 'a unpickler) res" where
  "reduce_call MakeSkel args u =
     (case args of [LCode code, LInt n, LBase g] \<Rightarrow> Inr (make_skel_func code n g u) | _ \<Rightarrow> Inl TypeError)"
| "reduce_call FillFunction args u =
     (case args of
        [LFun i, LDct vars gvals, defaults, LTup closure, dict] \<Rightarrow> fill_function i vars gvals defaults closure dict u
      | _ \<Rightarrow> Inl TypeError)"
| "reduce_call RestoreAttr args u =
     (case args of [obj, attr] \<Rightarrow> Inr (obj, u\<lparr>up_attrs := up_attrs u @ [(obj, attr)]\<rparr>) | _ \<Rightarrow> Inl TypeError)"
| "reduce_call ModulesToMain args u =
     (case args of [LNames mods] \<Rightarrow> Inr (LNone, u\<lparr>up_main := up_main u @ mods\<rparr>) | _ \<Rightarrow> Inl TypeError)"

fun pop_mark :: "'a item list \<Rightarrow> 'a lval list \<Rightarrow> ('a lval list \<times> 'a item list) res" where
  "pop_mark [] acc = Inl IndexError"
| "pop_mark (IMark # s) acc = Inr (acc, s)"
| "pop_mark (IVal v # s) acc = pop_mark s (v # acc)"

fun exec_op :: "'a pk_op \<Rightarrow> 'a unpickler \<Rightarrow> 'a unpickler res" where
  "exec_op (Push v) u = Inr (u\<lparr>up_stack := IVal v # up_stack u\<rparr>)"
| "exec_op Mark u = Inr (u\<lparr>up_stack := IMark # up_stack u\<rparr>)"
| "exec_op Tuple u = map_res (\<lambda>(vs, s). u\<lparr>up_stack := IVal (LTup vs) # s\<rparr>) (pop_mark (up_stack u) [])"
| "exec_op (Dict ks) u = map_res (\<lambda>(vs, s). u\<lparr>up_stack := IVal (LDct ks vs) # s\<rparr>) (pop_mark (up_stack u) [])"
| "exec_op PopMark u = map_res (\<lambda>(vs, s). u\<lparr>up_stack := s\<rparr>) (pop_mark (up_stack u) [])"
| "exec_op Reduce u =
     (case up_stack u of
        IVal (LTup args) # IVal (LCall c) # s \<Rightarrow>
          map_res (\<lambda>(r, u'). u'\<lparr>up_stack := IVal r # s\<rparr>) (reduce_call c args u)
      | _ \<Rightarrow> Inl TypeError)"
| "exec_op Put u =
     (case up_stack u of IVal v # s \<Rightarrow> Inr (u\<lparr>up_memo := up_memo u @ [v]\<rparr>) | _ \<Rightarrow> Inl IndexError)"
| "exec_op (Get i) u = map_res (\<lambda>v. u\<lparr>up_stack := IVal v # up_stack u\<rparr>) (py_index (up_memo u) (int i))"

fun exec_ops :: "'a pk_op list \<Rightarrow> 'a unpickler \<Rightarrow> 'a unpickler res" where
  "exec_ops [] u = Inr u"
| "exec_ops (op # ops) u = bind_res (exec_op op u) (exec_ops ops)"

definition fresh_unpickler :: "'a unpickler" where
  "fresh_unpickler = \<lparr>up_stack = [], up_memo = [], up_heap = [], up_dicts = (\<lambda>g x. None), up_main = [], up_attrs = []\<rparr>"

section \<open>What a value becomes\<close>

text \<open>The copies are numbered in the order of the memo.\<close>

definition copied :: "'a py_world \<Rightarrow> nat list \<Rightarrow> nat list" where
  "copied w m = filter (\<lambda>a. \<not> by_reference w a) m"

definition copy_of :: "'a py_world \<Rightarrow> nat list \<Rightarrow> nat \<Rightarrow> nat" where
  "copy_of w m a = length (copied w (takeWhile (\<lambda>x. x \<noteq> a) m))"

fun img :: "'a py_world \<Rightarrow> nat list \<Rightarrow> 'a val \<Rightarrow> 'a lval" where
  "img w m (Atom a) = LAtom a"
| "img w m (Tup vs) = LTup (map (img w m) vs)"
| "img w m (Dct ks vs) = LDct ks (map (img w m) vs)"
| "img w m (Fun a) =
     (if by_reference w a then LGlobal (fn_module (w_functions w ! a)) (fn_name (w_functions w ! a))
      else LFun (copy_of w m a))"

fun known :: "nat list \<Rightarrow> 'a val \<Rightarrow> bool" where
  "known m (Atom a) = True"
| "known m (Tup vs) = (\<forall>v\<in>set vs. known m v)"
| "known m (Dct ks vs) = (\<forall>v\<in>set vs. known m v)"
| "known m (Fun a) = (a \<in> set m)"

definition data_of :: "'a py_world \<Rightarrow> nat \<Rightarrow> string list \<times> 'a val list \<times> 'a val list" where
  "data_of w a = projr (extract_func_data w (w_functions w ! a))"

definition lfun_of :: "'a py_world \<Rightarrow> nat list \<Rightarrow> nat \<Rightarrow> 'a lfun" where
  "lfun_of w m a =
     (let f = w_functions w ! a; (vars, gvals, closure) = data_of w a in
      \<lparr>lf_code = fn_code f, lf_base = fn_globals f, lf_defaults = img w m (fn_defaults f),
       lf_closure = map (img w m) closure, lf_dict = LDct (fn_keys f) (map (img w m) (fn_attrs f))\<rparr>)"

text \<open>
  The base dictionaries hold values of the dictionaries they stand for, and for every finished
  copy all that it refers to.
\<close>

definition dicts_ok :: "'a py_world \<Rightarrow> nat list \<Rightarrow> nat set \<Rightarrow> (nat \<Rightarrow> string \<Rightarrow> 'a lval option) \<Rightarrow> bool" where
  "dicts_ok w m S D \<longleftrightarrow>
     (\<forall>g x l. x \<noteq> ''__builtins__'' \<longrightarrow> D g x = Some l \<longrightarrow>
        (\<exists>v. map_of (w_globals w ! g) x = Some v \<and> known m v \<and> l = img w m v)) \<and>
     (\<forall>a\<in>S. \<not> by_reference w a \<longrightarrow> (\<forall>x\<in>set (fst (data_of w a)). x \<noteq> ''__builtins__'' \<longrightarrow>
        D (fn_globals (w_functions w ! a)) x \<noteq> None))"

definition loaded :: "'a py_world \<Rightarrow> nat list \<Rightarrow> nat set \<Rightarrow> 'a unpickler \<Rightarrow> bool" where
  "loaded w m S u \<longleftrightarrow> distinct m \<and> up_memo u = map (\<lambda>a. img w m (Fun a)) m \<and>
     length (up_heap u) = length (copied w m) \<and> dicts_ok w m S (up_dicts u)"

lemma exec_append: "exec_ops (xs @ ys) u = bind_res (exec_ops xs u) (exec_ops ys)"
proof (induction xs arbitrary: u)
  case (Cons x xs)
  then show ?case by (cases "exec_op x u") simp_all
qed simp

lemma exec_seq: "exec_ops xs u = Inr u1 \<Longrightarrow> exec_ops ys u1 = Inr u2 \<Longrightarrow> exec_ops (xs @ ys) u = Inr u2"
  by (simp add: exec_append)

lemma pop_mark_values: "pop_mark (map IVal vs @ IMark # s) acc = Inr (rev vs @ acc, s)"
  by (induction vs arbitrary: acc) simp_all

lemma copied_append [simp]: "copied w (m @ m') = copied w m @ copied w m'"
  by (simp add: copied_def)

lemma copy_of_extend: "a \<in> set m \<Longrightarrow> copy_of w (m @ ext) a = copy_of w m a"
  by (simp add: copy_of_def)

lemma copy_of_new: "a \<notin> set m \<Longrightarrow> copy_of w (m @ a # ext) a = length (copied w m)"
proof -
  assume "a \<notin> set m"
  then have "takeWhile (\<lambda>x. x \<noteq> a) (m @ a # ext) = m" by (induction m) auto
  then show ?thesis by (simp add: copy_of_def)
qed

lemma copied_nth:
  assumes "b \<in> set (copied w m)"
  shows "copy_of w m b < length (copied w m) \<and> copied w m ! copy_of w m b = b"
  using assms unfolding copied_def copy_of_def by (induction m) auto

lemma img_extend: "known m v \<Longrightarrow> img w (m @ ext) v = img w m v"
  by (induction v) (auto simp: copy_of_extend)

lemma known_extend: "known m v \<Longrightarrow> known (m @ ext) v"
  by (induction v) auto

lemma memo_index_nth: "a \<in> set m \<Longrightarrow> memo_index m a < length m \<and> m ! memo_index m a = a"
  unfolding memo_index_def by (induction m) auto

lemma dicts_ok_extend:
  assumes "dicts_ok w m S D" shows "dicts_ok w (m @ ext) S D"
  using assms unfolding dicts_ok_def by (metis img_extend known_extend)

lemma dicts_ok_builtins:
  "dicts_ok w m S D \<Longrightarrow> dicts_ok w m S (D(g := (D g)(''__builtins__'' \<mapsto> b)))"
  unfolding dicts_ok_def by auto

lemma extract_data:
  assumes "extract_func_data w (w_functions w ! a) = Inr (vars, gvals, closure)"
  shows "data_of w a = (vars, gvals, closure)"
    and "gvals = map (\<lambda>x. the (map_of (w_globals w ! fn_globals (w_functions w ! a)) x)) vars"
    and "\<forall>x\<in>set vars. map_of (w_globals w ! fn_globals (w_functions w ! a)) x \<noteq> None"
  using assms by (auto simp: data_of_def extract_func_data_def Let_def)

lemma dicts_ok_fill:
  fixes w :: "'a py_world" and a :: nat
  defines "g \<equiv> fn_globals (w_functions w ! a)"
  assumes D: "dicts_ok w m S D" and x: "extract_func_data w (w_functions w ! a) = Inr (vars, gvals, closure)"
    and kn: "\<forall>v\<in>set gvals. known m v"
  shows "dicts_ok w m (insert a S) (D(g := D g ++ map_of (zip vars (map (img w m) gvals))))"
proof -
  let ?gs = "w_globals w ! g" and ?D' = "D(g := D g ++ map_of (zip vars (map (img w m) gvals)))"
  note d = extract_data [OF x, folded g_def]
  have z: "map_of (zip vars (map (img w m) gvals)) = (\<lambda>x. if x \<in> set vars then Some (img w m (the (map_of ?gs x))) else None)"
    unfolding d(2) map_map by (simp add: map_of_zip_map comp_def)
  have upd: "?D' g' x = (if g' = g \<and> x \<in> set vars then Some (img w m (the (map_of ?gs x))) else D g' x)" for g' x
    by (simp add: z map_add_def)
  have new: "\<exists>v. map_of ?gs x = Some v \<and> known m v \<and> img w m (the (map_of ?gs x)) = img w m v" if "x \<in> set vars" for x
    using that d(2,3) kn by fastforce
  show ?thesis
    unfolding dicts_ok_def upd
  proof (intro conjI allI impI ballI)
    fix g' x l assume "x \<noteq> ''__builtins__''" "(if g' = g \<and> x \<in> set vars then Some (img w m (the (map_of ?gs x))) else D g' x) = Some l"
    then show "\<exists>v. map_of (w_globals w ! g') x = Some v \<and> known m v \<and> l = img w m v"
      using D new unfolding dicts_ok_def by (metis option.inject)
  next
    fix b x assume b: "b \<in> insert a S" "\<not> by_reference w b" "x \<in> set (fst (data_of w b))" "x \<noteq> ''__builtins__''"
    show "(if fn_globals (w_functions w ! b) = g \<and> x \<in> set vars then Some (img w m (the (map_of ?gs x)))
        else D (fn_globals (w_functions w ! b)) x) \<noteq> None"
    proof (cases "b = a")
      case True
      then show ?thesis using b(3) d(1) by (simp add: g_def)
    next
      case False
      then show ?thesis using b D unfolding dicts_ok_def by auto
    qed
  qed
qed

text \<open>What running the operations of saved values does.\<close>

definition complete :: "'a py_world \<Rightarrow> nat list \<Rightarrow> nat \<Rightarrow> bool" where
  "complete w m a \<longleftrightarrow> known m (fn_defaults (w_functions w ! a)) \<and>
     (\<forall>v\<in>set (snd (snd (data_of w a))). known m v) \<and> (\<forall>v\<in>set (fn_attrs (w_functions w ! a)). known m v)"

definition runs_to ::
  "'a py_world \<Rightarrow> nat list \<Rightarrow> nat set \<Rightarrow> 'a unpickler \<Rightarrow> 'a pk_op list \<Rightarrow> nat list \<Rightarrow> 'a val list \<Rightarrow> bool" where
  "runs_to w m S u ops m' vs \<longleftrightarrow>
     (\<exists>u' ext. exec_ops ops u = Inr u' \<and> m' = m @ ext \<and> loaded w m' (S \<union> set ext) u' \<and>
        up_stack u' = map IVal (rev (map (img w m') vs)) @ up_stack u \<and> (\<forall>v\<in>set vs. known m' v) \<and>
        (\<forall>a\<in>set (copied w ext). complete w m' a) \<and>
        up_heap u' = up_heap u @ map (lfun_of w m') (copied w ext))"

lemma complete_extend: "complete w m a \<Longrightarrow> complete w (m @ ext) a"
  by (simp add: complete_def known_extend)

lemma lfun_of_extend: "complete w m a \<Longrightarrow> lfun_of w (m @ ext) a = lfun_of w m a"
  by (simp add: complete_def lfun_of_def Let_def img_extend split: prod.splits)

lemma loaded_stack [simp]: "loaded w m S (u\<lparr>up_stack := s\<rparr>) = loaded w m S u"
  by (simp add: loaded_def)

lemma runs_Nil: "loaded w m S u \<Longrightarrow> runs_to w m S u [] m []"
  unfolding runs_to_def by (intro exI [of _ u] exI [of _ "[]"]) (simp add: copied_def)

lemma runs_append:
  assumes "runs_to w m S u ops m' vs" and "\<And>S' u'. loaded w m' S' u' \<Longrightarrow> runs_to w m' S' u' ops' m'' vs'"
  shows "runs_to w m S u (ops @ ops') m'' (vs @ vs')"
proof -
  obtain u1 ext1 where 1: "exec_ops ops u = Inr u1" "m' = m @ ext1" "loaded w m' (S \<union> set ext1) u1"
      "up_stack u1 = map IVal (rev (map (img w m') vs)) @ up_stack u" "\<forall>v\<in>set vs. known m' v"
      "\<forall>a\<in>set (copied w ext1). complete w m' a" "up_heap u1 = up_heap u @ map (lfun_of w m') (copied w ext1)"
    using assms(1) unfolding runs_to_def by blast
  obtain u2 ext2 where 2: "exec_ops ops' u1 = Inr u2" "m'' = m' @ ext2" "loaded w m'' (S \<union> set ext1 \<union> set ext2) u2"
      "up_stack u2 = map IVal (rev (map (img w m'') vs')) @ up_stack u1" "\<forall>v\<in>set vs'. known m'' v"
      "\<forall>a\<in>set (copied w ext2). complete w m'' a" "up_heap u2 = up_heap u1 @ map (lfun_of w m'') (copied w ext2)"
    using assms(2) [OF 1(3)] unfolding runs_to_def by blast
  have vs: "map (img w m'') vs = map (img w m') vs" using 1(5) 2(2) by (simp add: img_extend)
  have fs: "map (lfun_of w m'') (copied w ext1) = map (lfun_of w m') (copied w ext1)"
    using 1(6) 2(2) by (simp add: lfun_of_extend)
  show ?thesis
    unfolding runs_to_def
  proof (intro exI [of _ u2] exI [of _ "ext1 @ ext2"] conjI)
    show "exec_ops (ops @ ops') u = Inr u2" using 1(1) 2(1) by (simp add: exec_append)
    show "m'' = m @ ext1 @ ext2" using 1(2) 2(2) by simp
    show "loaded w m'' (S \<union> set (ext1 @ ext2)) u2" using 2(3) by (simp add: Un_assoc)
    show "up_stack u2 = map IVal (rev (map (img w m'') (vs @ vs'))) @ up_stack u" 
      unfolding 1(4) 2(4) map_append rev_append append_assoc vs ..
    show "\<forall>v\<in>set (vs @ vs'). known m'' v" using 1(5) 2(2,5) by (auto simp: known_extend)
    show "\<forall>a\<in>set (copied w (ext1 @ ext2)). complete w m'' a" using 1(6) 2(2,6) by (auto simp: complete_extend)
    show "up_heap u2 = up_heap u @ map (lfun_of w m'') (copied w (ext1 @ ext2))" using 1(7) 2(7) fs by simp
  qed
qed

lemma runs_collect:
  assumes "runs_to w m S (u\<lparr>up_stack := IMark # up_stack u\<rparr>) ops m' vs"
    and "\<And>s u'. up_stack u' = map IVal (rev (map (img w m') vs)) @ IMark # s \<Longrightarrow>
      exec_op op u' = Inr (u'\<lparr>up_stack := IVal (img w m' v) # s\<rparr>)"
    and "known m' v = (\<forall>v\<in>set vs. known m' v)"
  shows "runs_to w m S u (Mark # ops @ [op]) m' [v]"
proof -
  obtain u1 ext where 1: "exec_ops ops (u\<lparr>up_stack := IMark # up_stack u\<rparr>) = Inr u1" "m' = m @ ext" "loaded w m' (S \<union> set ext) u1"
      "up_stack u1 = map IVal (rev (map (img w m') vs)) @ IMark # up_stack u" "\<forall>v\<in>set vs. known m' v"
      "\<forall>a\<in>set (copied w ext). complete w m' a" "up_heap u1 = up_heap u @ map (lfun_of w m') (copied w ext)"
    using assms(1) unfolding runs_to_def by auto
  show ?thesis
    unfolding runs_to_def
    using 1 assms(2) [OF 1(4)] assms(3)
    by (intro exI [of _ "u1\<lparr>up_stack := IVal (img w m' v) # up_stack u\<rparr>"] exI [of _ ext])
      (simp add: exec_append)
qed

lemma runs_Tup: "runs_to w m S (u\<lparr>up_stack := IMark # up_stack u\<rparr>) ops m' vs \<Longrightarrow> runs_to w m S u (Mark # ops @ [Tuple]) m' [Tup vs]"
  by (erule runs_collect) (simp_all add: pop_mark_values)

lemma runs_Dct: "runs_to w m S (u\<lparr>up_stack := IMark # up_stack u\<rparr>) ops m' vs \<Longrightarrow> runs_to w m S u (Mark # ops @ [Dict ks]) m' [Dct ks vs]"
  by (erule runs_collect) (simp_all add: pop_mark_values)

lemma runs_Get:
  assumes "loaded w m S u" and "a \<in> set m"
  shows "runs_to w m S u [Get (memo_index m a)] m [Fun a]"
  unfolding runs_to_def
  using assms memo_index_nth [OF assms(2)]
  by (intro exI [of _ "u\<lparr>up_stack := IVal (img w m (Fun a)) # up_stack u\<rparr>"] exI [of _ "[]"])
    (simp add: py_index_of_nat loaded_def copied_def del: img.simps)

lemma loaded_put:
  assumes "loaded w m S u" and "a \<notin> set m" and "length H = length (copied w (m @ [a]))" and "dicts_ok w m S D"
  shows "loaded w (m @ [a]) S (u\<lparr>up_memo := up_memo u @ [img w (m @ [a]) (Fun a)], up_heap := H, up_dicts := D\<rparr>)"
proof -
  have "map (\<lambda>b. img w (m @ [a]) (Fun b)) m = map (\<lambda>b. img w m (Fun b)) m"
    by (simp add: img_extend del: img.simps)
  then show ?thesis
    using assms dicts_ok_extend [OF assms(4), of "[a]"] by (simp add: loaded_def del: img.simps)
qed

lemma loaded_insert_reference: "loaded w m S u \<Longrightarrow> by_reference w a \<Longrightarrow> loaded w m (insert a S) u"
  by (simp add: loaded_def dicts_ok_def)

lemma loaded_put_reference:
  assumes "loaded w m S u" and "a \<notin> set m" and "by_reference w a"
  shows "loaded w (m @ [a]) S (u\<lparr>up_memo := up_memo u @ [img w (m @ [a]) (Fun a)]\<rparr>)"
  using loaded_put [OF assms(1,2), of "up_heap u" "up_dicts u"] assms by (simp add: loaded_def copied_def)

lemma runs_reference:
  assumes l: "loaded w m S u" and a: "a \<notin> set m" "by_reference w a"
  shows "runs_to w m S u [Push (LGlobal (fn_module (w_functions w ! a)) (fn_name (w_functions w ! a))), Put] (m @ [a]) [Fun a]"
proof -
  let ?v = "img w (m @ [a]) (Fun a)"
  have v: "LGlobal (fn_module (w_functions w ! a)) (fn_name (w_functions w ! a)) = ?v" using a(2) by simp
  have "loaded w (m @ [a]) (S \<union> set [a]) (u\<lparr>up_memo := up_memo u @ [?v], up_stack := IVal ?v # up_stack u\<rparr>)"
    using loaded_insert_reference [OF loaded_put_reference [OF l a] a(2)] by simp
  then show ?thesis
    unfolding runs_to_def v using a(2)
    by (intro exI [of _ "u\<lparr>up_memo := up_memo u @ [?v], up_stack := IVal ?v # up_stack u\<rparr>"] exI [of _ "[a]"])
      (simp add: copied_def del: img.simps)
qed

lemma runs_restore:
  assumes l: "loaded w m S u" and a: "a \<notin> set m" "by_reference w a"
    and ops: "\<And>S' u'. loaded w (m @ [a]) S' u' \<Longrightarrow> runs_to w (m @ [a]) S' u' ops m' [d]"
  shows "runs_to w m S u ([Push (LCall RestoreAttr), Mark,
    Push (LGlobal (fn_module (w_functions w ! a)) (fn_name (w_functions w ! a))), Put] @ ops @ [Tuple, Reduce]) m' [Fun a]"
proof -
  let ?v = "img w (m @ [a]) (Fun a)"
  have v: "LGlobal (fn_module (w_functions w ! a)) (fn_name (w_functions w ! a)) = img w m'' (Fun a)" for m''
    using a(2) by simp
  let ?u1 = "u\<lparr>up_memo := up_memo u @ [?v], up_stack := IVal ?v # IMark # IVal (LCall RestoreAttr) # up_stack u\<rparr>"
  have "loaded w (m @ [a]) S ?u1" using loaded_put_reference [OF l a] by simp
  then obtain u2 ext where 2: "exec_ops ops ?u1 = Inr u2" "m' = (m @ [a]) @ ext" "loaded w m' (S \<union> set ext) u2"
      "up_stack u2 = [IVal (img w m' d)] @ up_stack ?u1"
      "\<forall>b\<in>set (copied w ext). complete w m' b" "up_heap u2 = up_heap ?u1 @ map (lfun_of w m') (copied w ext)"
    using ops [of S ?u1] unfolding runs_to_def by auto
  let ?u3 = "u2\<lparr>up_stack := IVal ?v # up_stack u, up_attrs := up_attrs u2 @ [(?v, img w m' d)]\<rparr>"
  have "exec_ops [Tuple, Reduce] u2 = Inr ?u3" using 2(4) by (simp del: img.simps)
  moreover have "exec_ops [Push (LCall RestoreAttr), Mark, Push ?v, Put] u = Inr ?u1" by (simp del: img.simps)
  ultimately have "exec_ops ([Push (LCall RestoreAttr), Mark, Push ?v, Put] @ ops @ [Tuple, Reduce]) u = Inr ?u3"
    using 2(1) by (intro exec_seq) assumption+
  moreover have "loaded w m' (S \<union> set (a # ext)) ?u3"
    using loaded_insert_reference [OF 2(3) a(2)] by (simp add: loaded_def)
  ultimately show ?thesis
    unfolding runs_to_def v [of "m @ [a]"] using 2 a(2) v
    by (intro exI [of _ ?u3] exI [of _ "a # ext"]) (simp add: copied_def)
qed

lemma exec_import_ops: "exec_ops (import_ops mods) u = Inr (u\<lparr>up_main := up_main u @ mods\<rparr>)"
  by (simp add: import_ops_def)

lemma exec_skel_ops:
  "exec_ops (skel_ops f n) u = Inr (u\<lparr>up_memo := up_memo u @ [LFun (length (up_heap u))],
     up_heap := up_heap u @ [\<lparr>lf_code = fn_code f, lf_base = fn_globals f, lf_defaults = LNone,
       lf_closure = replicate n LNone, lf_dict = LDct [] []\<rparr>],
     up_dicts := (up_dicts u)(fn_globals f := (up_dicts u (fn_globals f))(''__builtins__'' \<mapsto> LGlobal ''__builtin__'' ''__builtins__'')),
     up_stack := IVal (LFun (length (up_heap u))) # IMark # IVal (LCall FillFunction) # up_stack u\<rparr>)"
  by (simp add: skel_ops_def make_skel_func_def)

lemma exec_fill:
  assumes "up_stack u = IVal (LDct ks as) # IVal (LTup cs) # IVal d # IVal (LDct vars gs) # IVal (LFun i) # IMark #
      IVal (LCall FillFunction) # s"
    and "length cs = length (lf_closure (up_heap u ! i))" and "lf_base (up_heap u ! i) = g"
  shows "exec_ops [Tuple, Reduce] u = Inr (u\<lparr>up_stack := IVal (LFun i) # s,
    up_dicts := (up_dicts u)(g := up_dicts u g ++ map_of (zip vars gs)),
    up_heap := (up_heap u)[i := (up_heap u ! i)\<lparr>lf_defaults := d, lf_dict := LDct ks as, lf_closure := cs\<rparr>]\<rparr>)"
  using assms by (simp add: fill_function_def Let_def)

lemma runs_copy:
  fixes w :: "'a py_world" and a :: nat
  defines "f \<equiv> w_functions w ! a"
  assumes l: "loaded w m S u" and a: "a \<notin> set m" "\<not> by_reference w a"
    and x: "extract_func_data w f = Inr (vars, gvals, closure)"
    and ops: "\<And>S' u'. loaded w (m @ [a]) S' u' \<Longrightarrow>
      runs_to w (m @ [a]) S' u' ops m' [Dct vars gvals, fn_defaults f, Tup closure, Dct (fn_keys f) (fn_attrs f)]"
  shows "runs_to w m S u (import_ops mods @ skel_ops f (length closure) @ ops @ [Tuple, Reduce]) m' [Fun a]"
proof -
  let ?i = "length (up_heap u)" and ?g = "fn_globals f"
  let ?skel = "\<lparr>lf_code = fn_code f, lf_base = ?g, lf_defaults = LNone, lf_closure = replicate (length closure) LNone, lf_dict = LDct [] []\<rparr>"
  let ?D = "(up_dicts u)(?g := (up_dicts u ?g)(''__builtins__'' \<mapsto> LGlobal ''__builtin__'' ''__builtins__''))"
  let ?u1 = "u\<lparr>up_main := up_main u @ mods, up_memo := up_memo u @ [LFun ?i], up_heap := up_heap u @ [?skel],
      up_dicts := ?D, up_stack := IVal (LFun ?i) # IMark # IVal (LCall FillFunction) # up_stack u\<rparr>"
  note d = extract_data [OF x [unfolded f_def], folded f_def]
  have i: "?i = length (copied w m)" using l by (simp add: loaded_def)
  have v: "img w (m @ a # e) (Fun a) = LFun ?i" for e using a copy_of_new [of a m w e] i by simp
  have "loaded w (m @ [a]) S (u\<lparr>up_memo := up_memo u @ [img w (m @ [a]) (Fun a)],
      up_heap := up_heap u @ [?skel], up_dicts := ?D\<rparr>)"
    using l i a by (intro loaded_put) (simp_all add: loaded_def copied_def dicts_ok_builtins)
  then have l1: "loaded w (m @ [a]) S ?u1" unfolding v by (simp add: loaded_def)
  obtain u2 ext where 2: "exec_ops ops ?u1 = Inr u2" "m' = (m @ [a]) @ ext" "loaded w m' (S \<union> set ext) u2"
      "up_stack u2 = map IVal (rev (map (img w m') [Dct vars gvals, fn_defaults f, Tup closure, Dct (fn_keys f) (fn_attrs f)])) @ up_stack ?u1"
      "\<forall>v\<in>set [Dct vars gvals, fn_defaults f, Tup closure, Dct (fn_keys f) (fn_attrs f)]. known m' v"
      "\<forall>b\<in>set (copied w ext). complete w m' b" "up_heap u2 = up_heap ?u1 @ map (lfun_of w m') (copied w ext)"
    using ops [OF l1] unfolding runs_to_def by blast
  have at: "up_heap u2 ! ?i = ?skel" using 2(7) by (simp add: nth_append)
  let ?u3 = "u2\<lparr>up_stack := IVal (LFun ?i) # up_stack u,
      up_dicts := (up_dicts u2)(?g := up_dicts u2 ?g ++ map_of (zip vars (map (img w m') gvals))),
      up_heap := (up_heap u2)[?i := ?skel\<lparr>lf_defaults := img w m' (fn_defaults f),
        lf_dict := LDct (fn_keys f) (map (img w m') (fn_attrs f)), lf_closure := map (img w m') closure\<rparr>]\<rparr>"
  have fill: "exec_ops [Tuple, Reduce] u2 = Inr ?u3"
    using exec_fill [of u2 "fn_keys f" "map (img w m') (fn_attrs f)" "map (img w m') closure" "img w m' (fn_defaults f)"
        vars "map (img w m') gvals" ?i "up_stack u" ?g] 2(4) at by simp
  have skel: "exec_ops (skel_ops f (length closure)) (u\<lparr>up_main := up_main u @ mods\<rparr>) = Inr ?u1"
    by (simp add: exec_skel_ops)
  have run: "exec_ops (import_ops mods @ skel_ops f (length closure) @ ops @ [Tuple, Reduce]) u = Inr ?u3"
    by (rule exec_seq [OF exec_import_ops exec_seq [OF skel exec_seq [OF 2(1) fill]]])
  have "lfun_of w m' a = ?skel\<lparr>lf_defaults := img w m' (fn_defaults f),
      lf_dict := LDct (fn_keys f) (map (img w m') (fn_attrs f)), lf_closure := map (img w m') closure\<rparr>"
    using d(1) by (simp add: lfun_of_def f_def Let_def)
  then have heap: "up_heap ?u3 = up_heap u @ map (lfun_of w m') (copied w (a # ext))"
    using 2(7) a(2) by (simp add: copied_def list_update_append)
  have "dicts_ok w m' (insert a (S \<union> set ext)) (up_dicts ?u3)"
    using dicts_ok_fill [OF _ x [unfolded f_def], of m' "S \<union> set ext" "up_dicts u2"] 2(3,5) by (simp add: loaded_def f_def)
  then have l3: "loaded w m' (S \<union> set (a # ext)) ?u3" using 2(3) by (simp add: loaded_def)
  have c: "\<forall>b\<in>set (copied w (a # ext)). complete w m' b"
    using 2(5,6) d(1) by (auto simp: copied_def complete_def f_def)
  show ?thesis
    unfolding runs_to_def using run heap l3 c 2(2) v [of ext]
    by (intro exI [of _ ?u3] exI [of _ "a # ext"]) (simp del: img.simps)
qed

lemma save_runs:
  "save w n st v = Inr (ops, st') \<Longrightarrow> loaded w (pk_memo st) S u \<Longrightarrow> runs_to w (pk_memo st) S u ops (pk_memo st') [v]"
  "save_all w n st vs = Inr (ops, st') \<Longrightarrow> loaded w (pk_memo st) S u \<Longrightarrow> runs_to w (pk_memo st) S u ops (pk_memo st') vs"
proof (induction w n st v and w n st vs arbitrary: ops st' S u and ops st' S u rule: save_save_all.induct)
  case (1 w n st a)
  then show ?case
    unfolding runs_to_def
    by (intro exI [of _ "u\<lparr>up_stack := IVal (LAtom a) # up_stack u\<rparr>"] exI [of _ "[]"]) (auto simp: copied_def)
next
  case (2 w n st vs)
  then obtain ops' where "save_all w n st vs = Inr (ops', st')" "ops = Mark # ops' @ [Tuple]" by auto
  then show ?case using "2.IH" [of ops' st' S] "2.prems"(2) by (auto intro: runs_Tup)
next
  case (3 w n st ks vs)
  then obtain ops' where "save_all w n st vs = Inr (ops', st')" "ops = Mark # ops' @ [Dict ks]" by auto
  then show ?case using "3.IH" [of ops' st' S] "3.prems"(2) by (auto intro: runs_Dct)
next
  case (4 w n st a)
  note IH = "4.IH" and prems = "4.prems"
  let ?f = "w_functions w ! a" and ?m = "pk_memo st"
  show ?case
  proof (cases "a \<in> set ?m")
    case True
    then show ?thesis using prems by (auto intro: runs_Get)
  next
    case new: False
    then obtain n' where n: "n = Suc n'" using prems(1) by (cases n) auto
    show ?thesis
    proof (cases "by_reference w a")
      case ref: True
      show ?thesis
      proof (cases "fn_keys ?f = []")
        case True
        then show ?thesis using prems new ref n by (auto simp: Let_def intro: runs_reference)
      next
        case False
        then obtain ops' where o: "save_all w n' (st\<lparr>pk_memo := ?m @ [a]\<rparr>) [Dct (fn_keys ?f) (fn_attrs ?f)] = Inr (ops', st')"
            "ops = [Push (LCall RestoreAttr), Mark, Push (LGlobal (fn_module ?f) (fn_name ?f)), Put] @ ops' @ [Tuple, Reduce]"
          using prems(1) new ref n by (auto simp: Let_def simp del: save_all.simps)
        show ?thesis
          unfolding o(2)
          by (rule runs_restore [OF prems(2) new ref], use IH(1) [OF new n refl ref False o(1)] in simp)
      qed
    next
      case copy: False
      obtain mods saved where fi: "forced_imports w (pk_savedForceImports st) ?f = (mods, saved)" by force
      obtain vars gvals closure ops' where o: "extract_func_data w ?f = Inr (vars, gvals, closure)"
          "save_all w n' \<lparr>pk_memo = ?m @ [a], pk_savedForceImports = saved\<rparr>
            [Dct vars gvals, fn_defaults ?f, Tup closure, Dct (fn_keys ?f) (fn_attrs ?f)] = Inr (ops', st')"
          "ops = import_ops mods @ skel_ops ?f (length closure) @ ops' @ [Tuple, Reduce]"
        using prems(1) new copy n fi by (auto simp: Let_def simp del: save_all.simps)
      show ?thesis
        unfolding o(3)
        by (rule runs_copy [OF prems(2) new copy o(1)], use IH(2) [OF new n refl copy fi [symmetric] o(2)] in simp)
    qed
  qed
next
  case (5 w n st)
  then show ?case by (simp add: runs_Nil)
next
  case (6 w n st v vs)
  obtain ops1 st1 ops2 where o: "save w n st v = Inr (ops1, st1)" "save_all w n st1 vs = Inr (ops2, st')" "ops = ops1 @ ops2"
    using "6.prems"(1) by auto
  have "runs_to w (pk_memo st) S u (ops1 @ ops2) (pk_memo st') ([v] @ vs)"
    by (rule runs_append [OF "6.IH"(1) [OF o(1) "6.prems"(2)]]) (rule "6.IH"(2) [OF o(2)])
  then show ?case by (simp add: o(3))
qed

section \<open>Saving ends\<close>

fun val_ok :: "'a py_world \<Rightarrow> 'a val \<Rightarrow> bool" where
  "val_ok w (Atom a) = True"
| "val_ok w (Tup vs) = (\<forall>v\<in>set vs. val_ok w v)"
| "val_ok w (Dct ks vs) = (\<forall>v\<in>set vs. val_ok w v)"
| "val_ok w (Fun a) = (a < length (w_functions w))"

text \<open>Every address is that of a function, and every function can be taken apart.\<close>

definition world_ok :: "'a py_world \<Rightarrow> bool" where
  "world_ok w \<longleftrightarrow> (\<forall>f\<in>set (w_functions w). val_ok w (fn_defaults f) \<and> (\<forall>v\<in>set (fn_attrs f). val_ok w v) \<and>
     (\<exists>vars gvals closure. extract_func_data w f = Inr (vars, gvals, closure) \<and>
        (\<forall>v\<in>set gvals \<union> set closure. val_ok w v)))"

definition unsaved :: "'a py_world \<Rightarrow> pickler \<Rightarrow> nat" where
  "unsaved w st = card ({..<length (w_functions w)} - set (pk_memo st))"

lemma unsaved_mono: "set (pk_memo st) \<subseteq> set (pk_memo st') \<Longrightarrow> unsaved w st' \<le> unsaved w st"
  unfolding unsaved_def by (intro card_mono) auto

lemma unsaved_put:
  assumes "a < length (w_functions w)" "a \<notin> set (pk_memo st)" "pk_memo st' = pk_memo st @ [a]"
  shows "Suc (unsaved w st') = unsaved w st"
proof -
  have "{..<length (w_functions w)} - set (pk_memo st') = ({..<length (w_functions w)} - set (pk_memo st)) - {a}"
    using assms(3) by auto
  then show ?thesis unfolding unsaved_def using assms(1,2)
    card_Suc_Diff1 [of "{..<length (w_functions w)} - set (pk_memo st)" a] by simp
qed

lemma save_ends:
  "world_ok w \<Longrightarrow> val_ok w v \<Longrightarrow> unsaved w st \<le> n \<Longrightarrow>
     \<exists>ops st'. save w n st v = Inr (ops, st') \<and> set (pk_memo st) \<subseteq> set (pk_memo st')"
  "world_ok w \<Longrightarrow> \<forall>v\<in>set vs. val_ok w v \<Longrightarrow> unsaved w st \<le> n \<Longrightarrow>
     \<exists>ops st'. save_all w n st vs = Inr (ops, st') \<and> set (pk_memo st) \<subseteq> set (pk_memo st')"
proof (induction w n st v and w n st vs rule: save_save_all.induct)
  case (4 w n st a)
  let ?f = "w_functions w ! a" and ?m = "pk_memo st"
  show ?case
  proof (cases "a \<in> set ?m")
    case new: False
    have a: "a < length (w_functions w)" using "4.prems"(2) by simp
    then obtain n' where n: "n = Suc n'" using unsaved_put [OF a new, of "st\<lparr>pk_memo := ?m @ [a]\<rparr>"] "4.prems"(3) by (cases n) auto
    have less: "unsaved w st' \<le> n'" if "pk_memo st' = ?m @ [a]" for st'
      using unsaved_put [OF a new that] "4.prems"(3) n by simp
    have ok: "val_ok w (fn_defaults ?f)" "\<forall>v\<in>set (fn_attrs ?f). val_ok w v"
      "\<exists>vars gvals closure. extract_func_data w ?f = Inr (vars, gvals, closure) \<and> (\<forall>v\<in>set gvals \<union> set closure. val_ok w v)"
      using "4.prems"(1) a unfolding world_ok_def by (meson nth_mem)+
    show ?thesis
    proof (cases "by_reference w a")
      case ref: True
      show ?thesis
      proof (cases "fn_keys ?f = []")
        case True
        then show ?thesis using new ref n by (auto simp: Let_def)
      next
        case False
        obtain ops st' where "save_all w n' (st\<lparr>pk_memo := ?m @ [a]\<rparr>) [Dct (fn_keys ?f) (fn_attrs ?f)] = Inr (ops, st')"
            "set (?m @ [a]) \<subseteq> set (pk_memo st')"
          using "4.IH"(1) [OF new n refl ref False "4.prems"(1) _ less] ok(2) by auto
        then show ?thesis using new ref n False by (auto simp: Let_def simp del: save_all.simps)
      qed
    next
      case copy: False
      obtain mods saved where fi: "forced_imports w (pk_savedForceImports st) ?f = (mods, saved)" by force
      obtain vars gvals closure where x: "extract_func_data w ?f = Inr (vars, gvals, closure)"
          "\<forall>v\<in>set gvals \<union> set closure. val_ok w v"
        using ok(3) by blast
      obtain ops st' where "save_all w n' \<lparr>pk_memo = ?m @ [a], pk_savedForceImports = saved\<rparr>
            [Dct vars gvals, fn_defaults ?f, Tup closure, Dct (fn_keys ?f) (fn_attrs ?f)] = Inr (ops, st')"
          "set (?m @ [a]) \<subseteq> set (pk_memo st')"
        using "4.IH"(2) [OF new n refl copy fi [symmetric] "4.prems"(1) _ less, of vars gvals closure] ok(1,2) x(2) by auto
      then show ?thesis using new copy n fi x(1) by (auto simp: Let_def simp del: save_all.simps)
    qed
  qed auto
next
  case (6 w n st v vs)
  obtain ops st1 where 1: "save w n st v = Inr (ops, st1)" "set (pk_memo st) \<subseteq> set (pk_memo st1)"
    using "6.IH"(1) "6.prems" by auto
  have "unsaved w st1 \<le> n" using unsaved_mono [OF 1(2)] "6.prems"(3) by (rule order.trans)
  then obtain ops' st2 where "save_all w n st1 vs = Inr (ops', st2)" "set (pk_memo st1) \<subseteq> set (pk_memo st2)"
    using "6.IH"(2) [of st1] "6.prems" by auto
  then show ?case using 1 by auto
qed auto

text \<open>Only functions of the world get into the memo.\<close>

lemma save_memo:
  "world_ok w \<Longrightarrow> val_ok w v \<Longrightarrow> set (pk_memo st) \<subseteq> {..<length (w_functions w)} \<Longrightarrow> save w n st v = Inr (ops, st') \<Longrightarrow>
     set (pk_memo st') \<subseteq> {..<length (w_functions w)}"
  "world_ok w \<Longrightarrow> \<forall>v\<in>set vs. val_ok w v \<Longrightarrow> set (pk_memo st) \<subseteq> {..<length (w_functions w)} \<Longrightarrow>
     save_all w n st vs = Inr (ops, st') \<Longrightarrow> set (pk_memo st') \<subseteq> {..<length (w_functions w)}"
proof (induction w n st v and w n st vs arbitrary: ops st' and ops st' rule: save_save_all.induct)
  case (4 w n st a)
  let ?f = "w_functions w ! a" and ?m = "pk_memo st"
  show ?case
  proof (cases "a \<in> set ?m")
    case True
    then show ?thesis using "4.prems" by auto
  next
    case new: False
    have a: "a < length (w_functions w)" using "4.prems"(2) by simp
    then have m: "set (?m @ [a]) \<subseteq> {..<length (w_functions w)}" using "4.prems"(3) by simp
    obtain n' where n: "n = Suc n'" using "4.prems"(4) new by (cases n) auto
    have ok: "val_ok w (fn_defaults ?f)" "\<forall>v\<in>set (fn_attrs ?f). val_ok w v"
      "\<exists>vars gvals closure. extract_func_data w ?f = Inr (vars, gvals, closure) \<and> (\<forall>v\<in>set gvals \<union> set closure. val_ok w v)"
      using "4.prems"(1) a unfolding world_ok_def by (meson nth_mem)+
    show ?thesis
    proof (cases "by_reference w a")
      case ref: True
      show ?thesis
      proof (cases "fn_keys ?f = []")
        case True
        then show ?thesis using "4.prems"(4) new ref n m by (auto simp: Let_def)
      next
        case False
        then obtain ops' where "save_all w n' (st\<lparr>pk_memo := ?m @ [a]\<rparr>) [Dct (fn_keys ?f) (fn_attrs ?f)] = Inr (ops', st')"
          using "4.prems"(4) new ref n by (auto simp: Let_def simp del: save_all.simps)
        then show ?thesis using "4.IH"(1) [OF new n refl ref False "4.prems"(1)] m ok(2) by auto
      qed
    next
      case copy: False
      obtain mods saved where fi: "forced_imports w (pk_savedForceImports st) ?f = (mods, saved)" by force
      obtain vars gvals closure where x: "extract_func_data w ?f = Inr (vars, gvals, closure)"
          "\<forall>v\<in>set gvals \<union> set closure. val_ok w v"
        using ok(3) by blast
      obtain ops' where o: "save_all w n' \<lparr>pk_memo = ?m @ [a], pk_savedForceImports = saved\<rparr>
            [Dct vars gvals, fn_defaults ?f, Tup closure, Dct (fn_keys ?f) (fn_attrs ?f)] = Inr (ops', st')"
        using "4.prems"(4) new copy n fi x(1) by (auto simp: Let_def simp del: save_all.simps)
      show ?thesis
        by (rule "4.IH"(2) [OF new n refl copy fi [symmetric] "4.prems"(1) _ _ o]) (use m ok(1,2) x(2) in auto)
    qed
  qed
next
  case (6 w n st v vs)
  obtain ops1 st1 ops2 where o: "save w n st v = Inr (ops1, st1)" "save_all w n st1 vs = Inr (ops2, st')"
    using "6.prems"(4) by auto
  then have "set (pk_memo st1) \<subseteq> {..<length (w_functions w)}" using "6.IH"(1) [OF "6.prems"(1) _ "6.prems"(3) o(1)] "6.prems"(2) by simp
  from "6.IH"(2) [OF "6.prems"(1) _ this o(2)] show ?case using "6.prems"(2) by simp
qed auto

section \<open>The scan of the bytecode\<close>

text \<open>Instructions, and the bytes the compiler makes of them: an argument above 16 bits is split.\<close>

datatype instr = Plain "8 word" | WithArg "8 word" nat

fun instr_ok :: "instr \<Rightarrow> bool" where
  "instr_ok (Plain op) \<longleftrightarrow> op < HAVE_ARGUMENT"
| "instr_ok (WithArg op n) \<longleftrightarrow> \<not> op < HAVE_ARGUMENT \<and> op \<noteq> EXTENDED_ARG \<and> n < 2 ^ 32"

definition arg_bytes :: "8 word \<Rightarrow> nat \<Rightarrow> code_bytes" where
  "arg_bytes op n = [op, of_nat (n mod 256), of_nat (n div 256 mod 256)]"

fun assemble_instr :: "instr \<Rightarrow> code_bytes" where
  "assemble_instr (Plain op) = [op]"
| "assemble_instr (WithArg op n) =
     (if n < 65536 then arg_bytes op n else arg_bytes EXTENDED_ARG (n div 65536) @ arg_bytes op (n mod 65536))"

definition assemble :: "instr list \<Rightarrow> code_bytes" where
  "assemble is = concat (map assemble_instr is)"

fun global_arg :: "instr \<Rightarrow> nat option" where
  "global_arg (Plain op) = None"
| "global_arg (WithArg op n) = (if op \<in> set GLOBAL_OPS then Some n else None)"

lemma unat_byte: "unat (of_nat (n mod 256) :: 8 word) = n mod 256"
  by (simp add: unat_of_nat take_bit_eq_mod)

lemma byte_arg: "n < 65536 \<Longrightarrow> n mod 256 + n div 256 mod 256 * 256 = n" for n :: nat
proof -
  assume "n < 65536"
  then have "n div 256 mod 256 = n div 256" by (simp add: less_mult_imp_div_less)
  then show ?thesis using mod_mult_div_eq [of n 256] by (simp add: mult.commute)
qed

lemma scan_arg:
  assumes "n < 65536" and "\<not> op < HAVE_ARGUMENT"
  shows "scan_globals names ext (arg_bytes op n @ code) out =
    (let oparg = n + ext; ext' = (if op = EXTENDED_ARG then oparg * 65536 else 0) in
     if op \<in> set GLOBAL_OPS then bind_res (py_index names (int oparg)) (\<lambda>name. scan_globals names ext' code (List.insert name out))
     else scan_globals names ext' code out)"
proof -
  obtain lo hi where b: "arg_bytes op n = [op, lo, hi]" and e: "unat lo + unat hi * 256 = n"
    using byte_arg [OF assms(1)] unat_byte [of n] unat_byte [of "n div 256"] by (metis arg_bytes_def)
  show ?thesis
    unfolding b append_Cons append_Nil scan_globals.simps(2) list.case e using assms(2) by (simp add: Let_def)
qed

lemma extended_not_global: "EXTENDED_ARG \<notin> set GLOBAL_OPS" "\<not> EXTENDED_ARG < HAVE_ARGUMENT"
  by (simp_all add: GLOBAL_OPS_def EXTENDED_ARG_def STORE_GLOBAL_def DELETE_GLOBAL_def LOAD_GLOBAL_def HAVE_ARGUMENT_def)

lemma scan_instr:
  assumes "instr_ok i" and "\<forall>n. global_arg i = Some n \<longrightarrow> n < length names"
  shows "scan_globals names 0 (assemble_instr i @ code) out =
    scan_globals names 0 code (case global_arg i of None \<Rightarrow> out | Some n \<Rightarrow> List.insert (names ! n) out)"
proof (cases i)
  case (WithArg op n)
  have op: "\<not> op < HAVE_ARGUMENT" "op \<noteq> EXTENDED_ARG" "n < 2 ^ 32" using assms(1) WithArg by auto
  show ?thesis
  proof (cases "n < 65536")
    case True
    then show ?thesis using assms(2) op WithArg by (simp add: scan_arg Let_def py_index_of_nat)
  next
    case False
    have "n div 65536 < 65536" using op(3) by (simp add: less_mult_imp_div_less)
    moreover have "n mod 65536 + n div 65536 * 65536 = n" by simp
    ultimately show ?thesis
      using assms(2) op WithArg False by (simp add: scan_arg Let_def py_index_of_nat extended_not_global)
  qed
qed (use assms in simp)

lemma scan_assemble:
  assumes "\<forall>i\<in>set is. instr_ok i" and "\<forall>i\<in>set is. \<forall>n. global_arg i = Some n \<longrightarrow> n < length names"
  shows "\<exists>refs. scan_globals names 0 (assemble is) out = Inr refs \<and>
    set refs = set out \<union> {names ! n |n. \<exists>i\<in>set is. global_arg i = Some n}"
  using assms
proof (induction "is" arbitrary: out)
  case (Cons i is')
  let ?out = "case global_arg i of None \<Rightarrow> out | Some n \<Rightarrow> List.insert (names ! n) out"
  obtain refs where r: "scan_globals names 0 (assemble is') ?out = Inr refs"
      "set refs = set ?out \<union> {names ! n |n. \<exists>i\<in>set is'. global_arg i = Some n}"
    using Cons.IH [of ?out] Cons.prems by auto
  have "scan_globals names 0 (assemble (i # is')) out = Inr refs"
    using scan_instr [of i names "assemble is'" out] Cons.prems r(1) by (simp add: assemble_def)
  moreover have "set refs = set out \<union> {names ! n |n. \<exists>j\<in>set (i # is'). global_arg j = Some n}"
    unfolding r(2) by (auto split: option.splits)
  ultimately show ?case by blast
qed (simp add: assemble_def)

text \<open>The globals that the code refers to down to a depth of nested functions.\<close>

definition own_refs :: "'a py_code \<Rightarrow> string set" where
  "own_refs co = (case extract_code_globals co of Inr names \<Rightarrow> set names | Inl _ \<Rightarrow> {})"

primrec code_refs :: "nat \<Rightarrow> 'a py_code \<Rightarrow> string set" where
  "code_refs 0 co = own_refs co"
| "code_refs (Suc d) co = own_refs co \<union> (\<Union>c\<in>{c. CodeConst c \<in> set (co_consts co)}. code_refs d c)"

lemma scan_no_names: "scan_globals [] ext code out = Inr refs \<Longrightarrow> refs = out"
proof (induction code arbitrary: ext rule: length_induct)
  case (1 code)
  show ?case
  proof (cases code)
    case (Cons op code')
    have no_name: "py_index ([] :: string list) i = Inl IndexError" for i by (simp add: py_index_def)
    show ?thesis
    proof (cases "op < HAVE_ARGUMENT")
      case True
      then have "scan_globals [] ext code' out = Inr refs" using "1.prems" Cons by simp
      then show ?thesis using "1.IH" Cons by auto
    next
      case False
      then obtain lo hi rest where c: "code' = lo # hi # rest"
        using "1.prems" Cons by (auto split: list.splits)
      then obtain ext' where "scan_globals [] ext' rest out = Inr refs"
        using "1.prems" Cons False by (auto simp: Let_def no_name split: if_splits)
      moreover have "length rest < length code" using Cons c by simp
      ultimately show ?thesis using "1.IH" by blast
    qed
  qed (use "1.prems" in simp)
qed

lemma own_refs_no_names: "co_names co = [] \<Longrightarrow> own_refs co = {}"
  using scan_no_names [of 0 "co_code co" "[]"] by (simp add: own_refs_def extract_code_globals_def split: sum.splits)

lemma nested_globals_refs:
  "nested_globals cs refs = Inr refs' \<Longrightarrow> set refs' = set refs \<union> (\<Union>c\<in>{c. CodeConst c \<in> set cs}. own_refs c)"
proof (induction cs refs rule: nested_globals.induct)
  case (3 co cs refs)
  show ?case
  proof (cases "co_names co = []")
    case True
    then show ?thesis using 3 own_refs_no_names [OF True] by auto
  next
    case False
    then obtain names where n: "extract_code_globals co = Inr names" "nested_globals cs (List.union refs names) = Inr refs'"
      using "3.prems" by auto
    then have "own_refs co = set names" by (simp add: own_refs_def)
    then show ?thesis using "3.IH"(2) [OF False n(2)] by auto
  qed
qed auto

section \<open>What a program refers to\<close>

text \<open>Code as the compiler makes it: the bytes are those of instructions whose arguments name globals of the code.\<close>

definition instructions_of :: "'a py_code \<Rightarrow> instr list \<Rightarrow> bool" where
  "instructions_of co is \<longleftrightarrow> co_code co = assemble is \<and> (\<forall>i\<in>set is. instr_ok i) \<and>
     (\<forall>i\<in>set is. \<forall>n. global_arg i = Some n \<longrightarrow> n < length (co_names co))"

definition compiled :: "'a py_code \<Rightarrow> bool" where
  "compiled co \<longleftrightarrow> (\<exists>is. instructions_of co is)"

definition uses_global :: "'a py_code \<Rightarrow> string \<Rightarrow> bool" where
  "uses_global co x \<longleftrightarrow> (\<exists>is. instructions_of co is \<and> (\<exists>i\<in>set is. \<exists>n. global_arg i = Some n \<and> x = co_names co ! n))"

text \<open>The globals of the code itself and of the functions that are defined directly in it.\<close>

definition refers_to :: "'a py_code \<Rightarrow> string \<Rightarrow> bool" where
  "refers_to co x \<longleftrightarrow> uses_global co x \<or> (\<exists>c. CodeConst c \<in> set (co_consts co) \<and> uses_global c x)"

text \<open>
  A program of the driver: every function has code of the compiler, no empty cell in its closure, and a dictionary of
  globals; and every function that some value of these refers to is one of the program.
\<close>

definition program_ok :: "'a py_world \<Rightarrow> bool" where
  "program_ok w \<longleftrightarrow> (\<forall>f\<in>set (w_functions w).
     compiled (fn_code f) \<and> (\<forall>c. CodeConst c \<in> set (co_consts (fn_code f)) \<longrightarrow> compiled c) \<and>
     val_ok w (fn_defaults f) \<and> (\<forall>v\<in>set (fn_attrs f). val_ok w v) \<and>
     (\<forall>cells. fn_closure f = Some cells \<longrightarrow> (\<forall>cell\<in>set cells. \<exists>v. cell = Some v \<and> val_ok w v)) \<and>
     fn_globals f < length (w_globals w) \<and> (\<forall>(x, v)\<in>set (w_globals w ! fn_globals f). val_ok w v))"

lemma instructions_scan:
  assumes "instructions_of co is"
  shows "\<exists>names. extract_code_globals co = Inr names \<and>
    set names = {x. \<exists>i\<in>set is. \<exists>n. global_arg i = Some n \<and> x = co_names co ! n}"
proof -
  have "{co_names co ! n |n. \<exists>i\<in>set is. global_arg i = Some n} = {x. \<exists>i\<in>set is. \<exists>n. global_arg i = Some n \<and> x = co_names co ! n}"
    by blast
  then show ?thesis
    using scan_assemble [of "is" "co_names co" "[]"] assms by (simp add: instructions_of_def extract_code_globals_def)
qed

lemma compiled_scan:
  assumes "compiled co"
  shows "\<exists>names. extract_code_globals co = Inr names \<and> set names = {x. uses_global co x}"
proof -
  obtain "is" names where n: "extract_code_globals co = Inr names" "instructions_of co is"
    using assms instructions_scan unfolding compiled_def by blast
  have all: "set names = {x. \<exists>i\<in>set is'. \<exists>n. global_arg i = Some n \<and> x = co_names co ! n}" if "instructions_of co is'" for is'
    using instructions_scan [OF that] n(1) by simp
  have "x \<in> set names \<longleftrightarrow> uses_global co x" for x
  proof
    assume "x \<in> set names"
    then show "uses_global co x" using all [OF n(2)] n(2) unfolding uses_global_def by blast
  next
    assume "uses_global co x"
    then obtain is' where "instructions_of co is'" "\<exists>i\<in>set is'. \<exists>n. global_arg i = Some n \<and> x = co_names co ! n"
      unfolding uses_global_def by blast
    then show "x \<in> set names" using all by blast
  qed
  then show ?thesis using n(1) by blast
qed

lemma own_refs_compiled: "compiled co \<Longrightarrow> own_refs co = {x. uses_global co x}"
  using compiled_scan [of co] by (auto simp: own_refs_def)

lemma nested_globals_ends:
  "\<forall>c. CodeConst c \<in> set cs \<longrightarrow> compiled c \<Longrightarrow> \<exists>refs'. nested_globals cs refs = Inr refs'"
proof (induction cs refs rule: nested_globals.induct)
  case (3 co cs refs)
  obtain names where "extract_code_globals co = Inr names" using compiled_scan [of co] "3.prems" by auto
  then show ?case using 3 by auto
qed auto

text \<open>What is taken apart is all that the function refers to.\<close>

lemma compiled_func_data:
  assumes f: "compiled (fn_code f)" "\<forall>c. CodeConst c \<in> set (co_consts (fn_code f)) \<longrightarrow> compiled c"
    and cells: "\<forall>cells. fn_closure f = Some cells \<longrightarrow> (\<forall>cell\<in>set cells. cell \<noteq> None)"
  shows "\<exists>vars. extract_func_data w f = Inr (vars, map (\<lambda>x. the (map_of (w_globals w ! fn_globals f) x)) vars,
      map the (case fn_closure f of None \<Rightarrow> [] | Some cells \<Rightarrow> cells)) \<and>
    set vars = {x. refers_to (fn_code f) x \<and> map_of (w_globals w ! fn_globals f) x \<noteq> None}"
proof -
  obtain own where own: "extract_code_globals (fn_code f) = Inr own" "set own = {x. uses_global (fn_code f) x}"
    using compiled_scan [OF f(1)] by blast
  obtain refs where refs: "nested_globals (co_consts (fn_code f)) own = Inr refs" using nested_globals_ends [OF f(2)] by blast
  have "set refs = {x. refers_to (fn_code f) x}"
    using nested_globals_refs [OF refs] own(2) f(2) own_refs_compiled by (fastforce simp: refers_to_def)
  moreover have "mapM_res get_contents cells' = Inr (map the cells')" if "\<forall>cell\<in>set cells'. cell \<noteq> None" for cells' :: "'a val option list"
    using that by (intro mapM_res_Inr) (auto simp: get_contents_def)
  then have "(case fn_closure f of None \<Rightarrow> Inr [] | Some cells \<Rightarrow> mapM_res get_contents cells) =
      (Inr (map the (case fn_closure f of None \<Rightarrow> [] | Some cells \<Rightarrow> cells)) :: 'a val list res)"
    using cells by (cases "fn_closure f") auto
  ultimately show ?thesis
    using own(1) refs by (auto simp: extract_func_data_def func_global_refs_def Let_def)
qed

lemma program_func_data:
  assumes "program_ok w" "f \<in> set (w_functions w)"
  shows "\<exists>vars. extract_func_data w f = Inr (vars, map (\<lambda>x. the (map_of (w_globals w ! fn_globals f) x)) vars,
      map the (case fn_closure f of None \<Rightarrow> [] | Some cells \<Rightarrow> cells)) \<and>
    set vars = {x. refers_to (fn_code f) x \<and> map_of (w_globals w ! fn_globals f) x \<noteq> None}"
  by (rule compiled_func_data) (use assms in \<open>fastforce simp: program_ok_def\<close>)+

lemma program_world_ok: "program_ok w \<Longrightarrow> world_ok w"
  unfolding world_ok_def
proof (intro ballI conjI)
  fix f assume p: "program_ok w" and f: "f \<in> set (w_functions w)"
  then have ok: "val_ok w (fn_defaults f)" "\<forall>v\<in>set (fn_attrs f). val_ok w v"
      "\<forall>cells. fn_closure f = Some cells \<longrightarrow> (\<forall>cell\<in>set cells. \<exists>v. cell = Some v \<and> val_ok w v)"
      "\<forall>(x, v)\<in>set (w_globals w ! fn_globals f). val_ok w v"
    by (simp_all add: program_ok_def)
  then show "val_ok w (fn_defaults f)" "\<And>v. v \<in> set (fn_attrs f) \<Longrightarrow> val_ok w v" by blast+
  obtain vars where v: "extract_func_data w f = Inr (vars, map (\<lambda>x. the (map_of (w_globals w ! fn_globals f) x)) vars,
      map the (case fn_closure f of None \<Rightarrow> [] | Some cells \<Rightarrow> cells))"
      "set vars = {x. refers_to (fn_code f) x \<and> map_of (w_globals w ! fn_globals f) x \<noteq> None}"
    using program_func_data [OF p f] by blast
  have "val_ok w (the (map_of (w_globals w ! fn_globals f) x))" if x: "x \<in> set vars" for x
  proof -
    obtain y where "map_of (w_globals w ! fn_globals f) x = Some y" using x v(2) by auto
    then show ?thesis using ok(4) by (auto dest: map_of_SomeD)
  qed
  moreover have "val_ok w (the cell)" if "cell \<in> set (case fn_closure f of None \<Rightarrow> [] | Some cells \<Rightarrow> cells)" for cell
    using that ok(3) by (force split: option.splits)
  ultimately show "\<exists>vars gvals closure. extract_func_data w f = Inr (vars, gvals, closure) \<and>
      (\<forall>v\<in>set gvals \<union> set closure. val_ok w v)"
    using v(1) by auto
qed

section \<open>What is rebuilt\<close>

lemma by_reference_bound:
  "by_reference w b \<Longrightarrow> \<exists>d. map_of (w_modules w) (fn_module (w_functions w ! b)) = Some d \<and>
     map_of d (fn_name (w_functions w ! b)) = Some b"
  by (auto simp: by_reference_def the_module_def bound_in_def Let_def split: option.splits if_splits)

lemma save_rebuilds:
  assumes "world_ok w" and "a < length (w_functions w)"
  shows "\<exists>ops st u. save w (length (w_functions w)) \<lparr>pk_memo = [], pk_savedForceImports = False\<rparr> (Fun a) = Inr (ops, st) \<and>
    exec_ops ops fresh_unpickler = Inr u \<and> up_stack u = [IVal (img w (pk_memo st) (Fun a))] \<and> a \<in> set (pk_memo st) \<and>
    set (pk_memo st) \<subseteq> {..<length (w_functions w)} \<and>
    (\<forall>b\<in>set (copied w (pk_memo st)).
       copy_of w (pk_memo st) b < length (up_heap u) \<and>
       up_heap u ! copy_of w (pk_memo st) b = lfun_of w (pk_memo st) b \<and> complete w (pk_memo st) b \<and>
       (\<forall>x\<in>set (fst (data_of w b)). x \<noteq> ''__builtins__'' \<longrightarrow>
          (\<exists>v. map_of (w_globals w ! fn_globals (w_functions w ! b)) x = Some v \<and>
             known (pk_memo st) v \<and> up_dicts u (fn_globals (w_functions w ! b)) x = Some (img w (pk_memo st) v))))"
proof -
  let ?st0 = "\<lparr>pk_memo = [], pk_savedForceImports = False\<rparr>"
  have "unsaved w ?st0 \<le> length (w_functions w)" by (simp add: unsaved_def)
  then obtain ops st where s: "save w (length (w_functions w)) ?st0 (Fun a) = Inr (ops, st)"
    using save_ends(1) [of w "Fun a" ?st0 "length (w_functions w)"] assms by auto
  have bound: "set (pk_memo st) \<subseteq> {..<length (w_functions w)}"
    by (rule save_memo(1) [OF assms(1) _ _ s]) (use assms(2) in simp_all)
  have "loaded w (pk_memo ?st0) {} fresh_unpickler"
    by (simp add: loaded_def fresh_unpickler_def dicts_ok_def copied_def)
  from save_runs(1) [OF s this] obtain u where u: "exec_ops ops fresh_unpickler = Inr u"
      "loaded w (pk_memo st) (set (pk_memo st)) u" "up_stack u = [IVal (img w (pk_memo st) (Fun a))]" "known (pk_memo st) (Fun a)"
      "\<forall>b\<in>set (copied w (pk_memo st)). complete w (pk_memo st) b"
      "up_heap u = map (lfun_of w (pk_memo st)) (copied w (pk_memo st))"
    unfolding runs_to_def by (auto simp: fresh_unpickler_def simp del: img.simps)
  have D: "dicts_ok w (pk_memo st) (set (pk_memo st)) (up_dicts u)" using u(2) by (simp add: loaded_def)
  have "copy_of w (pk_memo st) b < length (up_heap u) \<and>
      up_heap u ! copy_of w (pk_memo st) b = lfun_of w (pk_memo st) b" if "b \<in> set (copied w (pk_memo st))" for b
    using that copied_nth [of b w "pk_memo st"] by (simp add: u(6))
  moreover have "\<exists>v. map_of (w_globals w ! fn_globals (w_functions w ! b)) x = Some v \<and>
      known (pk_memo st) v \<and> up_dicts u (fn_globals (w_functions w ! b)) x = Some (img w (pk_memo st) v)"
    if b0: "b \<in> set (copied w (pk_memo st))" and x: "x \<in> set (fst (data_of w b))" "x \<noteq> ''__builtins__''" for b x
  proof -
    have b: "b \<in> set (pk_memo st)" "\<not> by_reference w b" using b0 by (simp_all add: copied_def)
    then obtain l where "up_dicts u (fn_globals (w_functions w ! b)) x = Some l"
      using D x unfolding dicts_ok_def by blast
    then show ?thesis using D x(2) unfolding dicts_ok_def by blast
  qed
  ultimately show ?thesis
    using s bound u(1,3,4,5) by (intro exI [of _ ops] exI [of _ st] exI [of _ u]) (simp del: img.simps)
qed

text \<open>
  A function of the worker that stands for one of the driver: its code, the dictionary of its globals, its defaults, the
  contents of its closure cell by cell and its attributes, with each value replaced by what stands for it; and for every
  global that its code or a function directly nested in it refers to and the driver has, what stands for its value.
\<close>

definition rebuilt :: "'a py_world \<Rightarrow> nat list \<Rightarrow> 'a py_function \<Rightarrow> 'a lfun \<Rightarrow> (nat \<Rightarrow> string \<Rightarrow> 'a lval option) \<Rightarrow> bool" where
  "rebuilt w m f g D \<longleftrightarrow>
     lf_code g = fn_code f \<and> lf_base g = fn_globals f \<and>
     known m (fn_defaults f) \<and> lf_defaults g = img w m (fn_defaults f) \<and>
     list_all2 (\<lambda>cell l. \<exists>v. cell = Some v \<and> known m v \<and> l = img w m v)
       (case fn_closure f of None \<Rightarrow> [] | Some cells \<Rightarrow> cells) (lf_closure g) \<and>
     (\<forall>v\<in>set (fn_attrs f). known m v) \<and> lf_dict g = LDct (fn_keys f) (map (img w m) (fn_attrs f)) \<and>
     (\<forall>x v. refers_to (fn_code f) x \<longrightarrow> x \<noteq> ''__builtins__'' \<longrightarrow> map_of (w_globals w ! fn_globals f) x = Some v \<longrightarrow>
        known m v \<and> D (lf_base g) x = Some (img w m v))"

lemma lfun_rebuilt:
  assumes p: "program_ok w" and b: "b < length (w_functions w)" and c: "complete w m b"
    and D: "\<forall>x\<in>set (fst (data_of w b)). x \<noteq> ''__builtins__'' \<longrightarrow>
      (\<exists>v. map_of (w_globals w ! fn_globals (w_functions w ! b)) x = Some v \<and>
         known m v \<and> D (fn_globals (w_functions w ! b)) x = Some (img w m v))"
  shows "rebuilt w m (w_functions w ! b) (lfun_of w m b) D"
proof -
  let ?f = "w_functions w ! b" and ?cells = "case fn_closure (w_functions w ! b) of None \<Rightarrow> [] | Some cells \<Rightarrow> cells"
  have f: "?f \<in> set (w_functions w)" using b by simp
  obtain vars where v: "data_of w b = (vars, map (\<lambda>x. the (map_of (w_globals w ! fn_globals ?f) x)) vars, map the ?cells)"
      "set vars = {x. refers_to (fn_code ?f) x \<and> map_of (w_globals w ! fn_globals ?f) x \<noteq> None}"
    using program_func_data [OF p f] by (auto simp: data_of_def)
  have some: "cell \<noteq> None" if "cell \<in> set ?cells" for cell
  proof (cases "fn_closure ?f")
    case (Some cells)
    then have "\<exists>v. cell = Some v \<and> val_ok w v" using p f that unfolding program_ok_def by fastforce
    then show ?thesis by auto
  qed (use that in simp)
  have "\<forall>v\<in>set (map the ?cells). known m v" using c v(1) by (simp add: complete_def)
  then have "\<forall>cell\<in>set ?cells. \<exists>v. cell = Some v \<and> known m v \<and> img w m (the cell) = img w m v"
    using some by (metis image_eqI list.set_map option.collapse)
  then have "list_all2 (\<lambda>cell l. \<exists>v. cell = Some v \<and> known m v \<and> l = img w m v) ?cells (map (\<lambda>cell. img w m (the cell)) ?cells)"
    by (simp add: list_all2_map2 list_all2_same)
  then show ?thesis
    using c D v by (auto simp: rebuilt_def lfun_of_def complete_def comp_def Let_def)
qed

section \<open>Properties\<close>

text \<open>
  C1: a function of a compiled program reaches the worker. Saving it ends within as many nested functions as there are, and
  running the pickle leaves the function on the stack: a reference by name when its module binds that name to it, else a
  copy. Every function that was copied along has a copy of its own with its code, defaults, closure and attributes, in which
  every function stands for itself, as its copy or by a name that its module binds to it, so that recursion and sharing
  survive; and the dictionary of its globals, which copies from one module share, has every global that the code or a
  function directly nested in it refers to. (Those of functions nested more deeply are left behind, see C37.)
\<close>

theorem function_reaches_worker:
  assumes "program_ok w" and "a < length (w_functions w)"
  shows "\<exists>ops st u m. save w (length (w_functions w)) \<lparr>pk_memo = [], pk_savedForceImports = False\<rparr> (Fun a) = Inr (ops, st) \<and>
    m = pk_memo st \<and> exec_ops ops fresh_unpickler = Inr u \<and> up_stack u = [IVal (img w m (Fun a))] \<and> a \<in> set m \<and>
    inj_on (copy_of w m) (set (copied w m)) \<and>
    (\<forall>b\<in>set m. b \<in> set (copied w m) \<or>
       (\<exists>d. map_of (w_modules w) (fn_module (w_functions w ! b)) = Some d \<and> map_of d (fn_name (w_functions w ! b)) = Some b)) \<and>
    (\<forall>b\<in>set (copied w m). copy_of w m b < length (up_heap u) \<and>
       rebuilt w m (w_functions w ! b) (up_heap u ! copy_of w m b) (up_dicts u))"
proof -
  obtain ops st u where s: "save w (length (w_functions w)) \<lparr>pk_memo = [], pk_savedForceImports = False\<rparr> (Fun a) = Inr (ops, st)"
      "exec_ops ops fresh_unpickler = Inr u" "up_stack u = [IVal (img w (pk_memo st) (Fun a))]" "a \<in> set (pk_memo st)"
      "set (pk_memo st) \<subseteq> {..<length (w_functions w)}"
      "\<forall>b\<in>set (copied w (pk_memo st)). copy_of w (pk_memo st) b < length (up_heap u) \<and>
       up_heap u ! copy_of w (pk_memo st) b = lfun_of w (pk_memo st) b \<and> complete w (pk_memo st) b \<and>
       (\<forall>x\<in>set (fst (data_of w b)). x \<noteq> ''__builtins__'' \<longrightarrow>
          (\<exists>v. map_of (w_globals w ! fn_globals (w_functions w ! b)) x = Some v \<and>
             known (pk_memo st) v \<and> up_dicts u (fn_globals (w_functions w ! b)) x = Some (img w (pk_memo st) v)))"
    using save_rebuilds [OF program_world_ok [OF assms(1)] assms(2)] by blast
  let ?m = "pk_memo st"
  have "inj_on (copy_of w ?m) (set (copied w ?m))" by (rule inj_onI) (metis copied_nth)
  moreover have "b \<in> set (copied w ?m) \<or>
       (\<exists>d. map_of (w_modules w) (fn_module (w_functions w ! b)) = Some d \<and> map_of d (fn_name (w_functions w ! b)) = Some b)"
    if "b \<in> set ?m" for b
    using that by (cases "by_reference w b") (simp add: by_reference_bound, simp add: copied_def)
  moreover have "rebuilt w ?m (w_functions w ! b) (up_heap u ! copy_of w ?m b) (up_dicts u)" if b: "b \<in> set (copied w ?m)" for b
  proof -
    have "b < length (w_functions w)" using b s(5) by (auto simp: copied_def)
    then show ?thesis
      using s(6) b lfun_rebuilt [OF assms(1), of b ?m "up_dicts u"] by simp
  qed
  ultimately show ?thesis
    by (intro exI [of _ ops] exI [of _ st] exI [of _ u] exI [of _ ?m] conjI ballI refl s(1-4)) (use s(6) in blast)+
qed

text \<open>A recursive function of the main module, and a lambda that it is called from.\<close>

definition example_world :: "nat py_world" where
  "example_world =
     \<lparr>w_functions =
        [\<lparr>fn_name = ''fact'', fn_module = ''__main__'', fn_code = Code [116, 0, 0, 83] [] [''fact''] ''job.py'',
          fn_globals = 0, fn_defaults = Tup [], fn_closure = None, fn_keys = [], fn_attrs = []\<rparr>,
         \<lparr>fn_name = ''<lambda>'', fn_module = ''__main__'', fn_code = Code [116, 0, 0, 83] [] [''fact''] ''job.py'',
          fn_globals = 0, fn_defaults = Tup [], fn_closure = Some [Some (Atom 7)], fn_keys = [], fn_attrs = []\<rparr>],
      w_globals = [[(''fact'', Fun 0)]],
      w_modules = [],
      w_forced = None\<rparr>"

lemma example_instructions:
  "instructions_of (Code [116, 0, 0, 83] [] [''fact''] ''job.py'') [WithArg LOAD_GLOBAL 0, Plain 83]"
  by (simp add: instructions_of_def assemble_def arg_bytes_def GLOBAL_OPS_def LOAD_GLOBAL_def HAVE_ARGUMENT_def EXTENDED_ARG_def)

lemma example_refers: "refers_to (Code [116, 0, 0, 83] [] [''fact''] ''job.py'') ''fact''"
proof -
  have "global_arg (WithArg LOAD_GLOBAL 0) = Some 0" by (simp add: GLOBAL_OPS_def)
  then have "uses_global (Code [116, 0, 0, 83] [] [''fact''] ''job.py'') ''fact''"
    unfolding uses_global_def
    by (intro exI [of _ "[WithArg LOAD_GLOBAL 0, Plain 83]"] conjI example_instructions bexI [of _ "WithArg LOAD_GLOBAL 0"] exI [of _ 0]) simp_all
  then show ?thesis by (simp add: refers_to_def)
qed

theorem function_reaches_worker_witness:
  "\<exists>ops st u. save example_world 2 \<lparr>pk_memo = [], pk_savedForceImports = False\<rparr> (Fun 1) = Inr (ops, st) \<and>
    pk_memo st = [1, 0] \<and> exec_ops ops fresh_unpickler = Inr u \<and> up_stack u = [IVal (LFun 0)] \<and>
    lf_closure (up_heap u ! 0) = [LAtom 7] \<and> up_dicts u 0 ''fact'' = Some (LFun 1)"
proof -
  let ?w = example_world
  have refs: "\<not> by_reference ?w 0" "\<not> by_reference ?w 1" by code_simp+
  have n: "length (w_functions ?w) = 2" "w_globals ?w = [[(''fact'', Fun 0)]]" by (simp_all add: example_world_def)
  have code: "compiled (Code [116, 0, 0, 83] [] [''fact''] ''job.py'' :: nat py_code)"
    "refers_to (Code [116, 0, 0, 83] [] [''fact''] ''job.py'' :: nat py_code) ''fact''"
    using example_instructions example_refers by (auto simp: compiled_def)
  have ok: "program_ok ?w" using code(1) by (simp add: program_ok_def example_world_def)
  have s: "map_res (\<lambda>r. pk_memo (snd r)) (save ?w 2 \<lparr>pk_memo = [], pk_savedForceImports = False\<rparr> (Fun 1)) = Inr [1, 0]"
    by code_simp
  obtain ops st u where r: "save ?w 2 \<lparr>pk_memo = [], pk_savedForceImports = False\<rparr> (Fun 1) = Inr (ops, st)"
      "exec_ops ops fresh_unpickler = Inr u" "up_stack u = [IVal (img ?w (pk_memo st) (Fun 1))]"
    and c: "\<forall>b\<in>set (copied ?w (pk_memo st)). copy_of ?w (pk_memo st) b < length (up_heap u) \<and>
       rebuilt ?w (pk_memo st) (w_functions ?w ! b) (up_heap u ! copy_of ?w (pk_memo st) b) (up_dicts u)"
    using function_reaches_worker [OF ok, of 1] unfolding n by auto
  have m: "pk_memo st = [1, 0]" using s r(1) by simp
  have cp: "copy_of ?w [1, 0] 1 = 0" "copy_of ?w [1, 0] 0 = 1" "1 \<in> set (copied ?w [1, 0])"
    using refs by (simp_all add: copy_of_def copied_def)
  have g: "rebuilt ?w [1, 0] (w_functions ?w ! 1) (up_heap u ! 0) (up_dicts u)"
    using bspec [OF c cp(3) [folded m]] cp by (simp only: m)
  have "lf_closure (up_heap u ! 0) = [LAtom 7]"
    using g by (auto simp: rebuilt_def example_world_def list_all2_Cons1)
  moreover have "up_dicts u 0 ''fact'' = Some (LFun 1)"
    using g code(2) cp refs by (auto simp: rebuilt_def example_world_def)
  ultimately show ?thesis using r m refs cp by auto
qed

text \<open>
  C21: the scan of the bytecode finds exactly the names that the instructions read, write or delete
  as globals, also those whose index takes more than 16 bits and an \<open>EXTENDED_ARG\<close> prefix.
\<close>

theorem extract_code_globals_exact:
  assumes "\<forall>i\<in>set is. instr_ok i" and "\<forall>i\<in>set is. \<forall>n. global_arg i = Some n \<longrightarrow> n < length names"
  shows "\<exists>refs. extract_code_globals (Code (assemble is) consts names filename) = Inr refs \<and>
    set refs = {names ! n |n. \<exists>i\<in>set is. global_arg i = Some n}"
  using scan_assemble [OF assms, of "[]"] by (simp add: extract_code_globals_def)

theorem extract_code_globals_exact_witness:
  "\<exists>refs. extract_code_globals (Code (assemble [WithArg LOAD_GLOBAL 1, Plain 83]) [] [''x'', ''y''] ''f'') = Inr refs \<and>
    set refs = {[''x'', ''y''] ! n |n. \<exists>i\<in>set [WithArg LOAD_GLOBAL 1, Plain 83]. global_arg i = Some n}"
  by (rule extract_code_globals_exact)
    (simp_all add: HAVE_ARGUMENT_def EXTENDED_ARG_def LOAD_GLOBAL_def)

text \<open>
  C37: the globals a copy takes along are those that its code and the functions directly nested
  in it refer to; what only a function nested more deeply refers to is left behind.
\<close>

theorem globals_of_one_nesting_level:
  assumes "extract_func_data w f = Inr (vars, gvals, closure)"
  shows "set vars = code_refs 1 (fn_code f) \<inter> dom (map_of (w_globals w ! fn_globals f))"
proof -
  obtain own refs where r: "extract_code_globals (fn_code f) = Inr own"
      "nested_globals (co_consts (fn_code f)) own = Inr refs"
      "vars = filter (\<lambda>x. map_of (w_globals w ! fn_globals f) x \<noteq> None) refs"
    using assms by (auto simp: extract_func_data_def func_global_refs_def Let_def)
  then have "set refs = code_refs 1 (fn_code f)"
    using nested_globals_refs [OF r(2)] by (simp add: own_refs_def)
  then show ?thesis using r(3) by (auto simp: dom_def)
qed

definition deep_code :: "nat py_code" where
  "deep_code = Code [100, 0, 0, 83] [CodeConst (Code [100, 0, 0, 83]
     [CodeConst (Code [116, 0, 0, 83] [] [''x''] ''f'')] [''y''] ''f'')] [] ''f''"

definition deep_function :: "nat py_function" where
  "deep_function = \<lparr>fn_name = ''<lambda>'', fn_module = ''__main__'', fn_code = deep_code, fn_globals = 0,
     fn_defaults = Tup [], fn_closure = None, fn_keys = [], fn_attrs = []\<rparr>"

theorem globals_of_one_nesting_level_witness:
  "extract_func_data \<lparr>w_functions = [deep_function], w_globals = [[(''x'', Atom 1)]], w_modules = [], w_forced = None\<rparr> deep_function
      = Inr ([], [], []) \<and>
    code_refs 1 deep_code \<inter> dom (map_of [(''x'', Atom (1 :: nat))]) = {} \<and> ''x'' \<in> code_refs 2 deep_code"
proof -
  let ?w = "\<lparr>w_functions = [deep_function], w_globals = [[(''x'', Atom 1)]], w_modules = [], w_forced = None\<rparr>"
  have e: "extract_func_data ?w deep_function = Inr ([], [], [])" by code_simp
  have "extract_code_globals (Code [116, 0, 0, 83] [] [''x''] ''f'' :: nat py_code) = Inr [''x'']" by code_simp
  then have "''x'' \<in> code_refs 2 deep_code" by (simp add: deep_code_def numeral_2_eq_2 own_refs_def)
  then show ?thesis
    using e globals_of_one_nesting_level [OF e] by (simp add: deep_function_def)
qed

end
