(* ===== verification/PickleSupport.thy ===== *)
theory PickleSupport
  imports CloudPickle
begin

text \<open>
  The rest of \<open>pyspark/cloudpickle.py\<close> that does not depend on other libraries: the call of the
  pickler and its recursion limit, the state that is pickled for an instance, files, and the ranges
  of \<open>xrange\<close>.
\<close>

section \<open>\<open>dump\<close> and \<open>dumps\<close>\<close>

text \<open>
  \<open>run\<close> is the pickler of the standard library on an object: under a recursion limit it writes bytes
  and then returns or raises, and leaves a limit behind. A \<open>RuntimeError\<close> has a message.
\<close>

datatype outcome = Returned | RuntimeErr string | Raised py_error

fun is_infix :: "string \<Rightarrow> string \<Rightarrow> bool" where
  "is_infix pat [] \<longleftrightarrow> pat = []"
| "is_infix pat (c # s) \<longleftrightarrow> take (length pat) (c # s) = pat \<or> is_infix pat s"

definition cp_dump :: "(int \<Rightarrow> 'b list \<times> outcome \<times> int) \<Rightarrow> int \<Rightarrow> unit res \<times> 'b list \<times> int" where
  "cp_dump run base_recurse =
     (let recurse_limit = 3000;
          limit = (if base_recurse < recurse_limit then recurse_limit else base_recurse);
          (written, out, new_recurse) = run limit;
          result = (case out of
              Returned \<Rightarrow> Inr ()
            | RuntimeErr msg \<Rightarrow> if is_infix ''recursion'' msg then Inl PicklingError else Inr ()
            | Raised e \<Rightarrow> Inl e)
      in (result, written, if new_recurse = recurse_limit then base_recurse else new_recurse))"

definition cp_dumps :: "(int \<Rightarrow> 'b list \<times> outcome \<times> int) \<Rightarrow> int \<Rightarrow> 'b list res \<times> int" where
  "cp_dumps run base_recurse =
     (case cp_dump run base_recurse of (r, written, limit) \<Rightarrow> (map_res (\<lambda>_. written) r, limit))"

section \<open>Instances\<close>

text \<open>The entries of an instance that are saved: none that \<open>__transient__\<close> names.\<close>

definition inst_state :: "(string \<times> 'v) list \<Rightarrow> 'v option \<Rightarrow> string list option \<Rightarrow> (string \<times> 'v) list + 'v" where
  "inst_state dict getstate transient =
     (case getstate of
        Some stuff \<Rightarrow> Inr stuff
      | None \<Rightarrow>
          (case transient of
             None \<Rightarrow> Inl dict
           | Some names \<Rightarrow> Inl (fold (\<lambda>k stuff. if k \<in> set names then AList.delete k stuff else stuff) (map fst dict) dict)))"

section \<open>Files\<close>

text \<open>
  \<open>adapter\<close> is what importing \<open>..transport.adapter\<close> gives: \<open>max_transmit_data\<close>, or the exception.
  \<open>stat\<close> is the size of a file and \<open>contents\<close> what can be read of it, if anything.
\<close>

record file_obj =
  fo_has_name_and_mode :: bool
  fo_name :: string
  fo_mode :: string
  fo_isatty :: bool
  fo_closed :: bool
  fo_tell :: int

datatype saved_file = SysFile string | ClosedIO | StringIO string int

definition save_file :: "int res \<Rightarrow> (string \<Rightarrow> int option) \<Rightarrow> (string \<Rightarrow> string option) \<Rightarrow> file_obj \<Rightarrow> saved_file res" where
  "save_file adapter stat contents obj =
     bind_res adapter (\<lambda>max_transmit_data.
       if \<not> fo_has_name_and_mode obj then Inl PicklingError
       else if fo_name obj = ''<stdout>'' then Inr (SysFile ''stdout'')
       else if fo_name obj = ''<stderr>'' then Inr (SysFile ''stderr'')
       else if fo_name obj = ''<stdin>'' then Inl PicklingError
       else if fo_isatty obj then Inl PicklingError
       else if CHR ''r'' \<notin> set (fo_mode obj) then Inl PicklingError
       else
         (case stat (fo_name obj) of
            None \<Rightarrow> Inl PicklingError
          | Some fsize \<Rightarrow>
              if fo_closed obj then Inr ClosedIO
              else if fsize = 0 then
                (case contents (fo_name obj) of
                   None \<Rightarrow> Inl PicklingError
                 | Some s \<Rightarrow> if s \<noteq> [] then Inl PicklingError else Inr (StringIO [] 0))
              else if fsize > max_transmit_data then Inl PicklingError
              else
                (case contents (fo_name obj) of
                   None \<Rightarrow> Inl PicklingError
                 | Some s \<Rightarrow> Inr (StringIO (take (nat max_transmit_data) s) (fo_tell obj)))))"

section \<open>\<open>xrange\<close>\<close>

text \<open>An \<open>xrange\<close> object: start, step and length. Its constructor takes numbers that fit a C long.\<close>

record xrange_obj =
  xr_start :: int
  xr_step :: int
  xr_len :: nat

definition xr_elements :: "xrange_obj \<Rightarrow> int list" where
  "xr_elements x = map (\<lambda>i. xr_start x + int i * xr_step x) [0..<xr_len x]"

definition fits_long :: "int \<Rightarrow> bool" where
  "fits_long i \<longleftrightarrow> - (2 ^ 63) \<le> i \<and> i < 2 ^ 63"

definition py_xrange :: "int \<Rightarrow> int \<Rightarrow> int \<Rightarrow> xrange_obj res" where
  "py_xrange lo hi step =
     (if \<not> (fits_long lo \<and> fits_long hi \<and> fits_long step) then Inl (PyException ''OverflowError'')
      else if step = 0 then Inl ValueError
      else Inr \<lparr>xr_start = lo, xr_step = step,
        xr_len = nat (if step > 0 then (if lo < hi then 1 + (hi - 1 - lo) div step else 0)
                      else (if hi < lo then 1 + (lo - 1 - hi) div (- step) else 0))\<rparr>)"

definition xrange_params :: "xrange_obj \<Rightarrow> int \<times> int \<times> int" where
  "xrange_params x =
     (if xr_len x = 0 then (0, 1, 0)
      else if xr_len x = 1 then (xr_elements x ! 0, 1, 1)
      else (xr_elements x ! 0, xr_elements x ! 1 - xr_elements x ! 0, int (xr_len x)))"

definition build_xrange :: "int \<Rightarrow> int \<Rightarrow> int \<Rightarrow> xrange_obj res" where
  "build_xrange start step len = py_xrange start (start + step * len) step"

lemma div_last: "0 < s \<Longrightarrow> (s * k - 1) div s = k - 1" for s k :: int
  by (rule int_div_pos_eq [where r = "s - 1"]) (simp_all add: algebra_simps)

lemma py_xrange_exact:
  assumes "step \<noteq> 0" "0 < n" "fits_long lo" "fits_long (lo + step * int n)" "fits_long step"
  shows "py_xrange lo (lo + step * int n) step = Inr \<lparr>xr_start = lo, xr_step = step, xr_len = n\<rparr>"
proof (cases "step > 0")
  case True
  have "(step * int n - 1) div step = int n - 1"
    by (rule div_last [OF True])
  then show ?thesis using assms True by (simp add: py_xrange_def)
next
  case False
  then have neg: "step < 0" using assms(1) by simp
  have e: "- 1 - step * int n = - step * int n - 1" by simp
  have "(- 1 - step * int n) div (- step) = int n - 1"
    unfolding e using neg by (intro div_last) simp
  moreover have "step * int n < 0" using neg assms(2) by (simp add: mult_neg_pos)
  ultimately show ?thesis using assms neg False by (simp add: py_xrange_def)
qed

section \<open>Properties\<close>

text \<open>
  An \<open>xrange\<close> object that is rebuilt from its parameters has the same elements, as long as the end
  that is computed for it fits a C long.
\<close>

theorem xrange_roundtrip:
  assumes "xr_step x \<noteq> 0" and "fits_long (xr_start x)" and "fits_long (xr_step x)"
    and "fits_long (xr_start x + xr_step x * int (xr_len x))" and "fits_long (xr_start x + 1)"
  shows "\<exists>y. (case xrange_params x of (start, step, len) \<Rightarrow> build_xrange start step len) = Inr y \<and>
    xr_elements y = xr_elements x"
proof -
  consider "xr_len x = 0" | "xr_len x = 1" | "1 < xr_len x" by linarith
  then show ?thesis
  proof cases
    case 1
    then show ?thesis by (simp add: xrange_params_def build_xrange_def py_xrange_def fits_long_def xr_elements_def)
  next
    case 2
    have "py_xrange (xr_start x) (xr_start x + 1 * int 1) 1 = Inr \<lparr>xr_start = xr_start x, xr_step = 1, xr_len = 1\<rparr>"
      using assms by (intro py_xrange_exact) (simp_all add: fits_long_def)
    then show ?thesis using 2 by (simp add: xrange_params_def build_xrange_def xr_elements_def)
  next
    case 3
    have e: "xr_elements x ! 0 = xr_start x" "xr_elements x ! Suc 0 = xr_start x + xr_step x"
      using 3 by (simp_all add: xr_elements_def)
    have "py_xrange (xr_start x) (xr_start x + xr_step x * int (xr_len x)) (xr_step x) =
        Inr \<lparr>xr_start = xr_start x, xr_step = xr_step x, xr_len = xr_len x\<rparr>"
      using assms 3 by (intro py_xrange_exact) simp_all
    then show ?thesis using 3 e by (simp add: xrange_params_def build_xrange_def xr_elements_def)
  qed
qed

theorem xrange_roundtrip_witness:
  "\<exists>y. build_xrange 10 (- 3) 4 = Inr y \<and> xr_elements y = [10, 7, 4, 1]"
  using xrange_roundtrip [of "\<lparr>xr_start = 10, xr_step = - 3, xr_len = 4\<rparr>"]
  by (simp add: xrange_params_def xr_elements_def fits_long_def eval_nat_numeral)

text \<open>
  \<open>dumps\<close> restores the recursion limit in every case and reports a recursion that is too deep
  as a PicklingError, but any other RuntimeError of the pickler is swallowed: the call returns
  the incomplete bytes as if it had succeeded.
\<close>

theorem dumps_swallows_runtime_errors:
  assumes "\<And>limit. run limit = (written, out, limit)"
  shows "snd (cp_dumps run base) = base \<and>
    fst (cp_dumps run base) =
      (case out of
         Returned \<Rightarrow> Inr written
       | RuntimeErr msg \<Rightarrow> if is_infix ''recursion'' msg then Inl PicklingError else Inr written
       | Raised e \<Rightarrow> Inl e)"
  by (cases out) (simp_all add: cp_dumps_def cp_dump_def assms Let_def)

theorem dumps_swallows_runtime_errors_witness:
  "cp_dumps (\<lambda>limit. ([1 :: nat, 2], RuntimeErr ''dictionary changed size'', limit)) 1000 = (Inr [1, 2], 1000)"
  using dumps_swallows_runtime_errors [of "\<lambda>limit. ([1 :: nat, 2], RuntimeErr ''dictionary changed size'', limit)"
      "[1, 2]" "RuntimeErr ''dictionary changed size''" 1000]
  by (simp add: prod_eq_iff)

end
