(* ===== verification/Sql.thy ===== *)
theory Sql
  imports Lineage
begin

text \<open>
  \<open>pyspark/sql.py\<close>: the SQL contexts with the JVM context that each creates on first use, and
  \<open>SchemaRDD\<close> objects with the Python RDD that each creates on first use. The JVM answers an
  operation with an object of type \<open>'j\<close>; what it answers is an argument.
\<close>

section \<open>State\<close>

datatype ctx_class = SQLContextC | HiveContextC | LocalHiveContextC | TestHiveContextC

record sql_ctx =
  sq_class :: ctx_class
  sq_scala_SQLContext :: "nat option"
  sq_scala_HiveContext :: "nat option"

record 'j schema_rdd =
  sr_ctx :: nat
  sr_jschema :: 'j
  sr_is_cached :: bool
  sr_is_checkpointed :: bool
  sr_lazy_jrdd :: "nat option"

datatype sql_op =
    OpInfer | OpRegister string | OpParquet string | OpSql string | OpTable string
  | OpCache string | OpUncache string | OpHiveql string

datatype 'j schema_op =
    OpDistinct | OpCoalesce int bool | OpRepartition int | OpIntersection 'j | OpSubtract 'j "int option"

datatype schema_call =
    SCache | SPersist storage_level | SUnpersist | SCheckpoint
  | SSaveAsParquetFile string | SRegisterAsTable string | SInsertInto string bool | SSaveAsTable string

text \<open>
  The JVM contexts by number, the calls made on them, the SchemaRDD objects, which of them were
  converted to Python RDDs, in order, and the calls made on the SchemaRDD objects of the JVM.
\<close>

record 'j sql_state =
  ql_ctxs :: "sql_ctx list"
  ql_jvm :: "ctx_class list"
  ql_calls :: "(nat \<times> sql_op) list"
  ql_rdds :: "'j schema_rdd list"
  ql_python :: "nat list"
  ql_schema_calls :: "('j \<times> schema_call) list"

section \<open>Contexts\<close>

definition SQLContext :: "ctx_class \<Rightarrow> nat option \<Rightarrow> 'j sql_state \<Rightarrow> nat \<times> 'j sql_state" where
  "SQLContext cls sqlContext st =
     (length (ql_ctxs st),
      st\<lparr>ql_ctxs := ql_ctxs st @ [\<lparr>sq_class = cls, sq_scala_SQLContext = sqlContext, sq_scala_HiveContext = None\<rparr>]\<rparr>)"

text \<open>The property \<open>_ssql_ctx\<close> of each class; \<open>hive_built\<close> is whether the JVM has the Hive classes.\<close>

definition ssql_ctx :: "bool \<Rightarrow> nat \<Rightarrow> 'j sql_state \<Rightarrow> nat res \<times> 'j sql_state" where
  "ssql_ctx hive_built i st =
     (let self = ql_ctxs st ! i; k = length (ql_jvm st) in
      if sq_class self = SQLContextC then
        (case sq_scala_SQLContext self of
           Some j \<Rightarrow> (Inr j, st)
         | None \<Rightarrow> (Inr k, st\<lparr>ql_jvm := ql_jvm st @ [SQLContextC],
             ql_ctxs := (ql_ctxs st)[i := self\<lparr>sq_scala_SQLContext := Some k\<rparr>]\<rparr>))
      else
        (case sq_scala_HiveContext self of
           Some j \<Rightarrow> (Inr j, st)
         | None \<Rightarrow>
             if hive_built then
               (Inr k, st\<lparr>ql_jvm := ql_jvm st @ [sq_class self],
                 ql_ctxs := (ql_ctxs st)[i := self\<lparr>sq_scala_HiveContext := Some k\<rparr>]\<rparr>)
             else (Inl (PyException ''You must build Spark with Hive''), st)))"

definition ctx_call :: "bool \<Rightarrow> nat \<Rightarrow> sql_op \<Rightarrow> 'j sql_state \<Rightarrow> nat res \<times> 'j sql_state" where
  "ctx_call hive_built i op st =
     (case ssql_ctx hive_built i st of
        (Inl e, st1) \<Rightarrow> (Inl e, st1)
      | (Inr j, st1) \<Rightarrow> (Inr j, st1\<lparr>ql_calls := ql_calls st1 @ [(j, op)]\<rparr>))"

definition SchemaRDD :: "'j \<Rightarrow> nat \<Rightarrow> 'j sql_state \<Rightarrow> nat \<times> 'j sql_state" where
  "SchemaRDD jschema_rdd ctx st =
     (length (ql_rdds st),
      st\<lparr>ql_rdds := ql_rdds st @ [\<lparr>sr_ctx = ctx, sr_jschema = jschema_rdd, sr_is_cached = False,
          sr_is_checkpointed = False, sr_lazy_jrdd = None\<rparr>]\<rparr>)"

text \<open>A call whose answer becomes a SchemaRDD.\<close>

definition ctx_query ::
  "bool \<Rightarrow> (nat \<Rightarrow> sql_op \<Rightarrow> 'j) \<Rightarrow> nat \<Rightarrow> sql_op \<Rightarrow> 'j sql_state \<Rightarrow> nat res \<times> 'j sql_state" where
  "ctx_query hive_built answer i op st =
     (case ctx_call hive_built i op st of
        (Inl e, st1) \<Rightarrow> (Inl e, st1)
      | (Inr j, st1) \<Rightarrow> (case SchemaRDD (answer j op) i st1 of (r, st2) \<Rightarrow> (Inr r, st2)))"

text \<open>
  What is passed as an RDD: a SchemaRDD, or another RDD, of which \<open>first()\<close> gives a dictionary
  or not, or raises.
\<close>

datatype rdd_arg = SchemaArg nat | RddArg "bool res"

fun inferSchema ::
  "bool \<Rightarrow> (nat \<Rightarrow> sql_op \<Rightarrow> 'j) \<Rightarrow> nat \<Rightarrow> rdd_arg \<Rightarrow> 'j sql_state \<Rightarrow> nat res \<times> 'j sql_state" where
  "inferSchema hive_built answer i (SchemaArg r) st = (Inl ValueError, st)"
| "inferSchema hive_built answer i (RddArg first_is_dict) st =
     (case first_is_dict of
        Inl e \<Rightarrow> (Inl e, st)
      | Inr b \<Rightarrow> if b then ctx_query hive_built answer i OpInfer st else (Inl ValueError, st))"

fun registerRDDAsTable :: "bool \<Rightarrow> nat \<Rightarrow> rdd_arg \<Rightarrow> string \<Rightarrow> 'j sql_state \<Rightarrow> nat res \<times> 'j sql_state" where
  "registerRDDAsTable hive_built i (SchemaArg r) tableName st = ctx_call hive_built i (OpRegister tableName) st"
| "registerRDDAsTable hive_built i (RddArg x) tableName st = (Inl ValueError, st)"

definition parquetFile where
  "parquetFile hive_built answer i path st = ctx_query hive_built answer i (OpParquet path) st"

definition sql_query where
  "sql_query hive_built answer i q st = ctx_query hive_built answer i (OpSql q) st"

definition sql_table where
  "sql_table hive_built answer i tableName st = ctx_query hive_built answer i (OpTable tableName) st"

definition cacheTable where
  "cacheTable hive_built i tableName st = ctx_call hive_built i (OpCache tableName) st"

definition uncacheTable where
  "uncacheTable hive_built i tableName st = ctx_call hive_built i (OpUncache tableName) st"

text \<open>Only the Hive contexts have \<open>hiveql\<close> and \<open>hql\<close>.\<close>

definition hiveql ::
  "bool \<Rightarrow> (nat \<Rightarrow> sql_op \<Rightarrow> 'j) \<Rightarrow> nat \<Rightarrow> string \<Rightarrow> 'j sql_state \<Rightarrow> nat res \<times> 'j sql_state" where
  "hiveql hive_built answer i hqlQuery st =
     (if sq_class (ql_ctxs st ! i) = SQLContextC then (Inl (PyException ''AttributeError''), st)
      else ctx_query hive_built answer i (OpHiveql hqlQuery) st)"

section \<open>SchemaRDD objects\<close>

text \<open>The property \<open>_jrdd\<close>; the number of the Python RDD is its place in the conversions.\<close>

definition schema_jrdd :: "nat \<Rightarrow> 'j sql_state \<Rightarrow> nat \<times> 'j sql_state" where
  "schema_jrdd r st =
     (let self = ql_rdds st ! r in
      case sr_lazy_jrdd self of
        Some p \<Rightarrow> (p, st)
      | None \<Rightarrow>
          (length (ql_python st),
           st\<lparr>ql_python := ql_python st @ [r],
              ql_rdds := (ql_rdds st)[r := self\<lparr>sr_lazy_jrdd := Some (length (ql_python st))\<rparr>]\<rparr>))"

definition schema_forward :: "nat \<Rightarrow> schema_call \<Rightarrow> 'j sql_state \<Rightarrow> 'j sql_state" where
  "schema_forward r call st = st\<lparr>ql_schema_calls := ql_schema_calls st @ [(sr_jschema (ql_rdds st ! r), call)]\<rparr>"

definition schema_cache :: "nat \<Rightarrow> 'j sql_state \<Rightarrow> 'j sql_state" where
  "schema_cache r st =
     schema_forward r SCache (st\<lparr>ql_rdds := (ql_rdds st)[r := (ql_rdds st ! r)\<lparr>sr_is_cached := True\<rparr>]\<rparr>)"

definition schema_persist :: "nat \<Rightarrow> storage_level \<Rightarrow> 'j sql_state \<Rightarrow> 'j sql_state" where
  "schema_persist r storageLevel st =
     schema_forward r (SPersist storageLevel) (st\<lparr>ql_rdds := (ql_rdds st)[r := (ql_rdds st ! r)\<lparr>sr_is_cached := True\<rparr>]\<rparr>)"

definition schema_unpersist :: "nat \<Rightarrow> 'j sql_state \<Rightarrow> 'j sql_state" where
  "schema_unpersist r st =
     schema_forward r SUnpersist (st\<lparr>ql_rdds := (ql_rdds st)[r := (ql_rdds st ! r)\<lparr>sr_is_cached := False\<rparr>]\<rparr>)"

definition schema_checkpoint :: "nat \<Rightarrow> 'j sql_state \<Rightarrow> 'j sql_state" where
  "schema_checkpoint r st =
     schema_forward r SCheckpoint (st\<lparr>ql_rdds := (ql_rdds st)[r := (ql_rdds st ! r)\<lparr>sr_is_checkpointed := True\<rparr>]\<rparr>)"

definition saveAsParquetFile where
  "saveAsParquetFile r path st = schema_forward r (SSaveAsParquetFile path) st"

definition registerAsTable where
  "registerAsTable r name st = schema_forward r (SRegisterAsTable name) st"

definition insertInto where
  "insertInto r tableName overwrite st = schema_forward r (SInsertInto tableName overwrite) st"

definition saveAsTable where
  "saveAsTable r tableName st = schema_forward r (SSaveAsTable tableName) st"

definition schema_derive ::
  "('j \<Rightarrow> 'j schema_op \<Rightarrow> 'j) \<Rightarrow> nat \<Rightarrow> 'j schema_op \<Rightarrow> 'j sql_state \<Rightarrow> nat \<times> 'j sql_state" where
  "schema_derive jop r op st = SchemaRDD (jop (sr_jschema (ql_rdds st ! r)) op) (sr_ctx (ql_rdds st ! r)) st"

definition schema_coalesce where
  "schema_coalesce jop r numPartitions shuffle st = schema_derive jop r (OpCoalesce numPartitions shuffle) st"

definition schema_distinct where
  "schema_distinct jop r st = schema_derive jop r OpDistinct st"

definition schema_repartition where
  "schema_repartition jop r numPartitions st = schema_derive jop r (OpRepartition numPartitions) st"

fun schema_intersection ::
  "('j \<Rightarrow> 'j schema_op \<Rightarrow> 'j) \<Rightarrow> nat \<Rightarrow> rdd_arg \<Rightarrow> 'j sql_state \<Rightarrow> nat res \<times> 'j sql_state" where
  "schema_intersection jop r (SchemaArg other) st =
     (case schema_derive jop r (OpIntersection (sr_jschema (ql_rdds st ! other))) st of (n, st') \<Rightarrow> (Inr n, st'))"
| "schema_intersection jop r (RddArg x) st = (Inl ValueError, st)"

fun schema_subtract ::
  "('j \<Rightarrow> 'j schema_op \<Rightarrow> 'j) \<Rightarrow> nat \<Rightarrow> rdd_arg \<Rightarrow> int option \<Rightarrow> 'j sql_state \<Rightarrow> nat res \<times> 'j sql_state" where
  "schema_subtract jop r (SchemaArg other) numPartitions st =
     (case schema_derive jop r (OpSubtract (sr_jschema (ql_rdds st ! other)) numPartitions) st of (n, st') \<Rightarrow> (Inr n, st'))"
| "schema_subtract jop r (RddArg x) numPartitions st = (Inl ValueError, st)"

section \<open>Rows\<close>

text \<open>
  \<open>Row(d)\<close>: the attributes are the dictionary \<open>d\<close> itself, the items a copy of it. Reading an
  attribute looks there; an assignment to an attribute leaves the items alone.
\<close>

record 'v row =
  row_items :: "(string \<times> 'v) list"
  row_attrs :: "(string \<times> 'v) list"

definition Row :: "(string \<times> 'v) list \<Rightarrow> 'v row" where
  "Row d = \<lparr>row_items = d, row_attrs = d\<rparr>"

section \<open>Sequences of calls\<close>

datatype 'j sql_cmd =
    NewContext ctx_class "nat option"
  | CtxCall nat sql_op
  | CtxQuery nat sql_op
  | Convert nat
  | Derive nat "'j schema_op"
  | Cache nat
  | Persist nat storage_level
  | Unpersist nat
  | Checkpoint nat
  | Forward nat schema_call

fun sql_step :: "bool \<Rightarrow> (nat \<Rightarrow> sql_op \<Rightarrow> 'j) \<Rightarrow> ('j \<Rightarrow> 'j schema_op \<Rightarrow> 'j) \<Rightarrow> 'j sql_cmd \<Rightarrow> 'j sql_state \<Rightarrow> 'j sql_state" where
  "sql_step hb answer jop (NewContext c given) st = snd (SQLContext c given st)"
| "sql_step hb answer jop (CtxCall i op) st = (if i < length (ql_ctxs st) then snd (ctx_call hb i op st) else st)"
| "sql_step hb answer jop (CtxQuery i op) st = (if i < length (ql_ctxs st) then snd (ctx_query hb answer i op st) else st)"
| "sql_step hb answer jop (Convert r) st = (if r < length (ql_rdds st) then snd (schema_jrdd r st) else st)"
| "sql_step hb answer jop (Derive r op) st = (if r < length (ql_rdds st) then snd (schema_derive jop r op st) else st)"
| "sql_step hb answer jop (Cache r) st = (if r < length (ql_rdds st) then schema_cache r st else st)"
| "sql_step hb answer jop (Unpersist r) st = (if r < length (ql_rdds st) then schema_unpersist r st else st)"
| "sql_step hb answer jop (Checkpoint r) st = (if r < length (ql_rdds st) then schema_checkpoint r st else st)"
| "sql_step hb answer jop (Persist r l) st = (if r < length (ql_rdds st) then schema_persist r l st else st)"
| "sql_step hb answer jop (Forward r c) st = (if r < length (ql_rdds st) then schema_forward r c st else st)"

text \<open>The JVM context of a context, once there is one.\<close>

definition jvm_handle :: "'j sql_state \<Rightarrow> nat \<Rightarrow> nat option" where
  "jvm_handle st i =
     (let self = ql_ctxs st ! i in
      if sq_class self = SQLContextC then sq_scala_SQLContext self else sq_scala_HiveContext self)"

text \<open>
  The invariant: the conversions are those that the SchemaRDD objects know of, and each context
  that has a JVM context knows one that exists.
\<close>

definition conversions_ok :: "nat list \<Rightarrow> nat option list \<Rightarrow> bool" where
  "conversions_ok python lazies \<longleftrightarrow> distinct python \<and> (\<forall>r\<in>set python. r < length lazies) \<and>
     (\<forall>r<length lazies. case lazies ! r of
        None \<Rightarrow> r \<notin> set python
      | Some p \<Rightarrow> p < length python \<and> python ! p = r)"

definition sql_ok :: "'j sql_state \<Rightarrow> bool" where
  "sql_ok st \<longleftrightarrow> conversions_ok (ql_python st) (map sr_lazy_jrdd (ql_rdds st))"

lemma conversions_ok_new: "conversions_ok python lazies \<Longrightarrow> conversions_ok python (lazies @ [None])"
  by (auto simp: conversions_ok_def nth_append less_Suc_eq split: option.splits)

lemma conversions_ok_convert:
  assumes "conversions_ok python lazies" and "r < length lazies" and "lazies ! r = None"
  shows "conversions_ok (python @ [r]) (lazies[r := Some (length python)])"
proof -
  have "r \<notin> set python" using assms unfolding conversions_ok_def by fastforce
  then show ?thesis
    using assms by (auto simp: conversions_ok_def nth_list_update nth_append split: option.splits)
qed

text \<open>What a step keeps: the objects, and what they have created.\<close>

definition extends :: "'j sql_state \<Rightarrow> 'j sql_state \<Rightarrow> bool" where
  "extends st st' \<longleftrightarrow> length (ql_ctxs st) \<le> length (ql_ctxs st') \<and> length (ql_rdds st) \<le> length (ql_rdds st') \<and>
     (\<forall>i<length (ql_ctxs st). \<forall>k. jvm_handle st i = Some k \<longrightarrow> jvm_handle st' i = Some k) \<and>
     (\<forall>r<length (ql_rdds st). \<forall>p. sr_lazy_jrdd (ql_rdds st ! r) = Some p \<longrightarrow> sr_lazy_jrdd (ql_rdds st' ! r) = Some p)"

lemma extends_refl: "extends st st"
  by (simp add: extends_def)

lemma extends_trans: "extends a b \<Longrightarrow> extends b c \<Longrightarrow> extends a c"
  unfolding extends_def by (meson order.strict_trans2 order.trans)

lemma extendsI:
  assumes "length (ql_ctxs st) \<le> length (ql_ctxs st')" and "length (ql_rdds st) \<le> length (ql_rdds st')"
    and "\<And>i k. i < length (ql_ctxs st) \<Longrightarrow> jvm_handle st i = Some k \<Longrightarrow> jvm_handle st' i = Some k"
    and "\<And>r p. r < length (ql_rdds st) \<Longrightarrow> sr_lazy_jrdd (ql_rdds st ! r) = Some p \<Longrightarrow> sr_lazy_jrdd (ql_rdds st' ! r) = Some p"
  shows "extends st st'"
  using assms by (simp add: extends_def)

lemma ssql_ctx_keeps:
  assumes "i < length (ql_ctxs st)"
  shows "extends st (snd (ssql_ctx hb i st))" "sql_ok (snd (ssql_ctx hb i st)) = sql_ok st"
proof -
  show "extends st (snd (ssql_ctx hb i st))"
    by (rule extendsI)
      (use assms in \<open>auto simp: ssql_ctx_def Let_def jvm_handle_def nth_list_update split: option.splits if_splits\<close>)
  show "sql_ok (snd (ssql_ctx hb i st)) = sql_ok st"
    by (simp add: ssql_ctx_def Let_def sql_ok_def split: option.splits)
qed

lemma ctx_call_keeps:
  assumes "i < length (ql_ctxs st)"
  shows "extends st (snd (ctx_call hb i op st))" "sql_ok (snd (ctx_call hb i op st)) = sql_ok st"
proof -
  have *: "extends st (st1\<lparr>ql_calls := cs\<rparr>) = extends st st1" "sql_ok (st1\<lparr>ql_calls := cs\<rparr>) = sql_ok st1" for st1 :: "'a sql_state" and cs
    by (simp_all add: extends_def jvm_handle_def sql_ok_def)
  obtain x st1 where x: "ssql_ctx hb i st = (x, st1)" by force
  show "extends st (snd (ctx_call hb i op st))" "sql_ok (snd (ctx_call hb i op st)) = sql_ok st"
    using ssql_ctx_keeps [OF assms, of hb] by (cases x; simp add: ctx_call_def x *)+
qed

lemma SchemaRDD_keeps:
  "extends st (snd (SchemaRDD j i st))" "sql_ok st \<Longrightarrow> sql_ok (snd (SchemaRDD j i st))"
proof -
  show "extends st (snd (SchemaRDD j i st))"
    by (rule extendsI) (simp_all add: SchemaRDD_def jvm_handle_def nth_append)
  show "sql_ok st \<Longrightarrow> sql_ok (snd (SchemaRDD j i st))"
    by (simp add: SchemaRDD_def sql_ok_def conversions_ok_new)
qed

lemma ctx_query_keeps:
  assumes "i < length (ql_ctxs st)"
  shows "extends st (snd (ctx_query hb answer i op st))" "sql_ok st \<Longrightarrow> sql_ok (snd (ctx_query hb answer i op st))"
proof -
  obtain x st1 where x: "ctx_call hb i op st = (x, st1)" by force
  have e: "extends st st1" "sql_ok st1 = sql_ok st" using ctx_call_keeps [OF assms, of hb op] x by simp_all
  have q: "snd (ctx_query hb answer i op st) = (case x of Inl e \<Rightarrow> st1 | Inr j \<Rightarrow> snd (SchemaRDD (answer j op) i st1))"
    by (cases x) (simp_all add: ctx_query_def x split: prod.splits)
  show "extends st (snd (ctx_query hb answer i op st))"
    unfolding q using e(1) extends_trans [OF e(1) SchemaRDD_keeps(1)] by (simp split: sum.splits)
  show "sql_ok st \<Longrightarrow> sql_ok (snd (ctx_query hb answer i op st))"
    unfolding q using e(2) by (cases x) (simp_all add: SchemaRDD_keeps(2))
qed

lemma schema_jrdd_keeps:
  assumes "r < length (ql_rdds st)"
  shows "extends st (snd (schema_jrdd r st))" "sql_ok st \<Longrightarrow> sql_ok (snd (schema_jrdd r st))"
proof -
  show "extends st (snd (schema_jrdd r st))"
    by (rule extendsI)
      (use assms in \<open>auto simp: schema_jrdd_def Let_def jvm_handle_def nth_list_update split: option.splits\<close>)
  show "sql_ok (snd (schema_jrdd r st))" if "sql_ok st"
    using that assms conversions_ok_convert [of "ql_python st" "map sr_lazy_jrdd (ql_rdds st)" r]
    by (simp add: schema_jrdd_def Let_def sql_ok_def map_update split: option.splits)
qed

lemma schema_flags_keep:
  assumes "\<forall>x. sr_lazy_jrdd (f x) = sr_lazy_jrdd x"
  shows "extends st (st\<lparr>ql_rdds := (ql_rdds st)[r := f (ql_rdds st ! r)]\<rparr>)"
    "sql_ok st \<Longrightarrow> sql_ok (st\<lparr>ql_rdds := (ql_rdds st)[r := f (ql_rdds st ! r)]\<rparr>)"
proof -
  have same: "map sr_lazy_jrdd ((ql_rdds st)[r := f (ql_rdds st ! r)]) = map sr_lazy_jrdd (ql_rdds st)"
  proof (cases "r < length (ql_rdds st)")
    case True
    then show ?thesis using assms by (intro nth_equalityI) (auto simp: nth_list_update)
  qed (simp add: list_update_beyond)
  show "extends st (st\<lparr>ql_rdds := (ql_rdds st)[r := f (ql_rdds st ! r)]\<rparr>)"
  proof (rule extendsI)
    fix q p assume "q < length (ql_rdds st)" "sr_lazy_jrdd (ql_rdds st ! q) = Some p"
    then show "sr_lazy_jrdd (ql_rdds (st\<lparr>ql_rdds := (ql_rdds st)[r := f (ql_rdds st ! r)]\<rparr>) ! q) = Some p"
      using arg_cong [OF same, of "\<lambda>xs. xs ! q"] by simp
  qed (simp_all add: jvm_handle_def)
  show "sql_ok st \<Longrightarrow> sql_ok (st\<lparr>ql_rdds := (ql_rdds st)[r := f (ql_rdds st ! r)]\<rparr>)"
    by (simp add: sql_ok_def same)
qed

lemma schema_forward_keeps [simp]:
  "extends st (schema_forward r c st') = extends st st'" "sql_ok (schema_forward r c st') = sql_ok st'"
  by (simp_all add: schema_forward_def extends_def jvm_handle_def sql_ok_def)

lemma sql_step_keeps: "extends st (sql_step hb answer jop c st) \<and> (sql_ok st \<longrightarrow> sql_ok (sql_step hb answer jop c st))"
proof (cases c)
  case (NewContext cls given)
  have "extends st (snd (SQLContext cls given st))"
    by (rule extendsI) (simp_all add: SQLContext_def jvm_handle_def nth_append)
  then show ?thesis using NewContext by (simp add: SQLContext_def sql_ok_def)
next
  case (CtxCall i op)
  then show ?thesis using ctx_call_keeps [of i st hb op] by (simp add: extends_refl)
next
  case (CtxQuery i op)
  then show ?thesis using ctx_query_keeps [of i st hb answer op] by (simp add: extends_refl)
next
  case (Convert r)
  then show ?thesis using schema_jrdd_keeps [of r st] by (simp add: extends_refl)
next
  case (Derive r op)
  then show ?thesis using SchemaRDD_keeps [of st] by (simp add: extends_refl schema_derive_def)
next
  case (Cache r)
  then show ?thesis using schema_flags_keep [of "\<lambda>x. x\<lparr>sr_is_cached := True\<rparr>" st r] by (simp add: extends_refl schema_cache_def)
next
  case (Unpersist r)
  then show ?thesis using schema_flags_keep [of "\<lambda>x. x\<lparr>sr_is_cached := False\<rparr>" st r] by (simp add: extends_refl schema_unpersist_def)
next
  case (Checkpoint r)
  then show ?thesis using schema_flags_keep [of "\<lambda>x. x\<lparr>sr_is_checkpointed := True\<rparr>" st r] by (simp add: extends_refl schema_checkpoint_def)
next
  case (Persist r l)
  then show ?thesis using schema_flags_keep [of "\<lambda>x. x\<lparr>sr_is_cached := True\<rparr>" st r] by (simp add: extends_refl schema_persist_def)
next
  case (Forward r c)
  then show ?thesis by (simp add: extends_refl)
qed

section \<open>Properties\<close>

text \<open>
  C36: whatever is called in whatever order, a SQL context keeps the JVM context it created on its
  first use, and a SchemaRDD is converted to a Python RDD at most once and keeps it.
\<close>

theorem lazy_objects_created_once:
  assumes "sql_ok st" and st': "st' = fold (sql_step hb answer jop) cmds st"
  shows "sql_ok st' \<and> distinct (ql_python st') \<and>
    (\<forall>i<length (ql_ctxs st). \<forall>k. jvm_handle st i = Some k \<longrightarrow> jvm_handle st' i = Some k) \<and>
    (\<forall>r<length (ql_rdds st). \<forall>p. sr_lazy_jrdd (ql_rdds st ! r) = Some p \<longrightarrow> sr_lazy_jrdd (ql_rdds st' ! r) = Some p)"
proof -
  have "sql_ok (fold (sql_step hb answer jop) cmds st) \<and> extends st (fold (sql_step hb answer jop) cmds st)"
    using assms(1)
  proof (induction cmds arbitrary: st)
    case (Cons c cmds)
    then show ?case using sql_step_keeps [of st hb answer jop c] extends_trans by fastforce
  qed (simp add: extends_refl)
  then show ?thesis unfolding st' by (simp add: extends_def sql_ok_def conversions_ok_def)
qed

definition no_sql :: "nat sql_state" where
  "no_sql = \<lparr>ql_ctxs = [], ql_jvm = [], ql_calls = [], ql_rdds = [], ql_python = [], ql_schema_calls = []\<rparr>"

theorem lazy_objects_created_once_witness:
  "distinct (ql_python (fold (sql_step True (\<lambda>j op. 5) (\<lambda>j op. j))
      [NewContext HiveContextC None, CtxQuery 0 (OpSql ''select 1''), Convert 0, Cache 0, Convert 0] no_sql))"
  using lazy_objects_created_once [of no_sql _ True "\<lambda>j op. 5" "\<lambda>j op. j"
      "[NewContext HiveContextC None, CtxQuery 0 (OpSql ''select 1''), Convert 0, Cache 0, Convert 0]"]
  by (simp add: sql_ok_def conversions_ok_def no_sql_def del: sql_step.simps)

text \<open>
  A Hive context that is given a JVM context does not use it: the first call creates another.
\<close>

theorem hive_context_ignores_given:
  assumes "cls \<noteq> SQLContextC" and "given < length (ql_jvm st)" and "SQLContext cls (Some given) st = (i, st1)"
  shows "\<exists>j. fst (ctx_call True i op st1) = Inr j \<and> j \<noteq> given \<and>
    ql_jvm (snd (ctx_call True i op st1)) = ql_jvm st @ [cls]"
  using assms by (auto simp: SQLContext_def ctx_call_def ssql_ctx_def Let_def)

theorem hive_context_ignores_given_witness:
  "\<exists>j. fst (ctx_call True 0 OpInfer (snd (SQLContext HiveContextC (Some 0) (no_sql\<lparr>ql_jvm := [HiveContextC]\<rparr>)))) = Inr j \<and> j \<noteq> 0"
  using hive_context_ignores_given [of HiveContextC 0 "no_sql\<lparr>ql_jvm := [HiveContextC]\<rparr>" 0
      "snd (SQLContext HiveContextC (Some 0) (no_sql\<lparr>ql_jvm := [HiveContextC]\<rparr>))" OpInfer]
  by (auto simp: SQLContext_def no_sql_def)

end
