(* ===== verification/Jobs.thy ===== *)
theory Jobs
  imports Joins
begin

text \<open>
  Two of the example programs under \<open>examples/src/main/python\<close>, as compositions of the library's
  operations: \<open>wordcount.py\<close> and the loop of \<open>transitive_closure.py\<close>, which joins paths with edges
  until the number of paths no longer grows.
\<close>

section \<open>\<open>wordcount.py\<close>\<close>

definition wordcount :: "(string, int) shuffle_env \<Rightarrow> string partitions \<Rightarrow> (string \<times> int) list res" where
  "wordcount env lines =
     map_res collect
       (reduceByKey env (\<lambda>a b. a + b) None (rdd_map (\<lambda>x. (x, 1)) (flatMap (\<lambda>x. py_split CHR '' '' x) lines)))"

section \<open>\<open>transitive_closure.py\<close>\<close>

text \<open>
  The environments of the three keyed operations of a round: the shuffle and the union inside
  \<open>join\<close>, the union of old and new paths, and the shuffle of \<open>distinct\<close>.
\<close>

record 'a tc_env =
  join_shuffle :: "('a, 'a, 'a) join_env"
  join_union :: "('a \<times> ('a, 'a) tagged) union_env"
  edge_union :: "('a \<times> 'a) union_env"
  distinct_shuffle :: "('a \<times> 'a, unit) shuffle_env"

definition tc_env_ok :: "'a tc_env \<Rightarrow> bool" where
  "tc_env_ok env \<longleftrightarrow>
     shuffle_ok (join_shuffle env) \<and> 0 < num_partitions (join_shuffle env) None \<and>
     union_ok (join_union env) \<and> union_ok (edge_union env) \<and>
     shuffle_ok (distinct_shuffle env) \<and> 0 < num_partitions (distinct_shuffle env) None"

text \<open>
  One round: \<open>tc.union(tc.join(edges).map(..)).distinct()\<close>. \<open>ser\<close> is the serializer of \<open>tc\<close>; the
  mapped join has the serializer of the context, as every pipelined RDD.
\<close>

definition tc_round ::
  "'a tc_env \<Rightarrow> serializer \<Rightarrow> ('a \<times> 'a) partitions \<Rightarrow> ('a \<times> 'a) partitions \<Rightarrow> ('a \<times> 'a) partitions res" where
  "tc_round env ser edges tc =
     bind_res (python_join (join_shuffle env) (join_union env) tc edges None) (\<lambda>joined.
       let new_edges = rdd_map (\<lambda>(_, (a, b)). (b, a)) joined
       in rdd_distinct (distinct_shuffle env)
            (rdd_union (edge_union env) ser (ctx_serializer (edge_union env)) tc new_edges))"

partial_function (option) tc_loop ::
  "'a tc_env \<Rightarrow> ('a \<times> 'a) partitions \<Rightarrow> serializer \<Rightarrow> ('a \<times> 'a) partitions \<Rightarrow> int \<Rightarrow> ('a \<times> 'a) partitions res option"
where
  "tc_loop env edges ser tc oldCount =
     (case tc_round env ser edges tc of
        Inl e \<Rightarrow> Some (Inl e)
      | Inr tc' \<Rightarrow>
          (case rdd_count tc' of
             Inl e \<Rightarrow> Some (Inl e)
           | Inr nextCount \<Rightarrow>
               if nextCount = oldCount then Some (Inr tc')
               else tc_loop env edges (ctx_serializer (edge_union env)) tc' nextCount))"

definition transitive_closure ::
  "'a tc_env \<Rightarrow> serializer \<Rightarrow> ('a \<times> 'a) partitions \<Rightarrow> ('a \<times> 'a) partitions res option" where
  "transitive_closure env ser tc =
     (let edges = rdd_map (\<lambda>(x, y). (y, x)) tc
      in case rdd_count tc of
           Inl e \<Rightarrow> Some (Inl e)
         | Inr nextCount \<Rightarrow> tc_loop env edges ser tc nextCount)"

section \<open>Lemmas\<close>

lemma set_join:
  assumes "shuffle_ok env" and "0 < num_partitions env np" and "union_ok u"
  shows "\<exists>out. python_join env u A B np = Inr out \<and>
    set (collect out) = {(k, (v, w)). (k, v) \<in> set (collect A) \<and> (k, w) \<in> set (collect B)}"
proof -
  obtain out where out: "python_join env u A B np = Inr out"
    and vals: "\<forall>k. \<exists>vs ws. mset vs = mset (values_of k (collect A)) \<and>
        mset ws = mset (values_of k (collect B)) \<and> values_of k (collect out) = pairs_of vs ws"
    using do_python_join_values [OF assms(1) refl assms(2,3), of join_dispatch pairs_of A B]
    by (auto simp: python_join_def join_dispatch_eq)
  have "(k, (v, w)) \<in> set (collect out) \<longleftrightarrow> (k, v) \<in> set (collect A) \<and> (k, w) \<in> set (collect B)" for k v w
  proof -
    obtain vs ws where *: "mset vs = mset (values_of k (collect A))" "mset ws = mset (values_of k (collect B))"
      "values_of k (collect out) = pairs_of vs ws"
      using vals by blast
    have "set vs = set (values_of k (collect A))" "set ws = set (values_of k (collect B))"
      using mset_eq_setD [OF *(1)] mset_eq_setD [OF *(2)] .
    moreover have "(v, w) \<in> set (pairs_of vs ws) \<longleftrightarrow> v \<in> set vs \<and> w \<in> set ws"
      by (auto simp: pairs_of_def)
    ultimately show ?thesis unfolding in_set_values_of [symmetric] *(3) by simp
  qed
  then show ?thesis using out by auto
qed

text \<open>A round adds to the paths those that one more edge in front gives.\<close>

lemma tc_round_set:
  assumes "tc_env_ok env"
  shows "\<exists>out. tc_round env ser (rdd_map (\<lambda>(x, y). (y, x)) g) tc = Inr out \<and>
    distinct (collect out) \<and>
    set (collect out) = set (collect tc) \<union> set (collect g) O set (collect tc)"
proof -
  let ?edges = "rdd_map (\<lambda>(x, y). (y, x)) g" and ?f = "\<lambda>(_, (a, b)). (b, a)"
  obtain j where j: "python_join (join_shuffle env) (join_union env) tc ?edges None = Inr j"
    and sj: "set (collect j) = {(k, (v, w)). (k, v) \<in> set (collect tc) \<and> (k, w) \<in> set (collect ?edges)}"
    using set_join [of "join_shuffle env" None "join_union env"] assms unfolding tc_env_ok_def by blast
  let ?u = "rdd_union (edge_union env) ser (ctx_serializer (edge_union env)) tc (rdd_map ?f j)"
  have "set (collect ?u) = set (collect tc) \<union> ?f ` set (collect j)"
    using mset_rdd_union [of "edge_union env"] assms
    by (metis collect_rdd_map list.set_map set_mset_mset set_mset_union tc_env_ok_def)
  also have "?f ` set (collect j) = set (collect g) O set (collect tc)"
    unfolding sj collect_rdd_map by force
  finally have su: "set (collect ?u) = set (collect tc) \<union> set (collect g) O set (collect tc)" .
  have "0 < defaultParallelism (distinct_shuffle env)"
    using assms by (simp add: tc_env_ok_def num_partitions_def)
  then obtain out where "rdd_distinct (distinct_shuffle env) ?u = Inr out" "distinct (collect out)"
      "set (collect out) = set (collect ?u)"
    using distinct_set assms unfolding tc_env_ok_def by blast
  then show ?thesis using j su by (simp add: tc_round_def Let_def del: rdd_map_map)
qed

lemma rdd_count_elements: "collect p \<noteq> [] \<Longrightarrow> rdd_count p = Inr (int (length (collect p)))"
  by (auto simp: rdd_count_collect collect_def)

text \<open>The paths stay between the edges and their closure, and grow until they are the closure.\<close>

lemma closed_paths:
  assumes "E \<subseteq> T" and "T \<subseteq> E\<^sup>+" and "E O T \<subseteq> T"
  shows "T = E\<^sup>+"
proof (rule antisym [OF assms(2)])
  have "(x, z) \<in> T" if "(x, z) \<in> E\<^sup>+" for x z
    using that
  proof (induction rule: converse_trancl_induct)
    case (base y)
    then show ?case using assms(1) by blast
  next
    case (step y w)
    then show ?case using assms(3) by blast
  qed
  then show "E\<^sup>+ \<subseteq> T" by auto
qed

lemma tc_loop_closure:
  assumes "tc_env_ok env" and "set (collect g) \<subseteq> set (collect tc)"
    and "set (collect tc) \<subseteq> (set (collect g))\<^sup>+" and "distinct (collect tc)" and "collect tc \<noteq> []"
  shows "\<exists>out. tc_loop env (rdd_map (\<lambda>(x, y). (y, x)) g) ser tc (int (length (collect tc))) = Some (Inr out) \<and>
    distinct (collect out) \<and> set (collect out) = (set (collect g))\<^sup>+"
  using assms
proof (induction "card ((set (collect g))\<^sup>+ - set (collect tc))" arbitrary: tc ser rule: less_induct)
  case less
  let ?E = "set (collect g)" and ?edges = "rdd_map (\<lambda>(x, y). (y, x)) g"
  obtain tc' where tc': "tc_round env ser ?edges tc = Inr tc'" "distinct (collect tc')"
    and st: "set (collect tc') = set (collect tc) \<union> ?E O set (collect tc)"
    using tc_round_set [OF less.prems(1)] by blast
  have ne: "collect tc' \<noteq> []" using st less.prems(5) by (metis Un_empty set_empty)
  note cnt = rdd_count_elements [OF ne]
  have lens: "length (collect tc) = card (set (collect tc))" "length (collect tc') = card (set (collect tc'))"
    using less.prems(4) tc'(2) by (simp_all add: distinct_card)
  have sub: "set (collect tc') \<subseteq> ?E\<^sup>+"
    using st less.prems(3) by (auto intro: trancl_into_trancl2)
  note unfold = tc_loop.simps [of env ?edges ser tc]
  show ?case
  proof (cases "length (collect tc') = length (collect tc)")
    case True
    then have "set (collect tc') = set (collect tc)"
      using st lens by (metis List.finite_set Un_upper1 card_subset_eq)
    then have "set (collect tc') = ?E\<^sup>+"
      using closed_paths [of ?E "set (collect tc)"] less.prems(2,3) st by auto
    moreover have "tc_loop env ?edges ser tc (int (length (collect tc))) = Some (Inr tc')"
      unfolding unfold tc'(1) sum.case cnt True by simp
    ultimately show ?thesis using tc'(2) by blast
  next
    case False
    then have "set (collect tc) \<subset> set (collect tc')" using st lens by auto
    then have "?E\<^sup>+ - set (collect tc') \<subset> ?E\<^sup>+ - set (collect tc)" using sub by blast
    moreover have "finite (?E\<^sup>+ - set (collect tc))" by (simp add: finite_trancl)
    ultimately have smaller: "card (?E\<^sup>+ - set (collect tc')) < card (?E\<^sup>+ - set (collect tc))"
      by (intro psubset_card_mono)
    have "?E \<subseteq> set (collect tc')" using st less.prems(2) by blast
    then obtain out where "tc_loop env ?edges (ctx_serializer (edge_union env)) tc' (int (length (collect tc'))) = Some (Inr out)"
        "distinct (collect out)" "set (collect out) = ?E\<^sup>+"
      using less.hyps [OF smaller less.prems(1) _ sub tc'(2) ne] by blast
    moreover have "tc_loop env ?edges ser tc (int (length (collect tc))) =
        tc_loop env ?edges (ctx_serializer (edge_union env)) tc' (int (length (collect tc')))"
      unfolding unfold tc'(1) sum.case cnt using False by simp
    ultimately show ?thesis by auto
  qed
qed

lemma values_of_ones: "values_of w (map (\<lambda>x. (x, 1 :: int)) ws) = replicate (count_list ws w) 1"
  by (induction ws) (simp_all add: values_of_simps)

lemma sum_of_ones:
  "(case replicate k (1 :: int) of [] \<Rightarrow> None | v # vs \<Rightarrow> Some (foldl (\<lambda>a b. a + b) v vs)) =
     (if k = 0 then None else Some (int k))"
proof -
  have "foldl (\<lambda>a b. a + b) v (replicate n (1 :: int)) = v + int n" for v n
    by (induction n arbitrary: v) simp_all
  then show ?thesis by (cases k) simp_all
qed

lemma parallelism_ordered_env: "defaultParallelism (ordered_env n h) = n"
  by (simp add: ordered_env_def)

text \<open>The whole loop, from a graph with an edge.\<close>

lemma transitive_closure_returns:
  assumes "tc_env_ok env" and "distinct (collect g)" and "collect g \<noteq> []"
  shows "\<exists>out. transitive_closure env ser g = Some (Inr out) \<and>
    rdd_count out = Inr (int (card ((set (collect g))\<^sup>+))) \<and> set (collect out) = (set (collect g))\<^sup>+"
proof -
  obtain out where out: "tc_loop env (rdd_map (\<lambda>(x, y). (y, x)) g) ser g (int (length (collect g))) = Some (Inr out)"
      "distinct (collect out)" "set (collect out) = (set (collect g))\<^sup>+"
    using tc_loop_closure [OF assms(1) order.refl _ assms(2,3)] by (meson r_into_trancl' subsetI)
  have "collect out \<noteq> []" using out(3) assms(3) r_into_trancl'
    by (metis ex_in_conv set_empty surj_pair)
  from rdd_count_elements [OF this] have "rdd_count out = Inr (int (card ((set (collect g))\<^sup>+)))"
    using out(2,3) by (metis distinct_card)
  moreover have "transitive_closure env ser g = Some (Inr out)"
    using out(1) rdd_count_elements [OF assms(3)] by (simp add: transitive_closure_def Let_def del: rdd_map_map)
  ultimately show ?thesis using out(3) by blast
qed

section \<open>Properties\<close>

text \<open>
  The program \<open>wordcount.py\<close> prints every word of the lines once, with the number of its occurrences.
\<close>

theorem wordcount_counts_words:
  assumes "shuffle_ok env" and "0 < defaultParallelism env"
  shows "\<exists>output. wordcount env lines = Inr output \<and> distinct (map fst output) \<and>
    (\<forall>w n. (w, n) \<in> set output \<longleftrightarrow>
       0 < n \<and> n = int (count_list (concat (map (py_split CHR '' '') (collect lines))) w))"
proof -
  let ?words = "concat (map (py_split CHR '' '') (collect lines))"
  let ?pairs = "rdd_map (\<lambda>x. (x, 1)) (flatMap (\<lambda>x. py_split CHR '' '' x) lines)"
  have n: "num_partitions env None = defaultParallelism env" by (simp add: num_partitions_def)
  obtain out where out: "reduceByKey env (\<lambda>a b. a + b) None ?pairs = Inr out" "distinct (map fst (collect out))"
    and lookup: "\<forall>w. map_of (collect out) w =
       (case values_of w (collect ?pairs) of [] \<Rightarrow> None | v # vs \<Rightarrow> Some (foldl (\<lambda>a b. a + b) v vs))"
    using add_op.reduceByKey_lookup [OF assms(1) n assms(2), of ?pairs] by blast
  have "collect ?pairs = map (\<lambda>x. (x, 1)) ?words"
    unfolding collect_rdd_map collect_flatMap by simp
  from lookup [unfolded this] have "map_of (collect out) w =
      (if count_list ?words w = 0 then None else Some (int (count_list ?words w)))" for w
    by (simp only: values_of_ones sum_of_ones)
  then have "(w, n) \<in> set (collect out) \<longleftrightarrow> 0 < n \<and> n = int (count_list ?words w)" for w n
    unfolding map_of_eq_Some_iff [OF out(2), of w n, symmetric] by (simp split: if_split) auto
  then show ?thesis using out by (simp add: wordcount_def del: rdd_map_map flatMap_map)
qed

theorem wordcount_counts_words_witness:
  "\<exists>output. wordcount (ordered_env 2 (\<lambda>w. int (length w))) [[''a b a''], [''b '']] = Inr output \<and>
    distinct (map fst output) \<and>
    (\<forall>w n. (w, n) \<in> set output \<longleftrightarrow>
       0 < n \<and> n = int (count_list (concat (map (py_split CHR '' '') (collect [[''a b a''], [''b '']]))) w))"
  by (rule wordcount_counts_words [OF shuffle_ok_ordered_env]) (simp add: parallelism_ordered_env)

text \<open>
  C16: the loop of \<open>transitive_closure.py\<close> ends, and the number of paths it prints is that of the transitive closure of
  the graph, for any partitioning, shuffle and hash function.
\<close>

theorem transitive_closure_ends:
  assumes "tc_env_ok env" and "distinct (collect g)" and "collect g \<noteq> []"
  shows "\<exists>out. transitive_closure env ser g = Some (Inr out) \<and>
    rdd_count out = Inr (int (card ((set (collect g))\<^sup>+))) \<and> set (collect out) = (set (collect g))\<^sup>+"
  by (rule transitive_closure_returns [OF assms])

definition ordered_tc_env :: "int \<Rightarrow> int tc_env" where
  "ordered_tc_env n =
     \<lparr>join_shuffle = ordered_env n (\<lambda>k. k), join_union = append_union PickleSer, edge_union = append_union PickleSer,
      distinct_shuffle = ordered_env n (\<lambda>(a, b). a + b)\<rparr>"

theorem transitive_closure_ends_witness:
  "\<exists>out. transitive_closure (ordered_tc_env 2) PickleSer [[(1, 2)], [(2, 3), (3, 1)]] = Some (Inr out) \<and>
    rdd_count out = Inr (int (card ((set (collect [[(1, 2)], [(2, 3), (3, 1 :: int)]]))\<^sup>+))) \<and>
    set (collect out) = (set (collect [[(1, 2)], [(2, 3), (3, 1)]]))\<^sup>+"
  by (rule transitive_closure_ends)
    (simp_all add: tc_env_ok_def ordered_tc_env_def shuffle_ok_ordered_env union_ok_append_union num_partitions_def
      parallelism_ordered_env collect_def)

end
