(* ===== verification/PickleObjects.thy ===== *)
theory PickleObjects
  imports PickleSupport
begin

text \<open>
  The class \<open>CloudPickler\<close> of \<open>pyspark/cloudpickle.py\<close> on arbitrary objects: modules, classes,
  instances, bound methods, properties, partial applications, code and function objects, with
  \<open>save_reduce\<close> and the parts of \<open>pickle.Pickler\<close> (protocol 2) that it inherits. The operations it
  writes run on the stack of the unpickler. Which globals belong to a function is the subject of
  \<open>CloudPickle\<close>; images and time series, which call other libraries, are left out.
\<close>

section \<open>Objects\<close>

text \<open>
  \<open>At a\<close> is the object with identity \<open>a\<close>, found in the store; the other constructors are the objects
  themselves. An object that the pickler makes while it works has no address.
  \<^item> \<open>ClassObj\<close>: name, \<open>__module__\<close> (or what \<open>whichmodule\<close> finds), type, bases, dictionary, and what the
    attribute \<open>__new__\<close> gives.
  \<^item> \<open>InstObj\<close>: class, \<open>__getinitargs__()\<close>, \<open>__getstate__()\<close>, \<open>__dict__\<close> and \<open>__transient__\<close>.
  \<^item> \<open>ReduceObj\<close> and \<open>NewObj\<close>: what \<open>__reduce_ex__\<close> gives, for \<open>NewObj\<close> with the function \<open>__newobj__\<close>: its
    arguments, state, list items and dictionary items; then the class of the object and
    \<open>__transient__\<close>.
  \<^item> \<open>FunObj\<close>: name, module, file name of the code, code, base globals, globals it uses, defaults,
    closure and dictionary.
\<close>

datatype pyobj =
    is_At: At nat
  | NoneObj
  | IntObj int
  | StrObj string
  | is_TupleObj: TupleObj "pyobj list"
  | ListObj "pyobj list"
  | DictObj "(pyobj \<times> pyobj) list"
  | BuiltinsObj
  | BufferObj string
  | UnsupportedObj
  | ModuleObj string
  | CodeObj "pyobj list"
  | BuiltinFunObj string string
  | ClassObj string string pyobj pyobj "(string \<times> pyobj) list" pyobj
  | MethodObj pyobj pyobj pyobj
  | InstObj pyobj "pyobj list option" "pyobj option" pyobj "string list option"
  | PropertyObj pyobj pyobj pyobj pyobj
  | ItemGetterObj pyobj
  | XrangeObj xrange_obj
  | PartialObj pyobj pyobj pyobj
  | UfuncObj string
  | ReduceObj pyobj pyobj "pyobj option" "pyobj list option" "(pyobj \<times> pyobj) list option"
  | NewObj "pyobj list" "pyobj option" "pyobj list option" "(pyobj \<times> pyobj) list option" pyobj "string list option"
  | FunObj string string string pyobj nat "(string \<times> pyobj) list" pyobj "pyobj list" "(string \<times> pyobj) list"

type_synonym store = "nat \<Rightarrow> pyobj"

text \<open>The callables that the pickler refers to by itself.\<close>

datatype known_callable =
    Subimport | GetModuleBuiltins | CodeType | MethodType | PropertyType | ItemgetterType | BuildXrange
  | Genpartial | GetObject | FillFn | MakeSkelFn | ModsToMain | RestoreAttrFn | TypeType | ClassType

text \<open>
  What the pickler asks the interpreter: where those callables are, what can be imported and the
  names bound there, what is in \<open>sys.modules\<close>, whether a value has \<open>__call__\<close> or \<open>__new__\<close>, the registry of
  extension codes, and \<open>___pyc_forcedImports__\<close>.
\<close>

record py_env =
  callable_at :: "known_callable \<Rightarrow> nat"
  module_dict :: "string \<Rightarrow> (string \<Rightarrow> nat option) option"
  module_loaded :: "string \<Rightarrow> bool"
  has_call :: "pyobj \<Rightarrow> bool"
  has_new :: "pyobj \<Rightarrow> bool"
  extension_code :: "string \<Rightarrow> string \<Rightarrow> int option"
  forced :: "string list option"

section \<open>Operations and the pickler's state\<close>

datatype op =
    OMark | OPopMark | OPop nat | ONone | OInt int | OStr string | OGlobal string string | OExt int
  | OEmptyTuple | OTuple | OTupleN nat | OEmptyList | OAppend | OAppends | OEmptyDict | OSetItem | OSetItems
  | OReduce | ONewObj | OObj | OBuild | OPut nat | OGet nat

text \<open>
  The memo lists what was memoized, in order; an object without address can not be met again. The
  modules are those that the receiver will need.
\<close>

record pstate =
  ps_memo :: "nat option list"
  ps_modules :: "string list"
  ps_savedForceImports :: bool

type_synonym saver = "pstate \<Rightarrow> (op list \<times> pstate) res"

definition emit :: "op list \<Rightarrow> saver" where
  "emit ops = (\<lambda>st. Inr (ops, st))"

definition stop :: "py_error \<Rightarrow> saver" where
  "stop e = (\<lambda>st. Inl e)"

definition andThen :: "saver \<Rightarrow> saver \<Rightarrow> saver" where
  "andThen f g = (\<lambda>st. bind_res (f st) (\<lambda>(ops, st1). bind_res (g st1) (\<lambda>(ops', st2). Inr (ops @ ops', st2))))"

definition in_order :: "saver list \<Rightarrow> saver" where
  "in_order fs = foldr andThen fs (emit [])"

text \<open>\<open>Pickler.memoize\<close> and \<open>Pickler.get\<close>; an object may be memoized only once.\<close>

definition memo_pos :: "nat \<Rightarrow> pstate \<Rightarrow> nat" where
  "memo_pos a st = length (takeWhile (\<lambda>k. k \<noteq> Some a) (ps_memo st))"

definition in_memo :: "nat option \<Rightarrow> pstate \<Rightarrow> bool" where
  "in_memo key st \<longleftrightarrow> key \<noteq> None \<and> key \<in> set (ps_memo st)"

definition memoize :: "nat option \<Rightarrow> saver" where
  "memoize key = (\<lambda>st.
     if in_memo key st then Inl AssertionError
     else Inr ([OPut (length (ps_memo st))], st\<lparr>ps_memo := ps_memo st @ [key]\<rparr>))"

definition add_module :: "string \<Rightarrow> saver" where
  "add_module m = (\<lambda>st. Inr ([], st\<lparr>ps_modules := List.insert m (ps_modules st)\<rparr>))"

section \<open>What \<open>pickle.Pickler\<close> writes for containers\<close>

text \<open>\<open>save_tuple\<close>: while the elements were saved the tuple itself may have been memoized.\<close>

definition finish_tuple :: "nat option \<Rightarrow> op list \<Rightarrow> op list \<Rightarrow> saver" where
  "finish_tuple key undo build = (\<lambda>st.
     if in_memo key st then Inr (undo @ [OGet (memo_pos (the key) st)], st)
     else andThen (emit build) (memoize key) st)"

definition save_tuple :: "nat option \<Rightarrow> saver list \<Rightarrow> saver" where
  "save_tuple key fs =
     (if fs = [] then emit [OEmptyTuple]
      else if length fs \<le> 3 then
        andThen (in_order fs) (finish_tuple key [OPop (length fs)] [OTupleN (length fs)])
      else andThen (emit [OMark]) (andThen (in_order fs) (finish_tuple key [OPopMark] [OTuple])))"

definition BATCHSIZE :: nat where "BATCHSIZE = 1000"

text \<open>\<open>_batch_appends\<close> and \<open>_batch_setitems\<close>: the loop takes up to \<open>_BATCHSIZE\<close> items each time.\<close>

definition batch_of :: "op \<Rightarrow> op \<Rightarrow> saver list \<Rightarrow> saver" where
  "batch_of one many tmp =
     (if length tmp > 1 then andThen (emit [OMark]) (andThen (in_order tmp) (emit [many]))
      else if tmp \<noteq> [] then andThen (hd tmp) (emit [one])
      else emit [])"

function batches :: "op \<Rightarrow> op \<Rightarrow> saver list \<Rightarrow> saver" where
  "batches one many items =
     (if length items < BATCHSIZE then batch_of one many items
      else andThen (batch_of one many (take BATCHSIZE items)) (batches one many (drop BATCHSIZE items)))"
  by pat_completeness auto
termination by (relation "measure (\<lambda>(_, _, items). length items)") (auto simp: BATCHSIZE_def)

declare batches.simps [simp del]

definition save_list :: "nat option \<Rightarrow> saver list \<Rightarrow> saver" where
  "save_list key items = andThen (emit [OEmptyList]) (andThen (memoize key) (batches OAppend OAppends items))"

definition save_dict :: "nat option \<Rightarrow> (saver \<times> saver) list \<Rightarrow> saver" where
  "save_dict key items =
     andThen (emit [OEmptyDict])
       (andThen (memoize key) (batches OSetItem OSetItems (map (\<lambda>(k, v). andThen k v) items)))"

section \<open>\<open>save_reduce\<close>\<close>

text \<open>
  \<open>obj\<close> is None when the caller does not pass the object, otherwise its address, if it has one.
  \<open>call\<close> writes the call: the function with its arguments, or the class with the rest of them.
\<close>

definition save_reduce ::
  "saver \<Rightarrow> saver option \<Rightarrow> saver list option \<Rightarrow> (saver \<times> saver) list option \<Rightarrow> nat option option \<Rightarrow> saver" where
  "save_reduce call state listitems dictitems obj =
     andThen call
       (andThen (case obj of None \<Rightarrow> emit [] | Some key \<Rightarrow> memoize key)
         (andThen (case listitems of None \<Rightarrow> emit [] | Some xs \<Rightarrow> batches OAppend OAppends xs)
           (andThen (case dictitems of None \<Rightarrow> emit []
                     | Some kvs \<Rightarrow> batches OSetItem OSetItems (map (\<lambda>(k, v). andThen k v) kvs))
             (case state of None \<Rightarrow> emit [] | Some s \<Rightarrow> andThen s (emit [OBuild])))))"

definition reduce_call_ops :: "saver \<Rightarrow> saver \<Rightarrow> saver" where
  "reduce_call_ops func args = andThen func (andThen args (emit [OReduce]))"

text \<open>The call on a tuple of arguments that the pickler itself has made.\<close>

definition reduce_to :: "saver \<Rightarrow> saver list \<Rightarrow> nat option option \<Rightarrow> saver" where
  "reduce_to func args obj = save_reduce (reduce_call_ops func (save_tuple None args)) None None None obj"

definition contents :: "store \<Rightarrow> pyobj \<Rightarrow> pyobj" where
  "contents h x = (case x of At a \<Rightarrow> h a | _ \<Rightarrow> x)"

text \<open>Entries that \<open>__transient__\<close> names are removed from a copy of the dictionary.\<close>

definition key_in :: "store \<Rightarrow> string list \<Rightarrow> pyobj \<Rightarrow> bool" where
  "key_in h names k = (case contents h k of StrObj s \<Rightarrow> s \<in> set names | _ \<Rightarrow> False)"

definition drop_transient :: "store \<Rightarrow> string list \<Rightarrow> (pyobj \<times> pyobj) list \<Rightarrow> (pyobj \<times> pyobj) list" where
  "drop_transient h names kvs = filter (\<lambda>(k, v). \<not> key_in h names k) kvs"

text \<open>
  The state that is saved for an object with \<open>__transient__\<close>: \<open>state.copy()\<close> needs a dictionary.
\<close>

definition transient_state :: "store \<Rightarrow> string list option \<Rightarrow> pyobj option \<Rightarrow> pyobj option res" where
  "transient_state h transient state =
     (case transient of
        None \<Rightarrow> Inr state
      | Some names \<Rightarrow>
          (case map_option (contents h) state of
             Some (DictObj kvs) \<Rightarrow> Inr (Some (DictObj (drop_transient h names kvs)))
           | _ \<Rightarrow> Inl (PyException ''AttributeError'')))"

section \<open>Classes and builtin functions\<close>

text \<open>
  \<open>save_global\<close> up to the decision: the module under which a reference is written, or None when the
  class is taken apart. A name reported in \<open>__builtin__\<close> that is not bound there is looked for in the
  module \<open>new\<close>. The main module counts as no module, so nothing is found in it.
\<close>

definition bound_name :: "py_env \<Rightarrow> string \<Rightarrow> string \<Rightarrow> nat option" where
  "bound_name env m name =
     (if m = ''__main__'' then None
      else (case module_dict env m of None \<Rightarrow> None | Some d \<Rightarrow> d name))"

definition global_module :: "py_env \<Rightarrow> nat option \<Rightarrow> bool \<Rightarrow> string \<Rightarrow> string \<Rightarrow> string option res" where
  "global_module env key is_class modname name =
     (if module_dict env modname = None then Inl PicklingError
      else
        (case bound_name env modname name of
           Some klass \<Rightarrow> Inr (if Some klass \<noteq> key \<and> is_class then None else Some modname)
         | None \<Rightarrow>
             if modname = ''__builtin__'' then
               (if module_dict env ''new'' = None then
                  (if is_class then Inr None else Inl (PyException ''ImportError''))
                else
                  (case bound_name env ''new'' name of
                     Some klass \<Rightarrow> Inr (if Some klass \<noteq> key \<and> is_class then None else Some ''new'')
                   | None \<Rightarrow> Inl PicklingError))
             else if is_class then Inr None
             else Inl (PyException ''AttributeError'')))"

definition save_reference :: "py_env \<Rightarrow> nat option \<Rightarrow> string \<Rightarrow> string \<Rightarrow> saver" where
  "save_reference env key modname name =
     (case extension_code env modname name of
        Some code \<Rightarrow>
          if code = 0 then andThen (emit [OGlobal modname name]) (memoize key)
          else if code < 0 then stop AssertionError
          else if code \<ge> 2 ^ 31 then stop StructError
          else emit [OExt code]
      | None \<Rightarrow> andThen (emit [OGlobal modname name]) (memoize key))"

text \<open>The copy of a class dictionary without what the new class will get by itself.\<close>

definition class_dict :: "store \<Rightarrow> (string \<times> pyobj) list \<Rightarrow> pyobj \<Rightarrow> (string \<times> pyobj) list" where
  "class_dict h d new_attr =
     map (\<lambda>(k, v). if k = ''__new__'' then (k, new_attr) else (k, v))
       (filter (\<lambda>(k, v). k \<noteq> ''__weakref__'' \<and>
          (k = ''__dict__'' \<longrightarrow> (case contents h v of PropertyObj _ _ _ _ \<Rightarrow> True | _ \<Rightarrow> False))) d)"

definition main_module :: "py_env \<Rightarrow> string \<Rightarrow> saver" where
  "main_module env m = (if m = ''__main__'' then emit [] else add_module m)"

section \<open>Functions\<close>

definition fun_module :: "py_env \<Rightarrow> string \<Rightarrow> string option" where
  "fun_module env m = (if m = ''__main__'' \<or> \<not> module_loaded env m then None else Some m)"

definition fun_by_reference :: "py_env \<Rightarrow> nat option \<Rightarrow> string \<Rightarrow> string \<Rightarrow> string \<Rightarrow> bool" where
  "fun_by_reference env key name m filename \<longleftrightarrow>
     name \<noteq> ''<lambda>'' \<and> filename \<noteq> ''<stdin>'' \<and> fun_module env m \<noteq> None \<and>
     key \<noteq> None \<and> bound_name env m name = key"

text \<open>The modules that a copied function is preceded by; those of the main module only once.\<close>

definition imports_for :: "py_env \<Rightarrow> string \<Rightarrow> string \<Rightarrow> string \<Rightarrow> bool \<Rightarrow> string list \<times> bool" where
  "imports_for env name m filename saved =
     (if name = ''<lambda>'' \<or> filename = ''<stdin>'' \<or> fun_module env m = None then
        (if fun_module env m = None \<and> \<not> saved then ((case forced env of None \<Rightarrow> [] | Some ms \<Rightarrow> ms), True)
         else ([], saved))
      else ([m], saved))"

definition save_imports :: "saver \<Rightarrow> (string \<Rightarrow> saver) \<Rightarrow> string list \<Rightarrow> saver" where
  "save_imports mods_to_main save_name mods =
     (if mods = [] then emit []
      else in_order [emit [OMark], mods_to_main, save_tuple None [save_list None (map save_name mods)],
             emit [OReduce], emit [OPopMark]])"

definition with_imports :: "(string list \<Rightarrow> saver) \<Rightarrow> (bool \<Rightarrow> string list \<times> bool) \<Rightarrow> saver" where
  "with_imports f choice = (\<lambda>st.
     case choice (ps_savedForceImports st) of (mods, saved) \<Rightarrow> f mods (st\<lparr>ps_savedForceImports := saved\<rparr>))"

definition save_str :: "nat option \<Rightarrow> string \<Rightarrow> saver" where
  "save_str key s = andThen (emit [OStr s]) (memoize key)"

text \<open>
  A reference, with the attributes of the function if it has any; and the copy of
  \<open>save_function_tuple\<close>: a skeleton that is memoized, and the call that fills it.
\<close>

definition function_reference :: "saver \<Rightarrow> nat option \<Rightarrow> string \<Rightarrow> string \<Rightarrow> bool \<Rightarrow> saver \<Rightarrow> saver" where
  "function_reference restore_attr key m name no_attrs attrs =
     (if no_attrs then andThen (emit [OGlobal m name]) (memoize key)
      else in_order [restore_attr, andThen (emit [OMark, OGlobal m name]) (memoize key), attrs, emit [OTuple, OReduce]])"

definition function_copy ::
  "saver \<Rightarrow> saver \<Rightarrow> saver \<Rightarrow> nat option \<Rightarrow> saver \<Rightarrow> saver \<Rightarrow> saver \<Rightarrow> saver \<Rightarrow> saver" where
  "function_copy imps fill skel key gs defaults closure attrs =
     in_order [imps, fill, emit [OMark], skel, memoize key, gs, defaults, closure, attrs, emit [OTuple, OReduce]]"

section \<open>\<open>save\<close>\<close>

text \<open>An object in the memo is written as a reference to it.\<close>

definition unless_memoized :: "nat \<Rightarrow> saver \<Rightarrow> saver" where
  "unless_memoized a f = (\<lambda>st. if in_memo (Some a) st then Inr ([OGet (memo_pos a st)], st) else f st)"

definition ufunc_module :: "py_env \<Rightarrow> string \<Rightarrow> string option" where
  "ufunc_module env name =
     find (\<lambda>m. module_loaded env m \<and> (case module_dict env m of None \<Rightarrow> False | Some d \<Rightarrow> d name \<noteq> None))
       [''numpy'', ''scipy.special'']"

text \<open>The methods of the dispatch table, over the savers of the parts of the object.\<close>

definition save_builtins :: "saver \<Rightarrow> nat option \<Rightarrow> saver" where
  "save_builtins get_module_builtins key = reduce_to get_module_builtins [] (Some key)"

definition save_buffer :: "string \<Rightarrow> saver" where
  "save_buffer s = save_str None s"

definition save_module :: "saver \<Rightarrow> string \<Rightarrow> nat option \<Rightarrow> saver" where
  "save_module subimport name key = andThen (add_module name) (reduce_to subimport [save_str None name] (Some key))"

definition save_codeobject :: "saver \<Rightarrow> saver list \<Rightarrow> nat option \<Rightarrow> saver" where
  "save_codeobject code_type args key = reduce_to code_type args (Some key)"

definition save_class :: "saver \<Rightarrow> string \<Rightarrow> saver \<Rightarrow> (saver \<times> saver) list \<Rightarrow> nat option \<Rightarrow> saver" where
  "save_class class_type name bases d key =
     reduce_to class_type [save_str None name, bases, save_dict None d] (Some key)"

definition save_instancemethod :: "saver \<Rightarrow> saver \<Rightarrow> saver \<Rightarrow> saver \<Rightarrow> nat option \<Rightarrow> saver" where
  "save_instancemethod method_type im_func im_self im_class key = reduce_to method_type [im_func, im_self, im_class] (Some key)"

definition save_inst_logic :: "saver \<Rightarrow> saver list \<Rightarrow> saver \<Rightarrow> nat option \<Rightarrow> saver" where
  "save_inst_logic cls args stuff key =
     andThen (emit [OMark])
       (andThen cls
         (andThen (in_order args)
           (andThen (emit [OObj]) (andThen (memoize key) (andThen stuff (emit [OBuild]))))))"

definition save_property :: "saver \<Rightarrow> saver \<Rightarrow> saver \<Rightarrow> saver \<Rightarrow> saver \<Rightarrow> nat option \<Rightarrow> saver" where
  "save_property property_type fget fset fdel doc key = reduce_to property_type [fget, fset, fdel, doc] (Some key)"

definition save_itemgetter :: "saver \<Rightarrow> saver \<Rightarrow> saver" where
  "save_itemgetter itemgetter item = reduce_to itemgetter [item] None"

definition save_xrange :: "saver \<Rightarrow> xrange_obj \<Rightarrow> saver" where
  "save_xrange builder r =
     (case xrange_params r of (start, step, len) \<Rightarrow>
        reduce_to builder [emit [OInt start], emit [OInt step], emit [OInt len]] None)"

definition save_partial :: "saver \<Rightarrow> saver \<Rightarrow> saver \<Rightarrow> saver \<Rightarrow> saver" where
  "save_partial genpartial func args keywords = reduce_to genpartial [func, args, keywords] None"

definition save_ufunc :: "py_env \<Rightarrow> saver \<Rightarrow> string \<Rightarrow> saver" where
  "save_ufunc env getobject name =
     (case ufunc_module env name of
        None \<Rightarrow> stop PicklingError
      | Some m \<Rightarrow> reduce_to getobject [save_str None m, save_str None name] None)"

text \<open>The weight decides the recursion between objects that have no address of their own.\<close>

primrec weight :: "pyobj \<Rightarrow> nat" where
  "weight (At a) = 0"
| "weight NoneObj = 1"
| "weight (IntObj i) = 1"
| "weight (StrObj s) = 1"
| "weight (TupleObj xs) = 1 + sum_list (map weight xs)"
| "weight (ListObj xs) = 1 + sum_list (map weight xs)"
| "weight (DictObj kvs) = 1 + sum_list (map (\<lambda>(a, b). a + b) (map (map_prod weight weight) kvs))"
| "weight BuiltinsObj = 1"
| "weight (BufferObj s) = 1"
| "weight UnsupportedObj = 1"
| "weight (ModuleObj m) = 1"
| "weight (CodeObj xs) = 1 + sum_list (map weight xs)"
| "weight (BuiltinFunObj m name) = 1"
| "weight (ClassObj name m typ bases d new) =
     1 + weight typ + weight bases + sum_list (map snd (map (map_prod id weight) d)) + weight new"
| "weight (MethodObj f s c) = 1 + weight f + weight s + weight c"
| "weight (InstObj c args getstate d transient) =
     1 + weight c + (case map_option (map weight) args of None \<Rightarrow> 0 | Some ws \<Rightarrow> sum_list ws) +
     (case map_option weight getstate of None \<Rightarrow> 0 | Some w \<Rightarrow> w) + weight d"
| "weight (PropertyObj a b c d) = 1 + weight a + weight b + weight c + weight d"
| "weight (ItemGetterObj x) = 1 + weight x"
| "weight (XrangeObj x) = 1"
| "weight (PartialObj f a k) = 1 + weight f + weight a + weight k"
| "weight (UfuncObj name) = 1"
| "weight (ReduceObj func args state li di) =
     1 + weight func + weight args + (case map_option weight state of None \<Rightarrow> 0 | Some w \<Rightarrow> w) +
     (case map_option (map weight) li of None \<Rightarrow> 0 | Some ws \<Rightarrow> sum_list ws) +
     (case map_option (map (map_prod weight weight)) di of None \<Rightarrow> 0 | Some ws \<Rightarrow> sum_list (map (\<lambda>(a, b). a + b) ws))"
| "weight (NewObj args state li di c transient) =
     1 + sum_list (map weight args) + (case map_option weight state of None \<Rightarrow> 0 | Some w \<Rightarrow> w) +
     (case map_option (map weight) li of None \<Rightarrow> 0 | Some ws \<Rightarrow> sum_list ws) +
     (case map_option (map (map_prod weight weight)) di of None \<Rightarrow> 0 | Some ws \<Rightarrow> sum_list (map (\<lambda>(a, b). a + b) ws)) +
     weight c"
| "weight (FunObj name m file code base gs defaults closure d) =
     1 + weight code + sum_list (map snd (map (map_prod id weight) gs)) + weight defaults +
     sum_list (map weight closure) + sum_list (map snd (map (map_prod id weight) d))"

lemma weight_elem: "x \<in> set xs \<Longrightarrow> weight x \<le> sum_list (map weight xs)"
  by (induction xs) auto

lemma weight_pair:
  "kv \<in> set kvs \<Longrightarrow> weight (fst kv) + weight (snd kv) \<le> sum_list (map ((\<lambda>(a, b). a + b) \<circ> map_prod weight weight) kvs)"
  by (induction kvs) auto

lemma weight_value: "kv \<in> set d \<Longrightarrow> weight (snd kv) \<le> sum_list (map (snd \<circ> map_prod id weight) d)"
  by (induction d) auto

lemma weight_class_dict:
  "kv \<in> set (class_dict h d new) \<Longrightarrow> weight (snd kv) \<le> sum_list (map (snd \<circ> map_prod id weight) d) + weight new"
  using weight_value by (fastforce simp: class_dict_def split: if_splits)

function save_obj :: "py_env \<Rightarrow> store \<Rightarrow> nat \<Rightarrow> nat option \<Rightarrow> pyobj \<Rightarrow> saver" where
  "save_obj env h n key (At a) =
     unless_memoized a
       (case n of
          0 \<Rightarrow> stop RuntimeError
        | Suc n' \<Rightarrow> if is_At (h a) then stop TypeError else save_obj env h n' (Some a) (h a))"
| "save_obj env h n key NoneObj = emit [ONone]"
| "save_obj env h n key (IntObj i) = emit [OInt i]"
| "save_obj env h n key (StrObj s) = save_str key s"
| "save_obj env h n key (TupleObj xs) = save_tuple key (map (save_obj env h n None) xs)"
| "save_obj env h n key (ListObj xs) = save_list key (map (save_obj env h n None) xs)"
| "save_obj env h n key (DictObj kvs) =
     save_dict key (map (\<lambda>kv. (save_obj env h n None (fst kv), save_obj env h n None (snd kv))) kvs)"
| "save_obj env h n key BuiltinsObj =
     save_builtins (save_obj env h n None (At (callable_at env GetModuleBuiltins))) key"
| "save_obj env h n key (BufferObj s) = save_buffer s"
| "save_obj env h n key UnsupportedObj = stop PicklingError"
| "save_obj env h n key (ModuleObj name) =
     save_module (save_obj env h n None (At (callable_at env Subimport))) name key"
| "save_obj env h n key (CodeObj xs) =
     save_codeobject (save_obj env h n None (At (callable_at env CodeType))) (map (save_obj env h n None) xs) key"
| "save_obj env h n key (BuiltinFunObj m name) =
     (case global_module env key False m name of
        Inr (Some m') \<Rightarrow> andThen (main_module env m) (save_reference env key m' name)
      | Inr None \<Rightarrow> stop TypeError
      | Inl e \<Rightarrow> stop e)"
| "save_obj env h n key (ClassObj name m typ bases d new) =
     (let is_class = typ = At (callable_at env TypeType) \<or> typ = At (callable_at env ClassType) in
      case global_module env key is_class m name of
        Inr (Some m') \<Rightarrow> andThen (main_module env m) (save_reference env key m' name)
      | Inr None \<Rightarrow>
          andThen (main_module env m)
            (save_class (save_obj env h n None typ) name (save_obj env h n None bases)
              (map (\<lambda>kv. (save_str None (fst kv), save_obj env h n None (snd kv))) (class_dict h d new)) key)
      | Inl e \<Rightarrow> stop e)"
| "save_obj env h n key (MethodObj f s c) =
     save_instancemethod (save_obj env h n None (At (callable_at env MethodType)))
       (save_obj env h n None f) (save_obj env h n None s) (save_obj env h n None c) key"
| "save_obj env h n key (InstObj c args getstate d transient) =
     (let state = (case getstate of
          Some stuff \<Rightarrow> save_obj env h n None stuff
        | None \<Rightarrow>
            (case transient of
               None \<Rightarrow> save_obj env h n None d
             | Some names \<Rightarrow>
                 (case transient_state h transient (Some d) of
                    Inr (Some stuff) \<Rightarrow> (case n of 0 \<Rightarrow> stop RuntimeError | Suc n' \<Rightarrow> save_obj env h n' None stuff)
                  | Inr None \<Rightarrow> stop TypeError
                  | Inl e \<Rightarrow> stop e)))
      in save_inst_logic (save_obj env h n None c)
           (case args of None \<Rightarrow> [] | Some xs \<Rightarrow> map (save_obj env h n None) xs) state key)"
| "save_obj env h n key (PropertyObj fget fset fdel doc) =
     save_property (save_obj env h n None (At (callable_at env PropertyType)))
       (save_obj env h n None fget) (save_obj env h n None fset) (save_obj env h n None fdel) (save_obj env h n None doc) key"
| "save_obj env h n key (ItemGetterObj x) =
     save_itemgetter (save_obj env h n None (At (callable_at env ItemgetterType))) (save_obj env h n None x)"
| "save_obj env h n key (XrangeObj x) =
     save_xrange (save_obj env h n None (At (callable_at env BuildXrange))) x"
| "save_obj env h n key (PartialObj f a k) =
     save_partial (save_obj env h n None (At (callable_at env Genpartial)))
       (save_obj env h n None f) (save_obj env h n None a) (save_obj env h n None k)"
| "save_obj env h n key (UfuncObj name) =
     save_ufunc env (save_obj env h n None (At (callable_at env GetObject))) name"
| "save_obj env h n key (ReduceObj func args state li di) =
     (if \<not> is_TupleObj (contents h args) then stop PicklingError
      else if \<not> has_call env func then stop PicklingError
      else save_reduce (reduce_call_ops (save_obj env h n None func) (save_obj env h n None args))
        (map_option (save_obj env h n None) state)
        (map_option (map (save_obj env h n None)) li)
        (map_option (map (\<lambda>kv. (save_obj env h n None (fst kv), save_obj env h n None (snd kv)))) di)
        (Some key))"
| "save_obj env h n key (NewObj args state li di c transient) =
     (case args of
        [] \<Rightarrow> stop IndexError
      | cls # rest \<Rightarrow>
          if \<not> has_new env cls then stop PicklingError
          else if cls \<noteq> c then stop PicklingError
          else
            (case transient_state h transient state of
               Inl e \<Rightarrow> stop e
             | Inr state' \<Rightarrow>
                 save_reduce
                   (andThen (save_obj env h n None cls)
                     (andThen (save_tuple None (map (save_obj env h n None) rest)) (emit [ONewObj])))
                   (if transient = None then map_option (save_obj env h n None) state
                    else map_option (\<lambda>stuff. case n of 0 \<Rightarrow> stop RuntimeError | Suc n' \<Rightarrow> save_obj env h n' None stuff) state')
                   (map_option (map (save_obj env h n None)) li)
                   (map_option (map (\<lambda>kv. (save_obj env h n None (fst kv), save_obj env h n None (snd kv)))) di)
                   (Some key)))"
| "save_obj env h n key (FunObj name m file code base gs defaults closure d) =
     (let attrs = save_dict None (map (\<lambda>kv. (save_str None (fst kv), save_obj env h n None (snd kv))) d) in
      andThen (case fun_module env m of None \<Rightarrow> emit [] | Some m' \<Rightarrow> add_module m')
        (if fun_by_reference env key name m file then
           function_reference (save_obj env h n None (At (callable_at env RestoreAttrFn))) key m name (d = []) attrs
         else
           with_imports
             (\<lambda>mods. function_copy
               (save_imports (save_obj env h n None (At (callable_at env ModsToMain))) (save_str None) mods)
               (save_obj env h n None (At (callable_at env FillFn)))
               (reduce_call_ops (save_obj env h n None (At (callable_at env MakeSkelFn)))
                 (save_tuple None [save_obj env h n None code, emit [OInt (int (length closure))],
                   save_obj env h n None (At base)]))
               key
               (save_dict None (map (\<lambda>kv. (save_str None (fst kv), save_obj env h n None (snd kv))) gs))
               (save_obj env h n None defaults)
               (save_list None (map (save_obj env h n None) closure))
               attrs)
             (imports_for env name m file)))"
  by pat_completeness auto
termination
proof (relation "inv_image (less_than <*lex*> less_than) (\<lambda>(env, h, n, key, x). (n, weight x))")
qed (auto dest: weight_elem weight_pair weight_value weight_class_dict)

declare save_obj.simps [simp del]

text \<open>The equations for objects without an address.\<close>

lemmas save_methods = save_builtins_def save_buffer_def save_module_def save_codeobject_def save_class_def
  save_instancemethod_def save_inst_logic_def save_property_def save_itemgetter_def save_xrange_def save_partial_def
  save_ufunc_def

lemmas save_inside = save_obj.simps(2-24) [unfolded save_methods]

text \<open>\<open>dumps\<close>: a new pickler, with an empty memo.\<close>

definition new_pstate :: pstate where
  "new_pstate = \<lparr>ps_memo = [], ps_modules = [], ps_savedForceImports = False\<rparr>"

definition cloud_dumps :: "py_env \<Rightarrow> store \<Rightarrow> nat \<Rightarrow> pyobj \<Rightarrow> op list res" where
  "cloud_dumps env h n x = map_res fst (save_obj env h n None x new_pstate)"

end
