(* ===== verification/Unpickler.thy ===== *)
theory Unpickler
  imports PickleObjects
begin

text \<open>
  The unpickler of the receiving process, and the type of what \<open>CloudPickler\<close> writes: the operations
  of every object that is saved run without an error of the stack and leave one value.
\<close>

section \<open>The machine\<close>

text \<open>
  Values are immutable, or numbers of the objects made so far; the log keeps how they were made
  and changed. A missing item of the stack is a mark. The callables are assumed to return.
\<close>

datatype uvalue = UNone | UInt int | UStr string | UGlobal string string | UExt int | UTuple "uvalue list" | UNew nat

datatype object_event =
    MadeList | MadeDict | Called uvalue "uvalue list" | MadeNew uvalue "uvalue list" | MadeInst uvalue "uvalue list"
  | Appended uvalue "uvalue list" | Updated uvalue "(uvalue \<times> uvalue) list" | Built uvalue uvalue

record machine =
  mc_stack :: "uvalue option list"
  mc_memo :: "nat \<Rightarrow> uvalue option"
  mc_made :: nat
  mc_log :: "object_event list"

fun to_mark :: "uvalue option list \<Rightarrow> uvalue list \<Rightarrow> (uvalue list \<times> uvalue option list) res" where
  "to_mark [] acc = Inl IndexError"
| "to_mark (None # s) acc = Inr (acc, s)"
| "to_mark (Some v # s) acc = to_mark s (v # acc)"

fun pair_up :: "uvalue list \<Rightarrow> (uvalue \<times> uvalue) list res" where
  "pair_up [] = Inr []"
| "pair_up [k] = Inl IndexError"
| "pair_up (k # v # rest) = map_res (\<lambda>kvs. (k, v) # kvs) (pair_up rest)"

fun pop_values :: "nat \<Rightarrow> uvalue option list \<Rightarrow> (uvalue list \<times> uvalue option list) res" where
  "pop_values 0 s = Inr ([], s)"
| "pop_values (Suc n) (Some v # s) = map_res (\<lambda>(vs, s'). (vs @ [v], s')) (pop_values n s)"
| "pop_values (Suc n) s = Inl IndexError"

definition push :: "uvalue \<Rightarrow> uvalue option list \<Rightarrow> machine \<Rightarrow> machine" where
  "push v s u = u\<lparr>mc_stack := Some v # s\<rparr>"

definition make_object :: "object_event \<Rightarrow> uvalue option list \<Rightarrow> machine \<Rightarrow> machine" where
  "make_object e s u =
     u\<lparr>mc_stack := Some (UNew (mc_made u)) # s, mc_made := Suc (mc_made u), mc_log := mc_log u @ [e]\<rparr>"

definition log_event :: "object_event \<Rightarrow> uvalue option list \<Rightarrow> machine \<Rightarrow> machine" where
  "log_event e s u = u\<lparr>mc_stack := s, mc_log := mc_log u @ [e]\<rparr>"

text \<open>The target of an update is what is left on the stack below the items.\<close>

fun target :: "uvalue option list \<Rightarrow> uvalue res" where
  "target (Some (UNew i) # s) = Inr (UNew i)"
| "target (Some v # s) = Inl (PyException ''AttributeError'')"
| "target s = Inl IndexError"

fun load_op :: "op \<Rightarrow> machine \<Rightarrow> machine res" where
  "load_op OMark u = Inr (u\<lparr>mc_stack := None # mc_stack u\<rparr>)"
| "load_op OPopMark u = map_res (\<lambda>(vs, s). u\<lparr>mc_stack := s\<rparr>) (to_mark (mc_stack u) [])"
| "load_op (OPop n) u = map_res (\<lambda>(vs, s). u\<lparr>mc_stack := s\<rparr>) (pop_values n (mc_stack u))"
| "load_op ONone u = Inr (push UNone (mc_stack u) u)"
| "load_op (OInt i) u = Inr (push (UInt i) (mc_stack u) u)"
| "load_op (OStr t) u = Inr (push (UStr t) (mc_stack u) u)"
| "load_op (OGlobal m name) u = Inr (push (UGlobal m name) (mc_stack u) u)"
| "load_op (OExt code) u = Inr (push (UExt code) (mc_stack u) u)"
| "load_op OEmptyTuple u = Inr (push (UTuple []) (mc_stack u) u)"
| "load_op OTuple u = map_res (\<lambda>(vs, s). push (UTuple vs) s u) (to_mark (mc_stack u) [])"
| "load_op (OTupleN n) u = map_res (\<lambda>(vs, s). push (UTuple vs) s u) (pop_values n (mc_stack u))"
| "load_op OEmptyList u = Inr (make_object MadeList (mc_stack u) u)"
| "load_op OEmptyDict u = Inr (make_object MadeDict (mc_stack u) u)"
| "load_op OAppend u =
     bind_res (pop_values 1 (mc_stack u)) (\<lambda>(vs, s).
     map_res (\<lambda>t. log_event (Appended t vs) s u) (target s))"
| "load_op OAppends u =
     bind_res (to_mark (mc_stack u) []) (\<lambda>(vs, s).
     map_res (\<lambda>t. log_event (Appended t vs) s u) (target s))"
| "load_op OSetItem u =
     bind_res (pop_values 2 (mc_stack u)) (\<lambda>(vs, s).
     bind_res (target s) (\<lambda>t. map_res (\<lambda>kvs. log_event (Updated t kvs) s u) (pair_up vs)))"
| "load_op OSetItems u =
     bind_res (to_mark (mc_stack u) []) (\<lambda>(vs, s).
     bind_res (target s) (\<lambda>t. map_res (\<lambda>kvs. log_event (Updated t kvs) s u) (pair_up vs)))"
| "load_op OReduce u =
     (case mc_stack u of
        Some (UTuple args) # Some func # s \<Rightarrow> Inr (make_object (Called func args) s u)
      | _ \<Rightarrow> Inl TypeError)"
| "load_op ONewObj u =
     (case mc_stack u of
        Some (UTuple args) # Some cls # s \<Rightarrow> Inr (make_object (MadeNew cls args) s u)
      | _ \<Rightarrow> Inl TypeError)"
| "load_op OObj u =
     bind_res (to_mark (mc_stack u) []) (\<lambda>(vs, s).
       case vs of [] \<Rightarrow> Inl IndexError | cls # args \<Rightarrow> Inr (make_object (MadeInst cls args) s u))"
| "load_op OBuild u =
     bind_res (pop_values 1 (mc_stack u)) (\<lambda>(vs, s).
     map_res (\<lambda>t. log_event (Built t (hd vs)) s u) (target s))"
| "load_op (OPut i) u =
     (case mc_stack u of Some v # s \<Rightarrow> Inr (u\<lparr>mc_memo := (mc_memo u)(i \<mapsto> v)\<rparr>) | _ \<Rightarrow> Inl IndexError)"
| "load_op (OGet i) u =
     (case mc_memo u i of Some v \<Rightarrow> Inr (push v (mc_stack u) u) | None \<Rightarrow> Inl KeyError)"

fun load_ops :: "op list \<Rightarrow> machine \<Rightarrow> machine res" where
  "load_ops [] u = Inr u"
| "load_ops (op # ops) u = bind_res (load_op op u) (load_ops ops)"

definition new_machine :: machine where
  "new_machine = \<lparr>mc_stack = [], mc_memo = Map.empty, mc_made = 0, mc_log = []\<rparr>"

lemma load_ops_append: "load_ops (xs @ ys) u = bind_res (load_ops xs u) (load_ops ys)"
proof (induction xs arbitrary: u)
  case (Cons x xs)
  then show ?case by (cases "load_op x u") simp_all
qed simp

lemma to_mark_values: "to_mark (map Some vs @ None # s) acc = Inr (rev vs @ acc, s)"
  by (induction vs arbitrary: acc) simp_all

lemma pop_values_map: "length vs = n \<Longrightarrow> pop_values n (map Some vs @ s) = Inr (rev vs, s)"
  by (induction vs arbitrary: n) auto

lemma pair_up_append:
  "pair_up xs = Inr kvs \<Longrightarrow> pair_up ys = Inr kvs' \<Longrightarrow> pair_up (xs @ ys) = Inr (kvs @ kvs')"
  by (induction xs arbitrary: kvs rule: pair_up.induct) auto

section \<open>Types of savers\<close>

text \<open>
  The memo of the machine holds a value for every object that the pickler has memoized, and for a
  tuple it holds a tuple.
\<close>

definition fits :: "pyobj \<Rightarrow> uvalue \<Rightarrow> bool" where
  "fits x v \<longleftrightarrow> (is_TupleObj x \<longrightarrow> (\<exists>vs. v = UTuple vs))"

definition memo_ok :: "store \<Rightarrow> nat option list \<Rightarrow> (nat \<Rightarrow> uvalue option) \<Rightarrow> bool" where
  "memo_ok h m M \<longleftrightarrow> (\<forall>i < length m. \<forall>a. m ! i = Some a \<longrightarrow> (\<exists>v. M i = Some v \<and> fits (h a) v))"

text \<open>
  \<open>effect h P f Q\<close>: when vals with \<open>P\<close> are on top of any stack, topmost first, the operations of
  \<open>f\<close> run and replace them by vals with \<open>Q\<close>.
\<close>

definition effect ::
  "store \<Rightarrow> (uvalue option list \<Rightarrow> bool) \<Rightarrow> saver \<Rightarrow> (uvalue option list \<Rightarrow> bool) \<Rightarrow> bool" where
  "effect h P f Q \<longleftrightarrow>
     (\<forall>st ops st' (u :: machine) us S. f st = Inr (ops, st') \<longrightarrow> memo_ok h (ps_memo st) (mc_memo u) \<longrightarrow>
        mc_stack u = us @ S \<longrightarrow> P us \<longrightarrow>
        (\<exists>u' vs. load_ops ops u = Inr u' \<and> memo_ok h (ps_memo st') (mc_memo u') \<and> mc_stack u' = vs @ S \<and> Q vs))"

lemma effectI:
  assumes "\<And>st ops st' (u :: machine) us S. f st = Inr (ops, st') \<Longrightarrow> memo_ok h (ps_memo st) (mc_memo u) \<Longrightarrow>
      mc_stack u = us @ S \<Longrightarrow> P us \<Longrightarrow>
      \<exists>u' vs. load_ops ops u = Inr u' \<and> memo_ok h (ps_memo st') (mc_memo u') \<and> mc_stack u' = vs @ S \<and> Q vs"
  shows "effect h P f Q"
  using assms unfolding effect_def by blast

lemma effect_andThen:
  assumes "effect h P f Q" and "effect h Q g R"
  shows "effect h P (andThen f g) R"
proof (rule effectI)
  fix st ops st' us S and u :: machine
  assume run: "andThen f g st = Inr (ops, st')" and m: "memo_ok h (ps_memo st) (mc_memo u)"
    and s: "mc_stack u = us @ S" "P us"
  obtain o1 st1 o2 where f: "f st = Inr (o1, st1)" and g: "g st1 = Inr (o2, st')" and ops: "ops = o1 @ o2"
    using run by (auto simp: andThen_def bind_res_Inr_iff)
  obtain u1 vs where 1: "load_ops o1 u = Inr u1" "memo_ok h (ps_memo st1) (mc_memo u1)" "mc_stack u1 = vs @ S" "Q vs"
    using assms(1) f m s unfolding effect_def by blast
  obtain u2 ws where "load_ops o2 u1 = Inr u2" "memo_ok h (ps_memo st') (mc_memo u2)" "mc_stack u2 = ws @ S" "R ws"
    using assms(2) g 1(2-4) unfolding effect_def by blast
  then show "\<exists>u' vs. load_ops ops u = Inr u' \<and> memo_ok h (ps_memo st') (mc_memo u') \<and> mc_stack u' = vs @ S \<and> R vs"
    using 1(1) by (auto simp: ops load_ops_append)
qed

lemma effect_weaken: "effect h P f Q \<Longrightarrow> (\<And>us. P' us \<Longrightarrow> P us) \<Longrightarrow> (\<And>vs. Q vs \<Longrightarrow> Q' vs) \<Longrightarrow> effect h P' f Q'"
  unfolding effect_def by blast

text \<open>What is below stays.\<close>

lemma effect_below:
  assumes "effect h P f Q"
  shows "effect h (\<lambda>us. \<exists>xs ys. us = xs @ ys \<and> P xs \<and> F ys) f (\<lambda>us. \<exists>xs ys. us = xs @ ys \<and> Q xs \<and> F ys)"
proof (rule effectI)
  fix st ops st' us S and u :: machine
  assume run: "f st = Inr (ops, st')" and m: "memo_ok h (ps_memo st) (mc_memo u)" and s: "mc_stack u = us @ S"
    and "\<exists>xs ys. us = xs @ ys \<and> P xs \<and> F ys"
  then obtain xs ys where us: "us = xs @ ys" "P xs" "F ys" by blast
  have "mc_stack u = xs @ (ys @ S)" using s us(1) by simp
  then obtain u' vs where "load_ops ops u = Inr u'" "memo_ok h (ps_memo st') (mc_memo u')" "mc_stack u' = vs @ ys @ S" "Q vs"
    using assms run m us(2) unfolding effect_def by blast
  then show "\<exists>u' vs. load_ops ops u = Inr u' \<and> memo_ok h (ps_memo st') (mc_memo u') \<and> mc_stack u' = vs @ S \<and>
      (\<exists>xs ys. vs = xs @ ys \<and> Q xs \<and> F ys)"
    using us(3) by (intro exI [of _ u'] exI [of _ "vs @ ys"]) auto
qed

lemma effect_stop [intro!]: "effect h P (stop e) Q"
  by (simp add: effect_def stop_def)

lemma effect_add_module: "effect h P (add_module m) P"
  by (simp add: effect_def add_module_def)

lemma effect_emit:
  "(\<And>(u :: machine) us S. mc_stack u = us @ S \<Longrightarrow> P us \<Longrightarrow>
      \<exists>u' vs. load_ops ops u = Inr u' \<and> mc_memo u' = mc_memo u \<and> mc_stack u' = vs @ S \<and> Q vs) \<Longrightarrow>
   effect h P (emit ops) Q"
  unfolding effect_def emit_def by simp metis


text \<open>What is on top of the stack.\<close>

definition none :: "uvalue option list \<Rightarrow> bool" where
  "none us \<longleftrightarrow> us = []"

definition vals :: "nat \<Rightarrow> uvalue option list \<Rightarrow> bool" where
  "vals n us \<longleftrightarrow> (\<exists>vs. us = map Some vs \<and> length vs = n)"

definition new_object :: "uvalue option list \<Rightarrow> bool" where
  "new_object us \<longleftrightarrow> (\<exists>i. us = [Some (UNew i)])"

definition tuple_value :: "uvalue option list \<Rightarrow> bool" where
  "tuple_value us \<longleftrightarrow> (\<exists>vs. us = [Some (UTuple vs)])"

definition above :: "(uvalue option list \<Rightarrow> bool) \<Rightarrow> (uvalue option list \<Rightarrow> bool) \<Rightarrow> uvalue option list \<Rightarrow> bool" where
  "above P F us \<longleftrightarrow> (\<exists>xs ys. us = xs @ ys \<and> P xs \<and> F ys)"

definition marked :: "uvalue option list \<Rightarrow> bool" where
  "marked us \<longleftrightarrow> us = [None]"

named_theorems top_defs \<open>what is on top of the stack\<close>

lemmas [top_defs] = none_def vals_def new_object_def tuple_value_def above_def marked_def

lemma effect_above: "effect h P f Q \<Longrightarrow> effect h (above P F) f (above Q F)"
  unfolding above_def [abs_def] by (rule effect_below)

lemma effect_onto: "effect h none f Q \<Longrightarrow> effect h F f (above Q F)"
  by (rule effect_weaken [OF effect_above]) (auto simp: above_def none_def)

lemma vals_1: "vals (Suc 0) us \<longleftrightarrow> (\<exists>v. us = [Some v])"
  by (force simp: vals_def length_Suc_conv)

lemma vals_above: "above (vals k) (vals n) us \<Longrightarrow> vals (n + k) us"
  unfolding above_def vals_def by (metis add.commute length_append map_append)

lemma effect_in_order:
  "\<forall>f\<in>set fs. effect h none f (vals k) \<Longrightarrow> effect h none (in_order fs) (vals (k * length fs))"
proof -
  have "effect h (vals n) (in_order fs) (vals (n + k * length fs))"
    if "\<forall>f\<in>set fs. effect h none f (vals k)" for n
    using that
  proof (induction fs arbitrary: n)
    case Nil
    then show ?case by (simp add: in_order_def) (rule effect_emit; simp)
  next
    case (Cons f fs)
    have "effect h (vals n) f (vals (n + k))"
      using Cons.prems effect_onto [of h f "vals k" "vals n"] by (auto intro: effect_weaken vals_above)
    moreover have "effect h (vals (n + k)) (in_order fs) (vals ((n + k) + k * length fs))"
      using Cons by simp
    ultimately show ?case
      using effect_andThen by (fastforce simp: in_order_def add.assoc)
  qed
  from this [of 0] show "\<forall>f\<in>set fs. effect h none f (vals k) \<Longrightarrow> ?thesis"
    by (auto intro: effect_weaken simp: vals_def none_def)
qed

text \<open>\<open>memoize\<close> keeps the stack; the value on top must fit the object.\<close>

lemma effect_memoize:
  assumes "\<And>us. P us \<Longrightarrow> \<exists>v us'. us = Some v # us' \<and> (\<forall>a. key = Some a \<longrightarrow> fits (h a) v)"
  shows "effect h P (memoize key) P"
proof (rule effectI)
  fix st ops st' us S and u :: machine
  assume run: "memoize key st = Inr (ops, st')" and m: "memo_ok h (ps_memo st) (mc_memo u)"
    and s: "mc_stack u = us @ S" "P us"
  obtain v us' where v: "us = Some v # us'" "\<forall>a. key = Some a \<longrightarrow> fits (h a) v" using assms s(2) by blast
  have st': "ops = [OPut (length (ps_memo st))]" "ps_memo st' = ps_memo st @ [key]"
    using run by (auto simp: memoize_def split: if_splits)
  have "memo_ok h (ps_memo st @ [key]) ((mc_memo u)(length (ps_memo st) \<mapsto> v))"
    using m v(2) by (auto simp: memo_ok_def nth_append less_Suc_eq)
  then show "\<exists>u' vs. load_ops ops u = Inr u' \<and> memo_ok h (ps_memo st') (mc_memo u') \<and> mc_stack u' = vs @ S \<and> P vs"
    using s v by (simp add: st')
qed

lemma memo_pos_nth: "in_memo (Some a) st \<Longrightarrow> memo_pos a st < length (ps_memo st) \<and> ps_memo st ! memo_pos a st = Some a"
proof -
  have "Some a \<in> set m \<Longrightarrow> length (takeWhile (\<lambda>k. k \<noteq> Some a) m) < length m \<and> m ! length (takeWhile (\<lambda>k. k \<noteq> Some a) m) = Some a" for m
    by (induction m) auto
  then show "in_memo (Some a) st \<Longrightarrow> ?thesis" by (simp add: in_memo_def memo_pos_def)
qed

lemma effect_unless_memoized:
  assumes "effect h none f (\<lambda>us. \<exists>v. us = [Some v] \<and> fits (h a) v)"
  shows "effect h none (unless_memoized a f) (\<lambda>us. \<exists>v. us = [Some v] \<and> fits (h a) v)"
proof (rule effectI)
  fix st ops st' us S and u :: machine
  assume run: "unless_memoized a f st = Inr (ops, st')" and m: "memo_ok h (ps_memo st) (mc_memo u)"
    and s: "mc_stack u = us @ S" "none us"
  show "\<exists>u' vs. load_ops ops u = Inr u' \<and> memo_ok h (ps_memo st') (mc_memo u') \<and> mc_stack u' = vs @ S \<and>
      (\<exists>v. vs = [Some v] \<and> fits (h a) v)"
  proof (cases "in_memo (Some a) st")
    case True
    obtain v where "mc_memo u (memo_pos a st) = Some v" "fits (h a) v"
      using m memo_pos_nth [OF True] unfolding memo_ok_def by blast
    then show ?thesis using run True m s by (auto simp: unless_memoized_def push_def none_def)
  next
    case False
    then have "f st = Inr (ops, st')" using run by (simp add: unless_memoized_def)
    then show ?thesis using assms m s unfolding effect_def by blast
  qed
qed

section \<open>Containers\<close>

lemma effect_mark: "effect h P (emit [OMark]) (above marked P)"
  by (rule effect_emit) (auto simp: top_defs)

lemma effect_mark_only: "effect h none (emit [OMark]) marked"
  by (rule effect_emit) (auto simp: none_def marked_def)

lemma above_assoc: "above (above P Q) R us \<longleftrightarrow> above P (above Q R) us"
  unfolding above_def by (metis append_assoc)

text \<open>The operations that use the vals above a mark.\<close>

lemma effect_marked:
  assumes "effect h none f (vals n)"
    and "effect h (above (vals n) (above marked P)) (emit ops) Q"
  shows "effect h P (andThen (emit [OMark]) (andThen f (emit ops))) Q"
  by (rule effect_andThen [OF effect_mark effect_andThen [OF effect_onto [OF assms(1)] assms(2)]])

lemma to_mark_above: "length vs = n \<Longrightarrow> to_mark (map Some vs @ None # s) [] = Inr (rev vs, s)"
  by (simp add: to_mark_values)

lemma pair_up_even: "length vs = 2 * n \<Longrightarrow> \<exists>kvs. pair_up vs = Inr kvs"
proof (induction vs arbitrary: n rule: pair_up.induct)
  case (3 k v rest)
  then obtain m where "n = Suc m" by (cases n) auto
  then show ?case using 3 by fastforce
qed auto

lemma effect_append: "effect h (above (vals 1) new_object) (emit [OAppend]) new_object"
  by (rule effect_emit) (auto simp: top_defs log_event_def pop_values_map)

lemma effect_appends: "effect h (above (vals (1 * n)) (above marked new_object)) (emit [OAppends]) new_object"
  by (rule effect_emit) (auto simp: top_defs log_event_def to_mark_values)

lemma effect_setitem: "effect h (above (vals 2) new_object) (emit [OSetItem]) new_object"
proof (rule effect_emit)
  fix us S and u :: machine
  assume s: "mc_stack u = us @ S" "above (vals 2) new_object us"
  then obtain vs i where us: "us = map Some vs @ [Some (UNew i)]" "length vs = 2" by (auto simp: top_defs)
  obtain kvs where "pair_up (rev vs) = Inr kvs" using pair_up_even [of "rev vs" 1] us(2) by auto
  then show "\<exists>u' vs. load_ops [OSetItem] u = Inr u' \<and> mc_memo u' = mc_memo u \<and> mc_stack u' = vs @ S \<and> new_object vs"
    using s us by (simp add: pop_values_map log_event_def new_object_def)
qed

lemma effect_setitems: "effect h (above (vals (2 * n)) (above marked new_object)) (emit [OSetItems]) new_object"
proof (rule effect_emit)
  fix us S and u :: machine
  assume s: "mc_stack u = us @ S" "above (vals (2 * n)) (above marked new_object) us"
  then obtain vs i where us: "us = map Some vs @ None # [Some (UNew i)]" "length vs = 2 * n"
    by (auto simp: top_defs)
  obtain kvs where "pair_up (rev vs) = Inr kvs" using pair_up_even [of "rev vs" n] us(2) by auto
  then show "\<exists>u' vs. load_ops [OSetItems] u = Inr u' \<and> mc_memo u' = mc_memo u \<and> mc_stack u' = vs @ S \<and> new_object vs"
    using s us by (simp add: to_mark_values log_event_def new_object_def)
qed

lemma effect_batch_of:
  assumes "\<forall>f\<in>set tmp. effect h none f (vals k)"
    and "effect h (above (vals k) new_object) (emit [one]) new_object"
    and "\<And>n. effect h (above (vals (k * n)) (above marked new_object)) (emit [many]) new_object"
  shows "effect h new_object (batch_of one many tmp) new_object"
proof -
  consider "tmp = []" | f where "tmp = [f]" | "length tmp > 1" by (cases tmp rule: remdups_adj.cases) auto
  then show ?thesis
  proof cases
    case 1
    then show ?thesis by (simp add: batch_of_def) (rule effect_emit; simp)
  next
    case 2
    then show ?thesis
      using effect_andThen [OF effect_onto assms(2)] assms(1) by (simp add: batch_of_def)
  next
    case 3
    then show ?thesis
      using effect_marked [OF effect_in_order [OF assms(1)] assms(3)] by (simp add: batch_of_def)
  qed
qed

lemma effect_batches:
  assumes "\<forall>f\<in>set items. effect h none f (vals k)"
    and "effect h (above (vals k) new_object) (emit [one]) new_object"
    and "\<And>n. effect h (above (vals (k * n)) (above marked new_object)) (emit [many]) new_object"
  shows "effect h new_object (batches one many items) new_object"
  using assms
proof (induction one many items rule: batches.induct)
  case (1 one many items)
  show ?case
  proof (cases "length items < BATCHSIZE")
    case True
    then show ?thesis using effect_batch_of [OF 1(2,3,4)] by (subst batches.simps) simp
  next
    case False
    have parts: "\<forall>f\<in>set (take BATCHSIZE items). effect h none f (vals k)"
      "\<forall>f\<in>set (drop BATCHSIZE items). effect h none f (vals k)"
      using 1(2) in_set_takeD in_set_dropD by fast+
    have "effect h new_object (batch_of one many (take BATCHSIZE items)) new_object"
      by (rule effect_batch_of [OF parts(1) 1(3,4)])
    moreover have "effect h new_object (batches one many (drop BATCHSIZE items)) new_object"
      by (rule 1(1) [OF False parts(2) 1(3,4)])
    ultimately show ?thesis using False by (subst batches.simps) (simp add: effect_andThen)
  qed
qed

definition no_tuple_at :: "store \<Rightarrow> nat option \<Rightarrow> bool" where
  "no_tuple_at h key \<longleftrightarrow> (\<forall>a. key = Some a \<longrightarrow> \<not> is_TupleObj (h a))"

lemma effect_memoize_value:
  assumes "no_tuple_at h key" and "\<And>us. P us \<Longrightarrow> vals 1 us"
  shows "effect h P (memoize key) P"
proof (rule effect_memoize)
  fix us assume "P us"
  then obtain v where "us = [Some v]" using assms(2) by (auto simp: vals_1)
  then show "\<exists>v us'. us = Some v # us' \<and> (\<forall>a. key = Some a \<longrightarrow> fits (h a) v)"
    using assms(1) by (simp add: no_tuple_at_def fits_def)
qed

lemma new_object_vals: "new_object us \<Longrightarrow> vals 1 us"
  by (auto simp: new_object_def vals_1)

lemma tuple_value_vals: "tuple_value us \<Longrightarrow> vals 1 us"
  by (auto simp: tuple_value_def vals_1)

lemma effect_save_list:
  assumes "no_tuple_at h key" and "\<forall>f\<in>set items. effect h none f (vals 1)"
  shows "effect h none (save_list key items) new_object"
  unfolding save_list_def
proof (rule effect_andThen [OF _ effect_andThen])
  show "effect h none (emit [OEmptyList]) new_object"
    by (rule effect_emit) (auto simp: top_defs make_object_def)
  show "effect h new_object (memoize key) new_object"
    using assms(1) new_object_vals by (rule effect_memoize_value)
  show "effect h new_object (batches OAppend OAppends items) new_object"
    by (rule effect_batches [OF assms(2) effect_append effect_appends])
qed

lemma effect_item: "effect h none k (vals 1) \<Longrightarrow> effect h none v (vals 1) \<Longrightarrow> effect h none (andThen k v) (vals 2)"
  by (rule effect_andThen, assumption)
    (rule effect_weaken [OF effect_onto], assumption, assumption, use vals_above [of 1 1] in \<open>simp add: numeral_2_eq_2\<close>)

lemma effect_batch_items:
  assumes "\<forall>(k, v)\<in>set items. effect h none k (vals 1) \<and> effect h none v (vals 1)"
  shows "effect h new_object (batches OSetItem OSetItems (map (\<lambda>(k, v). andThen k v) items)) new_object"
  by (rule effect_batches [OF _ effect_setitem effect_setitems]) (use assms effect_item in auto)

lemma effect_save_dict:
  assumes "no_tuple_at h key" and "\<forall>(k, v)\<in>set items. effect h none k (vals 1) \<and> effect h none v (vals 1)"
  shows "effect h none (save_dict key items) new_object"
  unfolding save_dict_def
proof (rule effect_andThen [OF _ effect_andThen])
  show "effect h none (emit [OEmptyDict]) new_object"
    by (rule effect_emit) (auto simp: top_defs make_object_def)
  show "effect h new_object (memoize key) new_object"
    using assms(1) new_object_vals by (rule effect_memoize_value)
qed (rule effect_batch_items [OF assms(2)])

lemma effect_pointwise:
  assumes "\<And>st. \<exists>g. effect h P g Q \<and> f st = g st"
  shows "effect h P f Q"
  unfolding effect_def
proof (intro allI impI)
  fix st ops st' us S and u :: machine
  assume run: "f st = Inr (ops, st')" and rest: "memo_ok h (ps_memo st) (mc_memo u)" "mc_stack u = us @ S" "P us"
  obtain g where g: "effect h P g Q" "f st = g st" using assms by blast
  then have "g st = Inr (ops, st')" using run by simp
  then show "\<exists>u' vs. load_ops ops u = Inr u' \<and> memo_ok h (ps_memo st') (mc_memo u') \<and> mc_stack u' = vs @ S \<and> Q vs"
    using g(1) rest unfolding effect_def by blast
qed

lemma effect_finish_tuple:
  assumes key: "\<forall>a. key = Some a \<longrightarrow> is_TupleObj (h a)"
    and undo: "effect h P (emit undo) none" and build: "effect h P (emit build) tuple_value"
  shows "effect h P (finish_tuple key undo build) tuple_value"
proof (rule effect_pointwise)
  fix st
  show "\<exists>g. effect h P g tuple_value \<and> finish_tuple key undo build st = g st"
  proof (cases "in_memo key st")
    case True
    then obtain a where a: "key = Some a" by (auto simp: in_memo_def)
    let ?get = "unless_memoized a (stop KeyError)"
    have "effect h none ?get tuple_value"
      by (rule effect_weaken [OF effect_unless_memoized [OF effect_stop]])
        (use key a in \<open>auto simp: fits_def tuple_value_def\<close>)
    then have "effect h P (andThen (emit undo) ?get) tuple_value" by (rule effect_andThen [OF undo])
    moreover have "finish_tuple key undo build st = andThen (emit undo) ?get st"
      using True a by (simp add: finish_tuple_def andThen_def emit_def unless_memoized_def)
    ultimately show ?thesis by blast
  next
    case False
    have "effect h tuple_value (memoize key) tuple_value"
      by (rule effect_memoize) (use key in \<open>auto simp: tuple_value_def fits_def\<close>)
    then have "effect h P (andThen (emit build) (memoize key)) tuple_value" by (rule effect_andThen [OF build])
    then show ?thesis using False by (auto simp: finish_tuple_def)
  qed
qed

lemma effect_save_tuple:
  assumes "\<forall>a. key = Some a \<longrightarrow> is_TupleObj (h a)" and "\<forall>f\<in>set fs. effect h none f (vals 1)"
  shows "effect h none (save_tuple key fs) tuple_value"
proof -
  note fs = effect_in_order [OF assms(2), unfolded mult_1]
  have "effect h (vals n) (emit [OPop n]) none" "effect h (vals n) (emit [OTupleN n]) tuple_value" for n
    by (rule effect_emit; force simp: vals_def none_def tuple_value_def push_def pop_values_map)+
  then have short: "effect h none (andThen (in_order fs) (finish_tuple key [OPop (length fs)] [OTupleN (length fs)])) tuple_value"
    by (intro effect_andThen [OF fs] effect_finish_tuple [OF assms(1)])
  have "effect h (above (vals n) marked) (emit [OPopMark]) none" "effect h (above (vals n) marked) (emit [OTuple]) tuple_value" for n
    by (rule effect_emit; force simp: top_defs push_def to_mark_values)+
  then have "effect h (above (vals (length fs)) marked) (finish_tuple key [OPopMark] [OTuple]) tuple_value"
    by (intro effect_finish_tuple [OF assms(1)])
  then have long: "effect h none (andThen (emit [OMark]) (andThen (in_order fs) (finish_tuple key [OPopMark] [OTuple]))) tuple_value"
    by (rule effect_andThen [OF effect_mark_only effect_andThen [OF effect_onto [OF fs]]])
  have "effect h none (emit [OEmptyTuple]) tuple_value"
    by (rule effect_emit) (auto simp: top_defs push_def)
  then show ?thesis using short long by (simp add: save_tuple_def)
qed

section \<open>\<open>save_reduce\<close>\<close>

lemma effect_call:
  assumes "effect h none func (vals 1)" and "effect h none args tuple_value"
    and "\<And>s u vs v. load_op op (u\<lparr>mc_stack := Some (UTuple vs) # Some v # s\<rparr>) = Inr (make_object (e v vs) s (u\<lparr>mc_stack := Some (UTuple vs) # Some v # s\<rparr>))"
  shows "effect h none (andThen func (andThen args (emit [op]))) new_object"
proof (rule effect_andThen [OF assms(1) effect_andThen [OF effect_onto [OF assms(2)]]], rule effect_emit)
  fix us S and u :: machine
  assume "mc_stack u = us @ S" "above tuple_value (vals 1) us"
  then obtain vs v where "mc_stack u = Some (UTuple vs) # Some v # S" by (auto simp: above_def tuple_value_def vals_1)
  then show "\<exists>u' vs. load_ops [op] u = Inr u' \<and> mc_memo u' = mc_memo u \<and> mc_stack u' = vs @ S \<and> new_object vs"
    using assms(3) [where u = u and vs = vs and v = v and s = S] by (cases u) (simp add: make_object_def new_object_def)
qed

lemma effect_reduce_call:
  "effect h none func (vals 1) \<Longrightarrow> effect h none args tuple_value \<Longrightarrow> effect h none (reduce_call_ops func args) new_object"
  unfolding reduce_call_ops_def by (rule effect_call [where e = Called]) simp_all

lemma effect_emit_nothing: "effect h P (emit []) P"
  by (rule effect_emit) auto

lemma effect_build:
  assumes "effect h none s (vals 1)"
  shows "effect h new_object (andThen s (emit [OBuild])) new_object"
proof (rule effect_andThen [OF effect_onto [OF assms]], rule effect_emit)
  fix us S and u :: machine
  assume "mc_stack u = us @ S" "above (vals 1) new_object us"
  then obtain v i where "mc_stack u = map Some [v] @ Some (UNew i) # S" by (auto simp: above_def new_object_def vals_1)
  then show "\<exists>u' vs. load_ops [OBuild] u = Inr u' \<and> mc_memo u' = mc_memo u \<and> mc_stack u' = vs @ S \<and> new_object vs"
    by (simp add: log_event_def new_object_def)
qed

lemma effect_save_reduce:
  assumes "effect h none call new_object"
    and "\<forall>key. obj = Some key \<longrightarrow> no_tuple_at h key"
    and "\<forall>s. state = Some s \<longrightarrow> effect h none s (vals 1)"
    and "\<forall>fs. listitems = Some fs \<longrightarrow> (\<forall>f\<in>set fs. effect h none f (vals 1))"
    and "\<forall>kvs. dictitems = Some kvs \<longrightarrow> (\<forall>(k, v)\<in>set kvs. effect h none k (vals 1) \<and> effect h none v (vals 1))"
  shows "effect h none (save_reduce call state listitems dictitems obj) new_object"
  unfolding save_reduce_def
proof (rule effect_andThen [OF assms(1) effect_andThen [OF _ effect_andThen [OF _ effect_andThen]]])
  show "effect h new_object (case obj of None \<Rightarrow> emit [] | Some key \<Rightarrow> memoize key) new_object"
    using assms(2) effect_memoize_value [OF _ new_object_vals] effect_emit_nothing by (auto split: option.splits)
  show "effect h new_object (case listitems of None \<Rightarrow> emit [] | Some xs \<Rightarrow> batches OAppend OAppends xs) new_object"
    using assms(4) effect_batches [OF _ effect_append effect_appends] effect_emit_nothing by (auto split: option.splits)
  show "effect h new_object (case dictitems of None \<Rightarrow> emit []
      | Some kvs \<Rightarrow> batches OSetItem OSetItems (map (\<lambda>(k, v). andThen k v) kvs)) new_object"
    using assms(5) effect_batch_items effect_emit_nothing by (auto split: option.splits)
  show "effect h new_object (case state of None \<Rightarrow> emit [] | Some s \<Rightarrow> andThen s (emit [OBuild])) new_object"
    using assms(3) effect_build effect_emit_nothing by (auto split: option.splits)
qed

lemma effect_reduce_to:
  assumes "effect h none func (vals 1)" and "\<forall>f\<in>set args. effect h none f (vals 1)"
    and "\<forall>key. obj = Some key \<longrightarrow> no_tuple_at h key"
  shows "effect h none (reduce_to func args obj) new_object"
  unfolding reduce_to_def
  by (rule effect_save_reduce [OF effect_reduce_call [OF assms(1) effect_save_tuple [OF _ assms(2)]] assms(3)]) simp_all

section \<open>Objects\<close>

lemma effect_save_str:
  assumes "no_tuple_at h key" shows "effect h none (save_str key t) (vals 1)"
  unfolding save_str_def
  by (rule effect_andThen [OF _ effect_memoize_value [OF assms]], rule effect_emit)
    (auto simp: none_def vals_1 push_def)

lemma effect_global: "effect h none (emit [OGlobal m name]) (vals 1)"
  by (rule effect_emit) (auto simp: none_def vals_1 push_def)

lemma effect_reference:
  assumes "no_tuple_at h key" shows "effect h none (andThen (emit [OGlobal m name]) (memoize key)) (vals 1)"
  by (rule effect_andThen [OF effect_global effect_memoize_value [OF assms]])

lemma effect_save_reference:
  assumes "no_tuple_at h key" shows "effect h none (save_reference env key m name) (vals 1)"
proof -
  have "effect h none (emit [OExt code]) (vals 1)" for code
    by (rule effect_emit) (auto simp: none_def vals_1 push_def)
  then show ?thesis
    using effect_reference [OF assms] by (auto simp: save_reference_def split: option.splits)
qed

lemma effect_main_module: "effect h P (main_module env m) P"
  by (simp add: main_module_def effect_add_module effect_emit_nothing)

lemma effect_if: "effect h P f Q \<Longrightarrow> effect h P g Q \<Longrightarrow> effect h P (if b then f else g) Q"
  by simp

lemma effect_with_imports:
  assumes "\<And>mods. effect h P (f mods) Q" shows "effect h P (with_imports f choice) Q"
  unfolding effect_def
proof (intro allI impI)
  fix st ops st' us S and u :: machine
  assume run: "with_imports f choice st = Inr (ops, st')" and rest: "memo_ok h (ps_memo st) (mc_memo u)" "mc_stack u = us @ S" "P us"
  obtain mods saved where "f mods (st\<lparr>ps_savedForceImports := saved\<rparr>) = Inr (ops, st')"
    using run by (auto simp: with_imports_def split: prod.splits)
  moreover have "memo_ok h (ps_memo (st\<lparr>ps_savedForceImports := saved\<rparr>)) (mc_memo u)" using rest(1) by simp
  ultimately show "\<exists>u' vs. load_ops ops u = Inr u' \<and> memo_ok h (ps_memo st') (mc_memo u') \<and> mc_stack u' = vs @ S \<and> Q vs"
    using assms rest(2,3) unfolding effect_def by blast
qed

lemma in_order_Cons [simp]: "in_order (f # fs) = andThen f (in_order fs)"
  by (simp add: in_order_def)

lemma effect_in_order_Nil: "effect h P (in_order []) P"
  by (simp add: in_order_def effect_emit_nothing)

lemma no_tuple_None [simp]: "no_tuple_at h None"
  by (simp add: no_tuple_at_def)

text \<open>A call on top of what is there, and the result dropped.\<close>

lemma effect_save_imports:
  assumes "effect h none mods_to_main (vals 1)" and "\<And>m. effect h none (save_name m) (vals 1)"
  shows "effect h none (save_imports mods_to_main save_name mods) none"
proof -
  have names: "effect h none (save_list None (map save_name mods)) (vals 1)"
    by (rule effect_weaken [OF effect_save_list]) (use assms(2) new_object_vals in auto)
  have args: "effect h none (save_tuple None [save_list None (map save_name mods)]) tuple_value"
    by (rule effect_save_tuple) (use names in auto)
  have reduce: "effect h (above tuple_value (above (vals 1) marked)) (emit [OReduce]) (above new_object marked)"
    by (rule effect_emit) (force simp: above_def tuple_value_def vals_1 marked_def new_object_def make_object_def)
  have pop: "effect h (above new_object marked) (emit [OPopMark]) none"
    by (rule effect_emit) (force simp: above_def marked_def new_object_def none_def)
  have "effect h none (in_order [emit [OMark], mods_to_main, save_tuple None [save_list None (map save_name mods)],
      emit [OReduce], emit [OPopMark]]) none"
    unfolding in_order_Cons
    by (rule effect_andThen [OF effect_mark_only effect_andThen [OF effect_onto [OF assms(1)] effect_andThen [OF effect_onto [OF args]
      effect_andThen [OF reduce effect_andThen [OF pop effect_in_order_Nil]]]]])
  then show ?thesis by (simp add: save_imports_def effect_emit_nothing del: in_order_Cons)
qed

lemma bind_res_Inr: "bind_res r Inr = r"
  by (cases r) auto

lemma andThen_assoc: "andThen (andThen f g) k = andThen f (andThen g k)"
proof
  fix st
  show "andThen (andThen f g) k st = andThen f (andThen g k) st"
  proof (cases "f st")
    case (Inr p)
    then obtain o1 st1 where f: "f st = Inr (o1, st1)" by (cases p) auto
    show ?thesis
    proof (cases "g st1")
      case (Inr q)
      then obtain o2 st2 where "g st1 = Inr (o2, st2)" by (cases q) auto
      then show ?thesis using f by (cases "k st2") (auto simp: andThen_def)
    qed (simp add: andThen_def f)
  qed (simp add: andThen_def)
qed

lemma effect_inst:
  assumes "effect h none c (vals 1)" and "\<forall>f\<in>set args. effect h none f (vals 1)"
    and "no_tuple_at h key" and "effect h none state (vals 1)"
  shows "effect h none (andThen (emit [OMark]) (andThen c (andThen (in_order args)
      (andThen (emit [OObj]) (andThen (memoize key) (andThen state (emit [OBuild]))))))) new_object"
proof -
  have "effect h none (in_order (c # args)) (vals (1 * length (c # args)))"
    by (rule effect_in_order) (use assms(1,2) in auto)
  then have items: "effect h none (andThen c (in_order args)) (vals (Suc (length args)))" by simp
  have obj: "effect h (above (vals (Suc n)) marked) (emit [OObj]) new_object" for n
  proof (rule effect_emit)
    fix us S and u :: machine
    assume "mc_stack u = us @ S" "above (vals (Suc n)) marked us"
    then obtain vs where vs: "mc_stack u = map Some vs @ None # S" "length vs = Suc n" by (auto simp: above_def vals_def marked_def)
    then obtain v ws where "rev vs = v # ws" by (metis length_Suc_conv length_rev)
    then have "to_mark (mc_stack u) [] = Inr (v # ws, S)" by (simp only: vs(1) to_mark_values) simp
    then show "\<exists>u' vs. load_ops [OObj] u = Inr u' \<and> mc_memo u' = mc_memo u \<and> mc_stack u' = vs @ S \<and> new_object vs"
      by (simp add: make_object_def new_object_def)
  qed
  have rest: "effect h new_object (andThen (memoize key) (andThen state (emit [OBuild]))) new_object"
    by (rule effect_andThen [OF effect_memoize_value [OF assms(3) new_object_vals] effect_build [OF assms(4)]])
  have "effect h none (andThen (emit [OMark]) (andThen (andThen c (in_order args)) (andThen (emit [OObj])
      (andThen (memoize key) (andThen state (emit [OBuild])))))) new_object"
    by (rule effect_andThen [OF effect_mark_only effect_andThen [OF effect_onto [OF items] effect_andThen [OF obj rest]]])
  then show ?thesis by (simp add: andThen_assoc)
qed

text \<open>The copy of a function: a skeleton that is memoized, and the call that fills it.\<close>

lemma effect_tuple_call:
  assumes "effect h none func (vals 1)" and "effect h none items (vals n)"
  shows "effect h none (andThen func (andThen (emit [OMark]) (andThen items (emit [OTuple, OReduce])))) new_object"
proof -
  have "effect h (above (vals n) (above marked (vals 1))) (emit [OTuple, OReduce]) new_object"
  proof (rule effect_emit)
    fix us S and u :: machine
    assume "mc_stack u = us @ S" "above (vals n) (above marked (vals 1)) us"
    then obtain vs v where "mc_stack u = map Some vs @ None # Some v # S" by (auto simp: above_def vals_def marked_def length_Suc_conv)
    then show "\<exists>u' vs. load_ops [OTuple, OReduce] u = Inr u' \<and> mc_memo u' = mc_memo u \<and> mc_stack u' = vs @ S \<and> new_object vs"
      by (simp add: to_mark_values push_def make_object_def new_object_def)
  qed
  then show ?thesis
    by (intro effect_andThen [OF assms(1) effect_andThen [OF effect_mark effect_andThen [OF effect_onto [OF assms(2)]]]])
qed

lemma effect_memoized_call:
  assumes "effect h none f new_object" and "no_tuple_at h key"
  shows "effect h none (andThen f (memoize key)) (vals 1)"
  by (rule effect_weaken [OF effect_andThen [OF assms(1) effect_memoize_value [OF assms(2) new_object_vals]]])
    (use new_object_vals in auto)

lemma in_order_Nil: "andThen (in_order []) g = g" "andThen g (in_order []) = g"
  by (auto simp: in_order_def emit_def andThen_def fun_eq_iff bind_res_Inr)

lemma emit_append: "emit (op # ops) = andThen (emit [op]) (emit ops)" if "ops \<noteq> []"
  by (simp add: emit_def andThen_def)

lemma effect_copy_function:
  assumes im: "effect h none pre none" and fill: "effect h none fill (vals 1)"
    and skel: "effect h none skel new_object" and key: "no_tuple_at h key"
    and parts: "\<forall>f\<in>set [gs, defaults, closure, attrs]. effect h none f (vals 1)"
  shows "effect h none (function_copy pre fill skel key gs defaults closure attrs) new_object"
proof -
  have "\<forall>f\<in>set [andThen skel (memoize key), gs, defaults, closure, attrs]. effect h none f (vals 1)"
    using effect_memoized_call [OF skel key] parts by auto
  note items = effect_in_order [OF this]
  have "effect h none (andThen pre (andThen fill (andThen (emit [OMark])
      (andThen (in_order [andThen skel (memoize key), gs, defaults, closure, attrs]) (emit [OTuple, OReduce]))))) new_object"
    by (rule effect_andThen [OF im effect_tuple_call [OF fill items]])
  then show ?thesis by (simp add: function_copy_def andThen_assoc in_order_Nil)
qed

lemma effect_function_reference:
  assumes restore: "effect h none restore_attr (vals 1)" and key: "no_tuple_at h key" and attrs: "effect h none attrs (vals 1)"
  shows "effect h none (function_reference restore_attr key m name no_attrs attrs) (vals 1)"
proof (cases no_attrs)
  case True
  then show ?thesis using effect_reference [OF key] by (simp add: function_reference_def)
next
  case False
  have items: "effect h none (in_order [andThen (emit [OGlobal m name]) (memoize key), attrs]) (vals (1 * 2))"
    using effect_in_order [of "[andThen (emit [OGlobal m name]) (memoize key), attrs]" h 1]
      effect_reference [OF key] attrs by (simp add: numeral_2_eq_2)
  have "effect h none (andThen restore_attr (andThen (emit [OMark])
      (andThen (in_order [andThen (emit [OGlobal m name]) (memoize key), attrs]) (emit [OTuple, OReduce])))) (vals 1)"
    by (rule effect_weaken [OF effect_tuple_call [OF restore items] _ new_object_vals]) simp
  then show ?thesis
    using False by (simp add: function_reference_def andThen_assoc emit_append in_order_Nil)
qed

definition one_of :: "store \<Rightarrow> pyobj \<Rightarrow> uvalue option list \<Rightarrow> bool" where
  "one_of h x us \<longleftrightarrow> (\<exists>v. us = [Some v] \<and> fits (contents h x) v)"

lemma contents_self: "\<not> is_At y \<Longrightarrow> contents h y = y"
  by (cases y) (simp_all add: contents_def)

lemma one_of_vals: "one_of h x us \<Longrightarrow> vals 1 us"
  by (auto simp: one_of_def vals_1)

lemma effect_new: "effect h none f new_object \<Longrightarrow> \<not> is_TupleObj (contents h x) \<Longrightarrow> effect h none f (one_of h x)"
  by (erule effect_weaken) (auto simp: new_object_def one_of_def fits_def)

lemma effect_one: "effect h none f (vals 1) \<Longrightarrow> \<not> is_TupleObj (contents h x) \<Longrightarrow> effect h none f (one_of h x)"
  by (erule effect_weaken) (auto simp: vals_1 one_of_def fits_def)

lemma map_effects: "\<forall>x\<in>set xs. effect h none (f x) Q \<Longrightarrow> \<forall>g\<in>set (map f xs). effect h none g Q"
  by simp

lemma save_inst_effect:
  assumes sub: "\<And>y. weight y < weight x \<Longrightarrow> effect h none (save_obj env h n None y) (vals 1)"
    and level: "\<And>m y. m < n \<Longrightarrow> effect h none (save_obj env h m None y) (vals 1)"
    and key: "no_tuple_at h key" and x: "x = InstObj c args getstate d transient"
  shows "effect h none (save_obj env h n key x) new_object"
proof -
  have "\<forall>f\<in>set (case args of None \<Rightarrow> [] | Some xs \<Rightarrow> map (save_obj env h n None) xs). effect h none f (vals 1)"
    using sub weight_elem by (fastforce simp: x split: option.splits)
  moreover have "effect h none (case n of 0 \<Rightarrow> stop RuntimeError | Suc n' \<Rightarrow> save_obj env h n' None stuff) (vals 1)" for stuff
    using level by (auto split: nat.splits)
  then have "effect h none (case getstate of
          Some stuff \<Rightarrow> save_obj env h n None stuff
        | None \<Rightarrow>
            (case transient of
               None \<Rightarrow> save_obj env h n None d
             | Some names \<Rightarrow>
                 (case transient_state h transient (Some d) of
                    Inr (Some stuff) \<Rightarrow> (case n of 0 \<Rightarrow> stop RuntimeError | Suc n' \<Rightarrow> save_obj env h n' None stuff)
                  | Inr None \<Rightarrow> stop TypeError
                  | Inl e \<Rightarrow> stop e))) (vals 1)"
    using sub by (auto simp: x split: option.splits sum.splits)
  ultimately show ?thesis
    unfolding x save_inside Let_def by (intro effect_inst [OF _ _ key]) (use sub x in auto)
qed

lemma pair_effects:
  assumes "\<And>y. weight y < w \<Longrightarrow> effect h none (save_obj env h n None y) (vals 1)"
    and "\<forall>kv\<in>set kvs. weight (fst kv) + weight (snd kv) < w"
  shows "\<forall>(k, v)\<in>set (map (\<lambda>kv. (save_obj env h n None (fst kv), save_obj env h n None (snd kv))) kvs).
    effect h none k (vals 1) \<and> effect h none v (vals 1)"
  using assms by (fastforce dest: add_lessD1 intro: le_less_trans [OF le_add2])

lemma save_reduce_obj_effect:
  assumes sub: "\<And>y. weight y < weight x \<Longrightarrow> effect h none (save_obj env h n None y) (vals 1)"
    and tup: "\<And>y. weight y < weight x \<Longrightarrow> is_TupleObj (contents h y) \<Longrightarrow> effect h none (save_obj env h n None y) tuple_value"
    and key: "no_tuple_at h key" and x: "x = ReduceObj func args state li di"
  shows "effect h none (save_obj env h n key x) new_object"
proof (cases "is_TupleObj (contents h args) \<and> has_call env func")
  case True
  have di: "\<forall>kv\<in>set kvs. weight (fst kv) + weight (snd kv) < weight x" if "di = Some kvs" for kvs
    using weight_pair that by (fastforce simp: x)
  have li: "\<forall>y\<in>set ys. weight y < weight x" if "li = Some ys" for ys
    using weight_elem that by (fastforce simp: x)
  have "effect h none (reduce_call_ops (save_obj env h n None func) (save_obj env h n None args)) new_object"
    by (rule effect_reduce_call) (use True sub tup x in auto)
  then have "effect h none (save_reduce (reduce_call_ops (save_obj env h n None func) (save_obj env h n None args))
      (map_option (save_obj env h n None) state) (map_option (map (save_obj env h n None)) li)
      (map_option (map (\<lambda>kv. (save_obj env h n None (fst kv), save_obj env h n None (snd kv)))) di) (Some key)) new_object"
    by (rule effect_save_reduce) (use key sub li pair_effects [OF sub di] x in auto)
  then show ?thesis using True by (simp add: x save_inside)
next
  case False
  then show ?thesis by (auto simp: x save_inside)
qed

lemma save_newobj_effect:
  assumes sub: "\<And>y. weight y < weight x \<Longrightarrow> effect h none (save_obj env h n None y) (vals 1)"
    and level: "\<And>m y. m < n \<Longrightarrow> effect h none (save_obj env h m None y) (vals 1)"
    and key: "no_tuple_at h key" and x: "x = NewObj args state li di c transient"
  shows "effect h none (save_obj env h n key x) new_object"
proof (cases args)
  case Nil
  then show ?thesis by (auto simp: x save_inside)
next
  case (Cons cls rest)
  have di: "\<forall>kv\<in>set kvs. weight (fst kv) + weight (snd kv) < weight x" if "di = Some kvs" for kvs
    using weight_pair that by (fastforce simp: x)
  have li: "\<forall>y\<in>set ys. weight y < weight x" if "li = Some ys" for ys
    using weight_elem that by (fastforce simp: x)
  have args: "\<forall>y\<in>set (cls # rest). weight y < weight x"
    using weight_elem [of _ args] Cons by (fastforce simp: x)
  have call: "effect h none (andThen (save_obj env h n None cls)
      (andThen (save_tuple None (map (save_obj env h n None) rest)) (emit [ONewObj]))) new_object"
    by (rule effect_call [where e = MadeNew, OF _ effect_save_tuple]) (use sub args in auto)
  have lower: "effect h none (case n of 0 \<Rightarrow> stop RuntimeError | Suc n' \<Rightarrow> save_obj env h n' None stuff) (vals 1)" for stuff
    using level by (auto split: nat.splits)
  have "effect h none (save_reduce (andThen (save_obj env h n None cls)
        (andThen (save_tuple None (map (save_obj env h n None) rest)) (emit [ONewObj])))
      (if transient = None then map_option (save_obj env h n None) state
       else map_option (\<lambda>stuff. case n of 0 \<Rightarrow> stop RuntimeError | Suc n' \<Rightarrow> save_obj env h n' None stuff) state')
      (map_option (map (save_obj env h n None)) li)
      (map_option (map (\<lambda>kv. (save_obj env h n None (fst kv), save_obj env h n None (snd kv)))) di)
      (Some key)) new_object" for state'
    by (rule effect_save_reduce [OF call]) (use key sub li lower pair_effects [OF sub di] x in \<open>auto split: if_splits\<close>)
  then show ?thesis unfolding x Cons by (auto simp: save_inside split: sum.splits)
qed

lemma save_fun_effect:
  assumes sub: "\<And>y. weight y < weight x \<Longrightarrow> effect h none (save_obj env h n None y) (vals 1)"
    and key: "no_tuple_at h key" and x: "x = FunObj name m file code base gs defaults closure d"
  shows "effect h none (save_obj env h n key x) (vals 1)"
proof -
  have callee: "effect h none (save_obj env h n None (At a)) (vals 1)" for a
    by (rule sub) (simp add: x)
  have str: "effect h none (save_str None t) (vals 1)" for t by (rule effect_save_str) simp
  have dict: "effect h none (save_dict None (map (\<lambda>kv. (save_str None (fst kv), save_obj env h n None (snd kv))) kvs)) (vals 1)"
    if "\<forall>kv\<in>set kvs. weight (snd kv) < weight x" for kvs
    by (rule effect_weaken [OF effect_save_dict _ new_object_vals]) (use that sub str in auto)
  have gs: "\<forall>kv\<in>set gs. weight (snd kv) < weight x" and d: "\<forall>kv\<in>set d. weight (snd kv) < weight x"
    using weight_value [of _ gs] weight_value [of _ d] by (fastforce simp: x)+
  have "\<forall>y\<in>set closure. weight y < weight x"
    using weight_elem [of _ closure] by (fastforce simp: x)
  then have cells: "effect h none (save_list None (map (save_obj env h n None) closure)) (vals 1)"
    by (intro effect_weaken [OF effect_save_list _ new_object_vals]) (use sub in auto)
  have int: "effect h none (emit [OInt i]) (vals 1)" for i by (rule effect_emit) (auto simp: none_def vals_1 push_def)
  have skel: "effect h none (reduce_call_ops (save_obj env h n None (At (callable_at env MakeSkelFn)))
      (save_tuple None [save_obj env h n None code, emit [OInt (int (length closure))], save_obj env h n None (At base)])) new_object"
    by (rule effect_reduce_call [OF callee effect_save_tuple]) (use sub callee int x in auto)
  let ?attrs = "save_dict None (map (\<lambda>kv. (save_str None (fst kv), save_obj env h n None (snd kv))) d)"
  have copy: "effect h none (function_copy
      (save_imports (save_obj env h n None (At (callable_at env ModsToMain))) (save_str None) mods)
      (save_obj env h n None (At (callable_at env FillFn)))
      (reduce_call_ops (save_obj env h n None (At (callable_at env MakeSkelFn)))
        (save_tuple None [save_obj env h n None code, emit [OInt (int (length closure))], save_obj env h n None (At base)]))
      key (save_dict None (map (\<lambda>kv. (save_str None (fst kv), save_obj env h n None (snd kv))) gs))
      (save_obj env h n None defaults) (save_list None (map (save_obj env h n None) closure)) ?attrs) (vals 1)" for mods
    by (rule effect_weaken [OF effect_copy_function [OF effect_save_imports [OF callee str] callee skel key] _ new_object_vals])
      (use dict [OF gs] dict [OF d] cells sub x in auto)
  have "effect h none (case fun_module env m of None \<Rightarrow> emit [] | Some m' \<Rightarrow> add_module m') none"
    by (auto simp: effect_emit_nothing effect_add_module split: option.splits)
  then show ?thesis
    unfolding x save_inside Let_def
    by (rule effect_andThen) (intro effect_if effect_with_imports copy effect_function_reference [OF callee key dict [OF d]])
qed

lemma new_vals: "effect h none f new_object \<Longrightarrow> effect h none f (vals 1)"
  by (erule effect_weaken) (assumption, rule new_object_vals)

fun is_plain :: "pyobj \<Rightarrow> bool" where
  "is_plain NoneObj = True" | "is_plain (IntObj i) = True" | "is_plain (StrObj t) = True" | "is_plain (ListObj xs) = True"
| "is_plain (DictObj kvs) = True" | "is_plain (BufferObj t) = True" | "is_plain UnsupportedObj = True" | "is_plain x = False"

fun is_call :: "pyobj \<Rightarrow> bool" where
  "is_call BuiltinsObj = True" | "is_call (ModuleObj m) = True" | "is_call (CodeObj xs) = True"
| "is_call (MethodObj f s c) = True" | "is_call (PropertyObj a b c d) = True" | "is_call (ItemGetterObj y) = True"
| "is_call (XrangeObj r) = True" | "is_call (PartialObj f a k) = True" | "is_call (UfuncObj name) = True" | "is_call x = False"

fun is_global :: "pyobj \<Rightarrow> bool" where
  "is_global (BuiltinFunObj m name) = True" | "is_global (ClassObj name m ty bases d new) = True" | "is_global x = False"

lemma save_plain_effect:
  assumes sub: "\<And>y. weight y < weight x \<Longrightarrow> effect h none (save_obj env h n None y) (vals 1)"
    and plain: "no_tuple_at h key" and kind: "is_plain x"
  shows "effect h none (save_obj env h n key x) (vals 1)"
proof -
  have callee: "effect h none (save_obj env h n None (At a)) (vals 1)" if "0 < weight x" for a
    using that by (intro sub) simp
  note str = effect_save_str [OF no_tuple_None]
  have int: "effect h none (emit [OInt i]) (vals 1)" for i by (rule effect_emit) (auto simp: none_def vals_1 push_def)
  show ?thesis
  proof (cases x)
    case NoneObj
    show ?thesis unfolding NoneObj save_inside
      by (rule effect_emit) (auto simp: none_def vals_1 push_def)
  next
    case (IntObj i)
    show ?thesis unfolding IntObj save_inside by (rule int)
  next
    case (StrObj t)
    show ?thesis unfolding StrObj save_inside
      by (rule effect_save_str [OF plain])
  next
    case (ListObj xs)
    have "\<forall>y\<in>set xs. effect h none (save_obj env h n None y) (vals 1)"
      using sub weight_elem by (fastforce simp: ListObj)
    then show ?thesis unfolding ListObj save_inside
      by (intro new_vals [OF effect_save_list]) (use plain ListObj in auto)
  next
    case (DictObj kvs)
    have "\<forall>kv\<in>set kvs. weight (fst kv) < weight x \<and> weight (snd kv) < weight x"
      using weight_pair by (fastforce simp: DictObj)
    then show ?thesis unfolding DictObj save_inside
      by (intro new_vals [OF effect_save_dict]) (use plain sub DictObj in auto)
  next
    case (BufferObj t)
    show ?thesis unfolding BufferObj save_inside by (rule str)
  next
    case UnsupportedObj
    show ?thesis unfolding UnsupportedObj save_inside by (rule effect_stop)
  qed (use kind in simp_all)
qed

lemma save_call_effect:
  assumes sub: "\<And>y. weight y < weight x \<Longrightarrow> effect h none (save_obj env h n None y) (vals 1)"
    and plain: "no_tuple_at h key" and kind: "is_call x"
  shows "effect h none (save_obj env h n key x) (vals 1)"
proof -
  have callee: "effect h none (save_obj env h n None (At a)) (vals 1)" if "0 < weight x" for a
    using that by (intro sub) simp
  note str = effect_save_str [OF no_tuple_None]
  have int: "effect h none (emit [OInt i]) (vals 1)" for i by (rule effect_emit) (auto simp: none_def vals_1 push_def)
  show ?thesis
  proof (cases x)
    case BuiltinsObj
    show ?thesis unfolding BuiltinsObj save_inside
      by (rule new_vals [OF effect_reduce_to]) (use plain callee BuiltinsObj in auto)
  next
    case (ModuleObj m)
    show ?thesis unfolding ModuleObj save_inside
      by (rule effect_andThen [OF effect_add_module new_vals [OF effect_reduce_to]])
        (use plain callee str ModuleObj in auto)
  next
    case (CodeObj xs)
    have "\<forall>y\<in>set xs. effect h none (save_obj env h n None y) (vals 1)"
      using sub weight_elem by (fastforce simp: CodeObj)
    then show ?thesis unfolding CodeObj save_inside
      by (intro new_vals [OF effect_reduce_to]) (use plain callee CodeObj in auto)
  next
    case (MethodObj f s c)
    show ?thesis unfolding MethodObj save_inside
      by (rule new_vals [OF effect_reduce_to]) (use plain callee sub MethodObj in auto)
  next
    case (PropertyObj a b c d)
    show ?thesis unfolding PropertyObj save_inside
      by (rule new_vals [OF effect_reduce_to]) (use plain callee sub PropertyObj in auto)
  next
    case (ItemGetterObj y)
    show ?thesis unfolding ItemGetterObj save_inside
      by (rule new_vals [OF effect_reduce_to]) (use callee sub ItemGetterObj in auto)
  next
    case (XrangeObj r)
    show ?thesis unfolding XrangeObj save_inside prod.case_eq_if
      by (rule new_vals [OF effect_reduce_to]) (use callee int XrangeObj in auto)
  next
    case (PartialObj f a k)
    show ?thesis unfolding PartialObj save_inside
      by (rule new_vals [OF effect_reduce_to]) (use callee sub PartialObj in auto)
  next
    case (UfuncObj name)
    have "effect h none (reduce_to (save_obj env h n None (At (callable_at env GetObject))) [save_str None m, save_str None name] None)
        (vals 1)" for m
      by (rule new_vals [OF effect_reduce_to]) (use callee str UfuncObj in auto)
    then show ?thesis by (auto simp: UfuncObj save_inside split: option.splits)
  qed (use kind in simp_all)
qed

lemma save_global_effect:
  assumes sub: "\<And>y. weight y < weight x \<Longrightarrow> effect h none (save_obj env h n None y) (vals 1)"
    and plain: "no_tuple_at h key" and kind: "is_global x"
  shows "effect h none (save_obj env h n key x) (vals 1)"
proof -
  have callee: "effect h none (save_obj env h n None (At a)) (vals 1)" if "0 < weight x" for a
    using that by (intro sub) simp
  note str = effect_save_str [OF no_tuple_None]
  have attrs: "effect h none (save_dict None (map (\<lambda>kv. (save_str None (fst kv), save_obj env h n None (snd kv))) d)) new_object"
    if "\<forall>kv\<in>set d. weight (snd kv) < weight x" for d
    by (rule effect_save_dict) (use that sub str in auto)
  show ?thesis
  proof (cases x)
    case (BuiltinFunObj m name)
    have "effect h none (andThen (main_module env m) (save_reference env key m' name)) (vals 1)" for m'
      by (rule effect_andThen [OF effect_main_module effect_save_reference])
        (use plain BuiltinFunObj in auto)
    then show ?thesis by (auto simp: BuiltinFunObj save_inside split: sum.splits option.splits)
  next
    case (ClassObj name m ty bases d new)
    have ref: "effect h none (andThen (main_module env m) (save_reference env key m' name)) (vals 1)" for m'
      by (rule effect_andThen [OF effect_main_module effect_save_reference])
        (use plain ClassObj in auto)
    have "\<forall>kv\<in>set (class_dict h d new). weight (snd kv) < weight x"
      using weight_class_dict by (fastforce simp: ClassObj)
    note dict = effect_weaken [OF attrs [OF this] _ new_object_vals]
    have "effect h none (andThen (main_module env m) (reduce_to (save_obj env h n None ty)
        [save_str None name, save_obj env h n None bases,
         save_dict None (map (\<lambda>kv. (save_str None (fst kv), save_obj env h n None (snd kv))) (class_dict h d new))]
        (Some key))) (vals 1)"
      by (rule effect_andThen [OF effect_main_module new_vals [OF effect_reduce_to]])
        (use plain sub str dict ClassObj in auto)
    then show ?thesis using ref
      by (auto simp: ClassObj save_inside Let_def split: sum.splits option.splits)
  qed (use kind in simp_all)
qed

text \<open>
  Every object: by induction on the nesting of addresses, and for one level by induction on the
  weight of the objects inside one another.
\<close>

lemma save_obj_effect:
  assumes "\<forall>a. key = Some a \<longrightarrow> h a = x"
  shows "effect h none (save_obj env h n key x) (one_of h x)"
  using assms
proof (induction n arbitrary: key x rule: less_induct)
  case (less n)
  show ?case
    using less.prems
  proof (induction x arbitrary: key rule: measure_induct_rule [of weight])
    case (less x)
    note level = \<open>\<And>m key x. m < n \<Longrightarrow> \<forall>a. key = Some a \<longrightarrow> h a = x \<Longrightarrow> effect h none (save_obj env h m key x) (one_of h x)\<close>
    have sub: "effect h none (save_obj env h n None y) (one_of h y)" if "weight y < weight x" for y
      using less.IH [OF that] by simp
    have sub1: "effect h none (save_obj env h n None y) (vals 1)" if "weight y < weight x" for y
      by (rule effect_weaken [OF sub [OF that] _ one_of_vals])
    have level1: "effect h none (save_obj env h m None y) (vals 1)" if "m < n" for m y
      by (rule effect_weaken [OF level [OF that] _ one_of_vals]) simp_all
    have plain: "no_tuple_at h key" if "\<not> is_TupleObj x"
      using less.prems that by (auto simp: no_tuple_at_def)
    have other: "effect h none (save_obj env h n key x) (one_of h x)" if "is_plain x \<or> is_call x \<or> is_global x"
    proof (rule effect_one)
      show t: "\<not> is_TupleObj (contents h x)" using that by (cases x) (auto simp: contents_def)
      have "\<not> is_TupleObj x" using that by (cases x) auto
      then show "effect h none (save_obj env h n key x) (vals 1)"
        using that save_plain_effect [OF sub1 plain] save_call_effect [OF sub1 plain] save_global_effect [OF sub1 plain] by blast
    qed
    show ?case
    proof (cases x)
      case (InstObj c args getstate d transient)
      show ?thesis
        by (rule effect_new [OF save_inst_effect [OF sub1 level1 _ InstObj]]) (use plain InstObj in \<open>auto simp: contents_def\<close>)
    next
      case (ReduceObj func args state li di)
      have "effect h none (save_obj env h n None y) tuple_value" if "weight y < weight x" "is_TupleObj (contents h y)" for y
        by (rule effect_weaken [OF sub [OF that(1)]]) (use that(2) in \<open>auto simp: one_of_def fits_def tuple_value_def\<close>)
      then show ?thesis
        by (intro effect_new [OF save_reduce_obj_effect [OF sub1 _ _ ReduceObj]]) (use plain ReduceObj in \<open>auto simp: contents_def\<close>)
    next
      case (NewObj args state li di c transient)
      show ?thesis
        by (rule effect_new [OF save_newobj_effect [OF sub1 level1 _ NewObj]]) (use plain NewObj in \<open>auto simp: contents_def\<close>)
    next
      case (FunObj name m fname code base gs defaults closure d)
      show ?thesis
        by (rule effect_one [OF save_fun_effect [OF sub1 _ FunObj]]) (use plain FunObj in \<open>auto simp: contents_def\<close>)
    next
      case (At a)
      have "effect h none (save_obj env h m (Some a) (h a)) (\<lambda>us. \<exists>v. us = [Some v] \<and> fits (h a) v)"
        if "m < n" "\<not> is_At (h a)" for m
        using level [OF that(1), of "Some a" "h a"] contents_self [OF that(2)] by (simp add: one_of_def [abs_def])
      then have "effect h none (case n of 0 \<Rightarrow> stop RuntimeError
          | Suc n' \<Rightarrow> if is_At (h a) then stop TypeError else save_obj env h n' (Some a) (h a))
          (\<lambda>us. \<exists>v. us = [Some v] \<and> fits (h a) v)"
        by (cases n) auto
      from effect_unless_memoized [OF this] show ?thesis
        by (simp add: At save_obj.simps(1) one_of_def [abs_def] contents_def)
    next
      case (TupleObj xs)
      have "\<forall>y\<in>set xs. effect h none (save_obj env h n None y) (vals 1)"
        using sub1 weight_elem by (fastforce simp: TupleObj)
      then have "effect h none (save_tuple key (map (save_obj env h n None) xs)) tuple_value"
        by (intro effect_save_tuple) (use less.prems TupleObj in auto)
      then show ?thesis unfolding TupleObj save_inside
        by (rule effect_weaken) (auto simp: tuple_value_def one_of_def fits_def)
    qed (use other in auto)
  qed
qed

section \<open>Examples\<close>

text \<open>
  A class of the main module, at 1, with the method at 2 that uses it; at 4 an object whose bound method
  is in its own dictionary.
\<close>

definition example_env :: py_env where
  "example_env =
     \<lparr>callable_at = (\<lambda>c. 0), module_dict = (\<lambda>m. Some (\<lambda>name. if name = ''f'' then Some 0 else None)),
      module_loaded = (\<lambda>m. True), has_call = (\<lambda>x. True), has_new = (\<lambda>x. True),
      extension_code = (\<lambda>m name. None), forced = None\<rparr>"

definition example_store :: store where
  "example_store a =
     (if a = 0 then BuiltinFunObj ''m'' ''f''
      else if a = 1 then ClassObj ''C'' ''__main__'' (At 0) (TupleObj []) [(''g'', At 2)] NoneObj
      else if a = 2 then FunObj ''g'' ''__main__'' ''job.py'' (CodeObj []) 3 [(''C'', At 1)] NoneObj [] []
      else if a = 3 then DictObj []
      else if a = 4 then InstObj (At 0) None None (DictObj [(StrObj ''self'', TupleObj [At 4, IntObj 1])]) (Some [''cache''])
      else NoneObj)"

section \<open>Properties\<close>

text \<open>
  C11: whatever object is pickled, and however it refers to itself: the operations that are written run
  without an error of the stack or the memo, and leave one value, which is a tuple for a tuple.
\<close>

theorem pickles_load_as_one_value:
  assumes "cloud_dumps env h n x = Inr ops"
  shows "\<exists>u v. load_ops ops new_machine = Inr u \<and> mc_stack u = [Some v] \<and>
    (is_TupleObj (contents h x) \<longrightarrow> (\<exists>vs. v = UTuple vs))"
proof -
  obtain st where run: "save_obj env h n None x new_pstate = Inr (ops, st)"
    using assms by (auto simp: cloud_dumps_def map_res_Inr_iff)
  have "memo_ok h (ps_memo new_pstate) (mc_memo new_machine)" by (simp add: memo_ok_def new_pstate_def)
  moreover have "mc_stack new_machine = [] @ []" "none []" by (simp_all add: new_machine_def none_def)
  moreover have "effect h none (save_obj env h n None x) (one_of h x)" by (rule save_obj_effect) simp
  ultimately show ?thesis using run unfolding effect_def one_of_def fits_def by fastforce
qed

theorem pickles_load_as_one_value_witness:
  "\<exists>ops u v. cloud_dumps example_env example_store 9 (At 2) = Inr ops \<and>
    load_ops ops new_machine = Inr u \<and> mc_stack u = [Some v]"
proof -
  have "\<not> isl (cloud_dumps example_env example_store 9 (At 2))"
    by code_simp
  then obtain ops where "cloud_dumps example_env example_store 9 (At 2) = Inr ops"
    by (cases "cloud_dumps example_env example_store 9 (At 2)") simp_all
  then show ?thesis using pickles_load_as_one_value by blast
qed

end
