(* ===== verification/PickleCycles.thy ===== *)
theory PickleCycles
  imports Unpickler
begin

text \<open>
  What happens to objects that \<open>CloudPickler\<close> meets again while it saves them: how the memo grows, and
  why a class whose method uses the class can not be pickled.
\<close>

section \<open>An object that is reached again while it is saved\<close>

text \<open>
  \<open>keeps f c s\<close>: \<open>s\<close> only adds to the memo, and when it is left, \<open>f\<close> is in the memo only together
  with \<open>c\<close>, if that was so before.
\<close>

definition keeps :: "nat \<Rightarrow> nat \<Rightarrow> saver \<Rightarrow> bool" where
  "keeps f c s \<longleftrightarrow> (\<forall>st ops st'. s st = Inr (ops, st') \<longrightarrow>
     set (ps_memo st) \<subseteq> set (ps_memo st') \<and>
     ((Some f \<in> set (ps_memo st) \<longrightarrow> Some c \<in> set (ps_memo st)) \<longrightarrow>
      (Some f \<in> set (ps_memo st') \<longrightarrow> Some c \<in> set (ps_memo st'))))"

named_theorems keeps_intros \<open>savers that keep the memo\<close>

lemma keepsI:
  assumes "\<And>st ops st'. s st = Inr (ops, st') \<Longrightarrow> set (ps_memo st) \<subseteq> set (ps_memo st')"
    and "\<And>st ops st'. s st = Inr (ops, st') \<Longrightarrow> Some f \<in> set (ps_memo st) \<longrightarrow> Some c \<in> set (ps_memo st) \<Longrightarrow>
      Some f \<in> set (ps_memo st') \<longrightarrow> Some c \<in> set (ps_memo st')"
  shows "keeps f c s"
  using assms unfolding keeps_def by blast

lemma keeps_andThen [keeps_intros]:
  assumes "keeps f c s" "keeps f c t" shows "keeps f c (andThen s t)"
  unfolding keeps_def
proof (intro allI impI)
  fix st ops st'
  assume "andThen s t st = Inr (ops, st')"
  then obtain o1 st1 o2 where "s st = Inr (o1, st1)" "t st1 = Inr (o2, st')"
    by (auto simp: andThen_def bind_res_Inr_iff)
  then show "set (ps_memo st) \<subseteq> set (ps_memo st') \<and>
      ((Some f \<in> set (ps_memo st) \<longrightarrow> Some c \<in> set (ps_memo st)) \<longrightarrow>
       (Some f \<in> set (ps_memo st') \<longrightarrow> Some c \<in> set (ps_memo st')))"
    using assms unfolding keeps_def by blast
qed

lemma keeps_basic [keeps_intros]:
  "keeps f c (emit ops)" "keeps f c (stop e)" "keeps f c (add_module m)" "keeps f c (main_module env m)"
  by (auto simp: keeps_def emit_def stop_def add_module_def main_module_def)

lemma keeps_memoize: "key \<noteq> Some f \<Longrightarrow> keeps f c (memoize key)"
  by (auto simp: keeps_def memoize_def split: if_splits)

lemma keeps_memoize_None [keeps_intros]: "keeps f c (memoize None)"
  by (rule keeps_memoize) simp

lemma keeps_in_order [keeps_intros]: "\<forall>s\<in>set ss. keeps f c s \<Longrightarrow> keeps f c (in_order ss)"
  by (induction ss) (auto simp: in_order_def intro: keeps_basic keeps_andThen)

lemma keeps_unless_memoized [keeps_intros]: "keeps f c s \<Longrightarrow> keeps f c (unless_memoized a s)"
  by (auto simp: keeps_def unless_memoized_def split: if_splits)

lemma keeps_finish_tuple: "key \<noteq> Some f \<Longrightarrow> keeps f c (finish_tuple key undo build)"
  using keeps_andThen [OF keeps_basic(1) keeps_memoize, of key f c build]
  by (auto simp: keeps_def finish_tuple_def split: if_splits)

lemma keeps_save_tuple: "key \<noteq> Some f \<Longrightarrow> \<forall>s\<in>set ss. keeps f c s \<Longrightarrow> keeps f c (save_tuple key ss)"
  by (auto simp: save_tuple_def intro!: keeps_intros keeps_finish_tuple)

lemma keeps_batch_of: "\<forall>s\<in>set ss. keeps f c s \<Longrightarrow> keeps f c (batch_of one many ss)"
  by (auto simp: batch_of_def intro!: keeps_intros)

lemma keeps_batches [keeps_intros]: "\<forall>s\<in>set ss. keeps f c s \<Longrightarrow> keeps f c (batches one many ss)"
proof (induction one many ss rule: batches.induct)
  case (1 one many items)
  have "\<forall>s\<in>set (take BATCHSIZE items). keeps f c s" "\<forall>s\<in>set (drop BATCHSIZE items). keeps f c s"
    using 1(2) in_set_takeD in_set_dropD by fast+
  then show ?case
    using 1 keeps_batch_of keeps_andThen by (subst batches.simps) simp
qed

lemma keeps_items: "\<forall>(k, v)\<in>set items. keeps f c k \<and> keeps f c v \<Longrightarrow>
    \<forall>s\<in>set (map (\<lambda>(k, v). andThen k v) items). keeps f c s"
  by (auto intro: keeps_andThen)

lemma keeps_save_list: "key \<noteq> Some f \<Longrightarrow> \<forall>s\<in>set ss. keeps f c s \<Longrightarrow> keeps f c (save_list key ss)"
  by (auto simp: save_list_def intro!: keeps_intros keeps_memoize)

lemma keeps_save_dict:
  "key \<noteq> Some f \<Longrightarrow> \<forall>(k, v)\<in>set items. keeps f c k \<and> keeps f c v \<Longrightarrow> keeps f c (save_dict key items)"
  unfolding save_dict_def by (intro keeps_intros keeps_memoize keeps_items)

lemma keeps_save_reduce:
  "keeps f c call \<Longrightarrow> \<forall>s. state = Some s \<longrightarrow> keeps f c s \<Longrightarrow>
   \<forall>ss. listitems = Some ss \<longrightarrow> (\<forall>s\<in>set ss. keeps f c s) \<Longrightarrow>
   \<forall>kvs. dictitems = Some kvs \<longrightarrow> (\<forall>(k, v)\<in>set kvs. keeps f c k \<and> keeps f c v) \<Longrightarrow> obj \<noteq> Some (Some f) \<Longrightarrow>
   keeps f c (save_reduce call state listitems dictitems obj)"
  unfolding save_reduce_def
  by (auto intro!: keeps_intros keeps_memoize keeps_items split: option.splits)

lemma keeps_reduce_to:
  "keeps f c func \<Longrightarrow> \<forall>s\<in>set args. keeps f c s \<Longrightarrow> obj \<noteq> Some (Some f) \<Longrightarrow> keeps f c (reduce_to func args obj)"
  unfolding reduce_to_def reduce_call_ops_def
  by (intro keeps_save_reduce keeps_intros keeps_save_tuple) auto

lemma keeps_save_str: "key \<noteq> Some f \<Longrightarrow> keeps f c (save_str key t)"
  by (auto simp: save_str_def intro!: keeps_intros keeps_memoize)

lemma keeps_save_reference: "key \<noteq> Some f \<Longrightarrow> keeps f c (save_reference env key m name)"
  by (auto simp: save_reference_def intro!: keeps_intros keeps_memoize split: option.splits)

lemma keeps_with_imports: "(\<And>mods. keeps f c (g mods)) \<Longrightarrow> keeps f c (with_imports g choice)"
  unfolding keeps_def with_imports_def by (fastforce split: prod.splits)

lemma keeps_save_imports:
  "keeps f c s \<Longrightarrow> (\<And>m. keeps f c (save_name m)) \<Longrightarrow> keeps f c (save_imports s save_name mods)"
  unfolding save_imports_def by (auto intro!: keeps_intros keeps_save_tuple keeps_save_list)

text \<open>\<open>adds a s\<close>: whenever \<open>s\<close> returns, \<open>a\<close> is in the memo.\<close>

definition grows :: "saver \<Rightarrow> bool" where
  "grows s \<longleftrightarrow> (\<forall>st ops st'. s st = Inr (ops, st') \<longrightarrow> set (ps_memo st) \<subseteq> set (ps_memo st'))"

definition adds :: "nat \<Rightarrow> saver \<Rightarrow> bool" where
  "adds a s \<longleftrightarrow> (\<forall>st ops st'. s st = Inr (ops, st') \<longrightarrow> Some a \<in> set (ps_memo st'))"

lemma keeps_grows: "keeps f c s \<Longrightarrow> grows s"
  unfolding keeps_def grows_def by blast

lemma grows_keeps: "grows s \<Longrightarrow> adds c s \<Longrightarrow> keeps f c s"
  unfolding keeps_def grows_def adds_def by blast

lemma grows_andThen: "grows s \<Longrightarrow> grows t \<Longrightarrow> grows (andThen s t)"
  unfolding grows_def by (fastforce simp: andThen_def bind_res_Inr_iff)

lemma grows_memoize: "grows (memoize key)"
  by (auto simp: grows_def memoize_def split: if_splits)

lemma grows_emit: "grows (emit ops)"
  by (simp add: grows_def emit_def)

lemma grows_in_order: "\<forall>s\<in>set ss. grows s \<Longrightarrow> grows (in_order ss)"
proof (induction ss)
  case Nil
  then show ?case by (simp add: in_order_def grows_emit)
next
  case (Cons s ss)
  then show ?case by (auto intro: grows_andThen)
qed

lemma adds_left: "adds a s \<Longrightarrow> grows t \<Longrightarrow> adds a (andThen s t)"
  unfolding adds_def grows_def by (fastforce simp: andThen_def bind_res_Inr_iff)

lemma adds_right: "adds a t \<Longrightarrow> adds a (andThen s t)"
  unfolding adds_def by (fastforce simp: andThen_def bind_res_Inr_iff)

lemma adds_stop: "adds a (stop e)"
  by (simp add: adds_def stop_def)

lemma adds_memoize: "adds a (memoize (Some a))"
  by (auto simp: adds_def memoize_def split: if_splits)

lemma adds_in_order: "s \<in> set ss \<Longrightarrow> adds a s \<Longrightarrow> \<forall>t\<in>set ss. grows t \<Longrightarrow> adds a (in_order ss)"
  by (induction ss) (auto intro: adds_left adds_right grows_in_order)

lemma adds_batch_of:
  assumes "s \<in> set ss" "adds a s" "\<forall>t\<in>set ss. grows t" shows "adds a (batch_of one many ss)"
proof -
  have e: "grows (emit ops)" for ops by (simp add: grows_def emit_def)
  have "length ss > 1 \<or> ss = [s]" using assms(1) by (cases ss rule: remdups_adj.cases) auto
  then show ?thesis
    using adds_in_order [OF assms] by (auto simp: batch_of_def assms(2) intro: adds_left adds_right e)
qed

lemma adds_batches:
  "s \<in> set ss \<Longrightarrow> adds a s \<Longrightarrow> \<forall>t\<in>set ss. keeps f c t \<Longrightarrow> adds a (batches one many ss)"
proof (induction one many ss rule: batches.induct)
  case (1 one many items)
  have g: "\<forall>t\<in>set items. grows t" using 1(4) keeps_grows by blast
  have parts: "\<forall>t\<in>set (take BATCHSIZE items). grows t" "\<forall>t\<in>set (drop BATCHSIZE items). keeps f c t"
    using 1(4) g in_set_takeD in_set_dropD by fast+
  have "s \<in> set (take BATCHSIZE items) \<or> s \<in> set (drop BATCHSIZE items)"
    using 1(2) by (metis Un_iff append_take_drop_id set_append)
  then show ?case
  proof
    assume "s \<in> set (take BATCHSIZE items)"
    then show ?thesis
      using adds_batch_of [OF 1(2,3) g] adds_left [OF adds_batch_of [OF _ 1(3) parts(1)] keeps_grows [OF keeps_batches [OF parts(2)]]]
      by (subst batches.simps) simp
  next
    assume "s \<in> set (drop BATCHSIZE items)"
    then show ?thesis
      using adds_batch_of [OF 1(2,3) g] 1(1) [OF _ _ 1(3) parts(2)] adds_right by (subst batches.simps) auto
  qed
qed

lemma adds_save_dict:
  assumes "(k, v) \<in> set items" "adds a v" "\<forall>(k, v)\<in>set items. keeps f c k \<and> keeps f c v"
  shows "adds a (save_dict key items)"
  unfolding save_dict_def
  by (intro adds_right adds_batches [where s = "andThen k v", OF _ adds_right [OF assms(2)] keeps_items [OF assms(3)]])
    (use assms(1) in force)

lemma adds_save_tuple:
  assumes "s \<in> set ss" "adds a s" "\<forall>t\<in>set ss. keeps f c t"
  shows "adds a (save_tuple None ss)"
proof -
  have g: "\<forall>t\<in>set ss. grows t" using assms(3) keeps_grows by blast
  have "grows (finish_tuple None undo build)" for undo build
    by (rule keeps_grows [OF keeps_finish_tuple [of _ f c]]) simp
  then show ?thesis
    using adds_in_order [OF assms(1,2) g] assms(1) by (auto simp: save_tuple_def intro: adds_left adds_right)
qed

lemma adds_unless_memoized: "adds a s \<Longrightarrow> adds a (unless_memoized a s)"
  by (auto simp: adds_def unless_memoized_def in_memo_def split: if_splits)

lemma adds_class:
  assumes "h c = ClassObj name ''__main__'' (At (callable_at env TypeType)) bases d new"
  shows "adds c (save_obj env h n None (At c))"
proof -
  have "adds c (reduce_to s args (Some (Some c)))" for s args
    unfolding reduce_to_def save_reduce_def option.case
    by (intro adds_right [OF adds_left [OF adds_memoize]] grows_andThen grows_emit)
  then have "adds c (save_obj env h m (Some c) (h c))" for m
    unfolding assms save_inside
    by (auto simp: Let_def global_module_def bound_name_def main_module_def intro: adds_right adds_stop split: sum.splits option.splits)
  then show ?thesis
    unfolding save_obj.simps(1) by (auto intro!: adds_unless_memoized simp: assms adds_stop split: nat.splits)
qed

text \<open>The pickler while it saves, when the function \<open>f\<close> of the main module uses the class \<open>c\<close>.\<close>

definition uses_class :: "py_env \<Rightarrow> store \<Rightarrow> nat \<Rightarrow> nat \<Rightarrow> bool" where
  "uses_class env h f c \<longleftrightarrow>
     (\<exists>name file code base gs defaults closure d g.
        h f = FunObj name ''__main__'' file code base gs defaults closure d \<and> (g, At c) \<in> set gs) \<and>
     (\<exists>name bases d new. h c = ClassObj name ''__main__'' (At (callable_at env TypeType)) bases d new)"

lemma keeps_dict_of:
  "\<forall>kv\<in>set d. keeps f c (sv (snd kv)) \<Longrightarrow>
     \<forall>(k, v)\<in>set (map (\<lambda>kv. (save_str None (fst kv), sv (snd kv))) d). keeps f c k \<and> keeps f c v"
  by (auto intro: keeps_save_str)

lemma keeps_copy:
  assumes "keeps f c s1" "keeps f c s2" "keeps f c s3" "keeps f c gs" "key = Some f \<Longrightarrow> adds c gs"
    and "keeps f c s4" "keeps f c s5" "keeps f c s6"
  shows "keeps f c (function_copy s1 s2 s3 key gs s4 s5 s6)"
    and "key = Some f \<Longrightarrow> adds f (function_copy s1 s2 s3 key gs s4 s5 s6)"
proof -
  let ?ss = "[s1, s2, emit [OMark], s3, memoize key, gs, s4, s5, s6, emit [OTuple, OReduce]]"
  have g: "\<forall>t\<in>set ?ss. grows t"
    using assms keeps_grows by (auto intro: grows_emit grows_memoize)
  have "keeps f c (in_order ?ss)"
  proof (cases "key = Some f")
    case True
    have "adds c (in_order ?ss)" by (rule adds_in_order [OF _ assms(5) [OF True] g]) simp
    then show ?thesis using grows_keeps [OF grows_in_order [OF g]] by blast
  next
    case False
    then have "\<forall>t\<in>set ?ss. keeps f c t" using assms keeps_memoize keeps_basic(1) by auto
    then show ?thesis by (rule keeps_in_order)
  qed
  then show "keeps f c (function_copy s1 s2 s3 key gs s4 s5 s6)" by (simp only: function_copy_def)
  assume "key = Some f"
  then have "adds f (in_order ?ss)" by (intro adds_in_order [OF _ adds_memoize g]) simp
  then show "adds f (function_copy s1 s2 s3 key gs s4 s5 s6)" by (simp only: function_copy_def)
qed

lemma keeps_if: "(b \<Longrightarrow> keeps f c s) \<Longrightarrow> (\<not> b \<Longrightarrow> keeps f c t) \<Longrightarrow> keeps f c (if b then s else t)"
  by simp

lemma adds_with_imports: "(\<And>mods. adds a (g mods)) \<Longrightarrow> adds a (with_imports g choice)"
  unfolding adds_def with_imports_def by (fastforce split: prod.splits)

lemma keeps_fun:
  assumes u: "uses_class env h f c"
    and sub: "\<And>y. weight y < weight x \<Longrightarrow> keeps f c (save_obj env h n None y)"
    and x: "x = FunObj name m file code base gs defaults closure d" and key: "\<forall>a. key = Some a \<longrightarrow> h a = x"
  shows "keeps f c (save_obj env h n key x)" and "key = Some f \<Longrightarrow> adds f (save_obj env h n key x)"
proof -
  let ?dict = "\<lambda>kvs. save_dict None (map (\<lambda>kv. (save_str None (fst kv), save_obj env h n None (snd kv))) kvs)"
  have callee: "keeps f c (save_obj env h n None (At a))" for a
    by (rule sub) (simp add: x)
  have items: "\<forall>kv\<in>set kvs. keeps f c (save_obj env h n None (snd kv))" if "kvs = gs \<or> kvs = d" for kvs
    using that weight_value [of _ gs] weight_value [of _ d] sub by (fastforce simp: x)
  note pairs = keeps_dict_of [OF items]
  have dicts: "keeps f c (?dict kvs)" if "kvs = gs \<or> kvs = d" for kvs
    by (rule keeps_save_dict [OF _ pairs [OF that]]) simp
  have cells: "keeps f c (save_list None (map (save_obj env h n None) closure))"
    by (rule keeps_save_list) (use sub weight_elem [of _ closure] in \<open>fastforce simp: x\<close>)+
  have parts: "keeps f c (save_obj env h n None code)" "keeps f c (save_obj env h n None defaults)"
    by (rule sub; simp add: x)+
  have skel: "keeps f c (reduce_call_ops (save_obj env h n None (At (callable_at env MakeSkelFn)))
      (save_tuple None [save_obj env h n None code, emit [OInt i], save_obj env h n None (At base)]))" for i
    unfolding reduce_call_ops_def by (intro keeps_intros keeps_save_tuple) (auto intro: callee parts keeps_intros)
  have imps: "keeps f c (save_imports (save_obj env h n None (At (callable_at env ModsToMain))) (save_str None) mods)" for mods
    by (intro keeps_save_imports callee keeps_save_str) simp
  have used: "m = ''__main__'' \<and> adds c (?dict gs)" if "key = Some f"
    using u key that adds_class pairs [of gs] unfolding uses_class_def x
    by (auto intro!: adds_save_dict [where k = "save_str None _"] image_eqI)
  have by_copy: "\<not> fun_by_reference env key name m file" if "key = Some f"
    using used [OF that] by (simp add: fun_by_reference_def fun_module_def)
  note copy = keeps_copy [OF imps callee skel dicts conjunct2 [OF used] parts(2) cells dicts]
  have ref: "keeps f c (function_reference (save_obj env h n None (At (callable_at env RestoreAttrFn))) key m name (d = []) (?dict d))"
    if "key \<noteq> Some f"
    using that callee dicts by (auto simp: function_reference_def intro!: keeps_intros keeps_memoize)
  have mod: "keeps f c (case fun_module env m of None \<Rightarrow> emit [] | Some m' \<Rightarrow> add_module m')"
    by (auto intro: keeps_intros split: option.splits)
  show "keeps f c (save_obj env h n key x)"
    unfolding x save_inside Let_def
    by (intro keeps_andThen [OF mod] keeps_if keeps_with_imports copy(1) ref) (use by_copy in auto)
  assume f: "key = Some f"
  show "adds f (save_obj env h n key x)"
    unfolding x save_inside Let_def if_not_P [OF by_copy [OF f]]
    by (intro adds_right adds_with_imports copy(2) f) auto
qed

lemma keeps_pairs:
  assumes "\<And>y. weight y < w \<Longrightarrow> keeps f c (save_obj env h n None y)"
    and "\<forall>kv\<in>set kvs. weight (fst kv) + weight (snd kv) < w"
  shows "\<forall>(k, v)\<in>set (map (\<lambda>kv. (save_obj env h n None (fst kv), save_obj env h n None (snd kv))) kvs). keeps f c k \<and> keeps f c v"
  using assms by (fastforce dest: add_lessD1 intro: le_less_trans [OF le_add2])

lemma keeps_lower: "(\<And>m. m < n \<Longrightarrow> keeps f c (s m)) \<Longrightarrow> keeps f c (case n of 0 \<Rightarrow> stop e | Suc n' \<Rightarrow> s n')"
  by (cases n) (auto intro: keeps_basic)

lemmas keeps_rules = keeps_intros keeps_memoize keeps_save_str keeps_save_list keeps_save_dict keeps_reduce_to
  keeps_save_reference keeps_save_tuple

lemma keeps_containers:
  assumes sub: "\<And>y. weight y < weight x \<Longrightarrow> keeps f c (save_obj env h n None y)" and key: "key \<noteq> Some f"
    and x: "is_plain x \<or> is_TupleObj x"
  shows "keeps f c (save_obj env h n key x)"
proof (cases x)
  case (TupleObj xs)
  then show ?thesis using sub weight_elem [of _ xs] key by (fastforce simp: save_inside intro!: keeps_save_tuple)
next
  case (ListObj xs)
  then show ?thesis using sub weight_elem [of _ xs] key by (fastforce simp: save_inside intro!: keeps_save_list)
next
  case (DictObj kvs)
  have "\<forall>kv\<in>set kvs. weight (fst kv) + weight (snd kv) < weight x"
    using weight_pair by (fastforce simp: DictObj)
  from keeps_pairs [OF sub this] show ?thesis unfolding DictObj save_inside by (intro keeps_save_dict key)
qed (use key x in \<open>auto simp: save_inside intro: keeps_rules\<close>)

lemma keeps_calls:
  assumes sub: "\<And>y. weight y < weight x \<Longrightarrow> keeps f c (save_obj env h n None y)" and key: "key \<noteq> Some f"
    and x: "is_call x \<or> is_global x"
  shows "keeps f c (save_obj env h n key x)"
proof -
  have callee: "keeps f c (save_obj env h n None (At a))" if "0 < weight x" for a
    by (rule sub) (use that in simp)
  show ?thesis
  proof (cases x)
    case (CodeObj xs)
    have "\<forall>y\<in>set xs. keeps f c (save_obj env h n None y)" using sub weight_elem [of _ xs] by (fastforce simp: CodeObj)
    then show ?thesis unfolding CodeObj save_inside using callee key by (intro keeps_reduce_to) (auto simp: CodeObj)
  next
    case (ClassObj name m ty bases d new)
    have "\<forall>kv\<in>set (class_dict h d new). keeps f c (save_obj env h n None (snd kv))"
      using weight_class_dict sub by (fastforce simp: ClassObj)
    note dict = keeps_save_dict [OF _ keeps_dict_of [OF this], of None]
    have "keeps f c (reduce_to (save_obj env h n None ty) [save_str None name, save_obj env h n None bases,
        save_dict None (map (\<lambda>kv. (save_str None (fst kv), save_obj env h n None (snd kv))) (class_dict h d new))] (Some key))"
      by (rule keeps_reduce_to) (use sub dict key in \<open>auto simp: ClassObj intro: keeps_save_str\<close>)
    then show ?thesis using key
      by (auto simp: ClassObj save_inside Let_def intro!: keeps_rules split: sum.splits option.splits)
  qed (use x sub callee key in \<open>auto simp: save_inside prod.case_eq_if intro!: keeps_rules split: sum.splits option.splits\<close>)
qed

lemma keeps_inst:
  assumes sub: "\<And>y. weight y < weight x \<Longrightarrow> keeps f c (save_obj env h n None y)"
    and level: "\<And>m y. m < n \<Longrightarrow> keeps f c (save_obj env h m None y)" and key: "key \<noteq> Some f"
    and x: "x = InstObj cls args getstate d transient"
  shows "keeps f c (save_obj env h n key x)"
proof -
  have "\<forall>s\<in>set (case args of None \<Rightarrow> [] | Some xs \<Rightarrow> map (save_obj env h n None) xs). keeps f c s"
    using sub weight_elem by (fastforce simp: x split: option.splits)
  then show ?thesis
    using sub level key
    by (auto simp: x save_inside Let_def intro!: keeps_rules keeps_lower [where s = "\<lambda>m. save_obj env h m None _"]
        split: option.splits sum.splits)
qed

lemma keeps_reduced:
  assumes sub: "\<And>y. weight y < weight x \<Longrightarrow> keeps f c (save_obj env h n None y)"
    and level: "\<And>m y. m < n \<Longrightarrow> keeps f c (save_obj env h m None y)" and key: "key \<noteq> Some f"
    and x: "x = ReduceObj func rargs state li di \<or> x = NewObj nargs state li di cls transient"
  shows "keeps f c (save_obj env h n key x)"
proof -
  have di: "\<forall>kv\<in>set kvs. weight (fst kv) + weight (snd kv) < weight x" if "di = Some kvs" for kvs
    using weight_pair that x by fastforce
  have li: "\<forall>y\<in>set ys. weight y < weight x" if "li = Some ys" for ys
    using weight_elem that x by fastforce
  have na: "\<forall>y\<in>set nargs. weight y < weight x" if "x = NewObj nargs state li di cls transient"
    using weight_elem [of _ nargs] that by fastforce
  have reduce: "keeps f c (save_reduce call st (map_option (map (save_obj env h n None)) li)
      (map_option (map (\<lambda>kv. (save_obj env h n None (fst kv), save_obj env h n None (snd kv)))) di) (Some key))"
    if "keeps f c call" "\<forall>s. st = Some s \<longrightarrow> keeps f c s" for call st
    by (rule keeps_save_reduce [OF that]) (use key sub li keeps_pairs [OF sub di] in auto)
  have lower: "keeps f c (case n of 0 \<Rightarrow> stop RuntimeError | Suc n' \<Rightarrow> save_obj env h n' None stuff)" for stuff
    by (intro keeps_lower level)
  from x show ?thesis
  proof
    assume r: "x = ReduceObj func rargs state li di"
    have "keeps f c (reduce_call_ops (save_obj env h n None func) (save_obj env h n None rargs))"
      unfolding reduce_call_ops_def by (intro keeps_intros sub) (simp_all add: r)
    moreover have "\<forall>s. map_option (save_obj env h n None) state = Some s \<longrightarrow> keeps f c s"
      using sub by (auto simp: r)
    ultimately show ?thesis
      unfolding r save_inside by (intro keeps_if keeps_basic reduce)
  next
    assume r: "x = NewObj nargs state li di cls transient"
    show ?thesis
    proof (cases nargs)
      case Nil
      then show ?thesis by (simp add: r save_inside keeps_basic)
    next
      case (Cons a rest)
      have "keeps f c (andThen (save_obj env h n None a)
          (andThen (save_tuple None (map (save_obj env h n None) rest)) (emit [ONewObj])))"
        using sub na [OF r] Cons by (auto intro!: keeps_rules)
      moreover have "\<forall>s. (if transient = None then map_option (save_obj env h n None) state
          else map_option (\<lambda>stuff. case n of 0 \<Rightarrow> stop RuntimeError | Suc n' \<Rightarrow> save_obj env h n' None stuff) state') = Some s \<longrightarrow>
          keeps f c s" for state'
        using sub lower by (auto simp: r)
      ultimately show ?thesis
        unfolding r Cons save_inside list.case
        by (cases "transient_state h transient state"; simp only: sum.case; intro keeps_if keeps_basic reduce)
    qed
  qed
qed

lemma keeps_save_obj:
  assumes u: "uses_class env h f c" and key: "\<forall>a. key = Some a \<longrightarrow> h a = x"
  shows "keeps f c (save_obj env h n key x)"
  using key
proof (induction n arbitrary: key x rule: less_induct)
  case (less n)
  show ?case
    using less.prems
  proof (induction x arbitrary: key rule: measure_induct_rule [of weight])
    case (less x)
    note level = \<open>\<And>m key x. m < n \<Longrightarrow> \<forall>a. key = Some a \<longrightarrow> h a = x \<Longrightarrow> keeps f c (save_obj env h m key x)\<close>
    have sub: "keeps f c (save_obj env h n None y)" if "weight y < weight x" for y
      using less.IH [OF that] by simp
    have level1: "keeps f c (save_obj env h m None y)" if "m < n" for m y
      by (rule level [OF that]) simp
    have no_fun: "key \<noteq> Some f" if "\<And>name m file code base gs defaults closure d. x \<noteq> FunObj name m file code base gs defaults closure d"
      using u less.prems that unfolding uses_class_def by metis
    have rest: "keeps f c (save_obj env h n key x)" if "is_plain x \<or> is_TupleObj x \<or> is_call x \<or> is_global x"
    proof -
      have "key \<noteq> Some f" by (rule no_fun) (use that in auto)
      then show ?thesis using that keeps_containers [OF sub] keeps_calls [OF sub] by blast
    qed
    show ?case
    proof (cases x)
      case (At a)
      show ?thesis unfolding At save_obj.simps(1)
        by (intro keeps_intros keeps_lower keeps_if level) simp_all
    next
      case (FunObj name m fname code base gs defaults closure d)
      show ?thesis by (rule keeps_fun(1) [OF u sub FunObj less.prems])
    next
      case (InstObj c args getstate d transient)
      show ?thesis by (rule keeps_inst [OF sub level1 no_fun InstObj]) (use InstObj in auto)
    next
      case (ReduceObj func args state li di)
      show ?thesis by (rule keeps_reduced [OF sub level1 no_fun]) (use ReduceObj in auto)
    next
      case (NewObj args state li di c transient)
      show ?thesis by (rule keeps_reduced [OF sub level1 no_fun]) (use NewObj in auto)
    qed (use rest in simp_all)
  qed
qed

lemma adds_function:
  assumes u: "uses_class env h f c" shows "adds f (save_obj env h n None (At f))"
proof (cases n)
  case 0
  then show ?thesis by (auto simp: save_obj.simps(1) intro!: adds_unless_memoized adds_stop)
next
  case (Suc m)
  obtain name m' fname code base gs defaults closure d where f: "h f = FunObj name m' fname code base gs defaults closure d"
    using u unfolding uses_class_def by blast
  have "adds f (save_obj env h m (Some f) (h f))"
    by (rule keeps_fun(2) [OF u _ f]) (auto intro: keeps_save_obj [OF u])
  then show ?thesis by (auto simp: save_obj.simps(1) Suc f intro!: adds_unless_memoized)
qed

text \<open>Saving the arguments of the class puts it into the memo, so that it can not be memoized itself.\<close>

lemma self_reference_fails:
  assumes u: "uses_class env h f c" and d: "h c = ClassObj name ''__main__'' (At (callable_at env TypeType)) bases d new"
    and attr: "(attr, At f) \<in> set (class_dict h d new)"
    and st: "Some f \<notin> set (ps_memo st)" and run: "save_obj env h n (Some c) (h c) st = Inr (ops, st')"
  shows False
proof -
  let ?items = "map (\<lambda>kv. (save_str None (fst kv), save_obj env h n None (snd kv))) (class_dict h d new)"
  let ?args = "[save_str None name, save_obj env h n None bases, save_dict None ?items]"
  let ?call = "reduce_call_ops (save_obj env h n None (At (callable_at env TypeType))) (save_tuple None ?args)"
  have k: "keeps f c (save_obj env h n None y)" for y by (rule keeps_save_obj [OF u]) simp
  note pairs = keeps_dict_of [where sv = "save_obj env h n None" and d = "class_dict h d new"]
  have items: "\<forall>(k, v)\<in>set ?items. keeps f c k \<and> keeps f c v" by (rule pairs) (simp add: k)
  have args: "\<forall>s\<in>set ?args. keeps f c s"
    using keeps_save_dict [OF _ items, of None] k by (auto intro: keeps_save_str)
  have "adds f (save_dict None ?items)"
    by (rule adds_save_dict [OF _ adds_function [OF u] items]) (use attr in force)
  then have "adds f (save_tuple None ?args)" by (intro adds_save_tuple [OF _ _ args]) auto
  then have adds: "adds f ?call"
    unfolding reduce_call_ops_def by (intro adds_right adds_left grows_emit)
  have keeps: "keeps f c ?call"
    unfolding reduce_call_ops_def by (intro keeps_intros keeps_save_tuple args k) simp
  have m: "main_module env ''__main__'' = emit []" by (simp add: main_module_def)
  have "andThen (emit []) (reduce_to (save_obj env h n None (At (callable_at env TypeType))) ?args (Some (Some c))) st = Inr (ops, st')"
    using run unfolding d save_inside
    by (auto simp: Let_def global_module_def bound_name_def m stop_def split: if_splits sum.splits option.splits)
  then obtain o1 st1 where call: "?call st = Inr (o1, st1)" and put: "\<exists>r. memoize (Some c) st1 = Inr r"
    by (fastforce simp: reduce_to_def save_reduce_def andThen_def emit_def bind_res_Inr_iff)
  have "Some f \<in> set (ps_memo st1)" using adds call unfolding adds_def by blast
  then have "Some c \<in> set (ps_memo st1)" using keeps call st unfolding keeps_def by blast
  then show False using put by (auto simp: memoize_def in_memo_def)
qed

section \<open>Properties\<close>

text \<open>
  C38: dumping a class of the main module that is copied, with a method that uses the class by its name, always
  fails, whatever the recursion limit is: the class is met again below its own arguments, where it is not in the
  memo yet. (Dumping the method is another matter: the class is then met below the method, which is in the memo.)
\<close>

theorem self_referencing_class_never_pickles:
  assumes "uses_class env h f c" and "h c = ClassObj name ''__main__'' (At (callable_at env TypeType)) bases d new"
    and "(attr, At f) \<in> set d" and "attr \<notin> {''__new__'', ''__weakref__'', ''__dict__''}"
  shows "\<exists>e. cloud_dumps env h n (At c) = Inl e"
proof (rule ccontr)
  assume "\<nexists>e. cloud_dumps env h n (At c) = Inl e"
  then obtain ops st' where run: "save_obj env h n None (At c) new_pstate = Inr (ops, st')"
    by (cases "save_obj env h n None (At c) new_pstate") (auto simp: cloud_dumps_def)
  have "(attr, At f) \<in> set (class_dict h d new)"
    using assms(3,4) by (force simp: class_dict_def)
  moreover obtain m where "save_obj env h m (Some c) (h c) new_pstate = Inr (ops, st')"
    using run assms(2) by (cases n) (auto simp: save_obj.simps(1) unless_memoized_def in_memo_def new_pstate_def stop_def)
  ultimately show False
    using self_reference_fails [OF assms(1,2)] by (fastforce simp: new_pstate_def)
qed

theorem self_referencing_class_never_pickles_witness:
  "\<exists>e. cloud_dumps example_env example_store 9 (At 1) = Inl e"
  by (rule self_referencing_class_never_pickles [where f = 2 and attr = "''g''" and d = "[(''g'', At 2)]"])
    (simp_all add: uses_class_def example_env_def example_store_def)

end
