(* ===== verification/KMeansJob.thy ===== *)
theory KMeansJob
  imports Sampler Joins
begin

text \<open>
  The example program \<open>examples/src/main/python/kmeans.py\<close>: Lloyd's iteration over the operations of the
  library. Vectors have real entries and the points one common length, as \<open>numpy\<close> demands when it
  adds them.
\<close>

section \<open>The program\<close>

definition np_distance :: "real list \<Rightarrow> real list \<Rightarrow> real" where
  "np_distance p c = sum_list (map (\<lambda>(a, b). (a - b)\<^sup>2) (zip p c))"

text \<open>\<open>closestPoint\<close>; the least distance so far is None at the beginning, for infinity.\<close>

fun closest_loop :: "real list \<Rightarrow> real list list \<Rightarrow> nat \<Rightarrow> nat \<Rightarrow> real option \<Rightarrow> nat" where
  "closest_loop p [] i bestIndex closest = bestIndex"
| "closest_loop p (c # cs) i bestIndex closest =
     (let tempDist = np_distance p c in
      if (case closest of None \<Rightarrow> True | Some d \<Rightarrow> tempDist < d) then closest_loop p cs (i + 1) i (Some tempDist)
      else closest_loop p cs (i + 1) bestIndex closest)"

definition closestPoint :: "real list \<Rightarrow> real list list \<Rightarrow> nat" where
  "closestPoint p centers = closest_loop p centers 0 0 None"

fun add_stats :: "real list \<times> int \<Rightarrow> real list \<times> int \<Rightarrow> real list \<times> int" where
  "add_stats (x1, y1) (x2, y2) = (map (\<lambda>(a, b). a + b) (zip x1 x2), y1 + y2)"

definition newPoints ::
  "(nat, real list \<times> int) shuffle_env \<Rightarrow> real list partitions \<Rightarrow> real list list \<Rightarrow> (nat \<times> real list) list res" where
  "newPoints env data kPoints =
     (let closest = rdd_map (\<lambda>p. (closestPoint p kPoints, (p, 1))) data in
      map_res (\<lambda>pointStats. collect (rdd_map (\<lambda>(x, (y, z)). (x, map (\<lambda>v. v / of_int z) y)) pointStats))
        (reduceByKey env add_stats None closest))"

definition moved :: "real list list \<Rightarrow> (nat \<times> real list) list \<Rightarrow> real res" where
  "moved kPoints new =
     map_res sum_list (mapM_res (\<lambda>(x, y). if x < length kPoints then Inr (np_distance (kPoints ! x) y) else Inl IndexError) new)"

definition kmeans_round ::
  "(nat, real list \<times> int) shuffle_env \<Rightarrow> real list partitions \<Rightarrow> real list list \<Rightarrow> (real \<times> real list list) res" where
  "kmeans_round env data kPoints =
     bind_res (newPoints env data kPoints) (\<lambda>new.
     map_res (\<lambda>tempDist. (tempDist, fold (\<lambda>(x, y) ks. ks[x := y]) new kPoints)) (moved kPoints new))"

partial_function (option) kmeans_loop ::
  "(nat, real list \<times> int) shuffle_env \<Rightarrow> real list partitions \<Rightarrow> real \<Rightarrow> real \<Rightarrow> real list list \<Rightarrow> real list list res option"
where
  "kmeans_loop env data convergeDist tempDist kPoints =
     (if tempDist > convergeDist then
        (case kmeans_round env data kPoints of
           Inl e \<Rightarrow> Some (Inl e)
         | Inr (tempDist', kPoints') \<Rightarrow> kmeans_loop env data convergeDist tempDist' kPoints')
      else Some (Inr kPoints))"

definition kmeans_job ::
  "'g sampler_cfg \<Rightarrow> 'h rng \<Rightarrow> (nat, real list \<times> int) shuffle_env \<Rightarrow> real list partitions \<Rightarrow> int \<Rightarrow> real \<Rightarrow> real list list res option"
where
  "kmeans_job cfg prng env data K convergeDist =
     (case takeSample cfg prng False K (Some 1) data of
        None \<Rightarrow> None
      | Some (Inl e) \<Rightarrow> Some (Inl e)
      | Some (Inr kPoints) \<Rightarrow> kmeans_loop env data convergeDist 1 kPoints)"

text \<open>The whole program, from the lines of the file; a number that cannot be read ends it.\<close>

definition parseVector :: "(string \<Rightarrow> real res) \<Rightarrow> string \<Rightarrow> real list res" where
  "parseVector parse_float line = mapM_res parse_float (py_split CHR '' '' line)"

definition kmeans_program ::
  "(string \<Rightarrow> real res) \<Rightarrow> 'g sampler_cfg \<Rightarrow> 'h rng \<Rightarrow> (nat, real list \<times> int) shuffle_env \<Rightarrow> string partitions \<Rightarrow> int \<Rightarrow> real \<Rightarrow>
     real list list res option"
where
  "kmeans_program parse_float cfg prng env lines K convergeDist =
     (case mapM_res (mapM_res (parseVector parse_float)) lines of
        Inl e \<Rightarrow> Some (Inl e)
      | Inr data \<Rightarrow> kmeans_job cfg prng env data K convergeDist)"

section \<open>Distances and closest centers\<close>

lemma np_distance_sum:
  "length p = d \<Longrightarrow> length c = d \<Longrightarrow> np_distance p c = (\<Sum>j<d. (p ! j - c ! j)\<^sup>2)"
  by (simp add: np_distance_def sum_list_sum_nth atLeast0LessThan)

lemma np_distance_nonneg: "0 \<le> np_distance p c"
  unfolding np_distance_def by (rule sum_list_nonneg) auto

lemma closest_loop_spec:
  "k = closest_loop p cs i best closest \<Longrightarrow>
     (case closest of None \<Rightarrow> True | Some d \<Rightarrow> best < i \<and> d = f best) \<Longrightarrow> (\<forall>j<length cs. f (i + j) = np_distance p (cs ! j)) \<Longrightarrow>
     cs \<noteq> [] \<or> closest \<noteq> None \<Longrightarrow>
     k < i + length cs \<and> (\<forall>j<length cs. f k \<le> f (i + j)) \<and> (closest \<noteq> None \<longrightarrow> f k \<le> f best)"
proof (induction cs arbitrary: i best closest)
  case Nil
  then show ?case by (auto split: option.splits)
next
  case (Cons c cs)
  have fi: "f i = np_distance p c" using Cons.prems(3) by force
  have rest: "\<forall>j<length cs. f (Suc i + j) = np_distance p (cs ! j)" using Cons.prems(3) by force
  let ?better = "case closest of None \<Rightarrow> True | Some d \<Rightarrow> np_distance p c < d"
  let ?best = "if ?better then i else best" and ?closest = "if ?better then Some (np_distance p c) else closest"
  have "k = closest_loop p cs (Suc i) ?best ?closest"
    using Cons.prems(1) by (simp add: Let_def)
  moreover have "case ?closest of None \<Rightarrow> True | Some d \<Rightarrow> ?best < Suc i \<and> d = f ?best"
    using Cons.prems(2) fi by (auto split: option.splits)
  moreover have "?closest \<noteq> None" by (cases closest) auto
  ultimately have k: "k < Suc i + length cs" "\<forall>j<length cs. f k \<le> f (Suc i + j)" "f k \<le> f ?best"
    using Cons.IH [of "Suc i" ?best ?closest] rest by auto
  have "f k \<le> f i" "closest \<noteq> None \<Longrightarrow> f k \<le> f best"
    using k(3) Cons.prems(2) fi by (auto split: option.splits if_splits)
  moreover have "f k \<le> f (i + j)" if "j < length (c # cs)" for j
    using that k(2) \<open>f k \<le> f i\<close> by (cases j) auto
  ultimately show ?case using k(1) by auto
qed

lemma closestPoint_nearest:
  assumes "ks \<noteq> []"
  shows "closestPoint p ks < length ks"
    and "j < length ks \<Longrightarrow> np_distance p (ks ! closestPoint p ks) \<le> np_distance p (ks ! j)"
  using closest_loop_spec [of "closestPoint p ks" p ks 0 0 None "\<lambda>j. np_distance p (ks ! j)"] assms
  by (auto simp: closestPoint_def)

text \<open>The sum of the squared distances of all points to the nearest center.\<close>

definition cost :: "real list list \<Rightarrow> real list list \<Rightarrow> real" where
  "cost pts ks = sum_list (map (\<lambda>p. np_distance p (ks ! closestPoint p ks)) pts)"

lemma cost_nonneg: "0 \<le> cost pts ks"
  unfolding cost_def by (rule sum_list_nonneg) (auto simp: np_distance_nonneg)

lemma cost_least:
  assumes "ks \<noteq> []" and "\<forall>p\<in>set pts. a p < length ks"
  shows "cost pts ks \<le> sum_list (map (\<lambda>p. np_distance p (ks ! a p)) pts)"
  unfolding cost_def by (rule sum_list_mono) (use assms closestPoint_nearest(2) in blast)

section \<open>Means\<close>

text \<open>Moving a center to the mean of its points lowers the sum of squares by the distance it moves.\<close>

definition mean :: "nat \<Rightarrow> real list list \<Rightarrow> real list" where
  "mean d ps = map (\<lambda>j. sum_list (map (\<lambda>p. p ! j) ps) / real (length ps)) [0..<d]"

lemma sum_squares_shift:
  fixes xs :: "real list"
  assumes "xs \<noteq> []" and "m = sum_list xs / real (length xs)"
  shows "sum_list (map (\<lambda>x. (x - c)\<^sup>2) xs) = sum_list (map (\<lambda>x. (x - m)\<^sup>2) xs) + real (length xs) * (m - c)\<^sup>2"
proof -
  have "sum_list (map (\<lambda>x. (x - c)\<^sup>2) ys) =
      sum_list (map (\<lambda>x. (x - m)\<^sup>2) ys) + 2 * (m - c) * (sum_list ys - real (length ys) * m) + real (length ys) * (m - c)\<^sup>2" for ys
    by (induction ys) (simp_all add: algebra_simps power2_eq_square)
  moreover have "sum_list xs - real (length xs) * m = 0" using assms by simp
  ultimately show ?thesis by simp
qed

lemma sum_swap: "sum_list (map (\<lambda>p. \<Sum>j\<in>J. g p j) ps) = (\<Sum>j\<in>J. sum_list (map (\<lambda>p. g p j) ps))"
  by (induction ps) (simp_all add: sum.distrib)

lemma length_mean [simp]: "length (mean d ps) = d"
  by (simp add: mean_def)

lemma mean_lowers:
  assumes "ps \<noteq> []" and "\<forall>p\<in>set ps. length p = d" and "length c = d"
  shows "sum_list (map (\<lambda>p. np_distance p c) ps) =
    sum_list (map (\<lambda>p. np_distance p (mean d ps)) ps) + real (length ps) * np_distance c (mean d ps)"
proof -
  have dist: "sum_list (map (\<lambda>p. np_distance p q) ps) = (\<Sum>j<d. sum_list (map (\<lambda>p. (p ! j - q ! j)\<^sup>2) ps))"
    if "length q = d" for q
  proof -
    have "map (\<lambda>p. np_distance p q) ps = map (\<lambda>p. \<Sum>j<d. (p ! j - q ! j)\<^sup>2) ps"
      using assms(2) that by (auto simp: np_distance_sum)
    then show ?thesis by (simp only: sum_swap)
  qed
  have "sum_list (map (\<lambda>p. (p ! j - c ! j)\<^sup>2) ps) =
      sum_list (map (\<lambda>p. (p ! j - mean d ps ! j)\<^sup>2) ps) + real (length ps) * (mean d ps ! j - c ! j)\<^sup>2" if "j < d" for j
    using sum_squares_shift [of "map (\<lambda>p. p ! j) ps" "mean d ps ! j" "c ! j"] assms(1) that
    by (simp add: mean_def comp_def)
  then have "(\<Sum>j<d. sum_list (map (\<lambda>p. (p ! j - c ! j)\<^sup>2) ps)) =
      (\<Sum>j<d. sum_list (map (\<lambda>p. (p ! j - mean d ps ! j)\<^sup>2) ps)) + real (length ps) * (\<Sum>j<d. (mean d ps ! j - c ! j)\<^sup>2)"
    by (simp add: sum.distrib sum_distrib_left)
  moreover have "(\<Sum>j<d. (mean d ps ! j - c ! j)\<^sup>2) = np_distance c (mean d ps)"
    using assms(3) by (simp add: np_distance_sum power2_commute)
  ultimately show ?thesis using dist assms(3) by simp
qed

section \<open>One round\<close>

text \<open>The points of a cluster.\<close>

definition cluster :: "real list list \<Rightarrow> real list list \<Rightarrow> nat \<Rightarrow> real list list" where
  "cluster pts ks i = filter (\<lambda>p. closestPoint p ks = i) pts"

lemma add_stats_assoc: "add_stats (add_stats x y) z = add_stats x (add_stats y z)"
proof -
  have "map (\<lambda>(a, b). a + b) (zip (map (\<lambda>(a, b). a + b) (zip us vs)) ws) =
      map (\<lambda>(a, b). a + b) (zip us (map (\<lambda>(a, b). a + b) (zip vs ws)))" for us vs ws :: "real list"
    by (rule nth_equalityI) (simp_all add: add.assoc min.assoc)
  then show ?thesis by (cases x; cases y; cases z) simp
qed

lemma add_stats_commute: "add_stats x y = add_stats y x"
proof -
  have "map (\<lambda>(a, b). a + b) (zip us vs) = map (\<lambda>(a, b). a + b) (zip vs us)" for us vs :: "real list"
    by (rule nth_equalityI) (simp_all add: add.commute min.commute)
  then show ?thesis by (cases x; cases y) simp
qed

interpretation stats_op: reduce_operator add_stats "\<lambda>_. False"
  by unfold_locales (rule add_stats_assoc add_stats_commute | simp)+

lemma foldl_add_stats:
  assumes "length q = d" and "\<forall>p\<in>set ps. length p = d"
  shows "foldl add_stats (q, n) (map (\<lambda>p. (p, 1)) ps) =
    (map (\<lambda>j. q ! j + sum_list (map (\<lambda>p. p ! j) ps)) [0..<d], n + int (length ps))"
  using assms
proof (induction ps arbitrary: q n)
  case Nil
  then show ?case by (auto intro: nth_equalityI)
next
  case (Cons p ps)
  let ?q = "map (\<lambda>(a, b). a + b) (zip q p)"
  have "length ?q = d" "\<forall>j<d. ?q ! j = q ! j + p ! j" using Cons.prems by simp_all
  then show ?case using Cons.IH [of ?q "n + 1"] Cons.prems by (simp add: add.assoc)
qed

lemma values_of_clusters:
  "values_of i (map (\<lambda>p. (closestPoint p ks, (p, 1 :: int))) pts) = map (\<lambda>p. (p, 1)) (cluster pts ks i)"
  by (induction pts) (simp_all add: values_of_simps cluster_def)

text \<open>What a round computes: for every cluster that is not empty, its mean.\<close>

lemma newPoints_means:
  assumes "shuffle_ok env" and "0 < defaultParallelism env" and "\<forall>p\<in>set (collect data). length p = d"
  shows "\<exists>new. newPoints env data ks = Inr new \<and> distinct (map fst new) \<and>
    (\<forall>i. map_of new i = (let ps = cluster (collect data) ks i in if ps = [] then None else Some (mean d ps)))"
proof -
  let ?closest = "rdd_map (\<lambda>p. (closestPoint p ks, (p, 1))) data" and ?g = "\<lambda>(x, (y, z)). (x, map (\<lambda>v. v / of_int z) y)"
  let ?div = "\<lambda>(y, z). map (\<lambda>v. v / of_int z) y"
  have n: "num_partitions env None = defaultParallelism env" by (simp add: num_partitions_def)
  obtain out where out: "reduceByKey env add_stats None ?closest = Inr out" "distinct (map fst (collect out))"
    and lookup: "\<forall>i. map_of (collect out) i =
       (case values_of i (collect ?closest) of [] \<Rightarrow> None | v # vs \<Rightarrow> Some (foldl add_stats v vs))"
    using stats_op.reduceByKey_lookup [OF assms(1) n assms(2), of ?closest] by blast
  have pairs: "collect ?closest = map (\<lambda>p. (closestPoint p ks, (p, 1))) (collect data)"
    by (rule collect_rdd_map)
  have new: "newPoints env data ks = Inr (map ?g (collect out))"
    by (simp only: newPoints_def Let_def out(1) map_res.simps collect_rdd_map)
  have g: "map ?g xs = map (\<lambda>(x, yz). (x, ?div yz)) xs" for xs :: "(nat \<times> real list \<times> int) list"
    by (simp add: case_prod_unfold)
  have "map_of (map ?g (collect out)) i =
      (let ps = cluster (collect data) ks i in if ps = [] then None else Some (mean d ps))" for i
  proof (cases "cluster (collect data) ks i")
    case Nil
    then show ?thesis using lookup unfolding g map_of_map by (simp add: pairs values_of_clusters)
  next
    case (Cons p ps)
    have "set (p # ps) \<subseteq> set (collect data)" unfolding Cons [symmetric] by (auto simp: cluster_def)
    then have len: "length p = d" "\<forall>q\<in>set ps. length q = d" using assms(3) by auto
    have "map_of (collect out) i = Some (foldl add_stats (p, 1) (map (\<lambda>p. (p, 1)) ps))"
      using lookup Cons by (simp add: pairs values_of_clusters)
    then show ?thesis
      unfolding g map_of_map foldl_add_stats [OF len] Cons by (simp add: mean_def Let_def comp_def)
  qed
  moreover have "distinct (map fst (map ?g (collect out)))"
    using out(2) by (simp add: case_prod_unfold comp_def)
  ultimately show ?thesis using new by blast
qed

text \<open>The centers after the assignments \<open>kPoints[x] = y\<close>.\<close>

definition new_centers :: "nat \<Rightarrow> real list list \<Rightarrow> real list list \<Rightarrow> real list list" where
  "new_centers d pts ks = map (\<lambda>i. if cluster pts ks i = [] then ks ! i else mean d (cluster pts ks i)) [0..<length ks]"

lemma fold_assign:
  "distinct (map fst new) \<Longrightarrow> length (fold (\<lambda>(x, y) ks. ks[x := y]) new ks) = length ks \<and>
     (\<forall>i<length ks. fold (\<lambda>(x, y) ks. ks[x := y]) new ks ! i = (case map_of new i of None \<Rightarrow> ks ! i | Some y \<Rightarrow> y))"
proof (induction new arbitrary: ks)
  case (Cons a new)
  obtain x y where a: "a = (x, y)" by (cases a)
  then have "map_of new x = None" using Cons.prems by (simp add: map_of_eq_None_iff)
  then show ?case using Cons.IH [of "ks[x := y]"] Cons.prems by (auto simp: a nth_list_update split: option.split)
qed simp

lemma kmeans_round_means:
  assumes "shuffle_ok env" and "0 < defaultParallelism env" and "\<forall>p\<in>set (collect data). length p = d" and "ks \<noteq> []"
  defines "pts \<equiv> collect data"
  shows "kmeans_round env data ks =
    Inr (\<Sum>i | i < length ks \<and> cluster pts ks i \<noteq> []. np_distance (ks ! i) (mean d (cluster pts ks i)), new_centers d pts ks)"
proof -
  obtain new where new: "newPoints env data ks = Inr new" "distinct (map fst new)"
    and lookup: "\<forall>i. map_of new i = (let ps = cluster pts ks i in if ps = [] then None else Some (mean d ps))"
    using newPoints_means [OF assms(1-3), of ks] unfolding pts_def by blast
  have mem: "(i, y) \<in> set new \<longleftrightarrow> cluster pts ks i \<noteq> [] \<and> y = mean d (cluster pts ks i)" for i y
    using map_of_eq_Some_iff [OF new(2), of i y] lookup by (cases "cluster pts ks i = []") (auto simp: Let_def)
  have below: "i < length ks" if "cluster pts ks i \<noteq> []" for i
  proof -
    have "set (cluster pts ks i) \<noteq> {}" using that by simp
    then obtain p where "closestPoint p ks = i" by (auto simp: cluster_def)
    then show ?thesis using closestPoint_nearest(1) [OF assms(4), of p] by simp
  qed
  have "mapM_res (\<lambda>(x, y). if x < length ks then Inr (np_distance (ks ! x) y) else Inl IndexError) new =
      Inr (map (\<lambda>(x, y). np_distance (ks ! x) y) new)"
    by (rule mapM_res_Inr) (use mem below in auto)
  then have "moved ks new = Inr (sum_list (map (\<lambda>(x, y). np_distance (ks ! x) y) new))" by (simp add: moved_def)
  also have "sum_list (map (\<lambda>(x, y). np_distance (ks ! x) y) new) = (\<Sum>(x, y)\<in>set new. np_distance (ks ! x) y)"
    using new(2) by (simp add: sum_list_distinct_conv_sum_set distinct_map)
  also have "\<dots> = (\<Sum>i | i < length ks \<and> cluster pts ks i \<noteq> []. np_distance (ks ! i) (mean d (cluster pts ks i)))"
    by (rule sum.reindex_bij_witness [where i = "\<lambda>i. (i, mean d (cluster pts ks i))" and j = fst]) (use mem below in auto)
  finally have t: "moved ks new = Inr (\<Sum>i | i < length ks \<and> cluster pts ks i \<noteq> []. np_distance (ks ! i) (mean d (cluster pts ks i)))" .
  have "fold (\<lambda>(x, y) ks. ks[x := y]) new ks = new_centers d pts ks"
    by (rule nth_equalityI) (use fold_assign [OF new(2), of ks] lookup in \<open>auto simp: new_centers_def Let_def\<close>)
  then show ?thesis by (simp add: kmeans_round_def new(1) t)
qed

lemma sum_clusters:
  assumes "ks \<noteq> []"
  shows "sum_list (map g pts) = (\<Sum>i<length ks. sum_list (map g (cluster pts ks i)))"
proof (induction pts)
  case (Cons p pts)
  have k: "closestPoint p ks < length ks" by (rule closestPoint_nearest(1) [OF assms])
  have "(\<Sum>i<length ks. sum_list (map g (cluster (p # pts) ks i))) =
      (\<Sum>i<length ks. (if i = closestPoint p ks then g p else 0) + sum_list (map g (cluster pts ks i)))"
    by (rule sum.cong) (auto simp: cluster_def)
  also have "\<dots> = g p + (\<Sum>i<length ks. sum_list (map g (cluster pts ks i)))"
    using k by (simp add: sum.distrib sum.delta)
  finally show ?case using Cons by simp
qed (simp add: cluster_def)

text \<open>The cost goes down by at least the distance that the centers move.\<close>

lemma round_lowers_cost:
  assumes "ks \<noteq> []" and "\<forall>p\<in>set pts. length p = d" and "\<forall>c\<in>set ks. length c = d"
  shows "cost pts (new_centers d pts ks) +
    (\<Sum>i | i < length ks \<and> cluster pts ks i \<noteq> []. np_distance (ks ! i) (mean d (cluster pts ks i))) \<le> cost pts ks"
proof -
  let ?new = "new_centers d pts ks" and ?m = "\<lambda>i. mean d (cluster pts ks i)"
  let ?move = "\<lambda>i. if cluster pts ks i = [] then 0 else np_distance (ks ! i) (?m i)"
  have len: "length ?new = length ks" by (simp add: new_centers_def)
  have "?new \<noteq> []" using len assms(1) by auto
  moreover have "\<forall>p\<in>set pts. closestPoint p ks < length ?new"
    using closestPoint_nearest(1) [OF assms(1)] len by simp
  ultimately have "cost pts ?new \<le> sum_list (map (\<lambda>p. np_distance p (?new ! closestPoint p ks)) pts)"
    by (rule cost_least)
  also have "\<dots> = (\<Sum>i<length ks. sum_list (map (\<lambda>p. np_distance p (?new ! closestPoint p ks)) (cluster pts ks i)))"
    by (rule sum_clusters [OF assms(1)])
  also have "\<dots> \<le> (\<Sum>i<length ks. sum_list (map (\<lambda>p. np_distance p (ks ! closestPoint p ks)) (cluster pts ks i)) - ?move i)"
  proof (rule sum_mono)
    fix i assume i: "i \<in> {..<length ks}"
    let ?ps = "cluster pts ks i"
    have at: "map (\<lambda>p. np_distance p (cs ! closestPoint p ks)) ?ps = map (\<lambda>p. np_distance p (cs ! i)) ?ps" for cs
      by (auto simp: cluster_def)
    have "?ps \<noteq> [] \<Longrightarrow> sum_list (map (\<lambda>p. np_distance p (ks ! i)) ?ps) =
        sum_list (map (\<lambda>p. np_distance p (?m i)) ?ps) + real (length ?ps) * np_distance (ks ! i) (?m i)"
      using assms(2,3) i by (intro mean_lowers) (auto simp: cluster_def)
    moreover have "?ps \<noteq> [] \<Longrightarrow> np_distance (ks ! i) (?m i) \<le> real (length ?ps) * np_distance (ks ! i) (?m i)"
      using mult_right_mono [of 1 "real (length ?ps)" "np_distance (ks ! i) (?m i)"] np_distance_nonneg
      by (cases ?ps) auto
    moreover have "?ps \<noteq> [] \<Longrightarrow> ?new ! i = ?m i" using i by (simp add: new_centers_def)
    ultimately show "sum_list (map (\<lambda>p. np_distance p (?new ! closestPoint p ks)) ?ps)
        \<le> sum_list (map (\<lambda>p. np_distance p (ks ! closestPoint p ks)) ?ps) - ?move i"
      unfolding at by (cases "?ps = []") auto
  qed
  also have "\<dots> = cost pts ks - (\<Sum>i<length ks. ?move i)"
    unfolding cost_def sum_clusters [OF assms(1), of _ pts] by (rule sum_subtractf)
  also have "(\<Sum>i<length ks. ?move i) = (\<Sum>i | i < length ks \<and> cluster pts ks i \<noteq> []. np_distance (ks ! i) (?m i))"
    by (rule sum.mono_neutral_cong_right) auto
  finally show ?thesis by simp
qed

lemma new_centers_dimension:
  "\<forall>c\<in>set ks. length c = d \<Longrightarrow> \<forall>c\<in>set (new_centers d pts ks). length c = d"
  by (auto simp: new_centers_def)

lemma kmeans_loop_ends:
  assumes "shuffle_ok env" and "0 < defaultParallelism env" and "0 < convergeDist"
    and "\<forall>p\<in>set (collect data). length p = d" and "ks \<noteq> []" and "\<forall>c\<in>set ks. length c = d"
    and "cost (collect data) ks < real n * convergeDist"
  shows "\<exists>ks'. kmeans_loop env data convergeDist t ks = Some (Inr ks') \<and> length ks' = length ks \<and>
    cost (collect data) ks' \<le> cost (collect data) ks"
  using assms(5-7)
proof (induction n arbitrary: t ks)
  case 0
  then show ?case using cost_nonneg [of "collect data" ks] by simp
next
  case (Suc n)
  let ?pts = "collect data"
  let ?t = "\<Sum>i | i < length ks \<and> cluster ?pts ks i \<noteq> []. np_distance (ks ! i) (mean d (cluster ?pts ks i))"
  let ?ks = "new_centers d ?pts ks"
  note unfold = kmeans_loop.simps [of env data convergeDist]
  have round: "kmeans_round env data ks = Inr (?t, ?ks)"
    by (rule kmeans_round_means [OF assms(1,2,4) Suc.prems(1)])
  have lower: "cost ?pts ?ks + ?t \<le> cost ?pts ks"
    by (rule round_lowers_cost [OF Suc.prems(1) assms(4) Suc.prems(2)])
  have t: "0 \<le> ?t" by (rule sum_nonneg) (rule np_distance_nonneg)
  have len: "length ?ks = length ks" by (simp add: new_centers_def)
  then have ks: "?ks \<noteq> []" using Suc.prems(1) by auto
  show ?case
  proof (cases "t > convergeDist")
    case False
    then show ?thesis by (simp add: unfold)
  next
    case go: True
    have next_round: "kmeans_loop env data convergeDist t ks = kmeans_loop env data convergeDist ?t ?ks"
      using go round by (subst unfold) simp
    show ?thesis
    proof (cases "?t > convergeDist")
      case False
      then have "kmeans_loop env data convergeDist ?t ?ks = Some (Inr ?ks)" by (subst unfold) simp
      then show ?thesis using next_round lower t len by auto
    next
      case True
      have "cost ?pts ?ks < real n * convergeDist" using lower True Suc.prems(3) by (simp add: algebra_simps)
      then show ?thesis
        using Suc.IH [OF ks new_centers_dimension [OF Suc.prems(2)], of ?t] next_round lower t len by fastforce
    qed
  qed
qed

section \<open>Properties\<close>

text \<open>
  C17: the iteration of \<open>kmeans.py\<close> ends for every positive \<open>convergeDist\<close>, whatever the partitioning and the
  shuffle: each round lowers the sum of the squared distances to the nearest centers by at least
  the distance that the centers move. The centers it returns are as many as before and cost no
  more than those it starts with.
\<close>

theorem kmeans_converges:
  assumes "shuffle_ok env" and "0 < defaultParallelism env" and "0 < convergeDist"
    and "\<forall>p\<in>set (collect data). length p = d" and "ks \<noteq> []" and "\<forall>c\<in>set ks. length c = d"
  shows "\<exists>ks'. kmeans_loop env data convergeDist tempDist ks = Some (Inr ks') \<and> length ks' = length ks \<and>
    cost (collect data) ks' \<le> cost (collect data) ks"
proof -
  obtain n where "cost (collect data) ks / convergeDist < real n" using reals_Archimedean2 by blast
  then have "cost (collect data) ks < real n * convergeDist" using assms(3) by (simp add: field_simps)
  then show ?thesis by (rule kmeans_loop_ends [OF assms])
qed

theorem kmeans_converges_witness:
  "\<exists>ks'. kmeans_loop (ordered_env 2 int) [[[0, 0], [1, 0]], [[4, 4]]] (1 / 10) 1 [[0, 0], [3, 3]] = Some (Inr ks') \<and>
    length ks' = length [[0, 0], [3 :: real, 3]] \<and>
    cost (collect [[[0, 0], [1, 0]], [[4, 4]]]) ks' \<le> cost (collect [[[0, 0], [1, 0]], [[4, 4]]]) [[0, 0], [3, 3]]"
  by (rule kmeans_converges [where d = 2, OF shuffle_ok_ordered_env])
    (simp_all add: ordered_env_def collect_def)

end
