(* ===== verification/Execution.thy ===== *)
theory Execution
  imports StreamReaders Lineage
begin

text \<open>
  Lineages at work: how the elements of an RDD object get from the partitions of its base RDDs, through
  the worker processes that run its functions, into the list that \<open>collect\<close> returns. The driver
  objects are those of \<open>Lineage\<close>, the worker is \<open>worker_main\<close>, and the streams are read and written by
  the generators of \<open>StreamReaders\<close>. The JVM between them is an argument, \<open>frames\<close>: the serialized
  elements that a JVM RDD holds, partition by partition.
\<close>

section \<open>Collecting\<close>

text \<open>
  \<open>_collect_iterator_through_file\<close>: the JVM writes the frames of the iterator to a temporary file. The
  file is removed when the generator has come to its end; an exception leaves it.
\<close>

type_synonym files = "string \<rightharpoonup> bytes"

definition collect_iterator_through_file ::
  "'a codec \<Rightarrow> (files \<Rightarrow> string) \<Rightarrow> serializer \<Rightarrow> bytes list \<Rightarrow> files \<Rightarrow> ('a pv list res \<times> files) option" where
  "collect_iterator_through_file c temp_name jrdd_deserializer iterator fs =
     (let tempFile = temp_name fs;
          fs1 = fs(tempFile \<mapsto> concat (map frame_bytes iterator))
      in map_option (\<lambda>(items, e). case e of None \<Rightarrow> (Inr items, fs1(tempFile := None)) | Some e \<Rightarrow> (Inl e, fs1))
           (ser_load c jrdd_deserializer (the (fs1 tempFile))))"

definition rdd_collect ::
  "('a pv jrdd \<Rightarrow> bytes list list) \<Rightarrow> 'a codec \<Rightarrow> (files \<Rightarrow> string) \<Rightarrow> nat \<Rightarrow> 'a pv driver \<Rightarrow> files \<Rightarrow>
     ('a pv list res \<times> 'a pv driver \<times> files) option" where
  "rdd_collect frames c temp_name r s fs =
     (let (j, s') = get_jrdd r s
      in map_option (\<lambda>(items, fs'). (items, s', fs'))
           (collect_iterator_through_file c temp_name (ro_deserializer (dr_objs s ! r)) (concat (frames j)) fs))"

section \<open>What the JVM does\<close>

record ('v, 'b, 'a) cluster =
  cl_env :: "('v, 'b, 'a pv, 'a pv) worker_env"
  cl_clock :: "int \<times> int \<times> int"
  cl_start :: "('v, 'b) worker_state"
  cl_files_dir :: bytes
  cl_includes :: "bytes list"
  cl_broadcast :: "nat \<Rightarrow> bytes"
  cl_command :: "'a pv py_func \<Rightarrow> serializer \<Rightarrow> serializer \<Rightarrow> bytes"

text \<open>What a worker is sent for one partition of a \<open>PythonRDD\<close>.\<close>

definition task_input :: "('v, 'b, 'a) cluster \<Rightarrow> 'a pv py_func \<Rightarrow> serializer \<Rightarrow> serializer \<Rightarrow> nat list \<Rightarrow> nat \<Rightarrow> bytes list \<Rightarrow> bytes" where
  "task_input cl f din dout bs i fs =
     be_bytes 4 (int i) @
     setup_bytes (cl_files_dir cl) (cl_includes cl) (map (\<lambda>b. (int b, cl_broadcast cl b)) bs) (cl_command cl f din dout) @
     concat (map frame_bytes fs)"

text \<open>
  The documented behaviour of \<open>PythonRDD\<close>: it computes a partition by sending a worker the frames of
  the parent's partition, and its elements are the data frames of a complete reply.
\<close>

definition runs_workers :: "('v, 'b, 'a) cluster \<Rightarrow> ('a pv jrdd \<Rightarrow> bytes list list) \<Rightarrow> bool" where
  "runs_workers cl frames \<longleftrightarrow>
     (\<forall>j f din dout p bs. length (frames (JPython j f din dout p bs)) = length (frames j) \<and>
        (\<forall>i<length (frames j). \<forall>out t us.
           read_reply (snd (worker_main (cl_env cl) (cl_clock cl) (task_input cl f din dout bs i (frames j ! i)) (cl_start cl))) = Reply out t us \<longrightarrow>
           frames (JPython j f din dout p bs) ! i = out))"

text \<open>A cluster whose workers start without accumulators and can be sent the files of the job.\<close>

definition cluster_ok :: "('v, 'b, 'a) cluster \<Rightarrow> bool" where
  "cluster_ok cl \<longleftrightarrow>
     accs (cl_start cl) = initial_accs \<and> iter_order (registry_items (cl_env cl)) \<and>
     (case cl_clock cl of (boot, init, finish) \<Rightarrow> \<forall>t\<in>{boot, init, finish}. - (2 ^ 63) \<le> t \<and> t < 2 ^ 63) \<and>
     length (cl_includes cl) < 2 ^ 31 \<and>
     (\<forall>b\<in>set (cl_files_dir cl # cl_includes cl). length b < 2 ^ 31 \<and> \<not> isl (decode (cl_env cl) b))"

definition good_broadcasts :: "('v, 'b, 'a) cluster \<Rightarrow> nat list \<Rightarrow> bool" where
  "good_broadcasts cl bs \<longleftrightarrow> length bs < 2 ^ 31 \<and>
     (\<forall>b\<in>set bs. b < 2 ^ 63 \<and> cl_broadcast cl b \<noteq> [] \<and> length (cl_broadcast cl b) < 2 ^ 31 \<and>
        \<not> isl (load_value (cl_env cl) (cl_broadcast cl b)))"

text \<open>
  What the pickled command has to be on a worker that holds the broadcast variables of the function:
  the same function between the same two serializers.
\<close>

definition runs_as :: "'a codec \<Rightarrow> ('v, 'a pv, 'a pv) command \<Rightarrow> 'a pv py_func \<Rightarrow> serializer \<Rightarrow> serializer \<Rightarrow> bool" where
  "runs_as c cmd f din dout \<longleftrightarrow>
     (\<forall>b g. ser_load c din b = Some g \<longrightarrow> cmd_load_stream cmd b = g) \<and>
     (\<forall>i xs a. cmd_func cmd (int i) (xs, None) a = ((fn_run f i xs, None), a)) \<and>
     cmd_dump_stream cmd = ser_dump c dout"

definition ships :: "('v, 'b, 'a) cluster \<Rightarrow> 'a codec \<Rightarrow> 'a pv py_func \<Rightarrow> serializer \<Rightarrow> serializer \<Rightarrow> bool" where
  "ships cl c f din dout \<longleftrightarrow>
     cl_command cl f din dout \<noteq> [] \<and> length (cl_command cl f din dout) < 2 ^ 31 \<and> good_broadcasts cl (fn_broadcasts f) \<and>
     (\<forall>st. int ` set (fn_broadcasts f) \<subseteq> dom (map_of (broadcastRegistry st)) \<longrightarrow>
        (\<exists>cmd. load_command (cl_env cl) (cl_command cl f din dout) st = Inr (cmd, st) \<and> runs_as c cmd f din dout))"

section \<open>One stage\<close>

text \<open>The frames of one partition give its elements, and leave what follows them to the next.\<close>

definition part_reads :: "'a codec \<Rightarrow> serializer \<Rightarrow> bytes list \<Rightarrow> 'a pv list \<Rightarrow> bool" where
  "part_reads c ser fs xs \<longleftrightarrow>
     (\<forall>rest. drain c (load_gen ser) (concat (map frame_bytes fs) @ rest) = before xs (drain c (load_gen ser) rest))"

definition reads :: "('a pv jrdd \<Rightarrow> bytes list list) \<Rightarrow> 'a codec \<Rightarrow> 'a pv jrdd \<Rightarrow> serializer \<Rightarrow> bool" where
  "reads frames c j ser \<longleftrightarrow>
     length (jrdd_content j) < 2 ^ 31 \<and> list_all2 (part_reads c ser) (frames j) (jrdd_content j)"

lemma ser_load_part: "part_reads c ser fs xs \<Longrightarrow> ser_load c ser (concat (map frame_bytes fs)) = Some (xs, None)"
  using ser_load_empty [of c ser] by (auto simp: part_reads_def ser_load_def dest!: spec [where x = "[]"])

lemma part_reads_written: "writable c ser xs \<Longrightarrow> part_reads c ser (frames_written c ser xs) xs"
  by (simp add: part_reads_def drain_written)

lemma part_reads_concat:
  "list_all2 (part_reads c ser) fss xss \<Longrightarrow> part_reads c ser (concat fss) (concat xss)"
  unfolding part_reads_def by (induction fss xss rule: list_all2_induct) simp_all

lemma not_isl_Inr: "\<not> isl x \<Longrightarrow> x = Inr (projr x)"
  by (cases x) simp_all

lemma list_all2_decoded:
  "\<forall>b\<in>set bs. length b < 2 ^ 31 \<and> \<not> isl (dec b) \<Longrightarrow> list_all2 (\<lambda>b n. length b < 2 ^ 31 \<and> dec b = Inr n) bs (map (projr \<circ> dec) bs)"
  by (induction bs) (auto intro: not_isl_Inr)

lemma dom_load_broadcasts:
  "dom (map_of (load_broadcasts bvs reg)) = fst ` set bvs \<union> dom (map_of reg)"
  unfolding load_broadcasts_def
  by (induction bvs arbitrary: reg) (auto simp: dom_map_of_conv_image_fst dom_update split: prod.splits)

text \<open>A worker that is sent a task sets itself up with the function, whose broadcast variables it holds.\<close>

lemma task_setup:
  assumes "cluster_ok cl" and "ships cl c f din dout" and "good_broadcasts cl bs" and "set (fn_broadcasts f) \<subseteq> set bs"
  shows "\<exists>cmd st. read_setup (cl_env cl) (setup_bytes (cl_files_dir cl) (cl_includes cl)
      (map (\<lambda>b. (int b, cl_broadcast cl b)) bs) (cl_command cl f din dout) @ data) (cl_start cl) = Inr (cmd, st, data) \<and>
    runs_as c cmd f din dout \<and> accs st = initial_accs"
proof -
  let ?env = "cl_env cl" and ?bcs = "map (\<lambda>b. (int b, cl_broadcast cl b)) bs"
  let ?bvs = "map (\<lambda>b. (int b, projr (load_value ?env (cl_broadcast cl b)))) bs"
  let ?names = "map (projr \<circ> decode ?env) (cl_includes cl)"
  obtain d where d: "decode ?env (cl_files_dir cl) = Inr d"
    using assms(1) by (cases "decode ?env (cl_files_dir cl)") (auto simp: cluster_ok_def)
  let ?st = "(cl_start cl)\<lparr>root_directory := Some d, is_running_on_worker := True,
      sys_path := sys_path (cl_start cl) @ d # map (path_join d) ?names,
      broadcastRegistry := load_broadcasts ?bvs (broadcastRegistry (cl_start cl))\<rparr>"
  have "int ` set (fn_broadcasts f) \<subseteq> dom (map_of (broadcastRegistry ?st))"
    using assms(4) by (auto simp: dom_load_broadcasts image_image)
  moreover have "\<forall>st. int ` set (fn_broadcasts f) \<subseteq> dom (map_of (broadcastRegistry st)) \<longrightarrow>
      (\<exists>cmd. load_command ?env (cl_command cl f din dout) st = Inr (cmd, st) \<and> runs_as c cmd f din dout)"
    using assms(2) unfolding ships_def by (elim conjE)
  ultimately obtain cmd where cmd: "load_command ?env (cl_command cl f din dout) ?st = Inr (cmd, ?st)" "runs_as c cmd f din dout"
    by blast
  have "\<forall>b\<in>set bs. b < 2 ^ 63 \<and> cl_broadcast cl b \<noteq> [] \<and> length (cl_broadcast cl b) < 2 ^ 31 \<and>
      load_value ?env (cl_broadcast cl b) = Inr (projr (load_value ?env (cl_broadcast cl b)))"
    using assms(3) by (simp add: good_broadcasts_def not_isl_Inr)
  then have sent: "list_all2 (\<lambda>(bid, b) (bid', v). bid' = bid \<and> - (2 ^ 63) \<le> bid \<and> bid < 2 ^ 63 \<and>
      b \<noteq> [] \<and> length b < 2 ^ 31 \<and> load_value ?env b = Inr v) ?bcs ?bvs"
    by (simp add: list_all2_map1 list_all2_map2 list_all2_same)
  have "read_setup ?env (setup_bytes (cl_files_dir cl) (cl_includes cl) ?bcs (cl_command cl f din dout) @ data) (cl_start cl) =
      Inr (cmd, ?st, data)"
  proof (rule read_setup_bytes [OF _ d _ _ _ sent _ _ cmd(1)])
    show "list_all2 (\<lambda>b n. length b < 2 ^ 31 \<and> decode ?env b = Inr n) (cl_includes cl) ?names"
      by (rule list_all2_decoded) (use assms(1) in \<open>simp add: cluster_ok_def\<close>)
  qed (use assms(1-3) in \<open>simp_all add: cluster_ok_def ships_def good_broadcasts_def\<close>)
  then show ?thesis using cmd(2) assms(1) by (auto simp: cluster_ok_def)
qed

text \<open>One stage: if the parent's frames can be read, so can those that the workers write.\<close>

lemma stage_reads:
  assumes jvm: "runs_workers cl frames" and ok: "cluster_ok cl" and parent: "reads frames c j din"
    and ships: "ships cl c f din dout" "good_broadcasts cl bs" "set (fn_broadcasts f) \<subseteq> set bs"
    and out: "\<forall>xs\<in>set (jrdd_content (JPython j f din dout p bs)). writable c dout xs"
  shows "reads frames c (JPython j f din dout p bs) dout"
proof -
  let ?j = "JPython j f din dout p bs"
  obtain boot init finish where clock: "cl_clock cl = (boot, init, finish)" by (cases "cl_clock cl")
  have len: "length (frames j) = length (jrdd_content j)" "length (jrdd_content j) < 2 ^ 31"
    using parent by (auto simp: reads_def dest: list_all2_lengthD)
  have len': "length (frames ?j) = length (frames j)" using jvm by (simp add: runs_workers_def)
  have "part_reads c dout (frames ?j ! i) (jrdd_content ?j ! i)" if i: "i < length (frames j)" for i
  proof -
    let ?xs = "jrdd_content j ! i" and ?fs = "frames j ! i"
    let ?ys = "fn_run f i ?xs"
    have ys: "jrdd_content ?j ! i = ?ys"
      using i len by (simp add: mapPartitionsWithIndex_def nth_enumerate_eq)
    have "i < length (jrdd_content ?j)" using i len by (simp add: mapPartitionsWithIndex_def)
    then have w: "writable c dout ?ys" using out nth_mem ys by metis
    have "part_reads c din ?fs ?xs"
      using parent i by (auto simp: reads_def dest: list_all2_nthD)
    then have load: "ser_load c din (concat (map frame_bytes ?fs)) = Some (?xs, None)" by (rule ser_load_part)
    obtain cmd st where sent: "read_setup (cl_env cl) (setup_bytes (cl_files_dir cl) (cl_includes cl)
        (map (\<lambda>b. (int b, cl_broadcast cl b)) bs) (cl_command cl f din dout) @ concat (map frame_bytes ?fs)) (cl_start cl) =
        Inr (cmd, st, concat (map frame_bytes ?fs))" and cmd: "runs_as c cmd f din dout" "accs st = initial_accs"
      using task_setup [OF ok ships] by blast
    have "\<exists>out. worker_main (cl_env cl) (boot, init, finish) (task_input cl f din dout bs i ?fs) (cl_start cl) = (Inr (), out) \<and>
        read_reply out = Reply (frames_written c dout ?ys) (boot, init, finish)
          (map (dump_update (cl_env cl)) (task_updates (registry_items (cl_env cl)) initial_accs))"
    proof (rule worker_main_reply [OF _ _ sent])
      show "read_int (task_input cl f din dout bs i ?fs) = Inr (int i, setup_bytes (cl_files_dir cl) (cl_includes cl)
          (map (\<lambda>b. (int b, cl_broadcast cl b)) bs) (cl_command cl f din dout) @ concat (map frame_bytes ?fs))"
        unfolding task_input_def by (rule read_int_be) (use i len in simp_all)
      have "cmd_load_stream cmd (concat (map frame_bytes ?fs)) = (?xs, None)"
        using cmd(1) load by (simp add: runs_as_def)
      then show "cmd_func cmd (int i) (cmd_load_stream cmd (concat (map frame_bytes ?fs))) (accs st) = ((?ys, None), initial_accs)"
        using cmd by (simp add: runs_as_def)
      show "cmd_dump_stream cmd (?ys, None) = (concat (map frame_bytes (frames_written c dout ?ys)), None)"
        using cmd(1) dump_written [OF w] by (simp add: runs_as_def)
      have "registry_items (cl_env cl) [] = []"
        using ok by (auto simp: cluster_ok_def dest: iter_order_mset [of _ "[]"])
      then show "\<forall>u\<in>set (task_updates (registry_items (cl_env cl)) initial_accs). length (dump_update (cl_env cl) u) < 2 ^ 31"
        by (simp add: task_updates_def initial_accs_def)
    qed (use ok clock frames_written_short [OF w] in \<open>auto simp: cluster_ok_def initial_accs_def\<close>)
    then have "frames ?j ! i = frames_written c dout ?ys"
      using jvm i clock by (auto simp: runs_workers_def)
    then show ?thesis using part_reads_written [OF w] ys by simp
  qed
  then show ?thesis
    using len len' by (simp add: reads_def list_all2_conv_all_nth mapPartitionsWithIndex_def)
qed

section \<open>The driver\<close>

text \<open>
  What a program has to respect: the function of a pipelined RDD can be shipped to the workers, and
  its elements can be written with the serializer of the context.
\<close>

definition sendable :: "('v, 'b, 'a) cluster \<Rightarrow> 'a codec \<Rightarrow> serializer \<Rightarrow> 'a pv rdd_obj \<Rightarrow> bool" where
  "sendable cl c ser self \<longleftrightarrow>
     (case ro_prev self of
        None \<Rightarrow> True
      | Some (f, p, pj, pd) \<Rightarrow> ships cl c f pd ser \<and> (\<forall>xs\<in>set (obj_content self). writable c ser xs))"

text \<open>Every JVM RDD that an object refers to can be read with the deserializer that goes with it.\<close>

definition obj_wired ::
  "('v, 'b, 'a) cluster \<Rightarrow> ('a pv jrdd \<Rightarrow> bytes list list) \<Rightarrow> 'a codec \<Rightarrow> serializer \<Rightarrow> 'a pv rdd_obj \<Rightarrow> bool" where
  "obj_wired cl frames c ser self \<longleftrightarrow>
     (\<forall>j. ro_jrdd self = Some j \<longrightarrow> reads frames c j (ro_deserializer self)) \<and> sendable cl c ser self \<and>
     (case ro_prev self of
        None \<Rightarrow> True
      | Some (f, p, pj, pd) \<Rightarrow> reads frames c pj pd \<and> ro_deserializer self = ser \<and> \<not> ro_bypass_serializer self)"

definition wired :: "('v, 'b, 'a) cluster \<Rightarrow> ('a pv jrdd \<Rightarrow> bytes list list) \<Rightarrow> 'a codec \<Rightarrow> 'a pv driver \<Rightarrow> bool" where
  "wired cl frames c s \<longleftrightarrow> driver_ok s \<and> dr_pickled_broadcasts s = [] \<and>
     (\<forall>self\<in>set (dr_objs s). obj_wired cl frames c (dr_serializer s) self)"

lemma wiredD: "wired cl frames c s \<Longrightarrow> r < length (dr_objs s) \<Longrightarrow> obj_wired cl frames c (dr_serializer s) (dr_objs s ! r)"
  by (simp add: wired_def)

lemma good_broadcasts_union: "good_broadcasts cl bs \<Longrightarrow> good_broadcasts cl (List.union bs [])"
proof -
  assume g: "good_broadcasts cl bs"
  have "length (List.union bs []) = card (set bs)" using distinct_card [of "List.union bs []"] by simp
  then show ?thesis using g card_length [of bs] by (simp add: good_broadcasts_def)
qed

lemma get_jrdd_reads:
  assumes "runs_workers cl frames" and "cluster_ok cl" and w: "wired cl frames c s" and r: "r < length (dr_objs s)"
    and j: "get_jrdd r s = (j, s')"
  shows "reads frames c j (ro_deserializer (dr_objs s ! r)) \<and> wired cl frames c s'"
proof (cases "ro_jrdd (dr_objs s ! r)")
  case (Some i)
  then show ?thesis using wiredD [OF w r] j w by (auto simp: get_jrdd_def obj_wired_def)
next
  case None
  let ?o = "dr_objs s ! r" and ?ser = "dr_serializer s"
  have ok: "driver_ok s" "dr_pickled_broadcasts s = []" using w by (simp_all add: wired_def)
  obtain f p pj pd where prev: "ro_prev ?o = Some (f, p, pj, pd)"
    using driver_okD [OF ok(1) r] None by (auto simp: obj_ok_def split: option.splits)
  have o: "reads frames c pj pd" "ro_deserializer ?o = ?ser" "\<not> ro_bypass_serializer ?o" "ships cl c f pd ?ser"
    "\<forall>xs\<in>set (obj_content ?o). writable c ?ser xs"
    using wiredD [OF w r] prev by (auto simp: obj_wired_def sendable_def)
  have j': "j = JPython pj f pd ?ser p (List.union (fn_broadcasts f) [])"
    and s': "s' = s\<lparr>dr_objs := (dr_objs s)[r := ?o\<lparr>ro_jrdd := Some j\<rparr>], dr_pickled_broadcasts := []\<rparr>"
    using j None prev o(3) ok(2) by (auto simp: get_jrdd_def Let_def)
  have "good_broadcasts cl (List.union (fn_broadcasts f) [])"
    using o(4) by (simp add: ships_def good_broadcasts_union)
  moreover have "\<forall>xs\<in>set (jrdd_content j). writable c ?ser xs"
    using o(5) by (simp add: j' obj_content_def prev)
  ultimately have reads: "reads frames c j ?ser"
    unfolding j' by (intro stage_reads [OF assms(1,2) o(1,4)]) auto
  then have "obj_wired cl frames c ?ser (?o\<lparr>ro_jrdd := Some j\<rparr>)"
    using wiredD [OF w r] o(2) by (simp add: obj_wired_def sendable_def obj_content_def prev)
  then have "wired cl frames c s'"
    using w get_jrdd_props [OF ok(1) r j] unfolding wired_def
    by (auto simp: s' dest!: set_update_subset_insert [THEN subsetD])
  then show ?thesis using reads o(2) by simp
qed

lemma wired_snoc:
  "wired cl frames c (s\<lparr>dr_objs := dr_objs s @ [self]\<rparr>) \<longleftrightarrow>
     wired cl frames c s \<and> obj_ok self \<and> obj_wired cl frames c (dr_serializer s) self"
  by (auto simp: wired_def driver_ok_snoc)

lemma PipelinedRDD_wired:
  assumes "runs_workers cl frames" and "cluster_ok cl" and w: "wired cl frames c s" and r: "r < length (dr_objs s)"
    and q: "PipelinedRDD r f p s = (q, s')" and new: "sendable cl c (dr_serializer s) (dr_objs s' ! q)"
  shows "wired cl frames c s'"
proof -
  have ok: "driver_ok s" using w by (simp add: wired_def)
  show ?thesis
  proof (cases "ro_prev (dr_objs s ! r) = None \<or> \<not> is_pipelinable (dr_objs s ! r)")
    case True
    obtain j s1 where j: "get_jrdd r s = (j, s1)" by force
    have j_reads: "reads frames c j (ro_deserializer (dr_objs s ! r))" "wired cl frames c s1"
      using get_jrdd_reads [OF assms(1-4) j] by blast+
    have ser: "dr_serializer s1 = dr_serializer s" using get_jrdd_props [OF ok r j] by simp
    note stage = new_stage [OF ok r True j, of f p, unfolded q]
    have "sendable cl c (dr_serializer s1) (dr_objs s' ! q)" using new ser by simp
    then show ?thesis using stage j_reads by (simp add: wired_snoc obj_wired_def obj_ok_def)
  next
    case False
    then obtain g pg j d where *: "ro_prev (dr_objs s ! r) = Some (g, pg, j, d)" "is_pipelinable (dr_objs s ! r)"
      by auto
    have "reads frames c j d" using wiredD [OF w r] *(1) by (simp add: obj_wired_def)
    then show ?thesis
      using same_stage [OF *, of f p, unfolded q] new w by (simp add: wired_snoc obj_wired_def obj_ok_def)
  qed
qed

text \<open>The calls on the storage set a flag and fetch the JVM RDD.\<close>

lemma wired_flag:
  assumes "wired cl frames c s" and "r < length (dr_objs s)"
    and "ro_jrdd self = ro_jrdd (dr_objs s ! r)" "ro_prev self = ro_prev (dr_objs s ! r)"
    and "ro_deserializer self = ro_deserializer (dr_objs s ! r)" "ro_bypass_serializer self = ro_bypass_serializer (dr_objs s ! r)"
  shows "wired cl frames c (s\<lparr>dr_objs := (dr_objs s)[r := self]\<rparr>)"
proof -
  have "obj_wired cl frames c (dr_serializer s) self"
    using wiredD [OF assms(1,2)] unfolding obj_wired_def sendable_def obj_content_def assms(3-6) .
  moreover have "driver_ok (s\<lparr>dr_objs := (dr_objs s)[r := self]\<rparr>)"
    using flag_props [OF _ assms(2-4)] assms(1) by (simp add: wired_def)
  ultimately show ?thesis
    using assms(1) unfolding wired_def by (auto dest!: set_update_subset_insert [THEN subsetD])
qed

lemma wired_calls: "wired cl frames c (s\<lparr>dr_calls := calls\<rparr>) \<longleftrightarrow> wired cl frames c s"
  by (simp add: wired_def driver_ok_def)

lemma storage_wired:
  assumes "runs_workers cl frames" and "cluster_ok cl" and "wired cl frames c s" and "r < length (dr_objs s)"
  shows "wired cl frames c (snd (rdd_cache r s))" "wired cl frames c (snd (rdd_persist r level s))"
    "wired cl frames c (snd (rdd_unpersist r s))" "wired cl frames c (rdd_checkpoint r s)"
proof -
  have w: "wired cl frames c (snd (get_jrdd r (s\<lparr>dr_objs := (dr_objs s)[r := self]\<rparr>)))"
    if "wired cl frames c (s\<lparr>dr_objs := (dr_objs s)[r := self]\<rparr>)" for self
    using get_jrdd_reads [OF assms(1,2) that, of r] assms(4)
    by (cases "get_jrdd r (s\<lparr>dr_objs := (dr_objs s)[r := self]\<rparr>)") simp
  have cached: "wired cl frames c (snd (get_jrdd r (s\<lparr>dr_objs := (dr_objs s)[r := (dr_objs s ! r)\<lparr>ro_is_cached := b\<rparr>]\<rparr>)))" for b
    by (rule w, rule wired_flag [OF assms(3,4)]) simp_all
  have checkpointed: "wired cl frames c (snd (get_jrdd r (s\<lparr>dr_objs := (dr_objs s)[r := (dr_objs s ! r)\<lparr>ro_is_checkpointed := b\<rparr>]\<rparr>)))" for b
    by (rule w, rule wired_flag [OF assms(3,4)]) simp_all
  show "wired cl frames c (snd (rdd_cache r s))" "wired cl frames c (snd (rdd_persist r level s))"
    using cached [of True] by (simp_all add: rdd_cache_def rdd_persist_def wired_calls case_prod_unfold Let_def)
  show "wired cl frames c (snd (rdd_unpersist r s))"
    using cached [of False] by (simp add: rdd_unpersist_def wired_calls case_prod_unfold Let_def)
  show "wired cl frames c (rdd_checkpoint r s)"
    using checkpointed [of True] by (simp add: rdd_checkpoint_def wired_calls case_prod_unfold Let_def)
qed

text \<open>Unions. Deserializers that are equal read alike, since batch sizes play no part in reading.\<close>

lemma reads_equal:
  fixes j :: "'a pv jrdd"
  assumes "ser_op_eq a b"
  shows "reads frames c j a \<longleftrightarrow> reads frames c j b"
proof -
  have "load_gen a = (load_gen b :: 'a generator)"
    using assms load_gen_erase [of a, where 'a = 'a] load_gen_erase [of b, where 'a = 'a] by (simp add: ser_op_eq_iff_erase)
  then have "part_reads c a = part_reads c b" by (intro ext) (simp add: part_reads_def)
  then show ?thesis by (simp add: reads_def)
qed

lemma list_all2_set2: "list_all2 P xs ys \<Longrightarrow> y \<in> set ys \<Longrightarrow> \<exists>x\<in>set xs. P x y"
  by (induction xs ys rule: list_all2_induct) auto

lemma ser_op_ne_iff: "ser_op_ne a b \<longleftrightarrow> \<not> ser_op_eq a b"
  by (simp add: ser_op_ne_def ser_op_eq.simps)

lemma PipelinedRDD_prev:
  assumes "driver_ok s" "r < length (dr_objs s)" "PipelinedRDD r f p s = (q, s')" "r' < length (dr_objs s)"
  shows "ro_prev (dr_objs s' ! r') = ro_prev (dr_objs s ! r')"
proof (cases "ro_prev (dr_objs s ! r) = None \<or> \<not> is_pipelinable (dr_objs s ! r)")
  case True
  obtain j s1 where j: "get_jrdd r s = (j, s1)" by force
  then show ?thesis
    using new_stage [OF assms(1,2) True j, of f p] get_jrdd_props [OF assms(1,2) j] assms(3,4) by (auto simp: nth_append)
next
  case False
  then obtain g pg j d where *: "ro_prev (dr_objs s ! r) = Some (g, pg, j, d)" "is_pipelinable (dr_objs s ! r)"
    by auto
  show ?thesis using same_stage [OF *, of f p] assms(3,4) by (auto simp: nth_append)
qed

text \<open>A later state of the driver: the old objects keep what they stand for.\<close>

definition extends_driver :: "'a pv driver \<Rightarrow> 'a pv driver \<Rightarrow> bool" where
  "extends_driver s s' \<longleftrightarrow> length (dr_objs s) \<le> length (dr_objs s') \<and> dr_serializer s' = dr_serializer s \<and>
     (\<forall>r<length (dr_objs s). rdd_content s' r = rdd_content s r \<and> ro_prev (dr_objs s' ! r) = ro_prev (dr_objs s ! r) \<and>
        ro_deserializer (dr_objs s' ! r) = ro_deserializer (dr_objs s ! r))"

lemma program_extends_refl: "extends_driver s s"
  by (simp add: extends_driver_def)

lemma program_extends_trans: "extends_driver s s1 \<Longrightarrow> extends_driver s1 s2 \<Longrightarrow> extends_driver s s2"
  by (auto simp: extends_driver_def)

lemma get_jrdd_extends:
  assumes "driver_ok s" "r < length (dr_objs s)" "get_jrdd r s = (j, s')"
  shows "extends_driver s s'"
  using get_jrdd_props [OF assms] by (simp add: extends_driver_def rdd_content_def)

lemma PipelinedRDD_extends:
  assumes "driver_ok s" "r < length (dr_objs s)" "PipelinedRDD r f p s = (q, s')"
  shows "extends_driver s s'"
  using PipelinedRDD_content [OF assms] PipelinedRDD_prev [OF assms] by (simp add: extends_driver_def)

lemma sendable_extends:
  assumes "extends_driver s s'" and "r < length (dr_objs s)"
  shows "sendable cl c ser (dr_objs s' ! r) \<longleftrightarrow> sendable cl c ser (dr_objs s ! r)"
  using assms by (auto simp: extends_driver_def sendable_def rdd_content_def split: option.splits)

lemma obj_reserialize_extends:
  assumes "driver_ok s" and "r < length (dr_objs s)" and "obj_reserialize r s = (r', s')"
  shows "driver_ok s' \<and> extends_driver s s' \<and> r' < length (dr_objs s') \<and> rdd_content s' r' = rdd_content s r \<and>
    ser_op_eq (ro_deserializer (dr_objs s' ! r')) (dr_serializer s)"
proof (cases "ser_op_eq (ro_deserializer (dr_objs s ! r)) (dr_serializer s)")
  case True
  then show ?thesis using assms by (simp add: obj_reserialize_def program_extends_refl)
next
  case False
  then have q: "PipelinedRDD r identity_func True s = (r', s')" using assms(3) by (simp add: obj_reserialize_def)
  have id: "mapPartitionsWithIndex (fn_run identity_func) parts = parts" for parts :: "'a pv partitions"
    by (simp add: identity_func_def)
  show ?thesis
    using PipelinedRDD_content [OF assms(1,2) q] PipelinedRDD_extends [OF assms(1,2) q]
    by (auto simp: id ser_op_eq_iff_erase)
qed

lemma reserialize_all_extends:
  "reserialize_all rs s = (rs', s') \<Longrightarrow> driver_ok s \<Longrightarrow> \<forall>r\<in>set rs. r < length (dr_objs s) \<Longrightarrow>
     driver_ok s' \<and> extends_driver s s' \<and>
     list_all2 (\<lambda>r r'. r' < length (dr_objs s') \<and> rdd_content s' r' = rdd_content s r \<and>
       ser_op_eq (ro_deserializer (dr_objs s' ! r')) (dr_serializer s)) rs rs'"
proof (induction rs arbitrary: s rs')
  case (Cons r rs)
  obtain r1 s1 where 1: "obj_reserialize r s = (r1, s1)" by force
  obtain rs1 where rs1: "reserialize_all rs s1 = (rs1, s')" "rs' = r1 # rs1"
    using Cons.prems(1) 1 by (auto split: prod.splits)
  note head = obj_reserialize_extends [OF Cons.prems(2) _ 1]
  have ext: "driver_ok s1" "extends_driver s s1" "r1 < length (dr_objs s1)" "rdd_content s1 r1 = rdd_content s r"
    "ser_op_eq (ro_deserializer (dr_objs s1 ! r1)) (dr_serializer s)"
    using head Cons.prems(3) by simp_all
  have "\<forall>r\<in>set rs. r < length (dr_objs s1)" using ext(2) Cons.prems(3) by (auto simp: extends_driver_def)
  then have tl: "driver_ok s'" "extends_driver s1 s'" and
    all: "list_all2 (\<lambda>r r'. r' < length (dr_objs s') \<and> rdd_content s' r' = rdd_content s1 r \<and>
       ser_op_eq (ro_deserializer (dr_objs s' ! r')) (dr_serializer s1)) rs rs1"
    using Cons.IH [OF rs1(1) ext(1)] by blast+
  have "list_all2 (\<lambda>r r'. r' < length (dr_objs s') \<and> rdd_content s' r' = rdd_content s r \<and>
       ser_op_eq (ro_deserializer (dr_objs s' ! r')) (dr_serializer s)) rs rs1"
    using all by (rule list.rel_mono_strong) (use ext(2) Cons.prems(3) in \<open>auto simp: extends_driver_def\<close>)
  moreover have "r1 < length (dr_objs s')" "rdd_content s' r1 = rdd_content s r"
    "ser_op_eq (ro_deserializer (dr_objs s' ! r1)) (dr_serializer s)"
    using tl(2) ext(3-5) by (auto simp: extends_driver_def)
  ultimately show ?case using tl program_extends_trans [OF ext(2) tl(2)] rs1(2) by simp
qed (simp add: program_extends_refl)

lemma reserialize_all_wired:
  assumes "runs_workers cl frames" and "cluster_ok cl"
  shows "reserialize_all rs s = (rs', s') \<Longrightarrow> wired cl frames c s \<Longrightarrow> \<forall>r\<in>set rs. r < length (dr_objs s) \<Longrightarrow>
    \<forall>q<length (dr_objs s'). sendable cl c (dr_serializer s) (dr_objs s' ! q) \<Longrightarrow> wired cl frames c s'"
proof (induction rs arbitrary: s rs')
  case (Cons r rs)
  obtain r1 s1 where 1: "obj_reserialize r s = (r1, s1)" by force
  obtain rs1 where rs1: "reserialize_all rs s1 = (rs1, s')"
    using Cons.prems(1) 1 by (auto split: prod.splits)
  have ok: "driver_ok s" using Cons.prems(2) by (simp add: wired_def)
  have ext: "driver_ok s1" "extends_driver s s1" "r1 < length (dr_objs s1)"
    using obj_reserialize_extends [OF ok _ 1] Cons.prems(3) by simp_all
  have rs: "\<forall>r\<in>set rs. r < length (dr_objs s1)" using ext(2) Cons.prems(3) by (auto simp: extends_driver_def)
  have ext1: "extends_driver s1 s'" using reserialize_all_extends [OF rs1 ext(1) rs] by simp
  have ser: "dr_serializer s1 = dr_serializer s" using ext(2) by (simp add: extends_driver_def)
  have new: "sendable cl c (dr_serializer s) (dr_objs s1 ! r1)"
  proof -
    have "r1 < length (dr_objs s')" using ext1 ext(3) by (simp add: extends_driver_def)
    then have "sendable cl c (dr_serializer s) (dr_objs s' ! r1)" using Cons.prems(4) by simp
    then show ?thesis by (simp only: sendable_extends [OF ext1 ext(3)])
  qed
  have "wired cl frames c s1"
  proof (cases "ser_op_eq (ro_deserializer (dr_objs s ! r)) (dr_serializer s)")
    case True
    then show ?thesis using 1 Cons.prems(2) by (simp add: obj_reserialize_def)
  next
    case False
    then have q: "PipelinedRDD r identity_func True s = (r1, s1)" using 1 by (simp add: obj_reserialize_def)
    show ?thesis by (rule PipelinedRDD_wired [OF assms Cons.prems(2) _ q new]) (use Cons.prems(3) in simp)
  qed
  then show ?case using Cons.IH [OF rs1 _ rs] Cons.prems(4) ser by simp
qed simp

lemma get_jrdds_extends:
  "get_jrdds rs s = (js, s') \<Longrightarrow> driver_ok s \<Longrightarrow> \<forall>r\<in>set rs. r < length (dr_objs s) \<Longrightarrow> extends_driver s s'"
proof (induction rs arbitrary: s js)
  case (Cons r rs)
  obtain j s1 where j: "get_jrdd r s = (j, s1)" by force
  obtain js1 where js1: "get_jrdds rs s1 = (js1, s')" using Cons.prems(1) j by (auto split: prod.splits)
  have r: "r < length (dr_objs s)" using Cons.prems(3) by simp
  have ext: "extends_driver s s1" by (rule get_jrdd_extends [OF Cons.prems(2) r j])
  then have "\<forall>r\<in>set rs. r < length (dr_objs s1)" using Cons.prems(3) by (auto simp: extends_driver_def)
  then have "extends_driver s1 s'" using Cons.IH [OF js1] get_jrdd_props [OF Cons.prems(2) r j] by blast
  then show ?case by (rule program_extends_trans [OF ext])
qed (simp add: program_extends_refl)

lemma get_jrdds_reads:
  assumes "runs_workers cl frames" and "cluster_ok cl"
  shows "get_jrdds rs s = (js, s') \<Longrightarrow> wired cl frames c s \<Longrightarrow> \<forall>r\<in>set rs. r < length (dr_objs s) \<Longrightarrow>
    wired cl frames c s' \<and> extends_driver s s' \<and>
    list_all2 (\<lambda>r j. reads frames c j (ro_deserializer (dr_objs s ! r)) \<and> jrdd_content j = rdd_content s r) rs js"
proof (induction rs arbitrary: s js)
  case (Cons r rs)
  obtain j s1 where j: "get_jrdd r s = (j, s1)" by force
  obtain js1 where js1: "get_jrdds rs s1 = (js1, s')" "js = j # js1"
    using Cons.prems(1) j by (auto split: prod.splits)
  have r: "r < length (dr_objs s)" and ok: "driver_ok s" using Cons.prems(2,3) by (simp_all add: wired_def)
  have head: "reads frames c j (ro_deserializer (dr_objs s ! r))" "wired cl frames c s1"
    using get_jrdd_reads [OF assms Cons.prems(2) r j] by simp_all
  have ext: "extends_driver s s1" by (rule get_jrdd_extends [OF ok r j])
  then have "\<forall>r\<in>set rs. r < length (dr_objs s1)" using Cons.prems(3) by (auto simp: extends_driver_def)
  then have tl: "wired cl frames c s'" "extends_driver s1 s'"
    and all: "list_all2 (\<lambda>r j. reads frames c j (ro_deserializer (dr_objs s1 ! r)) \<and> jrdd_content j = rdd_content s1 r) rs js1"
    using Cons.IH [OF js1(1) head(2)] by blast+
  have "list_all2 (\<lambda>r j. reads frames c j (ro_deserializer (dr_objs s ! r)) \<and> jrdd_content j = rdd_content s r) rs js1"
    using all by (rule list.rel_mono_strong) (use ext Cons.prems(3) in \<open>auto simp: extends_driver_def\<close>)
  then show ?case
    using head tl program_extends_trans [OF ext tl(2)] get_jrdd_props [OF ok r j] js1(2) by simp
qed (simp add: program_extends_refl)

text \<open>What the JVM's union is relied on for.\<close>

definition unions :: "('a pv jrdd \<Rightarrow> bytes list list) \<Rightarrow> ('a pv jrdd list \<Rightarrow> 'a pv jrdd) \<Rightarrow> bool" where
  "unions frames jsc_union \<longleftrightarrow>
     (\<forall>js. frames (jsc_union js) = concat (map frames js) \<and> jrdd_content (jsc_union js) = concat (map jrdd_content js))"

lemma reads_union:
  assumes "unions frames jsc_union" and "\<forall>j\<in>set js. reads frames c j d" and "length (jrdd_content (jsc_union js)) < 2 ^ 31"
  shows "reads frames c (jsc_union js) d"
proof -
  have "list_all2 (part_reads c d) (concat (map frames js)) (concat (map jrdd_content js))"
    using assms(2) by (induction js) (auto simp: reads_def intro: list_all2_appendI)
  then show ?thesis using assms(1,3) by (simp add: reads_def unions_def)
qed

lemma snoc_extends: "extends_driver s (s\<lparr>dr_objs := dr_objs s @ [self]\<rparr>)"
  by (simp add: extends_driver_def rdd_content_def nth_append)

lemma ctx_union_wired:
  assumes jvm: "runs_workers cl frames" "cluster_ok cl" and un: "unions frames jsc_union"
    and w: "wired cl frames c s" and rs: "\<forall>r\<in>set rs. r < length (dr_objs s)"
    and q: "ctx_union jsc_union rs s = Inr (q, s')"
    and new: "\<forall>q<length (dr_objs s'). sendable cl c (dr_serializer s) (dr_objs s' ! q)" "length (rdd_content s' q) < 2 ^ 31"
  shows "wired cl frames c s' \<and> extends_driver s s' \<and> q < length (dr_objs s') \<and>
    rdd_content s' q = concat (map (rdd_content s) rs)"
proof -
  let ?ser = "dr_serializer s"
  have ok: "driver_ok s" using w by (simp add: wired_def)
  obtain r0 rest where rs0: "rs = r0 # rest" using q by (cases rs) (auto simp: ctx_union_def)
  let ?first = "ro_deserializer (dr_objs s ! r0)"
  let ?mixed = "\<exists>x\<in>set rs. ser_op_ne (ro_deserializer (dr_objs s ! x)) ?first"
  obtain rs' s1 where rs': "(if ?mixed then reserialize_all rs s else (rs, s)) = (rs', s1)" by force
  obtain js s2 where js: "get_jrdds rs' s1 = (js, s2)" by force
  have s': "q = length (dr_objs s2)" "s' = s2\<lparr>dr_objs := dr_objs s2 @
      [\<lparr>ro_jrdd = Some (jsc_union js), ro_prev = None, ro_deserializer = ro_deserializer (dr_objs s2 ! hd rs'),
        ro_is_cached = False, ro_is_checkpointed = False, ro_bypass_serializer = False\<rparr>]\<rparr>"
    using q rs' js by (simp_all add: ctx_union_def rs0 Let_def RDD_def split: if_splits)
  define d where "d = (if ?mixed then ?ser else ?first)"
  have 1: "driver_ok s1 \<and> extends_driver s s1 \<and>
      list_all2 (\<lambda>r r'. r' < length (dr_objs s1) \<and> rdd_content s1 r' = rdd_content s r \<and>
        ser_op_eq (ro_deserializer (dr_objs s1 ! r')) d) rs rs'"
  proof (cases ?mixed)
    case True
    then show ?thesis using reserialize_all_extends [OF _ ok rs, of rs' s1] rs' by (simp add: d_def)
  next
    case False
    then have "rs' = rs" "s1 = s" using rs' by simp_all
    then show ?thesis using False rs ok by (simp add: program_extends_refl list_all2_same ser_op_ne_iff d_def)
  qed
  then have ext1: "driver_ok s1" "extends_driver s s1" and
    all: "list_all2 (\<lambda>r r'. r' < length (dr_objs s1) \<and> rdd_content s1 r' = rdd_content s r \<and>
        ser_op_eq (ro_deserializer (dr_objs s1 ! r')) d) rs rs'" by blast+
  have rs'_ok: "\<forall>r'\<in>set rs'. r' < length (dr_objs s1) \<and> ser_op_eq (ro_deserializer (dr_objs s1 ! r')) d"
    using list_all2_set2 [OF all] by blast
  have ser: "dr_serializer s1 = ?ser" using ext1(2) by (simp add: extends_driver_def)
  have ext2: "extends_driver s1 s2" by (rule get_jrdds_extends [OF js ext1(1)]) (use rs'_ok in blast)
  then have ext1': "extends_driver s1 s'" using program_extends_trans snoc_extends unfolding s'(2) by blast
  have "wired cl frames c s1"
  proof (cases ?mixed)
    case True
    then have r: "reserialize_all rs s = (rs', s1)" using rs' by simp
    have "sendable cl c ?ser (dr_objs s1 ! k)" if "k < length (dr_objs s1)" for k
      using new(1) ext1' that sendable_extends [OF ext1' that, of cl c ?ser] by (simp add: extends_driver_def)
    then show ?thesis using reserialize_all_wired [OF jvm r w rs] by blast
  qed (use rs' w in simp)
  then have w2: "wired cl frames c s2" and
    parts: "list_all2 (\<lambda>r j. reads frames c j (ro_deserializer (dr_objs s1 ! r)) \<and> jrdd_content j = rdd_content s1 r) rs' js"
    using get_jrdds_reads [OF jvm js] rs'_ok by blast+
  have "reads frames c j d" if "j \<in> set js" for j
    using list_all2_set2 [OF parts that] rs'_ok reads_equal by blast
  moreover have contents: "jrdd_content (jsc_union js) = concat (map (rdd_content s) rs)"
  proof -
    have "map jrdd_content js = map (rdd_content s1) rs'"
      using parts by (induction rs' js rule: list_all2_induct) simp_all
    also have "\<dots> = map (rdd_content s) rs"
      using all by (induction rs rs' rule: list_all2_induct) simp_all
    finally show ?thesis using un by (simp add: unions_def)
  qed
  moreover have content: "rdd_content s' q = jrdd_content (jsc_union js)"
    by (simp add: s' rdd_content_def obj_content_def)
  ultimately have "reads frames c (jsc_union js) d" using reads_union [OF un] new(2) by simp
  moreover have "rs' \<noteq> []" using all by (auto simp: rs0)
  then have "ser_op_eq (ro_deserializer (dr_objs s2 ! hd rs')) d"
    using rs'_ok ext2 by (simp add: extends_driver_def)
  ultimately have "reads frames c (jsc_union js) (ro_deserializer (dr_objs s2 ! hd rs'))"
    using reads_equal by blast
  then have "wired cl frames c s'"
    using w2 by (simp add: s'(2) wired_snoc obj_ok_def obj_wired_def sendable_def)
  then show ?thesis using program_extends_trans [OF ext1(2) ext1'] contents content by (simp add: s')
qed

section \<open>Programs\<close>

text \<open>
  What a driver program does to its RDD objects: it gets RDDs from the JVM whose frames its
  deserializer can read, transforms RDDs with functions that can be sent, unites RDDs, changes how
  they are stored, and starts jobs.
\<close>

inductive program ::
  "('v, 'b, 'a) cluster \<Rightarrow> ('a pv jrdd \<Rightarrow> bytes list list) \<Rightarrow> 'a codec \<Rightarrow> 'a pv driver \<Rightarrow> 'a pv driver \<Rightarrow> bool"
  for cl frames c s0 where
  program_start: "program cl frames c s0 s0"
| program_source: "program cl frames c s0 s \<Longrightarrow> reads frames c (JBase i parts) d \<Longrightarrow>
    program cl frames c s0 (snd (RDD (JBase i parts) d s))"
| program_transform: "program cl frames c s0 s \<Longrightarrow> r < length (dr_objs s) \<Longrightarrow> PipelinedRDD r f p s = (q, s') \<Longrightarrow>
    sendable cl c (dr_serializer s) (dr_objs s' ! q) \<Longrightarrow> program cl frames c s0 s'"
| program_union: "program cl frames c s0 s \<Longrightarrow> \<forall>r\<in>set rs. r < length (dr_objs s) \<Longrightarrow>
    unions frames jsc_union \<Longrightarrow> ctx_union jsc_union rs s = Inr (q, s') \<Longrightarrow>
    \<forall>q<length (dr_objs s'). sendable cl c (dr_serializer s) (dr_objs s' ! q) \<Longrightarrow> length (rdd_content s' q) < 2 ^ 31 \<Longrightarrow>
    program cl frames c s0 s'"
| program_store: "program cl frames c s0 s \<Longrightarrow> r < length (dr_objs s) \<Longrightarrow>
    s' \<in> {snd (rdd_cache r s), snd (rdd_persist r level s), snd (rdd_unpersist r s), rdd_checkpoint r s} \<Longrightarrow>
    program cl frames c s0 s'"
| program_job: "program cl frames c s0 s \<Longrightarrow> r < length (dr_objs s) \<Longrightarrow> program cl frames c s0 (snd (get_jrdd r s))"

lemma program_wired:
  assumes "program cl frames c s0 s" and jvm: "runs_workers cl frames" "cluster_ok cl" and "wired cl frames c s0"
  shows "wired cl frames c s"
  using assms(1)
proof (induction rule: program.induct)
  case program_start
  show ?case by (rule assms(4))
next
  case (program_source s i parts d)
  then show ?case by (simp add: RDD_def wired_snoc obj_ok_def obj_wired_def sendable_def)
next
  case (program_transform s r f p q s')
  show ?case by (rule PipelinedRDD_wired [OF jvm program_transform.IH program_transform(2-4)])
next
  case (program_union s rs jsc_union q s')
  then show ?case using ctx_union_wired [OF jvm program_union(3) program_union.IH program_union(2,4-6)] by blast
next
  case (program_store s r s' level)
  then show ?case using storage_wired [OF jvm program_store.IH program_store(2)] by blast
next
  case (program_job s r)
  then show ?case using get_jrdd_reads [OF jvm program_job.IH program_job(2)] by (cases "get_jrdd r s") simp
qed

lemma collect_reads:
  assumes "runs_workers cl frames" and "cluster_ok cl" and w: "wired cl frames c s" and r: "r < length (dr_objs s)"
    and "fs (temp_name fs) = None"
  shows "\<exists>s'. rdd_collect frames c temp_name r s fs = Some (Inr (concat (rdd_content s r)), s', fs) \<and> extends_driver s s'"
proof -
  have ok: "driver_ok s" using w by (simp add: wired_def)
  obtain j s' where j: "get_jrdd r s = (j, s')" by force
  have "reads frames c j (ro_deserializer (dr_objs s ! r))" using get_jrdd_reads [OF assms(1,2) w r j] by simp
  then have "part_reads c (ro_deserializer (dr_objs s ! r)) (concat (frames j)) (concat (jrdd_content j))"
    by (simp add: reads_def part_reads_concat)
  then have "ser_load c (ro_deserializer (dr_objs s ! r)) (concat (map frame_bytes (concat (frames j)))) =
      Some (concat (rdd_content s r), None)"
    using ser_load_part get_jrdd_props [OF ok r j] by metis
  moreover have "fs(temp_name fs := None) = fs" using assms(5) by auto
  ultimately show ?thesis
    using get_jrdd_extends [OF ok r j] by (simp add: rdd_collect_def collect_iterator_through_file_def j Let_def)
qed

section \<open>Properties\<close>

text \<open>
  C2: whatever program has built an RDD, \<open>collect\<close> returns its contents in order and leaves no temporary
  file behind: the bytes that pass from the sources through the workers of every stage to the driver
  stand for the lists that the transformations denote. Every worker finds the broadcast variables of
  its function, every serializer meets the deserializer that reads it, also after a union of RDDs
  with different ones, and no other RDD changes.
\<close>

theorem collect_through_workers:
  assumes "runs_workers cl frames" and "cluster_ok cl" and "program cl frames c s0 s"
    and "dr_objs s0 = []" and "dr_pickled_broadcasts s0 = []" and "r < length (dr_objs s)" and "fs (temp_name fs) = None"
  shows "\<exists>s'. rdd_collect frames c temp_name r s fs = Some (Inr (concat (rdd_content s r)), s', fs) \<and>
    (\<forall>q<length (dr_objs s). rdd_content s' q = rdd_content s q)"
proof -
  have "wired cl frames c s0" using assms(4,5) by (simp add: wired_def driver_ok_def)
  then have "wired cl frames c s" by (rule program_wired [OF assms(3,1,2)])
  from collect_reads [OF assms(1,2) this assms(6), of fs temp_name] assms(7) show ?thesis
    by (auto simp: extends_driver_def)
qed

text \<open>A JVM that does this, and a program with one stage and a broadcast variable.\<close>

primrec worker_frames :: "('v, 'b, 'a) cluster \<Rightarrow> ('a pv partitions \<Rightarrow> bytes list list) \<Rightarrow> 'a pv jrdd \<Rightarrow> bytes list list" where
  "worker_frames cl source (JBase i parts) = source parts"
| "worker_frames cl source (JPython j f din dout p bs) =
     map (\<lambda>i. case read_reply (snd (worker_main (cl_env cl) (cl_clock cl)
               (task_input cl f din dout bs i (worker_frames cl source j ! i)) (cl_start cl))) of
           Reply out t us \<Rightarrow> out | _ \<Rightarrow> []) [0..<length (worker_frames cl source j)]"

lemma worker_frames_runs: "runs_workers cl (worker_frames cl source)"
  by (simp add: runs_workers_def)

definition pickled :: "nat codec" where
  "pickled = table_codec
     [([1], ListOf [Obj 1, Obj 2]), ([2], ListOf [Obj 3]), ([3], ListOf [Obj 2, Obj 4]), ([4], ListOf [Obj 7])]"

definition batches_of_10 :: serializer where
  "batches_of_10 = BatchedSer PickleSer 10"

fun affine :: "nat \<Rightarrow> nat pv \<Rightarrow> nat pv" where
  "affine split (Obj x) = Obj (2 * x + split)"
| "affine split v = v"

definition affine_func :: "nat pv py_func" where
  "affine_func = \<lparr>fn_run = (\<lambda>split. map (affine split)), fn_broadcasts = [7]\<rparr>"

definition affine_command :: "(py_num, nat pv, nat pv) command" where
  "affine_command =
     \<lparr>cmd_func = (\<lambda>i (xs, e) a. (case e of None \<Rightarrow> ((fn_run affine_func (nat i) xs, None), a) | Some e \<Rightarrow> (([], Some e), a))),
      cmd_load_stream = (\<lambda>b. case ser_load pickled batches_of_10 b of None \<Rightarrow> ([], None) | Some g \<Rightarrow> g),
      cmd_dump_stream = ser_dump pickled batches_of_10\<rparr>"

definition affine_cluster :: "(py_num, bytes, nat) cluster" where
  "affine_cluster =
     \<lparr>cl_env =
        \<lparr>decode = (\<lambda>b. Inr ''/a''), load_value = (\<lambda>b. Inr b),
         load_command = (\<lambda>b st. if map_of (broadcastRegistry st) 7 = None
           then Inl (PyException ''Broadcast variable not loaded!'') else Inr (affine_command, st)),
         dump_update = (\<lambda>u. [9]), registry_items = (\<lambda>d. d), format_exc = (\<lambda>e. [84])\<rparr>,
      cl_clock = (10, 20, 30), cl_start = initial_worker [], cl_files_dir = [47, 97], cl_includes = [],
      cl_broadcast = (\<lambda>b. [5]), cl_command = (\<lambda>f din dout. [1])\<rparr>"

definition affine_frames :: "nat pv jrdd \<Rightarrow> bytes list list" where
  "affine_frames = worker_frames affine_cluster (map (frames_written pickled batches_of_10))"

definition affine_start :: "nat pv driver" where
  "affine_start = \<lparr>dr_objs = [], dr_serializer = batches_of_10, dr_pickled_broadcasts = [], dr_calls = []\<rparr>"

definition affine_source :: "nat pv driver" where
  "affine_source = snd (RDD (JBase 0 [[Obj 1, Obj 2], [Obj 3]]) batches_of_10 affine_start)"

definition affine_driver :: "nat pv driver" where
  "affine_driver = snd (PipelinedRDD 0 affine_func False affine_source)"

lemma affine_cluster_ok: "cluster_ok affine_cluster"
  by (simp add: cluster_ok_def affine_cluster_def initial_worker_def iter_order_def)

lemma affine_writable:
  "\<forall>xs\<in>{[Obj 1, Obj 2], [Obj 3], [Obj 2, Obj 4], [Obj 7]}. writable pickled batches_of_10 xs"
  by (simp add: writable_def batches_of_10_def pickled_def table_codec_def holds_def batched_def UNLIMITED_BATCH_SIZE_def)

lemma affine_reads: "reads affine_frames pickled (JBase 0 [[Obj 1, Obj 2], [Obj 3]]) batches_of_10"
  using affine_writable by (simp add: reads_def affine_frames_def part_reads_written)

lemma affine_ships: "ships affine_cluster pickled affine_func batches_of_10 batches_of_10"
proof -
  have "runs_as pickled affine_command affine_func batches_of_10 batches_of_10"
    by (simp add: runs_as_def affine_command_def)
  then show ?thesis by (auto simp: ships_def affine_cluster_def good_broadcasts_def affine_func_def)
qed

lemma affine_driver_simp:
  "affine_driver = \<lparr>dr_objs =
      [\<lparr>ro_jrdd = Some (JBase 0 [[Obj 1, Obj 2], [Obj 3]]), ro_prev = None, ro_deserializer = batches_of_10,
         ro_is_cached = False, ro_is_checkpointed = False, ro_bypass_serializer = False\<rparr>,
       \<lparr>ro_jrdd = None, ro_prev = Some (affine_func, False, JBase 0 [[Obj 1, Obj 2], [Obj 3]], batches_of_10),
         ro_deserializer = batches_of_10, ro_is_cached = False, ro_is_checkpointed = False, ro_bypass_serializer = False\<rparr>],
     dr_serializer = batches_of_10, dr_pickled_broadcasts = [], dr_calls = []\<rparr>"
  by (simp add: affine_driver_def affine_source_def affine_start_def RDD_def PipelinedRDD_def get_jrdd_def)

lemma affine_content: "rdd_content affine_driver (Suc 0) = [[Obj 2, Obj 4], [Obj 7]]"
  by (simp add: affine_driver_simp rdd_content_def obj_content_def mapPartitionsWithIndex_def affine_func_def)

lemma affine_program: "program affine_cluster affine_frames pickled affine_start affine_driver"
proof (rule program_transform)
  show "program affine_cluster affine_frames pickled affine_start affine_source"
    unfolding affine_source_def by (intro program_source program_start affine_reads)
  show "PipelinedRDD 0 affine_func False affine_source = (Suc 0, affine_driver)"
    by (simp add: affine_driver_def affine_source_def affine_start_def RDD_def PipelinedRDD_def get_jrdd_def)
  have "obj_content (dr_objs affine_driver ! Suc 0) = [[Obj 2, Obj 4], [Obj 7]]"
    using affine_content by (simp add: rdd_content_def)
  then show "sendable affine_cluster pickled (dr_serializer affine_source) (dr_objs affine_driver ! Suc 0)"
    using affine_ships affine_writable
    by (simp add: sendable_def affine_driver_simp affine_source_def affine_start_def RDD_def)
qed (simp add: affine_source_def affine_start_def RDD_def)

lemma affine_count: "length (dr_objs affine_driver) = 2"
  by (simp add: affine_driver_simp)

theorem collect_through_workers_witness:
  "\<exists>s'. rdd_collect affine_frames pickled (\<lambda>fs. ''/tmp/a'') 1 affine_driver Map.empty =
    Some (Inr [Obj 2, Obj 4, Obj 7], s', Map.empty)"
proof -
  have "runs_workers affine_cluster affine_frames" by (simp add: affine_frames_def worker_frames_runs)
  from collect_through_workers [OF this affine_cluster_ok affine_program, of "Suc 0" Map.empty "\<lambda>fs. ''/tmp/a''"]
  have "\<exists>s'. rdd_collect affine_frames pickled (\<lambda>fs. ''/tmp/a'') (Suc 0) affine_driver Map.empty =
      Some (Inr (concat (rdd_content affine_driver (Suc 0))), s', Map.empty)"
    using affine_count by (auto simp: affine_start_def)
  then show ?thesis by (simp add: affine_content)
qed

end
