(* ===== verification/PageRank.thy ===== *)
theory PageRank
  imports Jobs
begin

text \<open>
  The example program \<open>examples/src/main/python/pagerank.py\<close> over the operations of the library, and
  the equation that its ranks satisfy. Ranks are real numbers.
\<close>

section \<open>The program\<close>

text \<open>\<open>re.split(r'\s+', urls)\<close>: a run of white space separates.\<close>

definition whitespace :: "char \<Rightarrow> bool" where
  "whitespace c \<longleftrightarrow> c \<in> {CHR '' '', CHR 0x09, CHR 0x0A, CHR 0x0B, CHR 0x0C, CHR 0x0D}"

function split_whitespace :: "string \<Rightarrow> string \<Rightarrow> string list" where
  "split_whitespace part [] = [part]"
| "split_whitespace part (c # cs) =
     (if whitespace c then part # split_whitespace [] (dropWhile whitespace cs)
      else split_whitespace (part @ [c]) cs)"
  by pat_completeness auto
termination
  by (relation "measure (\<lambda>(part, cs). length cs)") (auto simp: length_dropWhile_le le_imp_less_Suc)

definition parseNeighbors :: "string \<Rightarrow> (string \<times> string) res" where
  "parseNeighbors urls =
     (case split_whitespace [] urls of
        a # b # parts \<Rightarrow> Inr (a, b)
      | _ \<Rightarrow> Inl IndexError)"

definition computeContribs :: "'a result_iterable \<Rightarrow> real \<Rightarrow> ('a \<times> real) list" where
  "computeContribs urls rank = (let num_urls = ri_len urls in map (\<lambda>url. (url, rank / of_int num_urls)) (ri_iter urls))"

text \<open>The environments of \<open>distinct\<close>, \<open>groupByKey\<close>, \<open>join\<close> and \<open>reduceByKey\<close>.\<close>

record 'a pr_env =
  pr_distinct :: "('a \<times> 'a, unit) shuffle_env"
  pr_group :: "('a, 'a list) shuffle_env"
  pr_join :: "('a, 'a result_iterable, real) join_env"
  pr_union :: "('a \<times> ('a result_iterable, real) tagged) union_env"
  pr_reduce :: "('a, real) shuffle_env"

definition pr_env_ok :: "'a pr_env \<Rightarrow> bool" where
  "pr_env_ok env \<longleftrightarrow>
     shuffle_ok (pr_distinct env) \<and> 0 < defaultParallelism (pr_distinct env) \<and>
     shuffle_ok (pr_group env) \<and> 0 < defaultParallelism (pr_group env) \<and>
     shuffle_ok (pr_join env) \<and> 0 < defaultParallelism (pr_join env) \<and> union_ok (pr_union env) \<and>
     shuffle_ok (pr_reduce env) \<and> 0 < defaultParallelism (pr_reduce env)"

definition pr_links :: "'a pr_env \<Rightarrow> ('a \<times> 'a) partitions \<Rightarrow> ('a \<times> 'a result_iterable) partitions res" where
  "pr_links env pairs = bind_res (rdd_distinct (pr_distinct env) pairs) (groupByKey (pr_group env) None)"

text \<open>One iteration.\<close>

definition pr_round ::
  "'a pr_env \<Rightarrow> ('a \<times> 'a result_iterable) partitions \<Rightarrow> ('a \<times> real) partitions \<Rightarrow> ('a \<times> real) partitions res" where
  "pr_round env links ranks =
     bind_res (python_join (pr_join env) (pr_union env) links ranks None) (\<lambda>joined.
       let contribs = flatMap (\<lambda>(url, (urls, rank)). computeContribs urls rank) joined
       in map_res (mapValues (\<lambda>rank. rank * (85 / 100) + 15 / 100)) (reduceByKey (pr_reduce env) (\<lambda>a b. a + b) None contribs))"

fun pr_rounds ::
  "'a pr_env \<Rightarrow> ('a \<times> 'a result_iterable) partitions \<Rightarrow> nat \<Rightarrow> ('a \<times> real) partitions \<Rightarrow> ('a \<times> real) partitions res" where
  "pr_rounds env links 0 ranks = Inr ranks"
| "pr_rounds env links (Suc n) ranks = bind_res (pr_round env links ranks) (pr_rounds env links n)"

definition pagerank :: "string pr_env \<Rightarrow> string partitions \<Rightarrow> int \<Rightarrow> (string \<times> real) list res" where
  "pagerank env lines iterations =
     bind_res (mapM_res (mapM_res parseNeighbors) lines) (\<lambda>pairs.
     bind_res (pr_links env pairs) (\<lambda>links.
       map_res collect (pr_rounds env links (nat iterations) (rdd_map (\<lambda>(url, neighbors). (url, 1)) links))))"

section \<open>The equation\<close>

text \<open>
  A page has a rank after a round when a page with a rank before it links to it; each page
  gives its rank in equal shares to the pages it links to.
\<close>

fun web_rank :: "('a \<times> 'a) set \<Rightarrow> nat \<Rightarrow> 'a \<Rightarrow> real option" where
  "web_rank E 0 u = (if u \<in> Domain E then Some 1 else None)"
| "web_rank E (Suc n) v =
     (let U = {u. (u, v) \<in> E \<and> web_rank E n u \<noteq> None}
      in if U = {} then None
         else Some ((\<Sum>u\<in>U. the (web_rank E n u) / real (card (E `` {u}))) * (85 / 100) + 15 / 100))"

section \<open>Links\<close>

lemma distinct_values_of: "distinct kvs \<Longrightarrow> distinct (values_of k kvs)"
  by (induction kvs) auto

definition links_of :: "('a \<times> 'a) set \<Rightarrow> ('a \<times> 'a result_iterable) list \<Rightarrow> bool" where
  "links_of E links \<longleftrightarrow> distinct (map fst links) \<and> fst ` set links = Domain E \<and>
     (\<forall>(u, g)\<in>set links. distinct (ri_iter g) \<and> set (ri_iter g) = E `` {u})"

lemma pr_links_of:
  assumes "pr_env_ok env"
  shows "\<exists>links. pr_links env pairs = Inr links \<and> links_of (set (collect pairs)) (collect links)"
proof -
  obtain d where d: "rdd_distinct (pr_distinct env) pairs = Inr d" "distinct (collect d)" "set (collect d) = set (collect pairs)"
    using distinct_set assms unfolding pr_env_ok_def by blast
  have n: "num_partitions (pr_group env) None = defaultParallelism (pr_group env)" by (simp add: num_partitions_def)
  have ok: "shuffle_ok (pr_group env)" "0 < defaultParallelism (pr_group env)" using assms by (simp_all add: pr_env_ok_def)
  obtain links where links: "groupByKey (pr_group env) None d = Inr links" "distinct (map fst (collect links))"
      "fst ` set (collect links) = fst ` set (collect d)"
    and groups: "\<forall>(k, g)\<in>set (collect links). mset (ri_iter g) = mset (values_of k (collect d))"
    using groupByKey_groups [OF ok(1) n ok(2), of d] by blast
  have group: "distinct (ri_iter g) \<and> set (ri_iter g) = set (collect d) `` {u}" if "(u, g) \<in> set (collect links)" for u g
  proof -
    have m: "mset (ri_iter g) = mset (values_of u (collect d))" using groups that by blast
    have "set (values_of u (collect d)) = set (collect d) `` {u}" by (simp add: set_eq_iff)
    then show ?thesis
      using distinct_values_of [OF d(2), of u] mset_eq_imp_distinct_iff [OF m] mset_eq_setD [OF m] by simp
  qed
  have "links_of (set (collect pairs)) (collect links)"
    unfolding links_of_def
  proof (intro conjI)
    show "\<forall>(u, g)\<in>set (collect links). distinct (ri_iter g) \<and> set (ri_iter g) = set (collect pairs) `` {u}"
      using group by (simp only: d(3) split_beta prod.collapse) auto
  qed (simp_all only: links(2,3) d(3) Domain_fst)
  moreover have "pr_links env pairs = Inr links" by (simp only: pr_links_def d(1) bind_res.simps links(1))
  ultimately show ?thesis by blast
qed

section \<open>One round\<close>

definition ranked :: "('a \<Rightarrow> real option) \<Rightarrow> ('a \<times> 'a result_iterable) list \<Rightarrow> ('a \<times> ('a result_iterable \<times> real)) list" where
  "ranked r links = List.map_filter (\<lambda>(u, g). map_option (\<lambda>x. (u, (g, x))) (r u)) links"

lemma values_of_ranked:
  "distinct (map fst links) \<Longrightarrow> values_of k (ranked r links) =
     (case map_of links k of None \<Rightarrow> [] | Some g \<Rightarrow> (case r k of None \<Rightarrow> [] | Some x \<Rightarrow> [(g, x)]))"
proof (induction links)
  case (Cons l links)
  obtain u g where l: "l = (u, g)" by (cases l)
  have "map_of links u = None" using Cons.prems l by (simp add: map_of_eq_None_iff)
  then show ?case using Cons by (auto simp: l ranked_def List.map_filter_simps split: option.splits)
qed (simp add: ranked_def List.map_filter_simps)

lemma mset_single: "mset xs = {#x#} \<longleftrightarrow> xs = [x]"
  by (cases xs) auto

lemma join_ranked:
  assumes "pr_env_ok env" and "distinct (map fst (collect links))" and "distinct (map fst (collect ranks))"
  shows "\<exists>j. python_join (pr_join env) (pr_union env) links ranks None = Inr j \<and>
    mset (collect j) = mset (ranked (map_of (collect ranks)) (collect links))"
proof -
  have n: "num_partitions (pr_join env) None = defaultParallelism (pr_join env)" by (simp add: num_partitions_def)
  have ok: "shuffle_ok (pr_join env)" "0 < defaultParallelism (pr_join env)" "union_ok (pr_union env)"
    using assms(1) by (simp_all add: pr_env_ok_def)
  obtain j where j: "python_join (pr_join env) (pr_union env) links ranks None = Inr j"
    and vals: "\<forall>k. \<exists>vs ws. mset vs = mset (values_of k (collect links)) \<and>
        mset ws = mset (values_of k (collect ranks)) \<and> values_of k (collect j) = pairs_of vs ws"
    using do_python_join_values [OF ok(1) n ok(2,3), of join_dispatch pairs_of links ranks]
    by (auto simp: python_join_def join_dispatch_eq)
  have "values_of k (collect j) = values_of k (ranked (map_of (collect ranks)) (collect links))" for k
  proof -
    obtain vs ws where *: "mset vs = mset (values_of k (collect links))" "mset ws = mset (values_of k (collect ranks))"
      "values_of k (collect j) = pairs_of vs ws"
      using vals by blast
    show ?thesis
      using *(1,2) unfolding *(3) values_of_ranked [OF assms(2)] values_of_distinct_keys [OF assms(2)]
        values_of_distinct_keys [OF assms(3)]
      by (auto simp: mset_single pairs_of_def split: option.splits)
  qed
  then have "mset (collect j) = mset (ranked (map_of (collect ranks)) (collect links))"
    by (simp add: multiset_eq_values_of)
  then show ?thesis using j by blast
qed

lemma values_of_contribs:
  "distinct (ri_iter g) \<Longrightarrow> values_of v (computeContribs g x) = (if v \<in> set (ri_iter g) then [x / real (length (ri_iter g))] else [])"
proof -
  assume "distinct (ri_iter g)"
  moreover have "distinct vs \<Longrightarrow> values_of v (map (\<lambda>url. (url, y)) vs) = (if v \<in> set vs then [y] else [])" for vs and y :: real
    by (induction vs) auto
  ultimately show ?thesis by (simp add: computeContribs_def ri_len_def ri_iter_def Let_def)
qed

text \<open>What arrives at a page.\<close>

lemma contribs_sum:
  assumes links: "links_of E links" and js: "mset js = mset (ranked r links)"
  defines "U \<equiv> \<lambda>v. {u. (u, v) \<in> E \<and> r u \<noteq> None}"
  defines "contribs \<equiv> concat (map (\<lambda>(url, (urls, rank)). computeContribs urls rank) js)"
  shows "sum_list (values_of v contribs) = (\<Sum>u\<in>U v. the (r u) / real (card (E `` {u})))"
    and "values_of v contribs = [] \<longleftrightarrow> U v = {}"
proof -
  let ?h = "\<lambda>(url, (urls, rank)). computeContribs urls rank"
  let ?F = "\<lambda>u. if (u, v) \<in> E \<and> r u \<noteq> None then [the (r u) / real (card (E `` {u}))] else []"
  have dist: "distinct (map fst links)" and dom: "fst ` set links = Domain E"
    using links by (simp_all add: links_of_def)
  have one: "values_of v (concat (map ?h (ranked r ls))) = concat (map (?F \<circ> fst) ls)" if "set ls \<subseteq> set links" for ls
    using that
  proof (induction ls)
    case (Cons l ls)
    obtain u g where l: "l = (u, g)" by (cases l)
    have g: "distinct (ri_iter g)" "set (ri_iter g) = E `` {u}" using links Cons.prems l by (auto simp: links_of_def)
    have "length (ri_iter g) = card (E `` {u})" using g by (metis distinct_card)
    then have "values_of v (concat (map ?h (ranked r [l]))) = ?F u"
      using values_of_contribs [OF g(1), of v] g(2) by (cases "r u") (auto simp: l ranked_def List.map_filter_simps)
    moreover have "ranked r (l # ls) = ranked r [l] @ ranked r ls"
      by (simp add: ranked_def List.map_filter_def)
    ultimately show ?case using Cons by (simp add: l)
  qed (simp add: ranked_def List.map_filter_simps)
  have "mset (map ?h js) = mset (map ?h (ranked r links))" using js by simp
  then have "mset contribs = mset (concat (map ?h (ranked r links)))"
    unfolding contribs_def by (rule mset_concat_cong)
  then have m: "mset (values_of v contribs) = mset (concat (map (?F \<circ> fst) links))"
    using mset_values_of_cong one [of links] by fastforce
  have "sum_list (values_of v contribs) = sum_list (concat (map (?F \<circ> fst) links))"
    using arg_cong [OF m, of sum_mset] by (simp only: sum_mset_sum_list)
  also have "\<dots> = sum_list (map (\<lambda>u. sum_list (?F u)) (map fst links))"
    by (induction links) simp_all
  also have "\<dots> = (\<Sum>u\<in>Domain E. sum_list (?F u))"
    using dist dom by (simp only: sum_list_distinct_conv_sum_set set_map)
  also have "\<dots> = (\<Sum>u\<in>U v. the (r u) / real (card (E `` {u})))"
  proof (rule sum.mono_neutral_cong_right)
    show "finite (Domain E)" unfolding dom [symmetric] by simp
  qed (auto simp: U_def)
  finally show "sum_list (values_of v contribs) = (\<Sum>u\<in>U v. the (r u) / real (card (E `` {u})))" .
  have "values_of v contribs = [] \<longleftrightarrow> concat (map (?F \<circ> fst) links) = []"
    using arg_cong [OF m, of "\<lambda>M. M = {#}"] by (simp only: mset_zero_iff)
  also have "\<dots> \<longleftrightarrow> (\<forall>u\<in>Domain E. ?F u = [])" unfolding dom [symmetric] by (simp only: concat_eq_Nil_conv ball_simps set_map comp_apply)
  also have "\<dots> \<longleftrightarrow> U v = {}" by (auto simp: U_def)
  finally show "values_of v contribs = [] \<longleftrightarrow> U v = {}" .
qed

lemma foldl_sum_list: "foldl (\<lambda>a b. a + b) x xs = x + sum_list xs" for x :: real
  by (induction xs arbitrary: x) simp_all

lemma pr_round_ranks:
  assumes env: "pr_env_ok env" and links: "links_of E (collect links)" and dist: "distinct (map fst (collect ranks))"
    and r: "map_of (collect ranks) = web_rank E n"
  shows "\<exists>out. pr_round env links ranks = Inr out \<and> distinct (map fst (collect out)) \<and> map_of (collect out) = web_rank E (Suc n)"
proof -
  let ?h = "\<lambda>(url, (urls, rank)). computeContribs urls rank" and ?g = "\<lambda>rank. rank * (85 / 100) + 15 / 100 :: real"
  obtain j where j: "python_join (pr_join env) (pr_union env) links ranks None = Inr j"
    and js: "mset (collect j) = mset (ranked (web_rank E n) (collect links))"
  proof -
    have "distinct (map fst (collect links))" using links by (simp add: links_of_def)
    from join_ranked [OF env this dist] show ?thesis using that unfolding r by blast
  qed
  let ?c = "flatMap ?h j"
  have np: "num_partitions (pr_reduce env) None = defaultParallelism (pr_reduce env)" by (simp add: num_partitions_def)
  obtain out where out: "reduceByKey (pr_reduce env) (\<lambda>a b. a + b) None ?c = Inr out" "distinct (map fst (collect out))"
    and lookup: "\<forall>v. map_of (collect out) v =
       (case values_of v (collect ?c) of [] \<Rightarrow> None | x # xs \<Rightarrow> Some (foldl (\<lambda>a b. a + b) x xs))"
    using add_op.reduceByKey_lookup [OF _ np, of ?c] env unfolding pr_env_ok_def by blast
  note sums = contribs_sum [OF links js, folded collect_flatMap]
  have "map_option ?g (map_of (collect out) v) = web_rank E (Suc n) v" for v
  proof (cases "values_of v (collect ?c)")
    case Nil
    then show ?thesis using lookup sums(2) [of v] by (simp add: Let_def)
  next
    case (Cons x xs)
    then have "{u. (u, v) \<in> E \<and> web_rank E n u \<noteq> None} \<noteq> {}" using sums(2) [of v] by (metis list.distinct(1))
    moreover have "map_of (collect out) v = Some (sum_list (values_of v (collect ?c)))"
      using lookup Cons by (simp add: foldl_sum_list)
    ultimately show ?thesis by (simp only: sums(1) web_rank.simps Let_def if_False option.simps)
  qed
  then have "map_of (collect (mapValues ?g out)) = web_rank E (Suc n)"
    unfolding collect_mapValues by (simp add: map_of_map fun_eq_iff)
  moreover have "distinct (map fst (collect (mapValues ?g out)))"
    using out(2) by (simp add: collect_mapValues case_prod_unfold comp_def)
  moreover have "pr_round env links ranks = Inr (mapValues ?g out)"
    by (simp only: pr_round_def j bind_res.simps Let_def out(1) map_res.simps)
  ultimately show ?thesis by blast
qed

lemma pr_rounds_ranks:
  assumes "pr_env_ok env" and "links_of E (collect links)"
  shows "distinct (map fst (collect ranks)) \<Longrightarrow> map_of (collect ranks) = web_rank E k \<Longrightarrow>
    \<exists>out. pr_rounds env links n ranks = Inr out \<and> distinct (map fst (collect out)) \<and> map_of (collect out) = web_rank E (k + n)"
proof (induction n arbitrary: k ranks)
  case (Suc n)
  obtain r where r: "pr_round env links ranks = Inr r" "distinct (map fst (collect r))" "map_of (collect r) = web_rank E (Suc k)"
    using pr_round_ranks [OF assms Suc.prems] by blast
  then show ?case using Suc.IH [OF r(2,3)] by simp
qed simp

section \<open>The sum of the ranks\<close>

lemma web_rank_Field: "web_rank E n v \<noteq> None \<Longrightarrow> v \<in> Field E"
  by (cases n) (auto simp: Field_def Let_def split: if_splits)

lemma web_rank_nonneg: "web_rank E n v = Some x \<Longrightarrow> 0 \<le> x"
proof (induction n arbitrary: v x)
  case (Suc n)
  let ?S = "\<Sum>u\<in>{u. (u, v) \<in> E \<and> web_rank E n u \<noteq> None}. the (web_rank E n u) / real (card (E `` {u}))"
  have "0 \<le> ?S" by (rule sum_nonneg) (use Suc.IH in auto)
  moreover have "x = ?S * (85 / 100) + 15 / 100" using Suc.prems by (simp add: Let_def split: if_splits)
  ultimately show ?case by simp
qed (auto split: if_splits)

definition total_rank :: "('a \<times> 'a) set \<Rightarrow> nat \<Rightarrow> real" where
  "total_rank E n = (\<Sum>v\<in>{v. web_rank E n v \<noteq> None}. the (web_rank E n v))"

text \<open>The shares that a page gives add up to at most its rank.\<close>

lemma shares_le:
  assumes "finite E" and "finite D'" and "D = {u. web_rank E n u \<noteq> None}"
  shows "(\<Sum>v\<in>D'. \<Sum>u\<in>{u. (u, v) \<in> E \<and> u \<in> D}. the (web_rank E n u) / real (card (E `` {u}))) \<le> total_rank E n"
proof -
  let ?w = "\<lambda>u. the (web_rank E n u) / real (card (E `` {u}))"
  have fin: "finite D"
    using finite_subset [OF _ finite_Field [OF assms(1)], of D] web_rank_Field [of E n] assms(3) by blast
  have pos: "0 \<le> the (web_rank E n u)" if "u \<in> D" for u using that assms(3) web_rank_nonneg [of E n u] by auto
  have "(\<Sum>v\<in>D'. \<Sum>u\<in>{u. (u, v) \<in> E \<and> u \<in> D}. ?w u) = (\<Sum>v\<in>D'. \<Sum>u\<in>D. if (u, v) \<in> E then ?w u else 0)"
  proof (rule sum.cong [OF refl])
    fix v
    have "{u. (u, v) \<in> E \<and> u \<in> D} = D \<inter> {u. (u, v) \<in> E}" by blast
    then show "(\<Sum>u\<in>{u. (u, v) \<in> E \<and> u \<in> D}. ?w u) = (\<Sum>u\<in>D. if (u, v) \<in> E then ?w u else 0)"
      using fin by (simp add: sum.inter_restrict)
  qed
  also have "\<dots> = (\<Sum>u\<in>D. \<Sum>v\<in>D'. if (u, v) \<in> E then ?w u else 0)" by (rule sum.swap)
  also have "\<dots> \<le> (\<Sum>u\<in>D. the (web_rank E n u))"
  proof (rule sum_mono)
    fix u assume u: "u \<in> D"
    have fu: "finite (E `` {u})" by (rule finite_Image [OF assms(1)])
    have "(\<Sum>v\<in>D'. if (u, v) \<in> E then ?w u else 0) = (\<Sum>v\<in>D' \<inter> E `` {u}. ?w u)"
      by (rule sum.mono_neutral_cong_right) (use assms(2) in auto)
    also have "\<dots> = real (card (D' \<inter> E `` {u})) * ?w u" by simp
    also have "\<dots> \<le> real (card (E `` {u})) * ?w u"
      using fu pos [OF u] by (intro mult_right_mono) (simp_all add: card_mono)
    also have "\<dots> \<le> the (web_rank E n u)" using pos [OF u] by simp
    finally show "(\<Sum>v\<in>D'. if (u, v) \<in> E then ?w u else 0) \<le> the (web_rank E n u)" .
  qed
  finally show ?thesis by (simp add: total_rank_def assms(3))
qed

lemma total_rank_bound:
  assumes "finite E"
  shows "total_rank E n \<le> real (card (Field E))"
proof (induction n)
  case 0
  have "total_rank E 0 = real (card (Domain E))" by (simp add: total_rank_def)
  also have "\<dots> \<le> real (card (Field E))"
    using card_mono [OF finite_Field [OF assms], of "Domain E"] by (simp add: Field_def)
  finally show ?case .
next
  case (Suc n)
  let ?D = "{u. web_rank E n u \<noteq> None}" and ?D' = "{v. web_rank E (Suc n) v \<noteq> None}"
  let ?in = "\<lambda>v. \<Sum>u\<in>{u. (u, v) \<in> E \<and> u \<in> ?D}. the (web_rank E n u) / real (card (E `` {u}))"
  have sub: "?D' \<subseteq> Field E" using web_rank_Field by fast
  then have fin: "finite ?D'" using finite_Field [OF assms] finite_subset by blast
  have "total_rank E (Suc n) = (\<Sum>v\<in>?D'. ?in v * (85 / 100) + 15 / 100)"
    unfolding total_rank_def by (rule sum.cong) (auto simp: Let_def split: if_splits)
  also have "\<dots> = (\<Sum>v\<in>?D'. ?in v) * (85 / 100) + real (card ?D') * (15 / 100)"
    by (simp only: sum.distrib sum_distrib_right sum_constant)
  also have "\<dots> \<le> real (card (Field E)) * (85 / 100) + real (card (Field E)) * (15 / 100)"
    using order_trans [OF shares_le [OF assms fin refl, of n] Suc.IH] card_mono [OF finite_Field [OF assms] sub]
    by (intro add_mono mult_right_mono) simp_all
  finally show ?case by simp
qed

section \<open>Properties\<close>

text \<open>
  C18: the program \<open>pagerank.py\<close> prints every page that has a rank once, with the rank that the equation
  gives it after that many rounds, whatever the partitions, the hash functions and the order in which the
  shuffles deliver; the ranks add up to no more than the number of pages. A page without a link to it
  from a ranked page drops out.
\<close>

theorem pagerank_follows_equation:
  assumes "pr_env_ok env" and "\<forall>line\<in>set (collect lines). parseNeighbors line = Inr (link line)"
  defines "E \<equiv> link ` set (collect lines)"
  shows "\<exists>out. pagerank env lines iterations = Inr out \<and> distinct (map fst out) \<and>
    (\<forall>page. map_of out page = web_rank E (nat iterations) page) \<and> sum_list (map snd out) \<le> real (card (Field E))"
proof -
  let ?pairs = "map (map link) lines"
  have "mapM_res parseNeighbors p = Inr (map link p)" if "p \<in> set lines" for p
    by (rule mapM_res_Inr) (use assms(2) that in \<open>auto simp: collect_def\<close>)
  then have parsed: "mapM_res (mapM_res parseNeighbors) lines = Inr ?pairs" by (rule mapM_res_Inr)
  have E: "set (collect ?pairs) = E" by (auto simp: collect_def E_def)
  obtain links where links: "pr_links env ?pairs = Inr links" "links_of E (collect links)"
    using pr_links_of [OF assms(1), of ?pairs] unfolding E by blast
  let ?start = "rdd_map (\<lambda>(url, neighbors). (url, 1)) links"
  have start: "collect ?start = map (\<lambda>(url, _). (url, 1)) (collect links)" by (rule collect_rdd_map)
  have "map_of (collect ?start) u = web_rank E 0 u" for u
  proof -
    have "map_of (map (\<lambda>(url, _). (url, 1 :: real)) xs) u = (if u \<in> fst ` set xs then Some 1 else None)"
      for xs :: "(string \<times> string result_iterable) list"
      by (induction xs) auto
    then show ?thesis using links(2) by (simp add: start links_of_def)
  qed
  moreover have "distinct (map fst (collect ?start))"
    using links(2) by (simp add: start links_of_def case_prod_unfold comp_def)
  ultimately obtain out where out: "pr_rounds env links (nat iterations) ?start = Inr out"
      "distinct (map fst (collect out))" "map_of (collect out) = web_rank E (nat iterations)"
    using pr_rounds_ranks [OF assms(1) links(2), of ?start 0 "nat iterations"] by (auto simp: fun_eq_iff)
  have mem: "(u, x) \<in> set (collect out) \<longleftrightarrow> web_rank E (nat iterations) u = Some x" for u x
    using map_of_eq_Some_iff [OF out(2), of u x] out(3) by simp
  have "sum_list (map snd (collect out)) = (\<Sum>(u, x)\<in>set (collect out). x)"
    using out(2) by (simp add: sum_list_distinct_conv_sum_set distinct_map case_prod_unfold)
  also have "\<dots> = total_rank E (nat iterations)"
    unfolding total_rank_def
    by (rule sum.reindex_bij_witness [where i = "\<lambda>u. (u, the (web_rank E (nat iterations) u))" and j = fst])
      (auto simp: mem)
  also have "\<dots> \<le> real (card (Field E))" by (rule total_rank_bound) (simp add: E_def)
  finally show ?thesis
    using out by (intro exI [of _ "collect out"]) (simp add: pagerank_def parsed links(1))
qed

definition example_pr_env :: "string pr_env" where
  "example_pr_env =
     \<lparr>pr_distinct = ordered_env 2 (\<lambda>(a, b). int (length a)), pr_group = ordered_env 2 (\<lambda>a. int (length a)),
      pr_join = ordered_env 2 (\<lambda>a. int (length a)), pr_union = append_union PickleSer,
      pr_reduce = ordered_env 3 (\<lambda>a. int (length a))\<rparr>"

definition first_last :: "string \<Rightarrow> string \<times> string" where
  "first_last line = ([hd line], [last line])"

theorem pagerank_follows_equation_witness:
  "\<exists>out. pagerank example_pr_env [[''a b'', ''b  a''], [''c a'']] 10 = Inr out \<and> distinct (map fst out) \<and>
    (\<forall>page. map_of out page =
       web_rank (first_last ` set (collect [[''a b'', ''b  a''], [''c a'']])) (nat 10) page) \<and>
    sum_list (map snd out) \<le> real (card (Field (first_last ` set (collect [[''a b'', ''b  a''], [''c a'']]))))"
proof (rule pagerank_follows_equation)
  show "pr_env_ok example_pr_env"
    by (simp add: pr_env_ok_def example_pr_env_def shuffle_ok_ordered_env union_ok_append_union parallelism_ordered_env)
  show "\<forall>line\<in>set (collect [[''a b'', ''b  a''], [''c a'']]). parseNeighbors line = Inr (first_last line)"
    by (simp add: collect_def parseNeighbors_def whitespace_def first_last_def)
qed

end
