(* ===== verification/PickleHelpers.thy ===== *)
theory PickleHelpers
  imports PickleObjects Context
begin

text \<open>
  The functions of \<open>pyspark/cloudpickle.py\<close> that the receiver calls while it loads: filling a closure
  through a hand-written code object, binding modules in the main module, Django settings, attributes
  of modules, and partial functions; and the types that the pickler refuses or adds for other libraries.
\<close>

section \<open>Changing the contents of a cell\<close>

text \<open>
  A code object, and the four instructions of the interpreter that \<open>cell_changer_code\<close> uses. An
  instruction from \<open>HAVE_ARGUMENT\<close> on has two bytes of argument, the low one first. The cells are
  entries of a store; the free variables of the function are positions in it.
\<close>

record code_object =
  co_argcount :: nat
  co_nlocals :: nat
  co_stacksize :: nat
  co_flags :: nat
  co_code :: code_bytes
  co_freevars :: "string list"

definition LOAD_FAST :: "8 word" where "LOAD_FAST = 124"
definition DUP_TOP :: "8 word" where "DUP_TOP = 4"
definition STORE_DEREF :: "8 word" where "STORE_DEREF = 137"
definition RETURN_VALUE :: "8 word" where "RETURN_VALUE = 83"

definition cell_changer_code :: code_object where
  "cell_changer_code =
     \<lparr>co_argcount = 1, co_nlocals = 1, co_stacksize = 2, co_flags = 0,
      co_code = [LOAD_FAST, 0, 0] @ [DUP_TOP] @ [STORE_DEREF, 0, 0] @ [RETURN_VALUE],
      co_freevars = [''c'']\<rparr>"

fun run_code :: "nat \<Rightarrow> 'v list \<Rightarrow> nat list \<Rightarrow> code_bytes \<Rightarrow> 'v list \<Rightarrow> 'v list \<Rightarrow> ('v \<times> 'v list) res" where
  "run_code stacksize vars closure [] stack cells = Inl (PyException ''SystemError'')"
| "run_code stacksize vars closure [op] stack cells =
     (if op = RETURN_VALUE \<and> stack \<noteq> [] then Inr (hd stack, cells) else Inl (PyException ''SystemError''))"
| "run_code stacksize vars closure (op # b # rest) stack cells =
     (if stacksize < length stack then Inl (PyException ''SystemError'')
      else if op = RETURN_VALUE \<and> stack \<noteq> [] then Inr (hd stack, cells)
      else if op = DUP_TOP \<and> stack \<noteq> [] then run_code stacksize vars closure (b # rest) (hd stack # stack) cells
      else
        (case rest of
           [] \<Rightarrow> Inl (PyException ''SystemError'')
         | hi # rest' \<Rightarrow>
             let oparg = unat b + unat hi * 256 in
             if op = LOAD_FAST \<and> oparg < length vars then run_code stacksize vars closure rest' (vars ! oparg # stack) cells
             else if op = STORE_DEREF \<and> stack \<noteq> [] \<and> oparg < length closure
             then run_code stacksize vars closure rest' (tl stack) (cells[closure ! oparg := hd stack])
             else Inl (PyException ''SystemError'')))"

text \<open>\<open>new.function(code, {}, None, (), closure)(args)\<close>: the closure has to fit the free variables.\<close>

definition call_code :: "code_object \<Rightarrow> nat list \<Rightarrow> 'v list \<Rightarrow> 'v list \<Rightarrow> ('v \<times> 'v list) res" where
  "call_code code closure args cells =
     (if length closure \<noteq> length (co_freevars code) then Inl ValueError
      else if length args \<noteq> co_argcount code then Inl TypeError
      else run_code (co_stacksize code) args closure (co_code code) [] cells)"

definition change_cell_value :: "nat \<Rightarrow> 'v \<Rightarrow> 'v list \<Rightarrow> ('v \<times> 'v list) res" where
  "change_cell_value cell newval cells = call_code cell_changer_code [cell] [newval] cells"

text \<open>The end of \<open>_fill_function\<close>, with the length test before the loop.\<close>

fun fill_cells :: "nat list \<Rightarrow> 'v list \<Rightarrow> 'v list \<Rightarrow> 'v list res" where
  "fill_cells (cell # func_closure) (v # closure) cells =
     bind_res (change_cell_value cell v cells) (\<lambda>(_, cells'). fill_cells func_closure closure cells')"
| "fill_cells _ _ cells = Inr cells"

definition fill_closure :: "nat list \<Rightarrow> 'v list \<Rightarrow> 'v list \<Rightarrow> 'v list res" where
  "fill_closure func_closure closure cells =
     (if length closure \<noteq> length func_closure then Inl (PyException ''UnpicklingError'')
      else fill_cells func_closure closure cells)"

section \<open>Imports\<close>

text \<open>\<open>except Exception\<close> catches everything but \<open>SystemExit\<close>.\<close>

fun is_exception :: "py_error \<Rightarrow> bool" where
  "is_exception (SystemExit c) = False"
| "is_exception e = True"

text \<open>
  \<open>_modules_to_main\<close>: an entry is a name or, from an old client, a module. \<open>import_module\<close> is
  \<open>__import__\<close>, \<open>name_of\<close> is \<open>__name__\<close>. The attributes of the main module and the names that
  were warned about are the state.
\<close>

datatype 'm module_entry = ModuleName string | ActualModule 'm

fun modules_to_main ::
  "(string \<Rightarrow> 'm res) \<Rightarrow> ('m \<Rightarrow> string) \<Rightarrow> 'm module_entry list \<Rightarrow> (string \<rightharpoonup> 'm) \<times> string list \<Rightarrow> unit res \<times> (string \<rightharpoonup> 'm) \<times> string list"
where
  "modules_to_main import_module name_of [] st = (Inr (), st)"
| "modules_to_main import_module name_of (ModuleName modname # modList) (main, warned) =
     (case import_module modname of
        Inl e \<Rightarrow>
          if is_exception e then modules_to_main import_module name_of modList (main, warned @ [modname])
          else (Inl e, main, warned)
      | Inr m \<Rightarrow> modules_to_main import_module name_of modList (main(name_of m \<mapsto> m), warned))"
| "modules_to_main import_module name_of (ActualModule m # modList) (main, warned) =
     modules_to_main import_module name_of modList (main(name_of m \<mapsto> m), warned)"

text \<open>
  \<open>django_settings_load\<close> over the environment and \<open>sys.path\<close>; the import sees the environment, and a
  module may have a file.
\<close>

definition DJANGO_SETTINGS_MODULE :: string where
  "DJANGO_SETTINGS_MODULE = ''DJANGO_SETTINGS_MODULE''"

definition django_settings_load ::
  "((string \<rightharpoonup> string) \<Rightarrow> string \<Rightarrow> 'm res) \<Rightarrow> ('m \<Rightarrow> string option) \<Rightarrow> string \<Rightarrow>
     (string \<rightharpoonup> string) \<times> string list \<Rightarrow> unit res \<times> (string \<rightharpoonup> string) \<times> string list" where
  "django_settings_load import_module file_of name = (\<lambda>(environ, search_path).
     let modified_env = environ DJANGO_SETTINGS_MODULE = None;
         environ1 = (if modified_env then environ(DJANGO_SETTINGS_MODULE \<mapsto> name) else environ)
     in case import_module environ1 name of
          Inl e \<Rightarrow>
            if is_exception e
            then (Inr (), if modified_env then environ1(DJANGO_SETTINGS_MODULE := None) else environ1, search_path)
            else (Inl e, environ1, search_path)
        | Inr imported \<Rightarrow>
            (Inr (), environ1,
             case file_of imported of None \<Rightarrow> search_path | Some path \<Rightarrow> search_path @ [fst (path_split path) @ ''/'']))"

text \<open>
  \<open>_getobject\<close>. For a dotted name \<open>__import__\<close> imports the module but returns the package at the
  front of the name.
\<close>

definition py_import :: "py_env \<Rightarrow> string \<Rightarrow> (string \<Rightarrow> nat option) res" where
  "py_import env modname =
     (case (module_dict env modname, module_dict env (takeWhile (\<lambda>c. c \<noteq> CHR ''.'') modname)) of
        (Some _, Some d) \<Rightarrow> Inr d
      | _ \<Rightarrow> Inl (PyException ''ImportError''))"

definition getobject :: "py_env \<Rightarrow> string \<Rightarrow> string \<Rightarrow> nat res" where
  "getobject env modname attribute =
     bind_res (py_import env modname) (\<lambda>d. case d attribute of None \<Rightarrow> Inl KeyError | Some a \<Rightarrow> Inr a)"

text \<open>Partial functions; missing arguments and keywords are made empty.\<close>

record 'v partial_obj =
  pa_func :: 'v
  pa_args :: "'v list"
  pa_keywords :: "(string \<times> 'v) list"

definition genpartial :: "'v \<Rightarrow> 'v list option \<Rightarrow> (string \<times> 'v) list option \<Rightarrow> 'v partial_obj" where
  "genpartial func args kwds =
     \<lparr>pa_func = func, pa_args = (case args of None \<Rightarrow> [] | Some a \<Rightarrow> a),
      pa_keywords = (case kwds of None \<Rightarrow> [] | Some k \<Rightarrow> k)\<rparr>"

text \<open>\<open>save_partial\<close> sends the three attributes; \<open>keywords\<close> is None when there are none.\<close>

definition partial_reduce :: "'v partial_obj \<Rightarrow> 'v \<times> 'v list option \<times> (string \<times> 'v) list option" where
  "partial_reduce obj = (pa_func obj, Some (pa_args obj), if pa_keywords obj = [] then None else Some (pa_keywords obj))"

section \<open>The dispatch table\<close>

text \<open>
  The methods for types of other libraries. \<open>sys_modules\<close> gives the attributes of a module in
  \<open>sys.modules\<close>; the types of \<open>itertools\<close> are refused when the class is made.
\<close>

datatype save_method = SaveUfunc | SaveTimeseries | SaveUnsupported | OtherMethod string

definition block_itertools :: "'t list \<Rightarrow> ('t \<rightharpoonup> save_method) \<Rightarrow> ('t \<rightharpoonup> save_method)" where
  "block_itertools types_of_itertools dispatch = fold (\<lambda>v d. d(v \<mapsto> SaveUnsupported)) types_of_itertools dispatch"

definition inject_numpy :: "(string \<Rightarrow> (string \<rightharpoonup> 't) option) \<Rightarrow> ('t \<rightharpoonup> save_method) \<Rightarrow> ('t \<rightharpoonup> save_method)" where
  "inject_numpy sys_modules dispatch =
     (case sys_modules ''numpy'' of
        None \<Rightarrow> dispatch
      | Some numpy \<Rightarrow> (case numpy ''ufunc'' of None \<Rightarrow> dispatch | Some t \<Rightarrow> dispatch(t \<mapsto> SaveUfunc)))"

definition inject_timeseries :: "(string \<Rightarrow> (string \<rightharpoonup> 't) option) \<Rightarrow> ('t \<rightharpoonup> save_method) \<Rightarrow> ('t \<rightharpoonup> save_method)" where
  "inject_timeseries sys_modules dispatch =
     (case sys_modules ''scikits.timeseries.tseries'' of
        None \<Rightarrow> dispatch
      | Some tseries \<Rightarrow> (case tseries ''Timeseries'' of None \<Rightarrow> dispatch | Some t \<Rightarrow> dispatch(t \<mapsto> SaveTimeseries)))"

text \<open>Here the attribute is not tested for.\<close>

definition inject_email :: "(string \<Rightarrow> (string \<rightharpoonup> 't) option) \<Rightarrow> ('t \<rightharpoonup> save_method) \<Rightarrow> ('t \<rightharpoonup> save_method) res" where
  "inject_email sys_modules dispatch =
     (case sys_modules ''email'' of
        None \<Rightarrow> Inr dispatch
      | Some email \<Rightarrow>
          (case email ''LazyImporter'' of
             None \<Rightarrow> Inl (PyException ''AttributeError'')
           | Some t \<Rightarrow> Inr (dispatch(t \<mapsto> SaveUnsupported))))"

definition inject_addons :: "(string \<Rightarrow> (string \<rightharpoonup> 't) option) \<Rightarrow> ('t \<rightharpoonup> save_method) \<Rightarrow> ('t \<rightharpoonup> save_method) res" where
  "inject_addons sys_modules dispatch = inject_email sys_modules (inject_timeseries sys_modules (inject_numpy sys_modules dispatch))"

definition save_unsupported :: "unit res" where
  "save_unsupported = Inl PicklingError"

text \<open>An image that was opened but not loaded travels as its file.\<close>

record pil_image =
  im_loaded :: bool
  im_fp :: "file_obj option"
  im_isatty :: "bool option"

datatype saved_image = LazyImage file_obj | LoadedImage

definition save_image :: "pil_image \<Rightarrow> saved_image" where
  "save_image obj =
     (case im_fp obj of
        Some fp \<Rightarrow>
          if \<not> im_loaded obj \<and> CHR ''r'' \<in> set (fo_mode fp) \<and> fo_name fp \<noteq> [] \<and> \<not> fo_closed fp \<and> im_isatty obj \<noteq> Some True
          then LazyImage fp else LoadedImage
      | None \<Rightarrow> LoadedImage)"

section \<open>Lemmas\<close>

lemma change_cell: "change_cell_value cell v cells = Inr (v, cells[cell := v])"
  by (simp add: change_cell_value_def call_code_def cell_changer_code_def LOAD_FAST_def DUP_TOP_def
      STORE_DEREF_def RETURN_VALUE_def)

lemma fill_cells_updates:
  "length closure = length func_closure \<Longrightarrow>
     fill_cells func_closure closure cells = Inr (fold (\<lambda>(cell, v) cells. cells[cell := v]) (zip func_closure closure) cells)"
  by (induction func_closure closure cells rule: fill_cells.induct) (simp_all add: change_cell)

lemma fold_cells:
  "distinct (map fst kvs) \<Longrightarrow> \<forall>(k, v)\<in>set kvs. k < length cells \<Longrightarrow>
     length (fold (\<lambda>(cell, v) cells. cells[cell := v]) kvs cells) = length cells \<and>
     (\<forall>i<length cells. fold (\<lambda>(cell, v) cells. cells[cell := v]) kvs cells ! i =
        (case map_of kvs i of None \<Rightarrow> cells ! i | Some v \<Rightarrow> v))"
proof (induction kvs arbitrary: cells)
  case (Cons kv kvs)
  obtain k v where kv: "kv = (k, v)" by (cases kv)
  have "map_of kvs k = None" using Cons.prems(1) kv by (simp add: map_of_eq_None_iff)
  then show ?case using Cons.IH [of "cells[k := v]"] Cons.prems by (auto simp: kv nth_list_update split: option.splits)
qed simp

lemma is_exception_cases: "is_exception e \<longleftrightarrow> (\<forall>c. e \<noteq> SystemExit c)"
  by (cases e) auto

section \<open>Properties\<close>

text \<open>
  Filling a closure: with one value for each of its cells, which are different, every cell holds its value afterwards
  and no other cell changes.
\<close>

theorem fill_closure_sets_cells:
  assumes "length closure = length func_closure"
    and "distinct func_closure"
    and "\<forall>cell\<in>set func_closure. cell < length cells"
  shows "\<exists>cells'. fill_closure func_closure closure cells = Inr cells' \<and> length cells' = length cells \<and>
    map (\<lambda>cell. cells' ! cell) func_closure = closure \<and>
    (\<forall>i<length cells. i \<notin> set func_closure \<longrightarrow> cells' ! i = cells ! i)"
proof -
  define kvs where "kvs = zip func_closure closure"
  define cells' where "cells' = fold (\<lambda>(cell, v) cells. cells[cell := v]) kvs cells"
  have keys: "map fst kvs = func_closure" and vals: "map snd kvs = closure" using assms(1) by (simp_all add: kvs_def)
  have bound: "\<forall>(k, v)\<in>set kvs. k < length cells" using assms(3) by (auto simp: kvs_def dest: set_zip_leftD)
  have len: "length cells' = length cells"
    and get: "\<And>i. i < length cells \<Longrightarrow> cells' ! i = (case map_of kvs i of None \<Rightarrow> cells ! i | Some v \<Rightarrow> v)"
    using fold_cells [OF _ bound] assms(2) by (simp_all add: keys cells'_def)
  have "map (\<lambda>cell. cells' ! cell) func_closure = closure"
  proof (rule nth_equalityI)
    show "length (map (\<lambda>cell. cells' ! cell) func_closure) = length closure" using assms(1) by simp
    fix i assume i: "i < length (map (\<lambda>cell. cells' ! cell) func_closure)"
    then have "map_of kvs (func_closure ! i) = Some (closure ! i)"
      using assms(1,2) by (simp add: kvs_def map_of_zip_nth)
    then show "map (\<lambda>cell. cells' ! cell) func_closure ! i = closure ! i" using i assms(3) get by simp
  qed
  moreover have "\<forall>i<length cells. i \<notin> set func_closure \<longrightarrow> cells' ! i = cells ! i"
    using get by (simp add: map_of_eq_None_iff [THEN iffD2] keys flip: set_map)
  moreover have "fill_closure func_closure closure cells = Inr cells'"
    using assms(1) by (simp add: fill_closure_def fill_cells_updates cells'_def kvs_def)
  ultimately show ?thesis using len by blast
qed

theorem fill_closure_sets_cells_witness: "fill_closure [2, 0] [10, 20] [1::int, 2, 3] = Inr [20, 2, 10]"
  using fill_closure_sets_cells [of "[10::int, 20]" "[2, 0]" "[1, 2, 3]"]
  by (simp add: fill_closure_def change_cell)

text \<open>
  A Django settings module that cannot be imported leaves the environment and the search path as they were; one that
  is imported leaves the variable set, to its old value if there was one.
\<close>

theorem django_settings_rolled_back:
  assumes "case import_module (if environ DJANGO_SETTINGS_MODULE = None then environ(DJANGO_SETTINGS_MODULE \<mapsto> name) else environ) name
             of Inl e \<Rightarrow> is_exception e | Inr m \<Rightarrow> True"
    and "django_settings_load import_module file_of name (environ, search_path) = (r, environ', search_path')"
  shows "r = Inr () \<and> (environ' = environ \<and> search_path' = search_path \<or>
    environ' DJANGO_SETTINGS_MODULE = Some (case environ DJANGO_SETTINGS_MODULE of None \<Rightarrow> name | Some v \<Rightarrow> v) \<and>
    (\<forall>k. k \<noteq> DJANGO_SETTINGS_MODULE \<longrightarrow> environ' k = environ k) \<and> take (length search_path) search_path' = search_path)"
  using assms
  by (cases "environ DJANGO_SETTINGS_MODULE"; auto simp: django_settings_load_def Let_def split: if_splits sum.splits option.splits)

theorem django_settings_rolled_back_witness:
  "django_settings_load (\<lambda>_ _. Inl (PyException ''ImportError'') :: unit res) (\<lambda>_. None) ''app.settings'' (Map.empty, [''lib''])
     = (Inr (), Map.empty, [''lib''])"
  using django_settings_rolled_back [of "\<lambda>_ _. Inl (PyException ''ImportError'') :: unit res" Map.empty "''app.settings''"
      "\<lambda>_. None" "[''lib'']" "Inr ()" Map.empty "[''lib'']"]
  by (auto simp: django_settings_load_def)

text \<open>
  Forced imports: when no import exits the interpreter, the names whose import fails are warned about, in order, the
  modules of the others are bound in the main module under their own names, the last one winning, and the rest
  of the main module is unchanged.
\<close>

fun entry_module :: "(string \<Rightarrow> 'm res) \<Rightarrow> 'm module_entry \<Rightarrow> 'm option" where
  "entry_module import_module (ModuleName modname) = (case import_module modname of Inl _ \<Rightarrow> None | Inr m \<Rightarrow> Some m)"
| "entry_module import_module (ActualModule m) = Some m"

fun entry_warning :: "(string \<Rightarrow> 'm res) \<Rightarrow> 'm module_entry \<Rightarrow> string option" where
  "entry_warning import_module (ModuleName modname) = (case import_module modname of Inl _ \<Rightarrow> Some modname | Inr _ \<Rightarrow> None)"
| "entry_warning import_module (ActualModule m) = None"

lemma modules_to_main_step:
  "case e of ModuleName modname \<Rightarrow> (\<forall>x. import_module modname = Inl x \<longrightarrow> is_exception x) | ActualModule m \<Rightarrow> True \<Longrightarrow>
     modules_to_main import_module name_of (e # modList) (main, warned) =
       modules_to_main import_module name_of modList
         (case entry_module import_module e of None \<Rightarrow> main | Some m \<Rightarrow> main(name_of m \<mapsto> m),
          case entry_warning import_module e of None \<Rightarrow> warned | Some w \<Rightarrow> warned @ [w])"
  by (cases e) (auto split: sum.splits)

theorem modules_to_main_binds:
  assumes "\<forall>e\<in>set modList. case e of ModuleName modname \<Rightarrow> (\<forall>x. import_module modname = Inl x \<longrightarrow> is_exception x)
             | ActualModule m \<Rightarrow> True"
  shows "modules_to_main import_module name_of modList (main, warned) =
    (Inr (), main ++ map_of (rev (map (\<lambda>m. (name_of m, m)) (List.map_filter (entry_module import_module) modList))),
     warned @ List.map_filter (entry_warning import_module) modList)"
  using assms
proof (induction modList arbitrary: main warned)
  case Nil
  then show ?case by (simp add: map_filter_simps)
next
  case (Cons e modList)
  have step: "modules_to_main import_module name_of (e # modList) (main, warned) =
       modules_to_main import_module name_of modList
         (case entry_module import_module e of None \<Rightarrow> main | Some m \<Rightarrow> main(name_of m \<mapsto> m),
          case entry_warning import_module e of None \<Rightarrow> warned | Some w \<Rightarrow> warned @ [w])"
    using Cons.prems by (intro modules_to_main_step) simp
  show ?case using Cons.IH Cons.prems
    by (simp add: step map_filter_simps map_add_assoc split: option.splits)
qed

theorem modules_to_main_binds_witness:
  "modules_to_main (\<lambda>n. if n = ''bad'' then Inl (PyException ''ImportError'') else Inr n) (\<lambda>m. m)
     [ModuleName ''a'', ModuleName ''bad'', ActualModule ''b''] (Map.empty, []) = (Inr (), [''a'' \<mapsto> ''a'', ''b'' \<mapsto> ''b''], [''bad''])"
  using modules_to_main_binds [of "[ModuleName ''a'', ModuleName ''bad'', ActualModule ''b'']"
      "\<lambda>n. if n = ''bad'' then Inl (PyException ''ImportError'') else Inr n" "\<lambda>m. m" Map.empty "[]"]
  by (simp add: map_filter_simps)

text \<open>
  A function of the module scipy.special is saved by that module's name and fetched from the package scipy, so
  loading it ends in a missing key, whenever the package does not have the name too.
\<close>

theorem ufunc_of_submodule_not_found:
  assumes "ufunc_module env name = Some ''scipy.special''"
    and "module_dict env ''scipy'' = Some d" and "d name = None"
  shows "getobject env ''scipy.special'' name = Inl KeyError"
proof -
  have "module_dict env ''scipy.special'' \<noteq> None"
    using assms(1) by (auto simp: ufunc_module_def find_Some_iff split: option.splits if_splits)
  then show ?thesis using assms(2,3) by (auto simp: getobject_def py_import_def)
qed

text \<open>A partial function that is saved by its three attributes is rebuilt as it was.\<close>

theorem partial_roundtrip:
  "(case partial_reduce p of (func, args, kwds) \<Rightarrow> genpartial func args kwds) = p"
  by (simp add: partial_reduce_def genpartial_def)

end
