(* ===== verification/MatrixJobs.thy ===== *)
theory MatrixJobs
  imports Context Rdd
begin

text \<open>
  The example program \<open>examples/src/main/python/als.py\<close>: a matrix is factored by alternating
  least squares, over \<open>parallelize\<close>, \<open>map\<close> and \<open>collect\<close>. A matrix is the list of its rows, with real
  entries, and has at least one row; \<open>np.linalg.solve\<close>, the codec of the context's serializer and the JVM's
  \<open>readRDDFromFile\<close> are arguments.
\<close>

section \<open>Matrices\<close>

definition ncols :: "real list list \<Rightarrow> nat" where
  "ncols A = (case A of [] \<Rightarrow> 0 | row # _ \<Rightarrow> length row)"

definition mat_T :: "real list list \<Rightarrow> real list list" where
  "mat_T A = map (\<lambda>j. map (\<lambda>row. row ! j) A) [0..<ncols A]"

definition row_times :: "real list \<Rightarrow> real list \<Rightarrow> real" where
  "row_times u v = sum_list (map (\<lambda>(a, b). a * b) (zip u v))"

definition mat_mul :: "real list list \<Rightarrow> real list list \<Rightarrow> real list list res" where
  "mat_mul A B =
     (if ncols A \<noteq> length B then Inl ValueError
      else Inr (map (\<lambda>row. map (\<lambda>col. row_times row col) (mat_T B)) A))"

definition mat_row :: "nat \<Rightarrow> real list list \<Rightarrow> real list res" where
  "mat_row x A = (if x < length A then Inr (A ! x) else Inl IndexError)"

section \<open>The program\<close>

type_synonym solver = "real list list \<Rightarrow> real list list \<Rightarrow> real list list res"

definition LAMBDA :: real where "LAMBDA = 1 / 100"

text \<open>The loop that adds to the diagonal.\<close>

fun add_diagonal :: "real \<Rightarrow> nat list \<Rightarrow> real list list \<Rightarrow> real list list" where
  "add_diagonal c [] XtX = XtX"
| "add_diagonal c (j # js) XtX = add_diagonal c js (XtX[j := (XtX ! j)[j := XtX ! j ! j + c]])"

definition als_update :: "solver \<Rightarrow> nat \<Rightarrow> real list \<Rightarrow> real list list \<Rightarrow> real list list \<Rightarrow> real list list res" where
  "als_update solve i vec mat ratings =
     (let uu = length mat; ff = ncols mat in
      bind_res (mat_mul (mat_T mat) mat) (\<lambda>XtX.
      bind_res (mat_row i ratings) (\<lambda>row.
      bind_res (mat_mul (mat_T mat) (mat_T [row])) (\<lambda>Xty.
        solve (add_diagonal (LAMBDA * real uu) [0..<ff] XtX) Xty))))"

text \<open>
  One of the two statements of the loop: the rows of \<open>self\<close> are solved for in parallel, with \<open>other\<close> and
  \<open>ratings\<close> as the values of broadcast variables, and the first column of every solution is a row of the result.
\<close>

record als_env =
  als_context :: ctx_obj
  als_default :: int
  als_slices :: int
  als_codec :: "nat codec"
  als_readRDDFromFile :: "bytes \<Rightarrow> int \<Rightarrow> bytes list list res"
  als_solve :: solver

definition first_columns :: "real list list list \<Rightarrow> real list list res" where
  "first_columns ms = (if ms = [] then Inl IndexError else Inr (map (map (\<lambda>row. row ! 0)) ms))"

definition als_half ::
  "als_env \<Rightarrow> nat \<Rightarrow> real list list \<Rightarrow> real list list \<Rightarrow> real list list \<Rightarrow> real list list res option" where
  "als_half env n self other ratings =
     (case parallelize (als_codec env) (als_readRDDFromFile env) (als_default env) (als_context env)
         (map Obj [0..<n]) (Some (als_slices env)) of
        Inl e \<Rightarrow> Some (Inl e)
      | Inr (ser, jrdd) \<Rightarrow>
          map_option (\<lambda>r. bind_res r (\<lambda>parts.
            bind_res (mapM_res (mapM_res (\<lambda>x. bind_res (mat_row x self) (\<lambda>vec. als_update (als_solve env) x vec other ratings))) parts)
              (\<lambda>ms. first_columns (collect ms))))
            (read_slices (als_codec env) ser jrdd))"

definition squared_error :: "real list list \<Rightarrow> real list list \<Rightarrow> real" where
  "squared_error R P = sum_list (map (\<lambda>(r, p). sum_list (map (\<lambda>(a, b). (a - b)\<^sup>2) (zip r p))) (zip R P))"

text \<open>\<open>rmse\<close>, with the shapes \<open>M\<close> and \<open>U\<close> that it reads from the module.\<close>

definition rmse :: "nat \<Rightarrow> nat \<Rightarrow> real list list \<Rightarrow> real list list \<Rightarrow> real list list \<Rightarrow> real res" where
  "rmse M U R ms us =
     bind_res (mat_mul ms (mat_T us)) (\<lambda>P.
       if length P \<noteq> length R \<or> ncols P \<noteq> ncols R then Inl ValueError
       else Inr (sqrt (squared_error R P / real M * real U)))"

text \<open>One statement after another, when they end.\<close>

fun and_then :: "'a res option \<Rightarrow> ('a \<Rightarrow> 'b res option) \<Rightarrow> 'b res option" where
  "and_then None f = None"
| "and_then (Some (Inl e)) f = Some (Inl e)"
| "and_then (Some (Inr x)) f = f x"

text \<open>The loop; the result lists what the two factors and the printed error are after every round.\<close>

fun als_rounds :: "als_env \<Rightarrow> nat \<Rightarrow> nat \<Rightarrow> real list list \<Rightarrow> nat \<Rightarrow> real list list \<times> real list list \<Rightarrow>
    (real list list \<times> real list list \<times> real) list res option" where
  "als_rounds env M U R 0 (ms, us) = Some (Inr [])"
| "als_rounds env M U R (Suc n) (ms, us) =
     and_then (als_half env M ms us R) (\<lambda>ms'.
     and_then (als_half env U us ms' (mat_T R)) (\<lambda>us'.
     and_then (Some (rmse M U R ms' us')) (\<lambda>e.
     map_option (map_res (\<lambda>rounds. (ms', us', e) # rounds)) (als_rounds env M U R n (ms', us')))))"

section \<open>Shapes and products\<close>

definition shape :: "nat \<Rightarrow> nat \<Rightarrow> real list list \<Rightarrow> bool" where
  "shape m n A \<longleftrightarrow> length A = m \<and> (\<forall>row\<in>set A. length row = n)"

lemma shapeD: "shape m n A \<Longrightarrow> length A = m \<and> (\<forall>i<m. length (A ! i) = n)"
  by (auto simp: shape_def)

lemma shape_ncols: "shape m n A \<Longrightarrow> 0 < m \<Longrightarrow> ncols A = n"
  by (cases A) (auto simp: shape_def ncols_def)

lemma shape_T: "shape m n A \<Longrightarrow> 0 < m \<Longrightarrow> shape n m (mat_T A)"
  by (auto simp: shape_ncols mat_T_def) (auto simp: shape_def)

lemma mat_T_nth: "shape m n A \<Longrightarrow> i < m \<Longrightarrow> j < n \<Longrightarrow> mat_T A ! j ! i = A ! i ! j"
  using shape_ncols [of m n A] by (simp add: mat_T_def shape_def)

lemma row_times_sum: "length u = n \<Longrightarrow> length v = n \<Longrightarrow> row_times u v = (\<Sum>k<n. u ! k * v ! k)"
  by (simp add: row_times_def sum_list_sum_nth atLeast0LessThan)

lemma mat_mul_entries:
  assumes "shape m n A" "shape n p B" "0 < m" "0 < n"
  shows "\<exists>C. mat_mul A B = Inr C \<and> shape m p C \<and> (\<forall>i<m. \<forall>j<p. C ! i ! j = (\<Sum>k<n. A ! i ! k * B ! k ! j))"
proof -
  define C where "C = map (\<lambda>row. map (\<lambda>col. row_times row col) (mat_T B)) A"
  have T: "length (mat_T B) = p" "\<forall>j<p. length (mat_T B ! j) = n"
    using shapeD [OF shape_T [OF assms(2,4)]] by simp_all
  have "ncols A = length B" using shape_ncols [OF assms(1,3)] assms(2) by (simp add: shape_def)
  then have "mat_mul A B = Inr C" by (simp add: mat_mul_def C_def)
  moreover have "shape m p C" using assms(1) T by (auto simp: shape_def C_def)
  moreover have "C ! i ! j = (\<Sum>k<n. A ! i ! k * B ! k ! j)" if "i < m" "j < p" for i j
  proof -
    have "C ! i ! j = row_times (A ! i) (mat_T B ! j)" using that assms(1) T by (simp add: C_def shape_def)
    also have "\<dots> = (\<Sum>k<n. A ! i ! k * mat_T B ! j ! k)"
      using that shapeD [OF assms(1)] T by (intro row_times_sum) auto
    finally show ?thesis using mat_T_nth [OF assms(2)] that by simp
  qed
  ultimately show ?thesis by blast
qed

lemma add_diagonal_entries:
  assumes "shape f f A" "distinct js" "\<forall>j\<in>set js. j < f"
  shows "shape f f (add_diagonal c js A) \<and>
    (\<forall>k<f. \<forall>l<f. add_diagonal c js A ! k ! l = A ! k ! l + (if k = l \<and> k \<in> set js then c else 0))"
  using assms
proof (induction js arbitrary: A)
  case (Cons j js)
  let ?A = "A[j := (A ! j)[j := A ! j ! j + c]]"
  have "shape f f ?A"
    using Cons.prems(1,3) by (auto simp: shape_def dest!: set_update_subset_insert [THEN subsetD])
  then have IH: "shape f f (add_diagonal c js ?A)"
      "\<forall>k<f. \<forall>l<f. add_diagonal c js ?A ! k ! l = ?A ! k ! l + (if k = l \<and> k \<in> set js then c else 0)"
    using Cons.IH [of ?A] Cons.prems(2,3) by auto
  have "?A ! k ! l = A ! k ! l + (if k = j \<and> l = j then c else 0)" if "k < f" "l < f" for k l
    using shapeD [OF Cons.prems(1)] Cons.prems(3) that by (auto simp: nth_list_update)
  then show ?case using IH Cons.prems(2) by auto
qed simp

section \<open>Least squares\<close>

text \<open>
  The regularised least squares of one row: \<open>X\<close> has \<open>n\<close> rows of length \<open>f\<close>, and \<open>r\<close> is what their
  products with the row should be.
\<close>

definition row_cost :: "nat \<Rightarrow> nat \<Rightarrow> real \<Rightarrow> (nat \<Rightarrow> nat \<Rightarrow> real) \<Rightarrow> (nat \<Rightarrow> real) \<Rightarrow> (nat \<Rightarrow> real) \<Rightarrow> real" where
  "row_cost n f c X r x = (\<Sum>j<n. (r j - (\<Sum>k<f. x k * X j k))\<^sup>2) + c * (\<Sum>k<f. (x k)\<^sup>2)"

lemma normal_equations_minimize:
  fixes X :: "nat \<Rightarrow> nat \<Rightarrow> real"
  assumes normal: "\<And>k. k < f \<Longrightarrow> (\<Sum>l<f. ((\<Sum>j<n. X j k * X j l) + (if k = l then c else 0)) * y l) = (\<Sum>j<n. X j k * r j)"
    and c: "0 \<le> c"
  shows "row_cost n f c X r y \<le> row_cost n f c X r x"
proof -
  define d where "d k = x k - y k" for k
  define e where "e j = r j - (\<Sum>k<f. y k * X j k)" for j
  define v where "v j = (\<Sum>k<f. d k * X j k)" for j
  have normal': "(\<Sum>j<n. e j * X j k) = c * y k" if "k < f" for k
  proof -
    have "((\<Sum>j<n. X j k * X j l) + (if k = l then c else 0)) * y l =
        (\<Sum>j<n. X j k * (y l * X j l)) + (if k = l then c * y l else 0)" for l
      by (simp add: distrib_left sum_distrib_left mult_ac)
    then have "(\<Sum>l<f. ((\<Sum>j<n. X j k * X j l) + (if k = l then c else 0)) * y l) =
        (\<Sum>l<f. \<Sum>j<n. X j k * (y l * X j l)) + (\<Sum>l<f. if k = l then c * y l else 0)"
      by (simp only: sum.distrib)
    also have "(\<Sum>l<f. \<Sum>j<n. X j k * (y l * X j l)) = (\<Sum>j<n. X j k * (\<Sum>l<f. y l * X j l))"
      by (subst sum.swap) (simp add: sum_distrib_left)
    finally have "(\<Sum>j<n. X j k * (\<Sum>l<f. y l * X j l)) + c * y k = (\<Sum>j<n. X j k * r j)"
      using normal [OF that] that by simp
    then show ?thesis by (simp add: e_def algebra_simps sum_subtractf)
  qed
  have "(\<Sum>j<n. e j * v j) = (\<Sum>k<f. d k * (\<Sum>j<n. e j * X j k))"
    unfolding v_def sum_distrib_left by (subst sum.swap) (simp add: mult_ac)
  also have "\<dots> = (\<Sum>k<f. c * (d k * y k))" by (rule sum.cong) (simp_all add: normal')
  finally have cross: "(\<Sum>j<n. e j * v j) = c * (\<Sum>k<f. d k * y k)" by (simp add: sum_distrib_left)
  have "r j - (\<Sum>k<f. x k * X j k) = e j - v j" for j
    by (simp add: e_def v_def d_def algebra_simps sum_subtractf)
  then have "row_cost n f c X r x = (\<Sum>j<n. (e j - v j)\<^sup>2) + c * (\<Sum>k<f. (y k + d k)\<^sup>2)"
    by (simp add: row_cost_def d_def)
  also have "\<dots> = row_cost n f c X r y + ((\<Sum>j<n. (v j)\<^sup>2) + c * (\<Sum>k<f. (d k)\<^sup>2)) +
      2 * (c * (\<Sum>k<f. d k * y k) - (\<Sum>j<n. e j * v j))"
    unfolding row_cost_def e_def [symmetric]
    by (simp add: power2_sum power2_diff sum.distrib sum_subtractf sum_distrib_left algebra_simps)
  finally have "row_cost n f c X r x = row_cost n f c X r y + ((\<Sum>j<n. (v j)\<^sup>2) + c * (\<Sum>k<f. (d k)\<^sup>2))"
    by (simp add: cross)
  moreover have "0 \<le> (\<Sum>j<n. (v j)\<^sup>2) + c * (\<Sum>k<f. (d k)\<^sup>2)" using c by (simp add: sum_nonneg)
  ultimately show ?thesis by simp
qed

text \<open>With a positive weight the equations have at most one solution.\<close>

lemma normal_matrix_regular:
  fixes X :: "nat \<Rightarrow> nat \<Rightarrow> real"
  assumes "\<And>k. k < f \<Longrightarrow> (\<Sum>l<f. ((\<Sum>j<n. X j k * X j l) + (if k = l then c else 0)) * v l) = (0 :: real)"
    and "0 < c" and "k < f"
  shows "v k = 0"
proof -
  have "row_cost n f c X (\<lambda>j. 0) v \<le> row_cost n f c X (\<lambda>j. 0) (\<lambda>k. 0)"
    by (rule normal_equations_minimize) (use assms(1,2) in auto)
  then have "(\<Sum>j<n. (\<Sum>k<f. v k * X j k)\<^sup>2) + c * (\<Sum>k<f. (v k)\<^sup>2) \<le> 0" by (simp add: row_cost_def)
  moreover have "0 \<le> (\<Sum>j<n. (\<Sum>k<f. v k * X j k)\<^sup>2)" by (simp add: sum_nonneg)
  moreover have "0 \<le> c * (\<Sum>k<f. (v k)\<^sup>2)" using assms(2) by (simp add: sum_nonneg)
  ultimately have "c * (\<Sum>k<f. (v k)\<^sup>2) = 0" by linarith
  then have "(\<Sum>k<f. (v k)\<^sup>2) = 0" using assms(2) by simp
  then show ?thesis using assms(3) by (simp add: sum_nonneg_eq_0_iff)
qed

text \<open>
  The documented behaviour of \<open>np.linalg.solve\<close>: a regular system of \<open>f\<close> equations with one right-hand side is
  solved.
\<close>

definition solves :: "nat \<Rightarrow> solver \<Rightarrow> bool" where
  "solves f solve \<longleftrightarrow>
     (\<forall>A b. shape f f A \<longrightarrow> shape f 1 b \<longrightarrow>
        (\<forall>v. (\<forall>k<f. (\<Sum>l<f. A ! k ! l * v l) = 0) \<longrightarrow> (\<forall>k<f. v k = 0)) \<longrightarrow>
        (\<exists>x. solve A b = Inr x \<and> shape f 1 x \<and> (\<forall>k<f. (\<Sum>l<f. A ! k ! l * x ! l ! 0) = b ! k ! 0)))"

text \<open>\<open>update\<close> returns a column that minimizes the cost of its row.\<close>

lemma als_update_minimizes:
  assumes solve: "solves f solve" and mat: "shape n f mat" "0 < n" "0 < f"
    and ratings: "i < length ratings" "length (ratings ! i) = n"
  shows "\<exists>y. als_update solve i vec mat ratings = Inr y \<and> shape f 1 y \<and>
    (\<forall>x. row_cost n f (LAMBDA * real n) (\<lambda>j k. mat ! j ! k) (\<lambda>j. ratings ! i ! j) (\<lambda>k. y ! k ! 0) \<le>
       row_cost n f (LAMBDA * real n) (\<lambda>j k. mat ! j ! k) (\<lambda>j. ratings ! i ! j) x)"
proof -
  let ?row = "ratings ! i" and ?c = "LAMBDA * real n"
  let ?X = "\<lambda>j k. mat ! j ! k" and ?r = "\<lambda>j. ratings ! i ! j"
  have T: "shape f n (mat_T mat)" and Tn: "\<And>k j. k < f \<Longrightarrow> j < n \<Longrightarrow> mat_T mat ! k ! j = mat ! j ! k"
    using shape_T [OF mat(1,2)] mat_T_nth [OF mat(1)] by simp_all
  obtain XtX where XtX: "mat_mul (mat_T mat) mat = Inr XtX" "shape f f XtX"
    and XtX_n: "\<forall>k<f. \<forall>l<f. XtX ! k ! l = (\<Sum>j<n. mat_T mat ! k ! j * mat ! j ! l)"
    using mat_mul_entries [OF T mat(1,3,2)] by blast
  have r: "shape 1 n [?row]" using ratings(2) by (simp add: shape_def)
  have rT: "shape n 1 (mat_T [?row])" "\<And>j. j < n \<Longrightarrow> mat_T [?row] ! j ! 0 = ?row ! j"
    using shape_T [OF r] mat_T_nth [OF r, of 0] by simp_all
  obtain Xty where Xty: "mat_mul (mat_T mat) (mat_T [?row]) = Inr Xty" "shape f 1 Xty"
    and Xty_n: "\<forall>k<f. \<forall>l<1. Xty ! k ! l = (\<Sum>j<n. mat_T mat ! k ! j * mat_T [?row] ! j ! l)"
    using mat_mul_entries [OF T rT(1) mat(3,2)] by blast
  define A where "A = add_diagonal ?c [0..<f] XtX"
  have A: "shape f f A" and A_n: "\<And>k l. k < f \<Longrightarrow> l < f \<Longrightarrow>
      A ! k ! l = (\<Sum>j<n. ?X j k * ?X j l) + (if k = l then ?c else 0)"
    using add_diagonal_entries [OF XtX(2), of "[0..<f]" ?c] XtX_n Tn by (simp_all add: A_def)
  have c: "0 < ?c" using mat(2) by (simp add: LAMBDA_def)
  have "\<forall>k<f. v k = 0" if "\<forall>k<f. (\<Sum>l<f. A ! k ! l * v l) = 0" for v
  proof (intro allI impI)
    fix k assume k: "k < f"
    show "v k = 0"
      by (rule normal_matrix_regular [where n = n and X = ?X and c = ?c and v = v, OF _ c]) (use that A_n k in simp_all)
  qed
  then obtain y where y: "solve A Xty = Inr y" "shape f 1 y" "\<forall>k<f. (\<Sum>l<f. A ! k ! l * y ! l ! 0) = Xty ! k ! 0"
    using solve [unfolded solves_def] A Xty(2) by blast
  have "als_update solve i vec mat ratings = Inr y"
    using XtX(1) Xty(1) y(1) ratings(1) mat(1) shape_ncols [OF mat(1,2)]
    by (simp add: als_update_def mat_row_def A_def shape_def)
  moreover have "row_cost n f ?c ?X ?r (\<lambda>k. y ! k ! 0) \<le> row_cost n f ?c ?X ?r x" for x
    by (rule normal_equations_minimize) (use y(3) A_n Xty_n Tn rT(2) c in simp_all)
  ultimately show ?thesis using y(2) by blast
qed

section \<open>Rounds\<close>

text \<open>What alternating least squares lowers: the squared error with weights on the entries of both factors.\<close>

definition objective :: "nat \<Rightarrow> nat \<Rightarrow> nat \<Rightarrow> real list list \<Rightarrow> real list list \<Rightarrow> real list list \<Rightarrow> real" where
  "objective M U F R ms us =
     (\<Sum>i<M. \<Sum>j<U. (R ! i ! j - (\<Sum>k<F. ms ! i ! k * us ! j ! k))\<^sup>2) +
     LAMBDA * real U * (\<Sum>i<M. \<Sum>k<F. (ms ! i ! k)\<^sup>2) + LAMBDA * real M * (\<Sum>j<U. \<Sum>k<F. (us ! j ! k)\<^sup>2)"

lemma objective_rows:
  "objective M U F R ms us =
     (\<Sum>i<M. row_cost U F (LAMBDA * real U) (\<lambda>j k. us ! j ! k) (\<lambda>j. R ! i ! j) (\<lambda>k. ms ! i ! k)) +
     LAMBDA * real M * (\<Sum>j<U. \<Sum>k<F. (us ! j ! k)\<^sup>2)"
  by (simp add: objective_def row_cost_def sum.distrib sum_distrib_left)

lemma objective_transposed:
  assumes "shape M U R"
  shows "objective M U F R ms us = objective U M F (mat_T R) us ms"
proof -
  have "(\<Sum>j<U. \<Sum>i<M. (mat_T R ! j ! i - (\<Sum>k<F. us ! j ! k * ms ! i ! k))\<^sup>2) =
      (\<Sum>j<U. \<Sum>i<M. (R ! i ! j - (\<Sum>k<F. ms ! i ! k * us ! j ! k))\<^sup>2)"
    by (intro sum.cong refl) (simp add: mat_T_nth [OF assms] mult.commute)
  also have "\<dots> = (\<Sum>i<M. \<Sum>j<U. (R ! i ! j - (\<Sum>k<F. ms ! i ! k * us ! j ! k))\<^sup>2)" by (rule sum.swap)
  finally show ?thesis by (simp add: objective_def)
qed

definition als_env_ok :: "nat \<Rightarrow> nat \<Rightarrow> nat \<Rightarrow> als_env \<Rightarrow> bool" where
  "als_env_ok M U f env \<longleftrightarrow> 0 < als_slices env \<and> solves f (als_solve env) \<and> reads_frames (als_readRDDFromFile env) \<and>
     (\<forall>n\<in>{M, U}. pickles (als_codec env) (sc_unbatched (als_context env)) (map Obj [0..<n]))"

lemma als_half_minimizes:
  assumes env: "als_env_ok M U F env" "n \<in> {M, U}" and self: "length self = n" and other: "shape m F other" and R: "shape n m R"
    and pos: "0 < n" "0 < m" "0 < F"
  shows "\<exists>new. als_half env n self other R = Some (Inr new) \<and> shape n F new \<and>
    (\<forall>rows. objective n m F R new other \<le> objective n m F R rows other)"
proof -
  let ?cost = "\<lambda>i. row_cost m F (LAMBDA * real m) (\<lambda>j k. other ! j ! k) (\<lambda>j. R ! i ! j)"
  let ?f = "\<lambda>x. bind_res (mat_row x self) (\<lambda>vec. als_update (als_solve env) x vec other R)"
  have solve: "solves F (als_solve env)" using env(1) by (simp add: als_env_ok_def)
  have "\<forall>x\<in>{..<n}. \<exists>y. ?f x = Inr y \<and> shape F 1 y \<and> (\<forall>z. ?cost x (\<lambda>k. y ! k ! 0) \<le> ?cost x z)"
    using als_update_minimizes [OF solve other pos(2,3)] shapeD [OF R] self by (simp add: mat_row_def)
  then obtain g where g: "\<forall>x\<in>{..<n}. ?f x = Inr (g x) \<and> shape F 1 (g x) \<and> (\<forall>z. ?cost x (\<lambda>k. g x ! k ! 0) \<le> ?cost x z)"
    by (rule bchoice [THEN exE])
  obtain ser jrdd parts where par: "parallelize (als_codec env) (als_readRDDFromFile env) (als_default env) (als_context env)
      (map Obj [0..<n]) (Some (als_slices env)) = Inr (ser, jrdd)" "read_slices (als_codec env) ser jrdd = Some (Inr parts)"
      "concat parts = [0..<n]"
    using parallelize_elements [of "Some (als_slices env)" "als_default env" "als_readRDDFromFile env" "als_codec env"
        "als_context env" "[0..<n]"] env
    by (auto simp: als_env_ok_def py_or_def)
  define new where "new = map (\<lambda>i. map (\<lambda>row. row ! 0) (g i)) [0..<n]"
  have "mapM_res (mapM_res ?f) parts = Inr (map (map g) parts)"
    by (rule mapM_parts) (use g par(3) in simp)
  moreover have "collect (map (map g) parts) = map g [0..<n]" by (simp add: collect_def par(3) flip: map_concat)
  ultimately have half: "als_half env n self other R = Some (Inr new)"
    using par(1,2) pos(1) by (simp add: als_half_def first_columns_def new_def)
  have "shape n F new" using g by (auto simp: new_def shape_def)
  moreover have "new ! i ! k = g i ! k ! 0" if "i < n" "k < F" for i k
    using g that by (simp add: new_def shape_def)
  then have "?cost i (\<lambda>k. new ! i ! k) = ?cost i (\<lambda>k. g i ! k ! 0)" if "i < n" for i
    using that by (simp add: row_cost_def)
  then have "objective n m F R new other \<le> objective n m F R rows other" for rows
    using g unfolding objective_rows by (intro add_right_mono sum_mono) simp
  ultimately show ?thesis using half by blast
qed

text \<open>The error that is printed.\<close>

lemma squared_error_sum:
  assumes "shape M U R" "shape M U P"
  shows "squared_error R P = (\<Sum>i<M. \<Sum>j<U. (R ! i ! j - P ! i ! j)\<^sup>2)"
  using shapeD [OF assms(1)] shapeD [OF assms(2)]
  by (simp add: squared_error_def sum_list_sum_nth atLeast0LessThan)

lemma rmse_value:
  assumes "shape M U R" "shape M F ms" "shape U F us" "0 < M" "0 < U" "0 < F"
  shows "rmse M U R ms us = Inr (sqrt ((\<Sum>i<M. \<Sum>j<U. (R ! i ! j - (\<Sum>k<F. ms ! i ! k * us ! j ! k))\<^sup>2) / real M * real U))"
proof -
  obtain P where P: "mat_mul ms (mat_T us) = Inr P" "shape M U P"
    and P_n: "\<forall>i<M. \<forall>j<U. P ! i ! j = (\<Sum>k<F. ms ! i ! k * mat_T us ! k ! j)"
    using mat_mul_entries [OF assms(2) shape_T [OF assms(3,5)] assms(4,6)] by blast
  have "squared_error R P = (\<Sum>i<M. \<Sum>j<U. (R ! i ! j - (\<Sum>k<F. ms ! i ! k * us ! j ! k))\<^sup>2)"
    using P_n mat_T_nth [OF assms(3)] by (simp add: squared_error_sum [OF assms(1) P(2)])
  moreover have "length P = length R" "ncols P = ncols R"
    using shape_ncols [OF P(2) assms(4)] shape_ncols [OF assms(1,4)] shapeD [OF P(2)] shapeD [OF assms(1)] by simp_all
  ultimately show ?thesis using P(1) unfolding rmse_def by simp
qed

text \<open>A solver for one unknown.\<close>

definition divide_solve :: solver where
  "divide_solve A b = (if A ! 0 ! 0 = 0 then Inl (PyException ''LinAlgError'') else Inr [[b ! 0 ! 0 / A ! 0 ! 0]])"

lemma divide_solve_solves: "solves 1 divide_solve"
  unfolding solves_def
proof (intro allI impI)
  fix A b :: "real list list"
  assume "\<forall>v. (\<forall>k<1. (\<Sum>l<1. A ! k ! l * v l) = 0) \<longrightarrow> (\<forall>k<1. v k = (0 :: real))"
  then have "A ! 0 ! 0 \<noteq> 0" by (auto dest: spec [where x = "\<lambda>k. 1"])
  then show "\<exists>x. divide_solve A b = Inr x \<and> shape 1 1 x \<and> (\<forall>k<1. (\<Sum>l<1. A ! k ! l * x ! l ! 0) = b ! k ! 0)"
    by (simp add: divide_solve_def shape_def)
qed

definition example_als_env :: als_env where
  "example_als_env = \<lparr>als_context = blank_ctx, als_default = 2, als_slices = 2, als_codec = unary_codec id id,
     als_readRDDFromFile = even_read, als_solve = divide_solve\<rparr>"

lemma example_als_env_ok: "als_env_ok 2 3 1 example_als_env"
proof -
  have "pickles (unary_codec id id) PickleSer (map Obj [0..<n])" if "n \<in> {2, 3}" for n
    using that by (intro unary_codec_pickles [where B = 4]) auto
  then show ?thesis
    using divide_solve_solves even_read_reads by (simp add: als_env_ok_def example_als_env_def blank_ctx_def)
qed

section \<open>Properties\<close>

text \<open>
  What each half round starts from is the factor before it: every round is a pair of exact minimizations of the
  regularised squared error, first over all values of the first factor with the second one fixed, then over all values of
  the second with the new first one.
\<close>

fun minimizing_rounds :: "nat \<Rightarrow> nat \<Rightarrow> nat \<Rightarrow> real list list \<Rightarrow> real list list \<times> real list list \<Rightarrow>
    (real list list \<times> real list list \<times> real) list \<Rightarrow> bool" where
  "minimizing_rounds M U F R (ms, us) [] \<longleftrightarrow> True"
| "minimizing_rounds M U F R (ms, us) ((ms', us', e) # rounds) \<longleftrightarrow>
     shape M F ms' \<and> shape U F us' \<and>
     (\<forall>rows. objective M U F R ms' us \<le> objective M U F R rows us) \<and>
     (\<forall>rows. objective M U F R ms' us' \<le> objective M U F R ms' rows) \<and>
     e = sqrt ((\<Sum>i<M. \<Sum>j<U. (R ! i ! j - (\<Sum>k<F. ms' ! i ! k * us' ! j ! k))\<^sup>2) / real M * real U) \<and>
     minimizing_rounds M U F R (ms', us') rounds"

text \<open>
  C19: Alternating least squares of \<open>als.py\<close> ends after the asked number of rounds, and in every one of them the first half
  round finds a factor that minimizes the regularised squared error over all values of the first factor, the second half
  round one that minimizes it over all values of the second; so no half round raises the error. The printed number is that
  of the factors of its round.
\<close>

theorem als_never_worse:
  assumes "als_env_ok M U F env" and "shape M U R" and "0 < M" "0 < U" "0 < F"
    and "shape M F ms" "shape U F us"
  shows "\<exists>rounds. als_rounds env M U R n (ms, us) = Some (Inr rounds) \<and> length rounds = n \<and>
    minimizing_rounds M U F R (ms, us) rounds"
  using assms(6,7)
proof (induction n arbitrary: ms us)
  case (Suc n)
  note R = assms(2) and pos = assms(3-5)
  obtain ms1 where ms1: "als_half env M ms us R = Some (Inr ms1)" "shape M F ms1"
      "\<forall>rows. objective M U F R ms1 us \<le> objective M U F R rows us"
    using als_half_minimizes [OF assms(1) _ _ Suc.prems(2) R pos, of ms] shapeD [OF Suc.prems(1)] by auto
  obtain us1 where us1: "als_half env U us ms1 (mat_T R) = Some (Inr us1)" "shape U F us1"
      "\<forall>rows. objective U M F (mat_T R) us1 ms1 \<le> objective U M F (mat_T R) rows ms1"
    using als_half_minimizes [OF assms(1) _ _ ms1(2) shape_T [OF R pos(1)] pos(2,1,3), of us] shapeD [OF Suc.prems(2)] by auto
  obtain rounds where "als_rounds env M U R n (ms1, us1) = Some (Inr rounds)" "length rounds = n"
      "minimizing_rounds M U F R (ms1, us1) rounds"
    using Suc.IH [OF ms1(2) us1(2)] by blast
  then show ?case
    using ms1 us1 rmse_value [OF R ms1(2) us1(2) pos]
    by (intro exI [of _ "(ms1, us1, _) # rounds"]) (simp add: objective_transposed [OF R])
qed simp

theorem als_never_worse_witness:
  "\<exists>rounds. als_rounds example_als_env 2 3 [[1, 2, 3], [2, 4, 6]] 5 ([[1], [1]], [[1], [1], [1]]) = Some (Inr rounds) \<and>
    length rounds = 5 \<and> minimizing_rounds 2 3 1 [[1, 2, 3], [2, 4, 6]] ([[1], [1]], [[1], [1], [1]]) rounds"
  by (rule als_never_worse [OF example_als_env_ok]) (simp_all add: shape_def)

text \<open>
  The error that \<open>als.py\<close> prints as the root of the mean squared error is that root times the number of users: the
  sum is divided by \<open>M\<close> and the quotient multiplied by \<open>U\<close>.
\<close>

theorem als_prints_scaled_error:
  assumes "shape M U R" "shape M F ms" "shape U F us" "0 < M" "0 < U" "0 < F"
  shows "rmse M U R ms us =
    Inr (real U * sqrt ((\<Sum>i<M. \<Sum>j<U. (R ! i ! j - (\<Sum>k<F. ms ! i ! k * us ! j ! k))\<^sup>2) / (real M * real U)))"
proof -
  have "s / real M * real U = (real U)\<^sup>2 * (s / (real M * real U))" for s
    using assms(5) by (simp add: power2_eq_square)
  then show ?thesis unfolding rmse_value [OF assms] by (simp only: real_sqrt_mult) simp
qed

theorem als_prints_scaled_error_witness:
  "rmse 1 4 [[3, 3, 3, 3]] [[1]] [[1], [1], [1], [1]] = Inr 8"
proof -
  have "(\<Sum>i<1 :: nat. \<Sum>j<4. ([[3 :: real, 3, 3, 3]] ! i ! j - (\<Sum>k<1. [[1 :: real]] ! i ! k * [[1], [1], [1], [1]] ! j ! k))\<^sup>2) = 16"
    by (simp add: eval_nat_numeral)
  then show ?thesis
    using als_prints_scaled_error [of 1 4 "[[3, 3, 3, 3]]" 1 "[[1]]" "[[1], [1], [1], [1]]"] by (simp add: shape_def)
qed

end
