(* ===== verification/LogisticJob.thy ===== *)
theory LogisticJob
  imports MatrixJobs
begin

text \<open>
  The example program \<open>examples/src/main/python/logistic_regression.py\<close>: batch gradient descent, one
  matrix of points per partition. Numbers are real; the reading of a number is an argument.
\<close>

section \<open>The program\<close>

definition D :: nat where "D = 10"

text \<open>
  \<open>matrix[i] = np.fromstring(...)\<close>: the array has to have the length of the row, or one element, which fills the
  row. \<open>fromstring\<close> stands for \<open>np.fromstring(s, dtype=np.float32, sep=' ')\<close>.
\<close>

definition assign_row :: "real list \<Rightarrow> real list res" where
  "assign_row xs =
     (if length xs = D + 1 then Inr xs else if length xs = 1 then Inr (replicate (D + 1) (hd xs)) else Inl ValueError)"

definition readPointBatch :: "(string \<Rightarrow> real list) \<Rightarrow> string list \<Rightarrow> real list list list res" where
  "readPointBatch fromstring strs =
     map_res (\<lambda>matrix. [matrix])
       (mapM_res (\<lambda>s. assign_row (fromstring (map (\<lambda>c. if c = CHR '','' then CHR '' '' else c) s))) strs)"

text \<open>
  \<open>gradient\<close>: a point is a row with its label in front; the coefficients of the points times the transposed
  coordinates, summed over the points.
\<close>

definition coefficient :: "real list \<Rightarrow> real list \<Rightarrow> real" where
  "coefficient w row = (let Y = row ! 0; X = drop 1 row in (1 / (1 + exp (- Y * row_times X w)) - 1) * Y)"

definition gradient :: "real list list \<Rightarrow> real list \<Rightarrow> real list" where
  "gradient matrix w = map (\<lambda>k. sum_list (map (\<lambda>row. coefficient w row * drop 1 row ! k) matrix)) [0..<D]"

definition add_arrays :: "real list \<Rightarrow> real list \<Rightarrow> real list" where
  "add_arrays x y = map (\<lambda>(a, b). a + b) (zip x y)"

definition subtract_arrays :: "real list \<Rightarrow> real list \<Rightarrow> real list" where
  "subtract_arrays x y = map (\<lambda>(a, b). a - b) (zip x y)"

definition lr_step :: "real list list partitions \<Rightarrow> real list \<Rightarrow> real list res" where
  "lr_step points w =
     map_res (subtract_arrays w) (rdd_reduce (\<lambda>_. False) (\<lambda>x y. Inr (add_arrays x y)) (rdd_map (\<lambda>m. gradient m w) points))"

fun lr_loop :: "real list list partitions \<Rightarrow> nat \<Rightarrow> real list \<Rightarrow> real list res" where
  "lr_loop points 0 w = Inr w"
| "lr_loop points (Suc n) w = bind_res (lr_step points w) (lr_loop points n)"

definition logistic_regression :: "(string \<Rightarrow> real list) \<Rightarrow> string partitions \<Rightarrow> int \<Rightarrow> real list \<Rightarrow> real list res" where
  "logistic_regression fromstring lines iterations w =
     bind_res (mapM_res (readPointBatch fromstring) lines) (\<lambda>points. lr_loop points (nat iterations) w)"

section \<open>The logistic loss and its derivatives\<close>

definition logistic_loss :: "real list list \<Rightarrow> real list \<Rightarrow> real" where
  "logistic_loss pts w = sum_list (map (\<lambda>row. ln (1 + exp (- (row ! 0 * row_times (drop 1 row) w)))) pts)"

lemma row_times_update:
  assumes "length x = length w" "k < length w"
  shows "((\<lambda>t. row_times x (w[k := t])) has_real_derivative x ! k) (at a)"
proof -
  let ?c = "\<Sum>j\<in>{..<length w} - {k}. x ! j * w ! j"
  have "row_times x (w[k := t]) = x ! k * t + ?c" for t
  proof -
    have "row_times x (w[k := t]) = (\<Sum>j<length w. x ! j * w[k := t] ! j)"
      by (rule row_times_sum) (use assms in simp_all)
    also have "\<dots> = x ! k * w[k := t] ! k + (\<Sum>j\<in>{..<length w} - {k}. x ! j * w[k := t] ! j)"
      using assms(2) by (intro sum.remove) simp_all
    also have "(\<Sum>j\<in>{..<length w} - {k}. x ! j * w[k := t] ! j) = ?c" by (rule sum.cong) simp_all
    finally show ?thesis using assms(2) by simp
  qed
  then have "(\<lambda>t. row_times x (w[k := t])) = (\<lambda>t. x ! k * t + ?c)" by (rule ext)
  moreover have "((\<lambda>t. x ! k * t + ?c) has_real_derivative x ! k) (at a)" by (auto intro!: derivative_eq_intros)
  ultimately show ?thesis by (simp only:)
qed

lemma point_loss_derivative:
  fixes Y f' :: real
  assumes "(f has_real_derivative f') (at a)"
  shows "((\<lambda>t. ln (1 + exp (- (Y * f t)))) has_real_derivative (1 / (1 + exp (- Y * f a)) - 1) * Y * f') (at a)"
proof -
  let ?e = "exp (- (Y * f a))"
  have pos: "0 < 1 + ?e" by (simp add: add_pos_pos)
  have "((\<lambda>t. ln (1 + exp (- (Y * f t)))) has_real_derivative (?e * - (Y * f')) / (1 + ?e)) (at a)"
    using pos by (auto intro!: derivative_eq_intros assms simp: field_simps)
  moreover have "(?e * - (Y * f')) / (1 + ?e) = (1 / (1 + ?e) - 1) * Y * f'"
    using pos by (simp add: field_simps)
  ultimately show ?thesis by simp
qed

lemma loss_derivative:
  assumes "\<forall>row\<in>set pts. length row = D + 1" "length w = D" "k < D"
  shows "((\<lambda>t. logistic_loss pts (w[k := t])) has_real_derivative gradient pts w ! k) (at (w ! k))"
proof -
  have "((\<lambda>t. sum_list (map (\<lambda>row. ln (1 + exp (- (row ! 0 * row_times (drop 1 row) (w[k := t]))))) qs)) has_real_derivative
      sum_list (map (\<lambda>row. coefficient w row * drop 1 row ! k) qs)) (at (w ! k))" if "set qs \<subseteq> set pts" for qs
    using that
  proof (induction qs)
    case (Cons row qs)
    have "((\<lambda>t. row_times (drop 1 row) (w[k := t])) has_real_derivative drop 1 row ! k) (at (w ! k))"
      using Cons.prems assms by (intro row_times_update) simp_all
    then have "((\<lambda>t. ln (1 + exp (- (row ! 0 * row_times (drop 1 row) (w[k := t]))))) has_real_derivative
        coefficient w row * drop 1 row ! k) (at (w ! k))"
      by (drule_tac Y = "row ! 0" in point_loss_derivative) (simp add: coefficient_def Let_def)
    then show ?case using Cons by (simp add: DERIV_add)
  qed simp
  then show ?thesis using assms(3) by (simp add: logistic_loss_def gradient_def)
qed

section \<open>Partitions\<close>

lemma gradient_append: "gradient (xs @ ys) w = add_arrays (gradient xs w) (gradient ys w)"
  by (simp add: gradient_def add_arrays_def zip_map_map zip_same_conv_map)

lemma foldl_gradients:
  "foldl add_arrays (gradient m w) (map (\<lambda>m. gradient m w) ms) = gradient (m @ concat ms) w"
  by (induction ms arbitrary: m) (simp_all add: gradient_append [symmetric])

lemma lr_step_gradient:
  assumes "ms \<noteq> []"
  shows "lr_step (map (\<lambda>m. [m]) ms) w = Inr (subtract_arrays w (gradient (concat ms) w))"
proof -
  obtain m ms' where ms: "ms = m # ms'" using assms by (cases ms) auto
  have "rdd_reduce (\<lambda>_. False) (\<lambda>x y. Inr (add_arrays x y)) (map (\<lambda>x. [x]) (map (\<lambda>m. gradient m w) ms)) =
      py_reduce (\<lambda>x y. Inr (add_arrays x y)) (map (\<lambda>m. gradient m w) ms)"
    by (rule rdd_reduce_singletons) simp
  then show ?thesis by (simp add: lr_step_def ms py_reduce_def foldl_gradients comp_def)
qed

section \<open>The loop\<close>

text \<open>A step of the descent: each component changes by the partial derivative of the loss.\<close>

definition gradient_step :: "real list list \<Rightarrow> real list \<Rightarrow> real list \<Rightarrow> bool" where
  "gradient_step pts w w' \<longleftrightarrow> length w' = D \<and>
     (\<forall>k<D. ((\<lambda>t. logistic_loss pts (w[k := t])) has_real_derivative w ! k - w' ! k) (at (w ! k)))"

lemma gradient_step_subtract:
  assumes "\<forall>row\<in>set pts. length row = D + 1" "length w = D"
  shows "gradient_step pts w (subtract_arrays w (gradient pts w))"
proof -
  have "length (gradient pts w) = D" by (simp add: gradient_def)
  then show ?thesis using loss_derivative [OF assms] assms(2) by (simp add: gradient_step_def subtract_arrays_def)
qed

lemma lr_loop_steps:
  assumes "ms \<noteq> []" "\<forall>row\<in>set (concat ms). length row = D + 1" "length w = D"
  shows "\<exists>ws. lr_loop (map (\<lambda>m. [m]) ms) n w = Inr (ws ! n) \<and> ws ! 0 = w \<and>
    (\<forall>i<n. gradient_step (concat ms) (ws ! i) (ws ! Suc i))"
  using assms(3)
proof (induction n arbitrary: w)
  case 0
  have "[w] ! 0 = w" by simp
  then show ?case by (intro exI [of _ "[w]"]) simp
next
  case (Suc n)
  let ?w = "subtract_arrays w (gradient (concat ms) w)"
  have step: "gradient_step (concat ms) w ?w" by (rule gradient_step_subtract [OF assms(2) Suc.prems])
  then obtain ws where ws: "lr_loop (map (\<lambda>m. [m]) ms) n ?w = Inr (ws ! n)" "ws ! 0 = ?w"
    and steps: "\<forall>i<n. gradient_step (concat ms) (ws ! i) (ws ! Suc i)"
    using Suc.IH [of ?w] unfolding gradient_step_def by blast
  have "gradient_step (concat ms) ((w # ws) ! i) ((w # ws) ! Suc i)" if "i < Suc n" for i
    using that steps step ws(2) by (cases i) simp_all
  then show ?case using ws(1) lr_step_gradient [OF assms(1)] by (intro exI [of _ "w # ws"]) simp
qed

text \<open>The points of the lines, where every line has a label and \<open>D\<close> coordinates.\<close>

definition point_of :: "(string \<Rightarrow> real list) \<Rightarrow> string \<Rightarrow> real list" where
  "point_of fromstring s = fromstring (map (\<lambda>c. if c = CHR '','' then CHR '' '' else c) s)"

lemma readPointBatch_points:
  assumes "\<forall>s\<in>set (concat lines). length (point_of fromstring s) = D + 1"
  shows "mapM_res (readPointBatch fromstring) lines = Inr (map (\<lambda>m. [m]) (map (map (point_of fromstring)) lines))"
proof -
  have "readPointBatch fromstring p = Inr [map (point_of fromstring) p]" if "p \<in> set lines" for p
  proof -
    have "mapM_res (\<lambda>s. assign_row (point_of fromstring s)) p = Inr (map (point_of fromstring) p)"
      by (rule mapM_res_Inr) (use assms that in \<open>auto simp: assign_row_def\<close>)
    then show ?thesis by (simp add: readPointBatch_def point_of_def)
  qed
  then show ?thesis using mapM_res_Inr [of lines "readPointBatch fromstring"] by (simp add: comp_def)
qed

section \<open>Properties\<close>

text \<open>
  C20: Every iteration of \<open>logistic_regression.py\<close> takes one step against the gradient of the logistic loss of all points,
  however the lines are distributed over partitions: each component of the step is the partial derivative
  of the loss.
\<close>

theorem logistic_regression_descends_gradient:
  assumes "lines \<noteq> []" "\<forall>s\<in>set (concat lines). length (point_of fromstring s) = D + 1" and "length w = D"
  shows "\<exists>ws. logistic_regression fromstring lines iterations w = Inr (ws ! nat iterations) \<and> ws ! 0 = w \<and>
    (\<forall>i<nat iterations. gradient_step (map (point_of fromstring) (concat lines)) (ws ! i) (ws ! Suc i))"
proof -
  let ?ms = "map (map (point_of fromstring)) lines"
  have ms: "?ms \<noteq> []" "\<forall>row\<in>set (concat ?ms). length row = D + 1" "concat ?ms = map (point_of fromstring) (concat lines)"
    using assms(1,2) by (auto simp: map_concat)
  show ?thesis
    using lr_loop_steps [OF ms(1,2) assms(3)] readPointBatch_points [OF assms(2)]
    by (simp add: logistic_regression_def ms(3))
qed

theorem logistic_regression_descends_gradient_witness:
  "\<exists>ws. logistic_regression (\<lambda>s. replicate 11 1) [[''1 2'', ''3''], []] 2 (replicate 10 0) = Inr (ws ! 2) \<and> ws ! 0 = replicate 10 0 \<and>
    gradient_step [replicate 11 1, replicate 11 1] (ws ! 0) (ws ! 1)"
proof -
  let ?f = "\<lambda>s :: string. replicate 11 (1 :: real)"
  have "map (point_of ?f) (concat [[''1 2'', ''3''], []]) = [replicate 11 1, replicate 11 1]" by (simp add: point_of_def)
  then obtain ws where ws: "logistic_regression ?f [[''1 2'', ''3''], []] 2 (replicate 10 0) = Inr (ws ! 2)" "ws ! 0 = replicate 10 0"
    and "\<forall>i<2. gradient_step [replicate 11 1, replicate 11 1] (ws ! i) (ws ! Suc i)"
    using logistic_regression_descends_gradient [of "[[''1 2'', ''3''], []]" ?f "replicate 10 0" 2]
    by (auto simp: point_of_def D_def)
  then have "gradient_step [replicate 11 1, replicate 11 1] (ws ! 0) (ws ! 1)" by (elim allE [of _ 0]) simp
  then show ?thesis using ws by blast
qed

end
