(* ===== verification/SortJob.thy ===== *)
theory SortJob
  imports SortByKey LibSVM
begin

text \<open>
  The example program \<open>examples/src/main/python/sort.py\<close>: the numbers of the lines, sorted over all
  partitions.
\<close>

section \<open>The program\<close>

text \<open>
  The first argument of \<open>sortByKey\<close> is \<open>ascending\<close>: the function that is passed there counts as true.
\<close>

definition sort_job :: "(int, int) shuffle_env \<Rightarrow> 'g sampler_cfg \<Rightarrow> string partitions \<Rightarrow> int list res option" where
  "sort_job env cfg lines =
     (case mapM_res (mapM_res (\<lambda>x. map_res (\<lambda>n. (n, 1)) (int_of_text x))) (flatMap (\<lambda>x. py_split CHR '' '' x) lines) of
        Inl e \<Rightarrow> Some (Inl e)
      | Inr pairs \<Rightarrow>
          map_option (map_res (\<lambda>sortedCount. map (\<lambda>(num, unitcount). num) (collect sortedCount)))
            (sortByKey env cfg True None (\<lambda>x. x) pairs))"

section \<open>Properties\<close>

text \<open>
  The program prints every number of the lines as often as it occurs, in ascending order, when every piece between spaces
  is a number and the sample of keys is not empty.
\<close>

theorem sort_job_sorts:
  assumes env: "shuffle_ok env" "0 < defaultParallelism env"
    and words: "\<forall>x\<in>set (concat (map (py_split CHR '' '') (concat lines))). int_of_text x = Inr (n x)"
    and sample: "defaultParallelism env = 1 \<or>
      key_sample cfg (defaultParallelism env) (map (map (\<lambda>x. (n x, 1 :: int))) (flatMap (\<lambda>x. py_split CHR '' '' x) lines)) = Some (Inr ks) \<and> ks \<noteq> []"
  shows "sort_job env cfg lines = Some (Inr (sort (map n (concat (map (py_split CHR '' '') (concat lines))))))"
proof -
  let ?words = "flatMap (\<lambda>x. py_split CHR '' '' x) lines"
  let ?pairs = "map (map (\<lambda>x. (n x, 1 :: int))) ?words"
  have all: "concat ?words = concat (map (py_split CHR '' '') (concat lines))"
    using collect_flatMap [of "py_split CHR '' ''" lines] by (simp only: collect_def)
  have pairs: "mapM_res (mapM_res (\<lambda>x. map_res (\<lambda>n. (n, 1 :: int)) (int_of_text x))) ?words = Inr ?pairs"
    by (rule mapM_parts) (use words in \<open>simp only: all\<close>, simp)
  obtain out where out: "sortByKey env cfg True None (\<lambda>x. x) ?pairs = Some (Inr out)" "mset (collect out) = mset (collect ?pairs)"
      "sorted_wrt (\<lambda>x y. fst x \<le> fst y) (collect out)"
    using sortByKey_sorted [OF env(1) _ env(2) sample, of None True "\<lambda>x. x"] by (auto simp: num_partitions_def)
  have "map fst (collect ?pairs) = map n (concat ?words)" unfolding collect_def map_concat by (simp add: comp_def)
  moreover have "mset (map fst (collect out)) = mset (map fst (collect ?pairs))" unfolding mset_map out(2) ..
  ultimately have "mset (map fst (collect out)) = mset (map n (concat ?words))" by (simp only:)
  moreover have "sorted (map fst (collect out))" using out(3) by (simp add: sorted_wrt_map)
  ultimately have "map fst (collect out) = sort (map n (concat (map (py_split CHR '' '') (concat lines))))" unfolding all by (rule properties_for_sort [symmetric])
  then show ?thesis using pairs out(1) by (simp add: sort_job_def split_def)
qed

theorem sort_job_sorts_witness:
  "sort_job (ordered_env 1 (\<lambda>k. k)) \<lparr>sc_rng = counting_rng, sc_numpy = True, sc_fresh = 0\<rparr> [[''3 -1''], [''2'']] = Some (Inr [-1, 2, 3])"
proof -
  let ?n = "\<lambda>x. if x = ''3'' then 3 else if x = ''2'' then 2 else (- 1 :: int)"
  have env: "defaultParallelism (ordered_env 1 (\<lambda>k :: int. k)) = 1" by (simp add: ordered_env_def)
  have "concat (map (py_split CHR '' '') (concat [[''3 -1''], [''2'']])) = [''3'', ''-1'', ''2'']" by code_simp
  moreover have "int_of_text ''3'' = Inr 3" "int_of_text ''-1'' = Inr (- 1)" "int_of_text ''2'' = Inr 2" by code_simp+
  ultimately show ?thesis
    using sort_job_sorts [OF shuffle_ok_ordered_env, of 1 "\<lambda>k. k" "[[''3 -1''], [''2'']]" ?n]
    by (simp only: env) simp
qed

end
