(* ===== verification/GraphJob.thy ===== *)
theory GraphJob
  imports Jobs Context
begin

text \<open>
  All of \<open>examples/src/main/python/transitive_closure.py\<close>: the random graph, its distribution over the
  slices, and the count of the paths. The random generator, the codec of the context's
  serializer and the JVM's \<open>readRDDFromFile\<close> are arguments.
\<close>

section \<open>The program\<close>

definition numEdges :: nat where "numEdges = 200"

text \<open>The loop of \<open>generateGraph\<close>; both ends are drawn below \<open>numEdges\<close>.\<close>

partial_function (option) generate_loop ::
  "(int \<Rightarrow> int \<Rightarrow> 'g \<Rightarrow> int \<times> 'g) \<Rightarrow> (int \<times> int) set \<Rightarrow> 'g \<Rightarrow> ((int \<times> int) set \<times> 'g) option"
where
  "generate_loop randrange edges rand =
     (if card edges < numEdges then
        (case randrange 0 (int numEdges) rand of (src, rand1) \<Rightarrow>
         case randrange 0 (int numEdges) rand1 of (dst, rand2) \<Rightarrow>
           generate_loop randrange (if src \<noteq> dst then insert (src, dst) edges else edges) rand2)
      else Some (edges, rand))"

definition generateGraph :: "(int \<Rightarrow> int \<Rightarrow> 'g \<Rightarrow> int \<times> 'g) \<Rightarrow> 'g \<Rightarrow> ((int \<times> int) set \<times> 'g) option" where
  "generateGraph randrange rand = generate_loop randrange {} rand"

text \<open>The number that is printed; \<open>elements\<close> is the order in which the set is iterated.\<close>

definition tc_program ::
  "(int \<Rightarrow> int \<Rightarrow> 'g \<Rightarrow> int \<times> 'g) \<Rightarrow> ((int \<times> int) set \<Rightarrow> (int \<times> int) list) \<Rightarrow> (int \<times> int) codec \<Rightarrow>
     (bytes \<Rightarrow> int \<Rightarrow> bytes list list res) \<Rightarrow> int tc_env \<Rightarrow> int \<Rightarrow> ctx_obj \<Rightarrow> int \<Rightarrow> 'g \<Rightarrow> int res option"
where
  "tc_program randrange elements codec readRDDFromFile env parallelism sc slices rand =
     (case generateGraph randrange rand of
        None \<Rightarrow> None
      | Some (edges, _) \<Rightarrow>
          (case parallelize codec readRDDFromFile parallelism sc (map Obj (elements edges)) (Some slices) of
             Inl e \<Rightarrow> Some (Inl e)
           | Inr (ser, jrdd) \<Rightarrow>
               (case read_slices codec ser jrdd of
                  None \<Rightarrow> None
                | Some (Inl e) \<Rightarrow> Some (Inl e)
                | Some (Inr tc) \<Rightarrow> map_option (\<lambda>r. bind_res r rdd_count) (transitive_closure env ser tc))))"

section \<open>The draws\<close>

text \<open>The first \<open>k\<close> pairs that a generator draws.\<close>

fun drawn :: "(int \<Rightarrow> int \<Rightarrow> 'g \<Rightarrow> int \<times> 'g) \<Rightarrow> nat \<Rightarrow> 'g \<Rightarrow> (int \<times> int) list" where
  "drawn randrange 0 rand = []"
| "drawn randrange (Suc k) rand =
     (case randrange 0 (int numEdges) rand of (src, rand1) \<Rightarrow>
      case randrange 0 (int numEdges) rand1 of (dst, rand2) \<Rightarrow> (src, dst) # drawn randrange k rand2)"

text \<open>
  \<open>random.randrange(a, b)\<close> is in the range, and among the first \<open>k\<close> pairs are enough different ones
  with different ends.
\<close>

definition draws_enough :: "(int \<Rightarrow> int \<Rightarrow> 'g \<Rightarrow> int \<times> 'g) \<Rightarrow> nat \<Rightarrow> 'g \<Rightarrow> bool" where
  "draws_enough randrange k rand \<longleftrightarrow>
     (\<forall>a b rand. a < b \<longrightarrow> a \<le> fst (randrange a b rand) \<and> fst (randrange a b rand) < b) \<and>
     numEdges \<le> card {(a, b) \<in> set (drawn randrange k rand). a \<noteq> b}"

definition random_edges :: "(int \<times> int) set \<Rightarrow> bool" where
  "random_edges E \<longleftrightarrow> finite E \<and> (\<forall>(a, b)\<in>E. a \<noteq> b \<and> 0 \<le> a \<and> a < int numEdges \<and> 0 \<le> b \<and> b < int numEdges)"

lemma generate_loop_returns:
  assumes range: "\<forall>a b rand. a < b \<longrightarrow> a \<le> fst (randrange a b rand) \<and> fst (randrange a b rand) < b"
    and "random_edges edges" "card edges \<le> numEdges"
    and "numEdges \<le> card (edges \<union> {(a, b) \<in> set (drawn randrange k rand). a \<noteq> b})"
  shows "\<exists>E rand'. generate_loop randrange edges rand = Some (E, rand') \<and> card E = numEdges \<and> random_edges E"
  using assms(2-4)
proof (induction k arbitrary: edges rand)
  case 0
  then show ?case by (subst generate_loop.simps) auto
next
  case (Suc k)
  show ?case
  proof (cases "card edges < numEdges")
    case False
    then show ?thesis using Suc.prems by (subst generate_loop.simps) auto
  next
    case True
    obtain src rand1 dst rand2 where r: "randrange 0 (int numEdges) rand = (src, rand1)" "randrange 0 (int numEdges) rand1 = (dst, rand2)"
      by (meson surj_pair)
    let ?edges = "if src \<noteq> dst then insert (src, dst) edges else edges"
    have "0 < int numEdges" by (simp add: numEdges_def)
    then have "0 \<le> src" "src < int numEdges" "0 \<le> dst" "dst < int numEdges"
      using range [rule_format, of 0 "int numEdges" rand] range [rule_format, of 0 "int numEdges" rand1] by (simp_all add: r)
    then have ok: "random_edges ?edges" using Suc.prems(1) by (auto simp: random_edges_def)
    have fin: "finite edges" using Suc.prems(1) by (simp add: random_edges_def)
    have "card ?edges \<le> numEdges" using True card_insert_le_m1 [of numEdges edges "(src, dst)"] fin
      by (auto simp: card_insert_if)
    moreover have "edges \<union> {(a, b) \<in> set (drawn randrange (Suc k) rand). a \<noteq> b} =
        ?edges \<union> {(a, b) \<in> set (drawn randrange k rand2). a \<noteq> b}"
      by (auto simp: r)
    then have "numEdges \<le> card (?edges \<union> {(a, b) \<in> set (drawn randrange k rand2). a \<noteq> b})" using Suc.prems(3) by simp
    ultimately have "\<exists>E rand'. generate_loop randrange ?edges rand2 = Some (E, rand') \<and> card E = numEdges \<and> random_edges E"
      using Suc.IH ok by blast
    moreover have "generate_loop randrange edges rand = generate_loop randrange ?edges rand2"
      using True by (subst generate_loop.simps) (simp add: r)
    ultimately show ?thesis by simp
  qed
qed

text \<open>A generator that walks around a circle.\<close>

definition circle_draw :: "int \<Rightarrow> int \<Rightarrow> nat \<Rightarrow> int \<times> nat" where
  "circle_draw a b n = (a + (int (n div 2) + int (n mod 2)) mod (b - a), n + 1)"

lemma circle_draw_pair:
  "circle_draw 0 (int numEdges) (2 * m) = (int m mod 200, Suc (2 * m))"
  "circle_draw 0 (int numEdges) (Suc (2 * m)) = ((int m + 1) mod 200, 2 * Suc m)"
  by (simp_all add: circle_draw_def numEdges_def)

lemma drawn_circle: "drawn circle_draw k (2 * m) = map (\<lambda>i. (int i mod 200, (int i + 1) mod 200)) [m..<m + k]"
proof (induction k arbitrary: m)
  case (Suc k)
  have "[m..<m + Suc k] = m # [Suc m..<Suc m + k]" by (simp add: upt_conv_Cons del: upt_Suc)
  then show ?case by (simp only: drawn.simps circle_draw_pair prod.case Suc.IH list.map)
qed simp

lemma no_loops: "\<forall>(a, b)\<in>S. a \<noteq> b \<Longrightarrow> {(a, b) \<in> S. a \<noteq> b} = S"
  by auto

lemma circle_draws_enough: "draws_enough circle_draw 200 0"
proof -
  let ?pair = "\<lambda>i. (int i mod 200, (int i + 1) mod 200)"
  define I where "I = {0..<200 :: nat}"
  have I: "card I = 200" "\<And>i. i \<in> I \<Longrightarrow> int i mod 200 = int i" by (simp_all add: I_def)
  have "drawn circle_draw 200 0 = map ?pair [0..<0 + 200]" using drawn_circle [of 200 0] by (simp only: mult_0_right)
  then have "set (drawn circle_draw 200 0) = ?pair ` I" by (simp only: set_map set_upt add_0 I_def)
  moreover have "int i mod 200 \<noteq> (int i + 1) mod 200" for i by (simp add: mod_eq_dvd_iff)
  then have "\<forall>(a, b)\<in>?pair ` I. a \<noteq> b" by (simp only: ball_simps prod.case) simp
  then have "{(a, b) \<in> ?pair ` I. a \<noteq> b} = ?pair ` I" by (rule no_loops)
  moreover have "inj_on ?pair I" by (rule inj_onI) (simp only: prod.inject I(2) of_nat_eq_iff)
  then have "card (?pair ` I) = 200" by (simp only: card_image I(1))
  ultimately have "card {(a, b) \<in> set (drawn circle_draw 200 0). a \<noteq> b} = 200" by (simp only:)
  moreover have "a \<le> fst (circle_draw a b n) \<and> fst (circle_draw a b n) < b" if "a < b" for a b n
  proof -
    define x where "x = int (n div 2) + int (n mod 2)"
    have "0 \<le> x mod (b - a)" "x mod (b - a) < b - a" using that by simp_all
    then show ?thesis unfolding circle_draw_def fst_conv x_def [symmetric] by linarith
  qed
  ultimately show ?thesis unfolding draws_enough_def numEdges_def by (intro conjI allI impI) (simp_all only: order_refl)
qed

section \<open>Properties\<close>

text \<open>
  The program ends when its generator goes on drawing new pairs, and prints the number of the paths of a graph with
  \<open>numEdges\<close> edges, none from a vertex to itself. The vertices are drawn below the number of edges, not
  below \<open>numVertices\<close>.
\<close>

theorem tc_program_counts_paths:
  assumes env: "tc_env_ok env" and slices: "0 < slices" and jvm: "reads_frames readRDDFromFile"
    and codec: "\<forall>E. card E = numEdges \<longrightarrow> random_edges E \<longrightarrow> pickles codec (sc_unbatched sc) (map Obj (elements E))"
    and order: "\<forall>E. finite E \<longrightarrow> distinct (elements E) \<and> set (elements E) = E"
    and draws: "draws_enough randrange k rand"
  shows "\<exists>E. tc_program randrange elements codec readRDDFromFile env parallelism sc slices rand = Some (Inr (int (card (E\<^sup>+)))) \<and>
    card E = numEdges \<and> random_edges E"
proof -
  obtain E rand' where E: "generateGraph randrange rand = Some (E, rand')" "card E = numEdges" "random_edges E"
    using generate_loop_returns [of randrange "{}" k rand] draws
    by (auto simp: draws_enough_def generateGraph_def random_edges_def)
  have "pickles codec (sc_unbatched sc) (map Obj (elements E))" using codec E(2,3) by blast
  then obtain ser jrdd tc where
      tc: "parallelize codec readRDDFromFile parallelism sc (map Obj (elements E)) (Some slices) = Inr (ser, jrdd)"
      "read_slices codec ser jrdd = Some (Inr tc)" "concat tc = elements E"
    using parallelize_elements [OF _ jvm, of "Some slices" parallelism codec sc "elements E"] slices by (auto simp: py_or_def)
  have els: "distinct (elements E)" "set (elements E) = E" using order E(3) by (simp_all add: random_edges_def)
  have "elements E \<noteq> []" using els(2) E(2) by (auto simp: numEdges_def)
  then obtain out where "transitive_closure env ser tc = Some (Inr out)" "rdd_count out = Inr (int (card (E\<^sup>+)))"
    using transitive_closure_returns [OF env, of tc ser] tc(3) els by (auto simp: collect_def)
  then show ?thesis using E tc(1,2) by (auto simp: tc_program_def)
qed

text \<open>A number for every edge between vertices below \<open>numEdges\<close>.\<close>

definition edge_codec :: "(int \<times> int) codec" where
  "edge_codec = unary_codec (\<lambda>(a, b). nat a * 200 + nat b) (\<lambda>n. (int (n div 200), int (n mod 200)))"

lemma edge_codec_pickles:
  assumes "card E = numEdges" "random_edges E"
  shows "pickles edge_codec PickleSer (map Obj (sorted_list_of_set E))"
proof -
  have fin: "finite E" using assms(2) by (simp add: random_edges_def)
  have "nat a * 200 + nat b < 40000 \<and> int ((nat a * 200 + nat b) div 200) = a \<and> int ((nat a * 200 + nat b) mod 200) = b"
    if "(a, b) \<in> E" for a b
  proof -
    have "0 \<le> a" "a < 200" "0 \<le> b" "b < 200" using that assms(2) by (auto simp: random_edges_def numEdges_def)
    then obtain i j where "a = int i" "b = int j" "i < 200" "j < 200"
      by (metis nat_less_iff nonneg_int_cases of_nat_0_le_iff of_nat_less_iff of_nat_numeral)
    then show ?thesis by auto
  qed
  moreover have "length (sorted_list_of_set E) = 200" using assms(1) by (simp add: numEdges_def)
  moreover from this have "sorted_list_of_set E \<noteq> []" by (cases "sorted_list_of_set E") auto
  ultimately show ?thesis
    unfolding edge_codec_def by (intro unary_codec_pickles [where B = 40000]) (use fin in auto)
qed

theorem tc_program_counts_paths_witness:
  "\<exists>E. tc_program circle_draw sorted_list_of_set edge_codec even_read (ordered_tc_env 2) 2 blank_ctx 2 0 =
      Some (Inr (int (card (E\<^sup>+)))) \<and>
    card E = numEdges \<and> random_edges E"
proof (rule tc_program_counts_paths [OF _ _ even_read_reads _ _ circle_draws_enough])
  show "tc_env_ok (ordered_tc_env 2)"
    by (simp add: tc_env_ok_def ordered_tc_env_def shuffle_ok_ordered_env union_ok_append_union num_partitions_def parallelism_ordered_env)
qed (simp_all add: blank_ctx_def edge_codec_pickles)

end
