(* ===== verification/RddObjects.thy ===== *)
theory RddObjects
  imports Lineage LibSVM Context
begin

text \<open>
  What an RDD object of \<open>pyspark/rdd.py\<close> hands to its JVM side: \<open>repartition\<close> and \<open>coalesce\<close>, storage
  levels (\<open>pyspark/storagelevel.py\<close>), names, checkpoint files, and the small wrappers around other
  operations. What the JVM does with a JVM RDD is an argument.
\<close>

section \<open>Partitions\<close>

text \<open>A new RDD object over a JVM RDD made from that of \<open>self\<close>, read with the same deserializer.\<close>

definition derived_rdd :: "('a jrdd \<Rightarrow> 'a jrdd) \<Rightarrow> nat \<Rightarrow> 'a driver \<Rightarrow> nat \<times> 'a driver" where
  "derived_rdd jvm r s = (let (j, s1) = get_jrdd r s in RDD (jvm j) (ro_deserializer (dr_objs s1 ! r)) s1)"

definition rdd_repartition :: "(int \<Rightarrow> 'a jrdd \<Rightarrow> 'a jrdd) \<Rightarrow> int \<Rightarrow> nat \<Rightarrow> 'a driver \<Rightarrow> nat \<times> 'a driver" where
  "rdd_repartition jvm_repartition numPartitions r s = derived_rdd (jvm_repartition numPartitions) r s"

text \<open>The parameter \<open>shuffle\<close> is not passed on.\<close>

definition rdd_coalesce :: "(int \<Rightarrow> 'a jrdd \<Rightarrow> 'a jrdd) \<Rightarrow> int \<Rightarrow> bool \<Rightarrow> nat \<Rightarrow> 'a driver \<Rightarrow> nat \<times> 'a driver" where
  "rdd_coalesce jvm_coalesce numPartitions shuffle r s = derived_rdd (jvm_coalesce numPartitions) r s"

text \<open>
  The documented behaviour of the JVM: \<open>repartition\<close> makes exactly so many partitions, \<open>coalesce\<close> without
  a shuffle at most so many and never more than there are.
\<close>

definition repartitions :: "(int \<Rightarrow> 'a jrdd \<Rightarrow> 'a jrdd) \<Rightarrow> bool" where
  "repartitions jvm \<longleftrightarrow> (\<forall>n j. 0 < n \<longrightarrow>
     length (jrdd_content (jvm n j)) = nat n \<and> mset (collect (jrdd_content (jvm n j))) = mset (collect (jrdd_content j)))"

definition coalesces :: "(int \<Rightarrow> 'a jrdd \<Rightarrow> 'a jrdd) \<Rightarrow> bool" where
  "coalesces jvm \<longleftrightarrow> (\<forall>n j. 0 < n \<longrightarrow>
     length (jrdd_content (jvm n j)) = min (nat n) (length (jrdd_content j)) \<and>
     mset (collect (jrdd_content (jvm n j))) = mset (collect (jrdd_content j)))"

section \<open>Storage levels\<close>

definition StorageLevel :: "bool \<Rightarrow> bool \<Rightarrow> bool \<Rightarrow> bool \<Rightarrow> int \<Rightarrow> storage_level" where
  "StorageLevel useDisk useMemory useOffHeap deserialized replication =
     \<lparr>sl_useDisk = useDisk, sl_useMemory = useMemory, sl_useOffHeap = useOffHeap, sl_deserialized = deserialized,
      sl_replication = replication\<rparr>"

definition storage_levels :: "(string \<times> storage_level) list" where
  "storage_levels =
     [(''DISK_ONLY'', StorageLevel True False False False 1),
      (''DISK_ONLY_2'', StorageLevel True False False False 2),
      (''MEMORY_ONLY'', StorageLevel False True False True 1),
      (''MEMORY_ONLY_2'', StorageLevel False True False True 2),
      (''MEMORY_ONLY_SER'', StorageLevel False True False False 1),
      (''MEMORY_ONLY_SER_2'', StorageLevel False True False False 2),
      (''MEMORY_AND_DISK'', StorageLevel True True False True 1),
      (''MEMORY_AND_DISK_2'', StorageLevel True True False True 2),
      (''MEMORY_AND_DISK_SER'', StorageLevel True True False False 1),
      (''MEMORY_AND_DISK_SER_2'', StorageLevel True True False False 2),
      (''OFF_HEAP'', StorageLevel False False True False 1)]"

fun bool_str :: "bool \<Rightarrow> string" where
  "bool_str True = ''True''"
| "bool_str False = ''False''"

definition level_repr :: "storage_level \<Rightarrow> string" where
  "level_repr l =
     ''StorageLevel('' @ bool_str (sl_useDisk l) @ '', '' @ bool_str (sl_useMemory l) @ '', '' @ bool_str (sl_useOffHeap l) @ '', '' @
       bool_str (sl_deserialized l) @ '', '' @ int_str (sl_replication l) @ '')''"

text \<open>
  \<open>_getJavaStorageLevel\<close> makes a Java object, or raises for an argument of another type. An
  argument is \<open>Inr\<close> when it is an instance of the class.
\<close>

datatype java_level = JavaLevel (jl_useDisk: bool) (jl_useMemory: bool) (jl_useOffHeap: bool) (jl_deserialized: bool) (jl_replication: int)

definition getJavaStorageLevel :: "'x + storage_level \<Rightarrow> java_level res" where
  "getJavaStorageLevel storageLevel =
     (case storageLevel of
        Inl other \<Rightarrow> Inl (PyException ''storageLevel must be of type pyspark.StorageLevel'')
      | Inr l \<Rightarrow> Inr (JavaLevel (sl_useDisk l) (sl_useMemory l) (sl_useOffHeap l) (sl_deserialized l) (sl_replication l)))"

text \<open>The level is asked from the JVM, which has seen the calls so far.\<close>

definition getStorageLevel :: "('a jvm_call list \<Rightarrow> 'a jrdd \<Rightarrow> java_level) \<Rightarrow> nat \<Rightarrow> 'a driver \<Rightarrow> storage_level \<times> 'a driver" where
  "getStorageLevel level_of r s =
     (let (j, s1) = get_jrdd r s; java_storage_level = level_of (dr_calls s1) j
      in (StorageLevel (jl_useDisk java_storage_level) (jl_useMemory java_storage_level) (jl_useOffHeap java_storage_level)
            (jl_deserialized java_storage_level) (jl_replication java_storage_level), s1))"

definition persists :: "('a jvm_call list \<Rightarrow> 'a jrdd \<Rightarrow> java_level) \<Rightarrow> bool" where
  "persists level_of \<longleftrightarrow> (\<forall>calls j l jl. getJavaStorageLevel (Inr l :: unit + storage_level) = Inr jl \<longrightarrow> level_of (calls @ [JPersist j l]) j = jl)"

section \<open>Names and checkpoint files\<close>

text \<open>The names that the JVM keeps; an RDD without a name has the name null, here the empty string.\<close>

definition setName :: "string \<Rightarrow> nat \<Rightarrow> 'a driver \<times> ('a jrdd \<Rightarrow> string) \<Rightarrow> 'a driver \<times> ('a jrdd \<Rightarrow> string)" where
  "setName name r = (\<lambda>(s, names). let (j, s1) = get_jrdd r s in (s1, names(j := name)))"

definition rdd_name :: "(string \<Rightarrow> bytes) \<Rightarrow> nat \<Rightarrow> 'a driver \<times> ('a jrdd \<Rightarrow> string) \<Rightarrow> bytes option \<times> 'a driver" where
  "rdd_name encode r = (\<lambda>(s, names).
     let (j, s1) = get_jrdd r s; nm = names j in (if nm = [] then None else Some (encode nm), s1))"

definition toDebugString :: "(string \<Rightarrow> bytes) \<Rightarrow> ('a jrdd \<Rightarrow> string) \<Rightarrow> nat \<Rightarrow> 'a driver \<Rightarrow> bytes option \<times> 'a driver" where
  "toDebugString encode jvm_debug r s =
     (let (j, s1) = get_jrdd r s; debug_string = jvm_debug j
      in (if debug_string = [] then None else Some (encode debug_string), s1))"

text \<open>The JVM's \<open>Option\<close> of a file.\<close>

definition isCheckpointed :: "('a jrdd \<Rightarrow> string option) \<Rightarrow> nat \<Rightarrow> 'a driver \<Rightarrow> bool \<times> 'a driver" where
  "isCheckpointed jvm_file r s = (let (j, s1) = get_jrdd r s in (jvm_file j \<noteq> None, s1))"

definition getCheckpointFile :: "('a jrdd \<Rightarrow> string option) \<Rightarrow> nat \<Rightarrow> 'a driver \<Rightarrow> string option \<times> 'a driver" where
  "getCheckpointFile jvm_file r s =
     (let (j, s1) = get_jrdd r s; checkpointFile = jvm_file j
      in (case checkpointFile of Some f \<Rightarrow> Some f | None \<Rightarrow> None, s1))"

section \<open>Wrappers\<close>

text \<open>\<open>a + b\<close>: the right operand may be of any type, \<open>Inr\<close> when it is an RDD.\<close>

definition rdd_add :: "('a jrdd list \<Rightarrow> 'a jrdd) \<Rightarrow> nat \<Rightarrow> 'x + nat \<Rightarrow> 'a driver \<Rightarrow> (nat \<times> 'a driver) res" where
  "rdd_add jsc_union r other s = (case other of Inl x \<Rightarrow> Inl TypeError | Inr q \<Rightarrow> ctx_union jsc_union [r, q] s)"

definition mapPartitionsWithSplit :: "nat \<Rightarrow> 'a py_func \<Rightarrow> bool \<Rightarrow> 'a driver \<times> string list \<Rightarrow> nat \<times> 'a driver \<times> string list" where
  "mapPartitionsWithSplit r f preservesPartitioning = (\<lambda>(s, warnings).
     let (q, s1) = PipelinedRDD r f preservesPartitioning s
     in (q, s1, warnings @ [''mapPartitionsWithSplit is deprecated; use mapPartitionsWithIndex instead'']))"

text \<open>
  \<open>foreachPartition\<close> runs \<open>mapPartitions(f).collect()\<close>: a function that does not return an iterable fails
  on the worker.
\<close>

definition foreachPartition :: "('a list \<Rightarrow> 'b list option) \<Rightarrow> 'a partitions \<Rightarrow> unit res" where
  "foreachPartition f parts =
     map_res (\<lambda>_. ()) (mapM_res (\<lambda>it. case f it of None \<Rightarrow> Inl TypeError | Some items \<Rightarrow> Inr items) parts)"

text \<open>RDDs over files that the JVM reads: pairs of a path and a text, and the elements of a checkpoint.\<close>

definition wholeTextFiles :: "(string \<Rightarrow> int \<Rightarrow> 'a jrdd) \<Rightarrow> int \<Rightarrow> string \<Rightarrow> int option \<Rightarrow> 'a driver \<Rightarrow> nat \<times> 'a driver" where
  "wholeTextFiles jsc_wholeTextFiles defaultMinPartitions path minPartitions s =
     RDD (jsc_wholeTextFiles path (py_or minPartitions defaultMinPartitions)) (PairDeser UTF8Deser UTF8Deser) s"

definition checkpointFile :: "(string \<Rightarrow> 'a jrdd) \<Rightarrow> string \<Rightarrow> serializer \<Rightarrow> 'a driver \<Rightarrow> nat \<times> 'a driver" where
  "checkpointFile jsc_checkpointFile name input_deserializer s = RDD (jsc_checkpointFile name) input_deserializer s"

text \<open>
  \<open>_get_unmangled_rdd\<close> of \<open>mllib/_common.py\<close>: the serialized elements go to the JVM as they are. The flag has to be
  set before \<open>cache\<close>, which builds the JVM side.
\<close>

definition get_unmangled_rdd :: "'a py_func \<Rightarrow> nat \<Rightarrow> 'a driver \<Rightarrow> nat \<times> 'a driver" where
  "get_unmangled_rdd serializer_map data s =
     (let (dataBytes, s1) = PipelinedRDD data serializer_map False s;
          s2 = s1\<lparr>dr_objs := (dr_objs s1)[dataBytes := (dr_objs s1 ! dataBytes)\<lparr>ro_bypass_serializer := True\<rparr>]\<rparr>
      in rdd_cache dataBytes s2)"

section \<open>Lemmas\<close>

lemma derived_content:
  assumes "driver_ok s" "r < length (dr_objs s)" "derived_rdd jvm r s = (q, s')"
  shows "\<exists>j. jrdd_content j = rdd_content s r \<and> rdd_content s' q = jrdd_content (jvm j) \<and> driver_ok s' \<and>
    ro_deserializer (dr_objs s' ! q) = ro_deserializer (dr_objs s ! r) \<and>
    (\<forall>r' < length (dr_objs s). rdd_content s' r' = rdd_content s r')"
proof -
  obtain j s1 where j: "get_jrdd r s = (j, s1)" by force
  note p = get_jrdd_props [OF assms(1,2) j]
  have q: "q = length (dr_objs s1)" "s' = snd (RDD (jvm j) (ro_deserializer (dr_objs s1 ! r)) s1)"
    using assms(3) j by (auto simp: derived_rdd_def RDD_def)
  have "\<forall>r' < length (dr_objs s). rdd_content s' r' = rdd_content s r'"
    using p q by (simp add: RDD_def rdd_content_def nth_append)
  moreover have "rdd_content s' q = jrdd_content (jvm j)" by (simp add: q RDD_def rdd_content_def obj_content_def)
  moreover have "driver_ok s'" using p by (simp add: q RDD_def driver_ok_snoc obj_ok_def)
  moreover have "ro_deserializer (dr_objs s' ! q) = ro_deserializer (dr_objs s ! r)" using p assms(2) by (simp add: q RDD_def nth_append)
  ultimately show ?thesis using p by blast
qed

lemma bool_str_append: "bool_str a @ x = bool_str b @ y \<longleftrightarrow> a = b \<and> x = y"
  by (cases a; cases b) auto

lemma int_str_inject: "int_str i = int_str k \<longleftrightarrow> i = k"
  using py_int_int_str [of i] py_int_int_str [of k] by (metis sum.inject(2))

section \<open>Properties\<close>

text \<open>
  Repartitioning: the new RDD has exactly the partitions asked for, holds the elements of the old one, is read with
  its deserializer, and no other RDD changes.
\<close>

theorem repartition_redistributes:
  assumes "driver_ok s" "r < length (dr_objs s)" and "repartitions jvm" "0 < n"
    and "rdd_repartition jvm n r s = (q, s')"
  shows "length (rdd_content s' q) = nat n \<and> mset (collect (rdd_content s' q)) = mset (collect (rdd_content s r)) \<and>
    ro_deserializer (dr_objs s' ! q) = ro_deserializer (dr_objs s ! r) \<and> driver_ok s' \<and>
    (\<forall>r' < length (dr_objs s). rdd_content s' r' = rdd_content s r')"
proof -
  obtain j where j: "jrdd_content j = rdd_content s r" "rdd_content s' q = jrdd_content (jvm n j)" and
    rest: "driver_ok s'" "ro_deserializer (dr_objs s' ! q) = ro_deserializer (dr_objs s ! r)"
      "\<forall>r' < length (dr_objs s). rdd_content s' r' = rdd_content s r'"
    using derived_content [OF assms(1,2) assms(5) [unfolded rdd_repartition_def]] by blast
  have "length (jrdd_content (jvm n j)) = nat n \<and> mset (collect (jrdd_content (jvm n j))) = mset (collect (jrdd_content j))"
    using assms(3,4) by (simp add: repartitions_def)
  then show ?thesis using j rest by simp
qed

definition even_jvm :: "int \<Rightarrow> 'a jrdd \<Rightarrow> 'a jrdd" where
  "even_jvm n j = JBase 1 (even_slices n (collect (jrdd_content j)))"

lemma even_jvm_repartitions: "repartitions even_jvm"
proof -
  have "length (even_slices n xs) = nat n \<and> mset (collect (even_slices n xs)) = mset xs" if "0 < n" for n and xs :: "'b list"
    using even_slices_parts [OF that, of xs] by (simp add: collect_def)
  then show ?thesis unfolding repartitions_def even_jvm_def by (auto simp only: jrdd_content.simps)
qed

theorem repartition_redistributes_witness:
  "length (rdd_content (snd (rdd_repartition even_jvm 4 0 example_driver)) (fst (rdd_repartition even_jvm 4 0 example_driver))) = 4"
  using repartition_redistributes [OF example_driver_ok(1) _ even_jvm_repartitions, of 0 4
      "fst (rdd_repartition even_jvm 4 0 example_driver)" "snd (rdd_repartition even_jvm 4 0 example_driver)"]
    example_driver_ok(2) by simp

text \<open>
  Coalescing with \<open>shuffle=True\<close> to more partitions than there are leaves their number as it is, since the parameter does not
  reach the JVM.
\<close>

theorem coalesce_ignores_shuffle:
  assumes "driver_ok s" "r < length (dr_objs s)" and "coalesces jvm" and "length (rdd_content s r) < nat n"
    and "rdd_coalesce jvm n True r s = (q, s')"
  shows "length (rdd_content s' q) = length (rdd_content s r) \<and>
    mset (collect (rdd_content s' q)) = mset (collect (rdd_content s r))"
proof -
  obtain j where j: "jrdd_content j = rdd_content s r" "rdd_content s' q = jrdd_content (jvm n j)"
    using derived_content [OF assms(1,2) assms(5) [unfolded rdd_coalesce_def]] by blast
  have "0 < n" using assms(4) by linarith
  then have "length (jrdd_content (jvm n j)) = min (nat n) (length (jrdd_content j)) \<and>
      mset (collect (jrdd_content (jvm n j))) = mset (collect (jrdd_content j))"
    using assms(3) by (simp add: coalesces_def)
  then show ?thesis using j assms(4) by simp
qed

definition merge_jvm :: "int \<Rightarrow> 'a jrdd \<Rightarrow> 'a jrdd" where
  "merge_jvm n j =
     (let parts = jrdd_content j
      in JBase 1 (if length parts \<le> nat n then parts else take (nat n - 1) parts @ [concat (drop (nat n - 1) parts)]))"

lemma merge_jvm_coalesces: "coalesces merge_jvm"
proof -
  have "mset (concat (take k ps)) + mset (concat (drop k ps)) = mset (concat ps)" for k and ps :: "'b list list"
    by (metis append_take_drop_id concat_append mset_append)
  then show ?thesis by (auto simp: coalesces_def merge_jvm_def Let_def collect_def)
qed

theorem coalesce_ignores_shuffle_witness:
  "length (rdd_content (snd (rdd_coalesce merge_jvm 8 True 0 example_driver)) (fst (rdd_coalesce merge_jvm 8 True 0 example_driver))) = 2"
proof -
  have "length (rdd_content example_driver 0) = 2" by (simp add: example_driver_def RDD_def rdd_content_def obj_content_def)
  then show ?thesis
    using coalesce_ignores_shuffle [OF example_driver_ok(1) _ merge_jvm_coalesces, of 0 8
        "fst (rdd_coalesce merge_jvm 8 True 0 example_driver)" "snd (rdd_coalesce merge_jvm 8 True 0 example_driver)"]
      example_driver_ok(2) by simp
qed

text \<open>The level that an RDD is persisted with is the one that the JVM gives back.\<close>

theorem persisted_level_is_read_back:
  assumes "driver_ok s" "r < length (dr_objs s)" and "persists level_of" and "rdd_persist r level s = (r', s')"
  shows "fst (getStorageLevel level_of r s') = level"
proof -
  let ?s1 = "s\<lparr>dr_objs := (dr_objs s)[r := (dr_objs s ! r)\<lparr>ro_is_cached := True\<rparr>]\<rparr>"
  obtain j s2 where j: "get_jrdd r ?s1 = (j, s2)" by force
  have s': "s' = s2\<lparr>dr_calls := dr_calls s2 @ [JPersist j level]\<rparr>" using assms(4) j by (simp add: rdd_persist_def)
  have "ro_jrdd (dr_objs s2 ! r) = Some j" using storage_call_props [OF assms(1,2) _ _ j] by simp
  then have "get_jrdd r s' = (j, s')" by (simp add: get_jrdd_def s')
  then show ?thesis using assms(3) by (simp add: getStorageLevel_def s' persists_def getJavaStorageLevel_def StorageLevel_def)
qed

definition last_level :: "'a jvm_call list \<Rightarrow> 'a jrdd \<Rightarrow> java_level" where
  "last_level calls j =
     foldl (\<lambda>jl c. case c of JPersist i l \<Rightarrow> if i = j then projr (getJavaStorageLevel (Inr l :: unit + storage_level)) else jl | _ \<Rightarrow> jl)
       (JavaLevel False False False False 1) calls"

theorem persisted_level_is_read_back_witness:
  "fst (getStorageLevel last_level 0 (snd (rdd_persist 0 (StorageLevel True True False True 2) example_driver))) =
    StorageLevel True True False True 2"
proof -
  have "persists last_level" by (simp add: persists_def last_level_def)
  then show ?thesis
    using persisted_level_is_read_back [OF example_driver_ok(1), of 0 last_level "StorageLevel True True False True 2"
        "fst (rdd_persist 0 (StorageLevel True True False True 2) example_driver)"
        "snd (rdd_persist 0 (StorageLevel True True False True 2) example_driver)"] example_driver_ok(2)
    by simp
qed

text \<open>Levels that print alike are the same, and the named levels are all different.\<close>

theorem level_repr_inject: "level_repr l = level_repr l' \<longleftrightarrow> l = l'"
  by (cases l; cases l') (auto simp: level_repr_def bool_str_append int_str_inject)

theorem storage_levels_distinct: "distinct (map snd storage_levels)"
  by (simp add: storage_levels_def StorageLevel_def)

text \<open>A name that is not empty is read back in its encoding.\<close>

theorem name_roundtrip:
  assumes "driver_ok s" "r < length (dr_objs s)" and "name \<noteq> []"
  shows "fst (rdd_name encode r (setName name r (s, names))) = Some (encode name)"
proof -
  obtain j s1 where j: "get_jrdd r s = (j, s1)" by force
  have "ro_jrdd (dr_objs s1 ! r) = Some j" using get_jrdd_props [OF assms(1,2) j] by simp
  then show ?thesis using j assms(3) by (simp add: setName_def rdd_name_def get_jrdd_def)
qed

theorem name_roundtrip_witness:
  "fst (rdd_name (map (\<lambda>c. of_nat (of_char c))) 0 (setName ''pairs'' 0 (example_driver, \<lambda>j. []))) = Some [112, 97, 105, 114, 115]"
  using name_roundtrip [OF example_driver_ok(1), of 0 "''pairs''" "map (\<lambda>c. of_nat (of_char c))" "\<lambda>j. []"] example_driver_ok(2)
  by simp

text \<open>
  The RDD of serialized elements that is handed to the training code of the JVM: its JVM side writes what the function
  returns without another serializer, it is the one that was cached, and it holds the function of
  every partition.
\<close>

theorem unmangled_rdd_sends_bytes:
  assumes "driver_ok s" "r < length (dr_objs s)" and "get_unmangled_rdd f r s = (q, s')"
  shows "\<exists>j calls. ro_jrdd (dr_objs s' ! q) = Some j \<and> jr_output j = NoOpSer \<and> dr_calls s' = calls @ [JCache j] \<and>
    jrdd_content j = mapPartitionsWithIndex (fn_run f) (rdd_content s r) \<and>
    driver_ok s' \<and> (\<forall>r' < length (dr_objs s). rdd_content s' r' = rdd_content s r')"
proof -
  obtain q1 s1 where q1: "PipelinedRDD r f False s = (q1, s1)" by force
  note p = PipelinedRDD_content [OF assms(1,2) q1]
  define s2 where "s2 = s1\<lparr>dr_objs := (dr_objs s1)[q1 := (dr_objs s1 ! q1)\<lparr>ro_bypass_serializer := True\<rparr>]\<rparr>"
  have ok1: "driver_ok s1" "q1 < length (dr_objs s1)" using p by auto
  have s2: "driver_ok s2" "\<forall>r' < length (dr_objs s1). rdd_content s2 r' = rdd_content s1 r'" "q1 < length (dr_objs s2)"
    using flag_props [OF ok1, of "(dr_objs s1 ! q1)\<lparr>ro_bypass_serializer := True\<rparr>"] ok1(2) by (simp_all add: s2_def)
  define self where "self = (dr_objs s2 ! q1)\<lparr>ro_is_cached := True\<rparr>"
  obtain j s3 where j: "get_jrdd q1 (s2\<lparr>dr_objs := (dr_objs s2)[q1 := self]\<rparr>) = (j, s3)" by force
  have s': "q = q1" "s' = s3\<lparr>dr_calls := dr_calls s3 @ [JCache j]\<rparr>"
    using assms(3) q1 j by (auto simp: get_unmangled_rdd_def rdd_cache_def s2_def self_def)
  note c = storage_call_props [OF s2(1,3) _ _ j, of "JCache j"]
  have new: "ro_jrdd (dr_objs s1 ! q1) = None" "ro_prev (dr_objs s1 ! q1) \<noteq> None"
    using q1 by (auto simp: PipelinedRDD_def Let_def split: option.splits if_splits prod.splits)
  have "jr_output j = NoOpSer"
    using j new ok1(2) by (auto simp: get_jrdd_def Let_def self_def s2_def split: option.splits prod.splits)
  moreover have "rdd_content s2 q1 = mapPartitionsWithIndex (fn_run f) (rdd_content s r)"
    using s2(2) [rule_format, OF ok1(2)] p by metis
  moreover have "rdd_content s' r' = rdd_content s r'" if "r' < length (dr_objs s)" for r'
    using that c s2(2,3) p by (auto simp: s' self_def rdd_content_def s2_def)
  ultimately show ?thesis using c s' by (auto simp: self_def)
qed

theorem unmangled_rdd_sends_bytes_witness:
  "\<exists>j. ro_jrdd (dr_objs (snd (get_unmangled_rdd example_func 0 example_driver)) !
      fst (get_unmangled_rdd example_func 0 example_driver)) = Some j \<and> jr_output j = NoOpSer"
  using unmangled_rdd_sends_bytes [OF example_driver_ok(1), of 0 example_func
      "fst (get_unmangled_rdd example_func 0 example_driver)" "snd (get_unmangled_rdd example_func 0 example_driver)"]
    example_driver_ok(2) by auto

end
