(* ===== verification/Launcher.thy ===== *)
theory Launcher
  imports LibSVM Worker
begin

text \<open>
  How the two entry points start: \<open>launch_gateway\<close> of \<open>pyspark/java_gateway.py\<close> runs \<open>spark-submit\<close> and learns
  the port of the JVM, and \<open>parse_args\<close> of \<open>ec2/spark_ec2.py\<close> checks its arguments and the credentials. The
  process that is started is an argument: what its first line of output is.
\<close>

section \<open>\<open>shlex.split\<close>\<close>

text \<open>
  The lexer in its POSIX mode, split at white space only. \<open>SEscaped None\<close> is a backslash outside quotes,
  \<open>SEscaped (Some q)\<close> one inside the quotes \<open>q\<close>. The token so far is None between words.
\<close>

datatype lex_state = SPlain | SQuoted char | SEscaped "char option"

definition lex_space :: "char \<Rightarrow> bool" where
  "lex_space c \<longleftrightarrow> c \<in> {CHR '' '', CHR 0x09, CHR 0x0D, CHR 0x0A}"

definition lex_quote :: "char \<Rightarrow> bool" where
  "lex_quote c \<longleftrightarrow> c \<in> {CHR 0x27, CHR 0x22}"

definition lex_add :: "string option \<Rightarrow> string \<Rightarrow> string option" where
  "lex_add token s = Some ((case token of None \<Rightarrow> [] | Some t \<Rightarrow> t) @ s)"

fun lex :: "lex_state \<Rightarrow> string option \<Rightarrow> string \<Rightarrow> string list res" where
  "lex SPlain token [] = Inr (case token of None \<Rightarrow> [] | Some t \<Rightarrow> [t])"
| "lex (SQuoted q) token [] = Inl ValueError"
| "lex (SEscaped q) token [] = Inl ValueError"
| "lex SPlain token (c # cs) =
     (if lex_space c then map_res (\<lambda>ts. (case token of None \<Rightarrow> [] | Some t \<Rightarrow> [t]) @ ts) (lex SPlain None cs)
      else if c = CHR 0x5C then lex (SEscaped None) token cs
      else if lex_quote c then lex (SQuoted c) (lex_add token []) cs
      else lex SPlain (lex_add token [c]) cs)"
| "lex (SQuoted q) token (c # cs) =
     (if c = q then lex SPlain token cs
      else if c = CHR 0x5C \<and> q = CHR 0x22 then lex (SEscaped (Some q)) token cs
      else lex (SQuoted q) (lex_add token [c]) cs)"
| "lex (SEscaped None) token (c # cs) = lex SPlain (lex_add token [c]) cs"
| "lex (SEscaped (Some q)) token (c # cs) =
     lex (SQuoted q) (lex_add token (if c \<noteq> CHR 0x5C \<and> c \<noteq> q then [CHR 0x5C, c] else [c])) cs"

definition shlex_split :: "string \<Rightarrow> string list res" where
  "shlex_split s = lex SPlain None s"

section \<open>\<open>launch_gateway\<close>\<close>

definition submit_script :: "bool \<Rightarrow> string" where
  "submit_script on_windows = (if on_windows then ''./bin/spark-submit.cmd'' else ''./bin/spark-submit'')"

definition java_imports :: "string list" where
  "java_imports =
     [''org.apache.spark.SparkConf'', ''org.apache.spark.api.java.*'', ''org.apache.spark.api.python.*'',
      ''org.apache.spark.mllib.api.python.*'', ''org.apache.spark.sql.SQLContext'',
      ''org.apache.spark.sql.hive.HiveContext'', ''org.apache.spark.sql.hive.LocalHiveContext'',
      ''org.apache.spark.sql.hive.TestHiveContext'', ''scala.Tuple2'']"

record gateway =
  gw_port :: int
  gw_auto_convert :: bool
  gw_imports :: "string list"

text \<open>The command that was started, if any, and the gateway or the error.\<close>

definition launch_gateway ::
  "(string list \<Rightarrow> string) \<Rightarrow> bool \<Rightarrow> (string \<rightharpoonup> string) \<Rightarrow> string list option \<times> gateway res" where
  "launch_gateway first_line on_windows environ =
     (let connect = (\<lambda>port. \<lparr>gw_port = port, gw_auto_convert = False, gw_imports = java_imports\<rparr>) in
      case environ ''SPARK_HOME'' of
        None \<Rightarrow> (None, Inl KeyError)
      | Some home \<Rightarrow>
          (case environ ''PYSPARK_GATEWAY_PORT'' of
             Some p \<Rightarrow> (None, map_res connect (int_of_text p))
           | None \<Rightarrow>
               let submit_args = (case environ ''PYSPARK_SUBMIT_ARGS'' of None \<Rightarrow> [] | Some a \<Rightarrow> a) in
               (case shlex_split submit_args of
                  Inl e \<Rightarrow> (None, Inl e)
                | Inr args \<Rightarrow>
                    let command = [path_join home (submit_script on_windows), ''pyspark-shell''] @ args
                    in (Some command, map_res connect (int_of_text (first_line command))))))"

section \<open>\<open>parse_args\<close> of the cluster script\<close>

text \<open>The checks after the options were parsed.\<close>

definition check_args :: "(string \<Rightarrow> bool) \<Rightarrow> (string \<rightharpoonup> string) \<Rightarrow> string list \<Rightarrow> (string \<times> string) res" where
  "check_args isfile environ args =
     (case args of
        [action, cluster_name] \<Rightarrow>
          if (case environ ''HOME'' of None \<Rightarrow> True | Some home_dir \<Rightarrow> \<not> isfile (home_dir @ ''/.boto'')) \<and>
             \<not> isfile ''/etc/boto.cfg'' \<and>
             (environ ''AWS_ACCESS_KEY_ID'' = None \<or> environ ''AWS_SECRET_ACCESS_KEY'' = None)
          then Inl (SystemExit 1) else Inr (action, cluster_name)
      | _ \<Rightarrow> Inl (SystemExit 1))"

section \<open>Quoted arguments\<close>

definition quoted :: "string \<Rightarrow> string" where
  "quoted x = CHR 0x27 # x @ [CHR 0x27]"

lemma lex_quoted:
  "CHR 0x27 \<notin> set x \<Longrightarrow> lex (SQuoted CHR 0x27) (Some t) (x @ CHR 0x27 # cs) = lex SPlain (Some (t @ x)) cs"
  by (induction x arbitrary: t) (auto simp: lex_add_def)

lemma lex_arguments:
  "\<forall>x\<in>set xs. CHR 0x27 \<notin> set x \<Longrightarrow> lex SPlain None (concat (map (\<lambda>x. CHR '' '' # quoted x) xs)) = Inr xs"
proof (induction xs)
  case (Cons x xs)
  have "lex SPlain (Some x) (concat (map (\<lambda>x. CHR '' '' # quoted x) xs)) = Inr (x # xs)"
    using Cons by (cases xs) (auto simp: lex_space_def)
  then show ?case
    using Cons.prems by (simp add: quoted_def lex_space_def lex_quote_def lex_add_def lex_quoted)
qed simp

section \<open>Properties\<close>

text \<open>
  Arguments that are put between single quotes in \<open>PYSPARK_SUBMIT_ARGS\<close> reach \<open>spark-submit\<close> as they are, after
  the name of the shell, and the gateway uses the port that the process prints.
\<close>

theorem submit_args_reach_process:
  assumes "environ ''SPARK_HOME'' = Some home" and "environ ''PYSPARK_GATEWAY_PORT'' = None"
    and "environ ''PYSPARK_SUBMIT_ARGS'' = Some (concat (map (\<lambda>x. CHR '' '' # quoted x) args))"
    and "\<forall>x\<in>set args. CHR 0x27 \<notin> set x"
    and "first_line (path_join home (submit_script on_windows) # ''pyspark-shell'' # args) = nat_str port @ [CHR 0x0A]"
  shows "\<exists>g. launch_gateway first_line on_windows environ =
      (Some (path_join home (submit_script on_windows) # ''pyspark-shell'' # args), Inr g) \<and> gw_port g = int port"
proof -
  have digits: "c \<in> set (nat_str port) \<Longrightarrow> \<not> uni_space c" for c
    using nat_str_digits [of port] digit_char by blast
  have "dropWhile uni_space (nat_str port @ xs) = nat_str port @ xs" for xs
    using digits nat_str_not_Nil [of port] by (cases "nat_str port") auto
  moreover have "dropWhile uni_space (rev (nat_str port)) = rev (nat_str port)"
  proof -
    obtain c cs where c: "rev (nat_str port) = c # cs" using nat_str_not_Nil [of port] by (cases "rev (nat_str port)") auto
    then have "c \<in> set (nat_str port)" by (metis list.set_intros(1) set_rev)
    then show ?thesis using digits c by simp
  qed
  ultimately have "int_of_text (nat_str port @ [CHR 0x0A]) = Inr (int port)"
    by (simp add: int_of_text_def uni_space_def)
  then show ?thesis
    using assms lex_arguments [OF assms(4)] by (simp add: launch_gateway_def shlex_split_def Let_def)
qed

theorem submit_args_reach_process_witness:
  "\<exists>g. launch_gateway (\<lambda>command. ''4242'' @ [CHR 0x0A]) False
      [''SPARK_HOME'' \<mapsto> ''/opt/spark'', ''PYSPARK_SUBMIT_ARGS'' \<mapsto> '' '' @ quoted ''a b'']
    = (Some [''/opt/spark/./bin/spark-submit'', ''pyspark-shell'', ''a b''], Inr g) \<and> gw_port g = 4242"
proof -
  have "nat_str 4242 = ''4242''" by code_simp
  then show ?thesis
    using submit_args_reach_process [of "[''SPARK_HOME'' \<mapsto> ''/opt/spark'', ''PYSPARK_SUBMIT_ARGS'' \<mapsto> '' '' @ quoted ''a b'']"
        "''/opt/spark''" "[''a b'']" "\<lambda>command. ''4242'' @ [CHR 0x0A]" False 4242]
    by (simp add: path_join_def submit_script_def quoted_def)
qed

text \<open>
  The script goes on exactly with an action and a cluster name, and with a boto configuration in one of its two places or
  both variables of the credentials.
\<close>

theorem check_args_succeeds_iff:
  "check_args isfile environ args = Inr (action, cluster_name) \<longleftrightarrow>
     args = [action, cluster_name] \<and>
     ((\<exists>home_dir. environ ''HOME'' = Some home_dir \<and> isfile (home_dir @ ''/.boto'')) \<or> isfile ''/etc/boto.cfg'' \<or>
      {''AWS_ACCESS_KEY_ID'', ''AWS_SECRET_ACCESS_KEY''} \<subseteq> dom environ)"
  unfolding check_args_def by (auto split: list.splits option.splits if_splits)

end
