(* ===== verification/Spec2Isabelle.thy ===== *)
theory Spec2Isabelle
  imports Serializers HeapQ Rdd Shuffle Joins Sampler SortByKey StatCounters Lineage Ec2 Fabric Linalg MLCommon Accumulators Worker Daemon Context MLModels LibSVM Actions CloudPickle PickleSupport Sql Jobs PickleObjects Unpickler PickleCycles KMeansJob StreamReaders Execution PageRank PickleHelpers MatrixJobs LogisticJob SortJob GraphJob RddObjects Launcher
begin

text \<open>
  A verification development for the Python code of this repository, which deploys Spark clusters
  and jobs. The code has two halves. The deployment half consists of two fabfiles
  (\<open>application-deployment-fabfile.py\<close>, \<open>initial-deployment-fabfile.py\<close>) and of the script
  \<open>ec2/spark_ec2.py\<close>. The other half is the Python library \<open>pyspark\<close> that the cluster installs,
  under \<open>initial-deployment-puppet/modules/spark/files/spark/python\<close>. A driver program makes a
  \<open>SparkContext\<close>, builds RDDs from functions, and starts actions; functions are pickled and sent to
  worker processes, which a daemon forks; workers read their partition as a stream of framed
  objects, apply the functions, and answer with a stream of results and the updates of their
  accumulators; keyed operations move pairs between partitions by hash or by range. The library for
  machine learning encodes vectors for the JVM and predicts with the models it gets back.
  The paths below are relative to \<open>pyspark\<close> unless they name another directory.

  \<^bold>\<open>Conventions.\<close> A call that may raise has type \<open>py_error + 'a\<close> (\<open>Prelude\<close>), with a constructor for
  every exception the code raises or lets through, and \<open>bind_res\<close> for sequencing; a call that may
  not return is a partial function into \<open>option\<close>. An object is a record, a class with subclasses a
  datatype, a dictionary an association list in the order in which Python iterates it or a map
  where no order can be seen. Python's integers are \<open>int\<close>; integers of a fixed width appear where
  \<open>struct\<close> packs them, with their range checks. A byte stream is a list of 8-bit words and reading
  returns the rest of the stream. Floating-point numbers are real numbers, so rounding is outside
  the model; where infinities or NaN decide a branch they are constructors. The native byte order
  of \<open>numpy\<close> is little-endian. Characters of text lines have eight bits.
  Code of other parties (the JVM behind Py4J, the EC2 service, ssh, pickle and marshal, random
  generators, hash functions) is an argument of the definitions that call it, with what the code
  relies on as an assumption.

  \<^bold>\<open>Data on the wire.\<close>
  \<^item> \<open>Serializers\<close> is \<open>serializers.py\<close>: the length-prefixed frames, batching, the pair and cartesian
    deserializers, equality of serializers. The locale \<open>object_codec\<close> states what the framing needs
    of \<open>dumps\<close> and \<open>loads\<close>, and \<open>stream_codec\<close> what a stream of frames promises; the first gives the
    second. Streams are read back exactly, and batches cut a stream without loss.
  \<^item> \<open>CloudPickle\<close> and \<open>PickleSupport\<close> are \<open>cloudpickle.py\<close>: the scan of bytecode for global names,
    the choice between reference and copy, the operations that \<open>save_function_tuple\<close> writes, and the
    machine that executes them with \<open>_make_skel_func\<close> and \<open>_fill_function\<close>. A function that is saved
    is rebuilt, with recursive and shared references. The nesting of \<open>save\<close> is bounded by the number
    of functions of the program, since a function met again is written as a memo reference;
    within that bound saving always ends.
  \<^item> \<open>PickleObjects\<close> is the rest of \<open>cloudpickle.py\<close>: the save method of every type of object, with its
    choice between reference and copy, over the memo and the state of the pickler. \<open>Unpickler\<close> is the
    stack machine of the operations those methods write; each method leaves one value above the
    stack it found. \<open>PickleCycles\<close> is a class that refers to itself, for which no nesting of \<open>save\<close>
    is deep enough. \<open>PickleHelpers\<close> is what the receiver calls while it loads: the cells of a closure are
    set by running the hand-written code object, modules are bound in the main module, Django
    settings are loaded or rolled back; and the table of refused and added types.
  \<^item> \<open>StreamReaders\<close> are the generators that \<open>load_stream\<close> returns, which share one stream: what a consumer
    sees depends on the order in which they are advanced.

  \<^bold>\<open>Datasets.\<close> An RDD is the list of its partitions, each a list of elements.
  \<^item> \<open>Rdd\<close> and \<open>Actions\<close> are the element-wise operations and the actions of \<open>rdd.py\<close>. The locale
    \<open>reduce_operator\<close> holds for addition, maximum and minimum. Reductions are equal to those over the
    concatenated partitions; \<open>zip\<close> depends on how both sides are batched.
  \<^item> \<open>HeapQ\<close> is the class \<open>MaxHeapQ\<close> and the bounded queues of \<open>top\<close>; the locale \<open>bounded_queue\<close> is the
    contract of a queue that keeps the best elements, met by the array heap and by the list queue.
  \<^item> \<open>Shuffle\<close> is \<open>partitionBy\<close>, \<open>combineByKey\<close> and what rests on it, with \<open>resultiterable.py\<close>; the
    locale \<open>combiner\<close> states when merged combiners stand for all values of a key. \<open>Joins\<close> is \<open>join.py\<close>
    with the set operations, \<open>SortByKey\<close> is \<open>sortByKey\<close>, \<open>Sampler\<close> is \<open>rddsampler.py\<close> with
    \<open>takeSample\<close>, \<open>StatCounters\<close> is \<open>statcounter.py\<close>.
  \<^item> \<open>Lineage\<close> is the driver's RDD objects, their flags and \<open>PipelinedRDD\<close>; a chain of pipelined
    functions yields what one stage per function yields. \<open>RddObjects\<close> is what such an object hands
    to its JVM side: repartitioning, storage levels (\<open>storagelevel.py\<close>), names, serialized elements.

  \<^bold>\<open>Processes.\<close>
  \<^item> \<open>Context\<close> is \<open>conf.py\<close> and \<open>context.py\<close>: construction and stop over the state of the class (at
    most one context runs), \<open>parallelize\<close>, added files, choice of serializers.
  \<^item> \<open>Accumulators\<close> is \<open>accumulators.py\<close>: updates on workers reach the driver once. The locale
    \<open>accumulating\<close> is the contract of a parameter, met by the numeric ones.
  \<^item> \<open>Worker\<close> is \<open>worker.py\<close>, \<open>broadcast.py\<close> and \<open>files.py\<close>: the whole protocol of one task.
    \<open>Daemon\<close> is \<open>daemon.py\<close>: manager, workers and their children take steps of an inductive relation;
    invariants hold in all reachable states, and a shutdown ends within a bounded number of steps.
  \<^item> \<open>Execution\<close> joins these parts: for every driver object that a program can build, \<open>collect\<close> returns
    through the worker protocol and the streams exactly the elements of its contents.
  \<^item> \<open>Sql\<close> is \<open>sql.py\<close>: JVM objects that are created on first use and kept. \<open>Launcher\<close> is
    \<open>java_gateway.py\<close>: the command that is started, with the lexer of its arguments.

  \<^bold>\<open>Machine learning.\<close> \<open>Linalg\<close> is \<open>mllib/linalg.py\<close>, \<open>MLCommon\<close> the byte formats of
  \<open>mllib/_common.py\<close>, \<open>MLModels\<close> the models of \<open>mllib/regression.py\<close>, \<open>classification.py\<close>,
  \<open>clustering.py\<close> and \<open>recommendation.py\<close>, \<open>LibSVM\<close> the text format of \<open>mllib/util.py\<close>. Encodings are
  read back, sparse and dense operations agree, predictions are what the models define.

  \<^bold>\<open>Deployment.\<close> \<open>Ec2\<close> is \<open>ec2/spark_ec2.py\<close>: the cluster as the instances and groups that the service
  lists, and every action of \<open>real_main\<close> as a function of it; the checks of its arguments are in
  \<open>Launcher\<close>. \<open>Fabric\<close> is the two fabfiles as sequences of commands.

  \<^bold>\<open>Loops.\<close> The retry loop of ssh has the fuel 7, since the code gives up when its counter of tries
  exceeds 5. The loops of \<open>takeSample\<close> and of the Poisson sampler can run forever for an unlucky
  generator: they are partial functions, and the theorem on \<open>takeSample\<close> proves that it returns, with
  the first sample, when the oversampling factor covers the dataset. The loops of the iterative
  programs and of the random graph are partial functions too, and so is the reading of a stream
  by its generators (\<open>pull\<close>, \<open>drain\<close>); theorems prove that they return. All other loops are total
  functions.

  \<^bold>\<open>Programs.\<close> Seven programs under \<open>examples/src/main/python\<close> are composed of the operations above as
  the programs compose them. \<open>Jobs\<close> is the word count and the transitive closure of a graph, which
  \<open>GraphJob\<close> makes at random; \<open>KMeansJob\<close> is k-means, whose loop ends since the cost of the centers
  falls; \<open>PageRank\<close> follows the equation of its ranks; \<open>SortJob\<close> sorts numbers; \<open>MatrixJobs\<close> is alternating
  least squares, where every half round minimizes the regularised error over one factor, which
  rests on a lemma on normal equations; \<open>LogisticJob\<close> descends the gradient of the logistic loss,
  proved from the derivatives of the loss.

  \<^bold>\<open>Not modelled.\<close> \<open>shell.py\<close> binds names and prints a banner; the thread of \<open>java_gateway.py\<close> copies output;
  the constructors of \<open>cloudpickle.py\<close> for \<open>PIL\<close> images and time series only forward to those libraries;
  the training of models runs in the JVM, and job groups, local properties and the like are only
  passed to it. The puppet manifests and shell scripts are not Python. The tests and the
  remaining example programs use the library and are not part of it.
\<close>

end
